(* ===== verification/Nrk_Prelude.thy ===== *)
theory Nrk_Prelude
  imports Main "HOL-Library.Word" "HOL-Library.Monad_Syntax"
begin

text \<open>
  The vocabulary every other theory of the development shares: the C integer types at
  their widths, the kernel's return codes, the search loops
  (\<^verbatim>\<open>for(i=0;i<N;i++) if(p(i)) return i;\<close>), checked pointer and array access, and the
  generic lemmas about them.

  An operation that can run into behaviour C leaves undefined (a NULL dereference, an
  index outside an array, a shift by a bad amount, a remainder by zero) or into a loop
  that never ends returns an \<open>option\<close>: \<open>None\<close> says that the call has no
  defined result. Every ordinary error return of the code (\<open>NRK_ERROR\<close>) is a
  value and never \<open>None\<close>.
\<close>

unbundle bit_operations_syntax

section \<open>Machine integers\<close>

text \<open>
  \<^verbatim>\<open>int8_t\<close> is a byte read with \<open>sint\<close>, \<^verbatim>\<open>uint8_t\<close> a byte read with
  \<open>uint\<close> or \<open>unat\<close>. The target is the AVR (\<^verbatim>\<open>PLATFORM = firefly3\<close> in
  \<^verbatim>\<open>projects/demos/748_flooding_tdma/node/makefile\<close>), whose \<^verbatim>\<open>int\<close> has 16 bits and
  whose \<^verbatim>\<open>long\<close> has 32.
\<close>

type_synonym u8 = "8 word"
type_synonym i8 = "8 word"
type_synonym u16 = "16 word"
type_synonym i16 = "16 word"
type_synonym u32 = "32 word"
type_synonym u64 = "64 word"

definition NRK_OK :: i8 where "NRK_OK = 1"

definition NRK_ERROR :: i8 where "NRK_ERROR = - 1"

lemma NRK_codes [simp]:
  "NRK_OK \<noteq> NRK_ERROR" "NRK_ERROR \<noteq> NRK_OK" "sint NRK_OK = 1" "sint NRK_ERROR = - 1"
  "NRK_ERROR \<noteq> 0" "NRK_OK \<noteq> 0"
  by (simp_all add: NRK_OK_def NRK_ERROR_def)

text \<open>Widening an unsigned value keeps it; narrowing keeps a value that fits.\<close>

lemma unat_ucast_up: "LENGTH('a) \<le> LENGTH('b) \<Longrightarrow> unat (ucast (x :: 'a::len word) :: 'b::len word) = unat x"
  by (simp add: unsigned_ucast_eq take_bit_nat_eq_self_iff)
     (meson order_less_le_trans power_increasing_iff unsigned_less one_less_numeral_iff semiring_norm(76))

lemma unat_ucast_fits: "unat (x :: 'a::len word) < 2 ^ LENGTH('b) \<Longrightarrow> unat (ucast x :: 'b::len word) = unat x"
  by (simp add: unsigned_ucast_eq take_bit_nat_eq_self)

lemma ucast_down_of_nat:
  "LENGTH('b) \<le> LENGTH('a) \<Longrightarrow> ucast (of_nat n :: 'a::len word) = (of_nat n :: 'b::len word)"
  by (simp add: word_unat_eq_iff unsigned_of_nat unsigned_ucast_eq min_def)

lemma unat_less_pow: "unat (x :: 'a::len word) < 2 ^ LENGTH('a)"
  by (rule unsigned_less)

lemma unat_u8_le [simp]: "unat (x :: u8) \<le> 255"
  using unat_less_pow [of x] by simp

lemma unat_mod_word: "unat ((a :: 'a::len word) mod b) = unat a mod unat b"
  by (simp add: word_arith_nat_mod unsigned_of_nat take_bit_nat_eq_self
      order_le_less_trans [OF mod_less_eq_dividend unsigned_less])

lemma unat_sub_mod: "unat ((n :: 'a::len word) - n mod m) = unat n - unat n mod unat m"
proof -
  have "n mod m \<le> n" by (simp add: word_le_nat_alt unat_mod_word)
  then show ?thesis by (simp add: unat_sub unat_mod_word)
qed

section \<open>Collections of facts\<close>

named_theorems kstate_simps \<open>frame and update facts of the kernel operations\<close>

named_theorems codec_simps \<open>facts that evaluate the packing routines\<close>

section \<open>Checked array access\<close>

text \<open>
  \<open>at xs i\<close> reads \<^verbatim>\<open>xs[i]\<close> for a C index \<open>i\<close>, which may be negative or too large.
\<close>

definition at :: "'a list \<Rightarrow> int \<Rightarrow> 'a option" where
  "at xs i = (if 0 \<le> i \<and> i < int (length xs) then Some (xs ! nat i) else None)"

lemma at_Some_iff: "at xs i = Some x \<longleftrightarrow> 0 \<le> i \<and> i < int (length xs) \<and> x = xs ! nat i"
  by (auto simp: at_def)

lemma at_in_range [simp]: "0 \<le> i \<Longrightarrow> i < int (length xs) \<Longrightarrow> at xs i = Some (xs ! nat i)"
  by (simp add: at_def)

lemma at_neg [simp]: "i < 0 \<Longrightarrow> at xs i = None"
  by (simp add: at_def)

lemma at_of_nat [simp]: "i < length xs \<Longrightarrow> at xs (int i) = Some (xs ! i)"
  by (simp add: at_def)

lemma at_uint [simp]: "unat i < length xs \<Longrightarrow> at xs (uint i) = Some (xs ! unat i)"
  using at_of_nat [of "unat i" xs] by (simp del: at_of_nat)

lemma at_of_nat_iff: "at xs (int n) = (if n < length xs then Some (xs ! n) else None)"
  by (simp add: at_def)

lemma at_uint_iff: "at xs (uint i) = (if unat i < length xs then Some (xs ! unat i) else None)"
  using at_of_nat_iff [of xs "unat i"] by (metis uint_nat)

lemma sint_nonneg: "0 \<le> sint (t :: i8) \<Longrightarrow> sint t = uint t \<and> uint t < 128"
proof -
  assume nn: "0 \<le> sint t"
  have "sint t < 128" using sint_lt [of t] by simp
  moreover have "uint t = sint t"
    using nn \<open>sint t < 128\<close> by (simp add: uint_sint take_bit_int_eq_self)
  ultimately show ?thesis by simp
qed

lemma at_sint [simp]: "0 \<le> sint (t :: i8) \<Longrightarrow> unat t < length xs \<Longrightarrow> at xs (sint t) = Some (xs ! unat t)"
  by (simp add: sint_nonneg)

lemma uint_eq_sint_iff: "0 \<le> sint (t :: i8) \<Longrightarrow> uint (i :: u8) = sint t \<longleftrightarrow> i = t"
  using sint_nonneg [of t] by (simp add: word_uint_eq_iff)

lemma nth_update_same: "f t = f (xs ! i) \<Longrightarrow> f (xs[i := t] ! j) = f (xs ! j)"
  by (cases "i < length xs"; cases "i = j") (simp_all add: list_update_beyond)

section \<open>Search loops\<close>

text \<open>
  \<open>scan p i n\<close> is the loop \<^verbatim>\<open>for(; i<n; i++) if(p(i)) return i;\<close>, \<open>None\<close> when it runs
  off the end.
\<close>

function scan :: "(nat \<Rightarrow> bool) \<Rightarrow> nat \<Rightarrow> nat \<Rightarrow> nat option" where
  "scan p i n = (if i < n then (if p i then Some i else scan p (Suc i) n) else None)"
  by pat_completeness auto
termination
  by (relation "measure (\<lambda>(p, i, n). n - i)") auto

declare scan.simps [simp del]

lemma scan_Some_iff:
  "scan p i n = Some k \<longleftrightarrow> i \<le> k \<and> k < n \<and> p k \<and> (\<forall>j. i \<le> j \<longrightarrow> j < k \<longrightarrow> \<not> p j)"
proof (induction p i n rule: scan.induct)
  case (1 p i n)
  show ?case
  proof (cases "i < n \<and> \<not> p i")
    case True
    then have "scan p i n = scan p (Suc i) n" by (simp add: scan.simps [of p i n])
    also have "\<dots> = Some k \<longleftrightarrow> Suc i \<le> k \<and> k < n \<and> p k \<and> (\<forall>j. Suc i \<le> j \<longrightarrow> j < k \<longrightarrow> \<not> p j)"
      using "1.IH" True by simp
    also have "\<dots> \<longleftrightarrow> i \<le> k \<and> k < n \<and> p k \<and> (\<forall>j. i \<le> j \<longrightarrow> j < k \<longrightarrow> \<not> p j)"
      using True by (metis Suc_le_eq le_eq_less_or_eq)
    finally show ?thesis .
  next
    case False
    then show ?thesis
      by (auto simp: scan.simps [of p i n])
  qed
qed

lemma scan_None_iff: "scan p i n = None \<longleftrightarrow> (\<forall>j. i \<le> j \<longrightarrow> j < n \<longrightarrow> \<not> p j)"
proof (induction p i n rule: scan.induct)
  case (1 p i n)
  then show ?case
    by (auto simp: scan.simps [of p i n]) (metis Suc_leI le_neq_implies_less)
qed

lemma scan_bounds: "scan p i n = Some k \<Longrightarrow> i \<le> k \<and> k < n"
  by (simp add: scan_Some_iff)

lemma scan_holds: "scan p i n = Some k \<Longrightarrow> p k"
  by (simp add: scan_Some_iff)

section \<open>Calls that return\<close>

text \<open>\<open>ensures m Q\<close>: the call has a defined result, and \<open>Q\<close> holds of it.\<close>

definition ensures :: "'a option \<Rightarrow> ('a \<Rightarrow> bool) \<Rightarrow> bool" where
  "ensures m Q \<longleftrightarrow> (\<exists>x. m = Some x \<and> Q x)"

lemma ensures_Some [simp]: "ensures (Some x) Q \<longleftrightarrow> Q x"
  by (simp add: ensures_def)

lemma ensures_None [simp]: "\<not> ensures None Q"
  by (simp add: ensures_def)

lemma ensures_bind: "ensures m P \<Longrightarrow> (\<And>x. P x \<Longrightarrow> ensures (f x) Q) \<Longrightarrow> ensures (m \<bind> f) Q"
  by (auto simp: ensures_def)

lemma ensures_mono: "ensures m P \<Longrightarrow> (\<And>x. P x \<Longrightarrow> Q x) \<Longrightarrow> ensures m Q"
  by (auto simp: ensures_def)

lemma ensures_if:
  "(b \<Longrightarrow> ensures m Q) \<Longrightarrow> (\<not> b \<Longrightarrow> ensures n Q) \<Longrightarrow> ensures (if b then m else n) Q"
  by simp

lemma ensuresE:
  assumes "ensures m Q"
  obtains x where "m = Some x" "Q x"
  using assms by (auto simp: ensures_def)

text \<open>\<open>yields m Q\<close>: if the call has a defined result, \<open>Q\<close> holds of it.\<close>

definition yields :: "'a option \<Rightarrow> ('a \<Rightarrow> bool) \<Rightarrow> bool" where
  "yields m Q \<longleftrightarrow> (\<forall>x. m = Some x \<longrightarrow> Q x)"

lemma yields_simps [simp]: "yields (Some x) Q \<longleftrightarrow> Q x" "yields None Q"
  by (simp_all add: yields_def)

lemma yields_bind: "yields m P \<Longrightarrow> (\<And>x. P x \<Longrightarrow> yields (f x) Q) \<Longrightarrow> yields (m \<bind> f) Q"
  by (cases m) (auto simp: yields_def)

lemma yields_bind_any: "(\<And>x. m = Some x \<Longrightarrow> yields (f x) Q) \<Longrightarrow> yields (m \<bind> f) Q"
  by (cases m) (auto simp: yields_def)

lemma yields_mono: "yields m P \<Longrightarrow> (\<And>x. P x \<Longrightarrow> Q x) \<Longrightarrow> yields m Q"
  by (auto simp: yields_def)

lemma yields_if:
  "(b \<Longrightarrow> yields m Q) \<Longrightarrow> (\<not> b \<Longrightarrow> yields n Q) \<Longrightarrow> yields (if b then m else n) Q"
  by simp

lemma yieldsD: "yields m Q \<Longrightarrow> m = Some x \<Longrightarrow> Q x"
  by (simp add: yields_def)

lemma ensures_yields: "ensures m Q \<Longrightarrow> yields m Q"
  by (auto simp: ensures_def yields_def)

section \<open>Signed values\<close>

lemma sint_cancel: "sint a = sint b \<longleftrightarrow> a = b"
  by (auto intro: signed_word_eqI)

section \<open>Single bits\<close>

text \<open>The simplifier writes \<open>push_bit k 1\<close> as \<open>2 ^ k\<close>, so the facts are about that form.\<close>

lemma bit_pow2: "bit (2 ^ k :: 'a::len word) i \<longleftrightarrow> i = k \<and> i < LENGTH('a)"
  by (auto simp: bit_exp_iff possible_bit_def)

lemma bit_or_pow2: "bit (w OR 2 ^ k :: 'a::len word) i \<longleftrightarrow> bit w i \<or> (i = k \<and> i < LENGTH('a))"
  by (auto simp: bit_or_iff bit_pow2)

lemma bit_and_not_pow2: "bit (w AND NOT (2 ^ k) :: 'a::len word) i \<longleftrightarrow> bit w i \<and> i \<noteq> k"
  by (auto simp: bit_and_iff bit_not_iff bit_pow2 dest: bit_imp_le_length)

lemma and_pow2_eq_0: "(w :: 'a::len word) AND 2 ^ k = 0 \<longleftrightarrow> \<not> bit w k"
proof -
  have "(w AND 2 ^ k = 0) \<longleftrightarrow> (\<forall>i. \<not> bit (w AND 2 ^ k) i)"
    by (metis bit_0_eq bit_eqI bot_apply bot_bool_def)
  also have "\<dots> \<longleftrightarrow> \<not> bit w k"
    by (auto simp: bit_and_iff bit_pow2 dest: bit_imp_le_length)
  finally show ?thesis .
qed

section \<open>Linked lists\<close>

text \<open>
  \<open>dll q prev p as\<close>: from \<open>p\<close> the \<^verbatim>\<open>Next\<close> pointers run through the nodes
  \<open>as\<close> to \<^verbatim>\<open>NULL\<close>, and the \<^verbatim>\<open>Prev\<close> pointers run back, the first to \<open>prev\<close>.
  \<open>sll\<close> is the same for the free list, whose \<^verbatim>\<open>Prev\<close> pointers nothing reads.
\<close>

fun dll :: "(nat \<Rightarrow> nat option) \<Rightarrow> (nat \<Rightarrow> nat option) \<Rightarrow> nat option \<Rightarrow> nat option \<Rightarrow> nat list \<Rightarrow> bool" where
  "dll nx pv prev p [] \<longleftrightarrow> p = None"
| "dll nx pv prev p (a # as) \<longleftrightarrow> p = Some a \<and> pv a = prev \<and> dll nx pv (Some a) (nx a) as"

fun sll :: "(nat \<Rightarrow> nat option) \<Rightarrow> nat option \<Rightarrow> nat list \<Rightarrow> bool" where
  "sll nx p [] \<longleftrightarrow> p = None"
| "sll nx p (a # as) \<longleftrightarrow> p = Some a \<and> sll nx (nx a) as"

lemma dll_frame_Next [simp]:
  "a \<notin> set as \<Longrightarrow> dll (nx(a := v)) pv prev p as = dll nx pv prev p as"
  by (induction as arbitrary: prev p) auto

lemma dll_frame_Prev [simp]:
  "a \<notin> set as \<Longrightarrow> dll nx (pv(a := v)) prev p as = dll nx pv prev p as"
  by (induction as arbitrary: prev p) auto

lemma sll_frame [simp]: "a \<notin> set as \<Longrightarrow> sll (nx(a := v)) p as = sll nx p as"
  by (induction as arbitrary: p) auto

lemma sll_None [simp]: "sll nx None as \<longleftrightarrow> as = []"
  by (cases as) auto

lemma dll_None [simp]: "dll nx pv prev None as \<longleftrightarrow> as = []"
  by (cases as) auto

lemma sll_Some: "sll nx (Some a) as \<longleftrightarrow> (\<exists>bs. as = a # bs \<and> sll nx (nx a) bs)"
  by (cases as) auto

lemma dll_Some:
  "dll nx pv prev (Some a) as \<longleftrightarrow> (\<exists>bs. as = a # bs \<and> pv a = prev \<and> dll nx pv (Some a) (nx a) bs)"
  by (cases as) auto

lemma dll_sll: "dll nx pv prev p as \<Longrightarrow> sll nx p as"
  by (induction as arbitrary: prev p) auto

lemma dll_agree:
  "(\<forall>a \<in> set as. nx' a = nx a \<and> pv' a = pv a) \<Longrightarrow> dll nx' pv' prev p as = dll nx pv prev p as"
  by (induction as arbitrary: prev p) auto

text \<open>The pointers to the first and to the last node of a list.\<close>

definition hdo :: "'a list \<Rightarrow> 'a option" where
  "hdo xs = (case xs of [] \<Rightarrow> None | x # _ \<Rightarrow> Some x)"

definition lasto :: "'a list \<Rightarrow> 'a option" where
  "lasto xs = (if xs = [] then None else Some (last xs))"

lemma hdo_lasto_simps [simp]:
  "hdo [] = None" "hdo (x # xs) = Some x" "lasto [] = None" "lasto (xs @ [x]) = Some x"
  "lasto (x # y # xs) = lasto (y # xs)" "lasto [x] = Some x"
  "hdo xs = None \<longleftrightarrow> xs = []" "lasto xs = None \<longleftrightarrow> xs = []"
  by (auto simp: hdo_def lasto_def split: list.split)

lemma lasto_Cons: "lasto (x # xs) = (if xs = [] then Some x else lasto xs)"
  by (simp add: lasto_def)

lemma lasto_in: "lasto xs = Some y \<Longrightarrow> y \<in> set xs"
  by (auto simp: lasto_def split: if_splits)

lemma sll_hdo: "sll nx p as \<Longrightarrow> p = hdo as"
  by (cases as) simp_all

lemma sll_Cons: "sll nx p (a # as) \<longleftrightarrow> p = Some a \<and> nx a = hdo as \<and> sll nx (nx a) as"
  using sll_hdo [of nx "nx a" as] by auto

text \<open>Linking a node into a singly linked list, or a list into nothing.\<close>

lemma sll_splice:
  assumes "sll nx p (xs @ ys)" "xs \<noteq> []" "distinct (xs @ ys)" "c \<notin> set (xs @ ys)"
  shows "sll (nx(c := hdo ys, last xs := Some c)) p (xs @ c # ys)"
  using assms
proof (induction xs arbitrary: p)
  case (Cons a xs)
  show ?case
  proof (cases "xs = []")
    case True
    have "sll (nx(c := hdo ys, a := Some c)) (hdo ys) ys = sll nx (hdo ys) ys"
      using Cons.prems True by (intro trans [OF sll_frame sll_frame]) auto
    then show ?thesis using Cons.prems True sll_hdo [of nx "nx a" ys]
      by (auto simp: fun_upd_same fun_upd_other simp del: fun_upd_apply)
  next
    case False
    with Cons.prems have "last xs \<noteq> a" "c \<noteq> a" by auto
    with False Cons show ?thesis by auto
  qed
qed simp

lemma sll_drop_last:
  assumes "sll nx p (xs @ ys)" "xs \<noteq> []" "distinct (xs @ ys)"
  shows "sll (nx(last xs := None)) p xs"
  using assms
proof (induction xs arbitrary: p)
  case (Cons a xs)
  then show ?case by (cases "xs = []") auto
qed simp

lemma sll_unlink:
  assumes "sll nx p (xs @ c # ys)" "xs \<noteq> []" "distinct (xs @ c # ys)"
  shows "sll (nx(last xs := hdo ys)) p (xs @ ys)"
  using assms
proof (induction xs arbitrary: p)
  case (Cons a xs)
  show ?case
  proof (cases "xs = []")
    case True
    then show ?thesis using Cons.prems sll_hdo [of nx "nx c" ys]
      by (auto simp: fun_upd_same simp del: fun_upd_apply)
  next
    case False
    then show ?thesis using Cons by auto
  qed
qed simp

text \<open>Where the tail pointer points after a node was linked behind \<open>xs\<close>.\<close>

lemma lasto_splice:
  assumes "distinct (xs @ ys)" "xs \<noteq> []"
  shows "lasto (xs @ ys) = Some (last xs) \<longleftrightarrow> ys = []"
    "lasto (xs @ c # ys) = (if ys = [] then Some c else lasto (xs @ ys))"
proof -
  have "last ys \<noteq> last xs" if "ys \<noteq> []"
    using assms last_in_set [of xs] last_in_set [OF that] by (auto simp: disjoint_iff)
  then show "lasto (xs @ ys) = Some (last xs) \<longleftrightarrow> ys = []"
    using assms(2) by (auto simp: lasto_def last_append)
qed (auto simp: lasto_def)

lemma sll_append: "sll nx p (xs @ ys) \<Longrightarrow> sll nx (hdo ys) ys"
proof (induction xs arbitrary: p)
  case Nil
  then show ?case using sll_hdo by fastforce
qed auto

text \<open>Linking the node \<open>c\<close> in front of \<open>m\<close>, and unlinking it.\<close>

lemma dll_insert:
  assumes "dll nx pv prev p (xs @ m # ys)" "xs \<noteq> []" "distinct (xs @ m # ys)"
    "c \<notin> set (xs @ m # ys)"
  shows "pv m = Some (last xs) \<and>
    dll (nx(c := Some m, last xs := Some c)) (pv(c := Some (last xs), m := Some c)) prev p
      (xs @ c # m # ys)"
  using assms
proof (induction xs arbitrary: prev p)
  case (Cons a xs)
  show ?case
  proof (cases "xs = []")
    case True
    have "dll (nx(c := Some m, a := Some c)) (pv(c := Some a, m := Some c)) (Some m) (nx m) ys
        = dll nx pv (Some m) (nx m) ys"
      by (rule dll_agree) (use True Cons.prems in auto)
    with True Cons.prems show ?thesis
      by (auto simp: fun_upd_same fun_upd_other simp del: fun_upd_apply)
  next
    case False
    with Cons.prems have "last xs \<noteq> a" by auto
    with False Cons.prems Cons.IH [of "Some a" "nx a"] show ?thesis by auto
  qed
qed simp

lemma dll_delete:
  assumes "dll nx pv prev p (xs @ c # ys)" "xs \<noteq> []" "distinct (xs @ c # ys)"
  shows "pv c = Some (last xs) \<and>
    nx c = (case ys of [] \<Rightarrow> None | y # _ \<Rightarrow> Some y) \<and>
    dll (nx(last xs := (case ys of [] \<Rightarrow> None | y # _ \<Rightarrow> Some y)))
        (case ys of [] \<Rightarrow> pv | y # _ \<Rightarrow> pv(y := Some (last xs))) prev p (xs @ ys)"
  using assms
proof (induction xs arbitrary: prev p)
  case (Cons a xs)
  show ?case
  proof (cases "xs = []")
    case True
    show ?thesis
    proof (cases ys)
      case Nil
      with True Cons.prems show ?thesis by auto
    next
      case (Cons y zs)
      have "dll (nx(a := Some y)) (pv(y := Some a)) (Some y) (nx y) zs = dll nx pv (Some y) (nx y) zs"
        by (rule dll_agree) (use True Cons Cons.prems in auto)
      with True Cons Cons.prems show ?thesis
        by (auto simp: fun_upd_same fun_upd_other simp del: fun_upd_apply)
    qed
  next
    case False
    with Cons.prems have "last xs \<noteq> a" by auto
    moreover have "nx c = Some y \<Longrightarrow> y \<noteq> a" for y
      using False Cons.prems Cons.IH [of "Some a" "nx a"] by (cases ys) auto
    ultimately show ?thesis
      using False Cons.prems Cons.IH [of "Some a" "nx a"] by (cases ys) auto
  qed
qed simp

section \<open>Priority insertion\<close>

text \<open>
  Every priority queue of the code is searched from its head for the first entry that is
  less urgent than the new one, and the new entry goes in front of that entry. \<open>pinsert\<close>
  is the list operation behind them: \<open>b y\<close> says that the search stops at \<open>y\<close>.
\<close>

definition pinsert :: "('a \<Rightarrow> bool) \<Rightarrow> 'a \<Rightarrow> 'a list \<Rightarrow> 'a list" where
  "pinsert b x ys = takeWhile (\<lambda>y. \<not> b y) ys @ x # dropWhile (\<lambda>y. \<not> b y) ys"

lemma pinsert_simps [simp]:
  "pinsert b x [] = [x]"
  "pinsert b x (y # ys) = (if b y then x # y # ys else y # pinsert b x ys)"
  by (simp_all add: pinsert_def)

lemma set_pinsert [simp]: "set (pinsert b x ys) = insert x (set ys)"
  by (induction ys) auto

lemma length_pinsert [simp]: "length (pinsert b x ys) = Suc (length ys)"
  by (induction ys) auto

lemma distinct_pinsert: "distinct (pinsert b x ys) \<longleftrightarrow> x \<notin> set ys \<and> distinct ys"
  by (induction ys) auto

lemma pinsert_append:
  "(\<forall>y \<in> set ys. \<not> b y) \<Longrightarrow> pinsert b x (ys @ zs) = ys @ pinsert b x zs"
  by (induction ys) auto

lemma map_pinsert: "map f (pinsert (\<lambda>y. b (f y)) x ys) = pinsert b (f x) (map f ys)"
  by (induction ys) auto

lemma pinsert_cong:
  "(\<And>y. y \<in> set ys \<Longrightarrow> b y = c y) \<Longrightarrow> pinsert b x ys = pinsert c x ys"
  by (induction ys) auto

text \<open>A queue is in order when no entry is more urgent than one before it.\<close>

abbreviation descending :: "('a \<Rightarrow> 'p::linorder) \<Rightarrow> 'a list \<Rightarrow> bool" where
  "descending pr \<equiv> sorted_wrt (\<lambda>x y. pr y \<le> pr x)"

lemma descending_pinsert:
  "descending pr ys \<Longrightarrow> descending pr (pinsert (\<lambda>y. pr y < pr x) x ys)"
proof (induction ys)
  case (Cons y ys)
  show ?case
  proof (cases "pr y < pr x")
    case True
    with Cons.prems have "\<forall>z \<in> set (y # ys). pr z \<le> pr x"
      by (auto intro: order_trans less_imp_le)
    with True Cons.prems show ?thesis by simp
  next
    case False
    with Cons show ?thesis by auto
  qed
qed simp

text \<open>Entries of the same priority stay in the order of their arrival.\<close>

lemma filter_pinsert_same:
  assumes "descending pr ys"
  shows "filter (\<lambda>y. pr y = pr x) (pinsert (\<lambda>y. pr y < pr x) x ys)
       = filter (\<lambda>y. pr y = pr x) ys @ [x]"
  using assms
proof (induction ys)
  case (Cons y ys)
  show ?case
  proof (cases "pr y < pr x")
    case True
    with Cons.prems have "\<forall>z \<in> set ys. pr z < pr x" by (auto intro: le_less_trans)
    then have "filter (\<lambda>z. pr z = pr x) ys = []" by (auto simp: filter_empty_conv)
    with True show ?thesis by (auto simp: less_imp_neq)
  next
    case False
    with Cons show ?thesis by auto
  qed
qed simp

lemma filter_pinsert_other:
  "\<not> P x \<Longrightarrow> filter P (pinsert b x ys) = filter P ys"
  by (induction ys) auto

lemma remove1_pinsert: "x \<notin> set ys \<Longrightarrow> remove1 x (pinsert b x ys) = ys"
  by (induction ys) auto

lemma descending_remove1: "descending pr ys \<Longrightarrow> descending pr (remove1 x ys)"
  by (induction ys) (auto dest: notin_set_remove1 set_mp [OF set_remove1_subset])

end
