(* ===== verification/Nrk_Time.thy ===== *)
theory Nrk_Time
  imports Nrk_Prelude
begin

text \<open>
  Time values and their conversion to timer ticks:
  \<^verbatim>\<open>src/src/kernel/source/nrk_time.c\<close>, \<^verbatim>\<open>nrk_time.h\<close> and the constants of
  \<^verbatim>\<open>src/src/platform/firefly3/include/nrk_platform_time.h\<close>. A time is a pair of
  32-bit fields; it is \<open>normal\<close> when the nanoseconds stay below one second, and
  \<open>time_ns\<close> is the number of nanoseconds it stands for.
\<close>

section \<open>Constants and data\<close>

definition NANOS_PER_SEC :: u32 where "NANOS_PER_SEC = 1000000000"
definition NANOS_PER_TICK :: u32 where "NANOS_PER_TICK = 976563"
definition TICKS_PER_SEC :: u32 where "TICKS_PER_SEC = 1024"
definition NANOS_PER_PRECISION_TICK :: u32 where "NANOS_PER_PRECISION_TICK = 63"

lemmas time_consts = NANOS_PER_SEC_def NANOS_PER_TICK_def TICKS_PER_SEC_def
  NANOS_PER_PRECISION_TICK_def

record nrk_time_t =
  secs :: u32
  nano_secs :: u32

definition normal :: "nrk_time_t \<Rightarrow> bool" where
  "normal t \<longleftrightarrow> nano_secs t < NANOS_PER_SEC"

definition time_ns :: "nrk_time_t \<Rightarrow> nat" where
  "time_ns t = unat (secs t) * 1000000000 + unat (nano_secs t)"

section \<open>Normalising and reading the clock\<close>

function nrk_time_compact_nanos :: "nrk_time_t \<Rightarrow> nrk_time_t" where
  "nrk_time_compact_nanos t =
     (if NANOS_PER_SEC \<le> nano_secs t
      then nrk_time_compact_nanos
             (t\<lparr>nano_secs := nano_secs t - NANOS_PER_SEC, secs := secs t + 1\<rparr>)
      else t)"
  by pat_completeness auto
termination
  by (relation "measure (\<lambda>t. unat (nano_secs t))")
     (auto simp: NANOS_PER_SEC_def word_le_nat_alt unat_sub)

declare nrk_time_compact_nanos.simps [simp del]

text \<open>
  \<^verbatim>\<open>nrk_time_get\<close> reads the system time, the 8-bit OS timer and, when
  \<^verbatim>\<open>NRK_SUB_TICK_TIMING\<close> is defined, the 16-bit precision timer.
\<close>

definition nrk_time_get :: "bool \<Rightarrow> u16 \<Rightarrow> u8 \<Rightarrow> nrk_time_t \<Rightarrow> nrk_time_t" where
  "nrk_time_get sub_tick prec_timer os_timer sys =
     (let n0 = (if sub_tick then ucast prec_timer * NANOS_PER_PRECISION_TICK else 0);
          n1 = n0 + nano_secs sys;
          n2 = n1 + ucast os_timer * NANOS_PER_TICK
      in nrk_time_compact_nanos \<lparr>secs = secs sys, nano_secs = n2\<rparr>)"

text \<open>
  The product \<^verbatim>\<open>1000000000L * sys_time.secs\<close> is computed in 32 bits (\<^verbatim>\<open>long\<close> times
  \<^verbatim>\<open>uint32_t\<close>), as is the sum with the nanoseconds; only the result is widened.
\<close>

definition nrk_full_time_get :: "u16 \<Rightarrow> u8 \<Rightarrow> nrk_time_t \<Rightarrow> u64" where
  "nrk_full_time_get tcnt5 tcnt2 sys =
     (let prec_ticks = (ucast tcnt5 :: u64);
          ticks = (ucast tcnt2 :: u64);
          time = (ucast (1000000000 * secs sys + nano_secs sys) :: u64);
          time' = time + (prec_ticks * ucast NANOS_PER_PRECISION_TICK - drop_bit 1 prec_ticks)
      in time' + ticks * ucast NANOS_PER_TICK)"

definition nrk_time_set :: "u32 \<Rightarrow> u32 \<Rightarrow> nrk_time_t" where
  "nrk_time_set s n = \<lparr>secs = s, nano_secs = n\<rparr>"

section \<open>Arithmetic\<close>

text \<open>The first argument of \<open>nrk_time_sub\<close> is what \<^verbatim>\<open>*result\<close> held before the call.\<close>

definition nrk_time_sub :: "nrk_time_t \<Rightarrow> nrk_time_t \<Rightarrow> nrk_time_t \<Rightarrow> i8 \<times> nrk_time_t" where
  "nrk_time_sub result high low =
     (if secs high < secs low then (NRK_ERROR, result)
      else if secs low = secs high then
        (if nano_secs high < nano_secs low then (NRK_ERROR, result)
         else (NRK_OK, \<lparr>secs = 0, nano_secs = nano_secs high - nano_secs low\<rparr>))
      else if nano_secs high < nano_secs low then
        (NRK_OK, \<lparr>secs = (secs high - 1) - secs low,
                  nano_secs = (nano_secs high + NANOS_PER_SEC) - nano_secs low\<rparr>)
      else (NRK_OK, \<lparr>secs = secs high - secs low,
                     nano_secs = nano_secs high - nano_secs low\<rparr>))"

definition nrk_time_add :: "nrk_time_t \<Rightarrow> nrk_time_t \<Rightarrow> i8 \<times> nrk_time_t" where
  "nrk_time_add a b =
     (NRK_OK, nrk_time_compact_nanos
        \<lparr>secs = secs a + secs b, nano_secs = nano_secs a + nano_secs b\<rparr>)"

section \<open>Ticks\<close>

text \<open>
  \<^verbatim>\<open>for(i=0; i<t->secs; i++ ) tmp+=NANOS_PER_SEC;\<close> with an 8-bit counter: it wraps to 0
  before it can pass 255, so for 256 seconds and more the loop never ends (\<open>None\<close>).
\<close>

partial_function (option) add_secs_loop :: "u8 \<Rightarrow> u32 \<Rightarrow> u64 \<Rightarrow> u64 option" where
  "add_secs_loop i s tmp =
     (if (ucast i :: u32) < s then add_secs_loop (i + 1) s (tmp + ucast NANOS_PER_SEC)
      else Some tmp)"

declare add_secs_loop.simps [code]

definition nrk_time_to_ticks :: "nrk_time_t \<Rightarrow> u16 option" where
  "nrk_time_to_ticks t =
     (if 0 < secs t then
        (if 65 < secs t then Some 0
         else map_option (\<lambda>tmp. ucast (tmp div ucast NANOS_PER_TICK))
                (add_secs_loop 0 (secs t) (ucast (nano_secs t))))
      else Some (ucast (nano_secs t div NANOS_PER_TICK)))"

definition nrk_ticks_to_time :: "u32 \<Rightarrow> nrk_time_t" where
  "nrk_ticks_to_time ticks =
     \<lparr>secs = ticks div TICKS_PER_SEC, nano_secs = (ticks mod TICKS_PER_SEC) * NANOS_PER_TICK\<rparr>"

definition nrk_time_to_ticks_long :: "nrk_time_t \<Rightarrow> u32 option" where
  "nrk_time_to_ticks_long t =
     (if 0 < secs t then
        map_option (\<lambda>tmp. ucast (tmp div ucast NANOS_PER_TICK))
          (add_secs_loop 0 (secs t) (ucast (nano_secs t)))
      else Some (nano_secs t div NANOS_PER_TICK))"

section \<open>Normalisation\<close>

lemma compact_normal: "normal (nrk_time_compact_nanos t)"
proof (induction t rule: nrk_time_compact_nanos.induct)
  case (1 t)
  then show ?case
    by (cases "NANOS_PER_SEC \<le> nano_secs t")
       (auto simp: normal_def nrk_time_compact_nanos.simps [of t])
qed

lemma compact_id: "normal t \<Longrightarrow> nrk_time_compact_nanos t = t"
  by (simp add: normal_def nrk_time_compact_nanos.simps [of t])

lemma unat_NANOS_PER_SEC [simp]: "unat NANOS_PER_SEC = 1000000000"
  by (simp add: NANOS_PER_SEC_def)

lemma unat_NANOS_PER_TICK [simp]: "unat NANOS_PER_TICK = 976563"
  by (simp add: NANOS_PER_TICK_def)

text \<open>Normalising keeps the time value, as long as the seconds do not overflow.\<close>

lemma compact_time_ns:
  "unat (secs t) + 4 < 2 ^ 32 \<Longrightarrow> time_ns (nrk_time_compact_nanos t) = time_ns t"
proof -
  have main: "unat (secs t) + unat (nano_secs t) div 1000000000 < 2 ^ 32 \<Longrightarrow>
      time_ns (nrk_time_compact_nanos t) = time_ns t"
  proof (induction t rule: nrk_time_compact_nanos.induct)
    case (1 t)
    show ?case
    proof (cases "NANOS_PER_SEC \<le> nano_secs t")
      case True
      let ?t = "t\<lparr>nano_secs := nano_secs t - NANOS_PER_SEC, secs := secs t + 1\<rparr>"
      have n: "1000000000 \<le> unat (nano_secs t)"
        using True by (simp add: word_le_nat_alt)
      have un: "unat (nano_secs ?t) = unat (nano_secs t) - 1000000000"
        using True by (simp add: unat_sub)
      have d: "unat (nano_secs ?t) div 1000000000 + 1 = unat (nano_secs t) div 1000000000"
        using n un by (simp add: le_div_geq)
      have us: "unat (secs ?t) = unat (secs t) + 1"
        using "1.prems" d by (simp add: unat_word_ariths)
      have "time_ns (nrk_time_compact_nanos ?t) = time_ns ?t"
        using "1.IH" [OF True] "1.prems" d us by simp
      also have "\<dots> = time_ns t"
        using n un us by (simp add: time_ns_def)
      finally show ?thesis
        using True by (simp add: nrk_time_compact_nanos.simps [of t])
    next
      case False
      then show ?thesis by (simp add: nrk_time_compact_nanos.simps [of t])
    qed
  qed
  assume *: "unat (secs t) + 4 < 2 ^ 32"
  have "unat (nano_secs t) < 2 ^ 32" using unat_less_pow [of "nano_secs t"] by simp
  then have "unat (nano_secs t) div 1000000000 \<le> 4" by simp
  with * show ?thesis by (intro main) simp
qed

lemma normal_unat: "normal t \<Longrightarrow> unat (nano_secs t) < 1000000000"
  by (simp add: normal_def word_less_nat_alt)

section \<open>Subtraction and addition\<close>

lemma time_sub_total:
  assumes "normal high" "normal low"
  shows "fst (nrk_time_sub r high low) = (if time_ns low \<le> time_ns high then NRK_OK else NRK_ERROR)"
    and "time_ns low \<le> time_ns high \<Longrightarrow>
         normal (snd (nrk_time_sub r high low)) \<and>
         time_ns (snd (nrk_time_sub r high low)) = time_ns high - time_ns low"
    and "time_ns high < time_ns low \<Longrightarrow> snd (nrk_time_sub r high low) = r"
proof -
  note b = normal_unat [OF assms(1)] normal_unat [OF assms(2)]
  note w = word_less_nat_alt word_le_nat_alt word_unat_eq_iff
  have lt: "unat (secs high) < unat (secs low) \<Longrightarrow> time_ns high < time_ns low"
    using b by (simp add: time_ns_def)
  have gt: "unat (secs low) < unat (secs high) \<Longrightarrow> time_ns low < time_ns high"
    using b by (simp add: time_ns_def)
  show "fst (nrk_time_sub r high low) = (if time_ns low \<le> time_ns high then NRK_OK else NRK_ERROR)"
    using lt gt by (auto simp: nrk_time_sub_def w time_ns_def)
  show "time_ns high < time_ns low \<Longrightarrow> snd (nrk_time_sub r high low) = r"
    using gt by (auto simp: nrk_time_sub_def w time_ns_def)
  assume le: "time_ns low \<le> time_ns high"
  show "normal (snd (nrk_time_sub r high low)) \<and>
        time_ns (snd (nrk_time_sub r high low)) = time_ns high - time_ns low"
  proof (cases "secs low = secs high")
    case True
    with le have "nano_secs low \<le> nano_secs high" by (simp add: time_ns_def w)
    with True b show ?thesis
      by (auto simp: nrk_time_sub_def normal_def time_ns_def w unat_sub)
  next
    case False
    with le lt have s: "unat (secs low) < unat (secs high)" by (fastforce simp: w)
    show ?thesis
    proof (cases "nano_secs high < nano_secs low")
      case True
      have "unat (nano_secs high + NANOS_PER_SEC - nano_secs low)
              = unat (nano_secs high) + 1000000000 - unat (nano_secs low)"
        using True b by (simp add: unat_word_ariths unat_sub_if_size word_size w)
      moreover have "unat (secs high - 1 - secs low) = unat (secs high) - 1 - unat (secs low)"
        using s by (simp add: unat_sub w unat_sub_if_size word_size)
      ultimately show ?thesis
        using True False s b by (auto simp: nrk_time_sub_def normal_def time_ns_def w algebra_simps)
    next
      case ge: False
      then show ?thesis
        using False s b
        by (auto simp: nrk_time_sub_def normal_def time_ns_def w unat_sub not_less algebra_simps)
    qed
  qed
qed

lemma time_add_total:
  assumes "normal a" "normal b" "unat (secs a) + unat (secs b) + 4 < 2 ^ 32"
  shows "normal (snd (nrk_time_add a b))"
    and "time_ns (snd (nrk_time_add a b)) = time_ns a + time_ns b"
proof -
  note n = normal_unat [OF assms(1)] normal_unat [OF assms(2)]
  show "normal (snd (nrk_time_add a b))"
    by (simp add: nrk_time_add_def compact_normal)
  have s: "unat (secs a + secs b) = unat (secs a) + unat (secs b)"
    using assms(3) by (simp add: unat_word_ariths)
  moreover have "unat (nano_secs a + nano_secs b) = unat (nano_secs a) + unat (nano_secs b)"
    using n by (simp add: unat_word_ariths)
  ultimately show "time_ns (snd (nrk_time_add a b)) = time_ns a + time_ns b"
    using assms(3) by (simp add: nrk_time_add_def compact_time_ns) (simp add: time_ns_def)
qed

lemma time_ns_inject: "normal a \<Longrightarrow> normal b \<Longrightarrow> time_ns a = time_ns b \<Longrightarrow> a = b"
proof -
  assume "normal a" "normal b" and eq: "time_ns a = time_ns b"
  then have n: "unat (nano_secs a) < 1000000000" "unat (nano_secs b) < 1000000000"
    by (simp_all add: normal_unat)
  have "unat (secs a) = unat (secs b)"
    using arg_cong [OF eq, of "\<lambda>x. x div 1000000000"] n by (simp add: time_ns_def)
  moreover have "unat (nano_secs a) = unat (nano_secs b)"
    using arg_cong [OF eq, of "\<lambda>x. x mod 1000000000"] n by (simp add: time_ns_def)
  ultimately show "a = b"
    by (simp add: word_unat_eq_iff)
qed

section \<open>The tick conversion loop\<close>

lemma add_secs_loop_diverges: "255 < s \<Longrightarrow> add_secs_loop i s tmp = None"
proof (rule ccontr)
  assume s: "255 < s" and "add_secs_loop i s tmp \<noteq> None"
  then obtain r where ret: "add_secs_loop i s tmp = Some r" by auto
  have "255 < s \<longrightarrow> False"
  proof (rule add_secs_loop.raw_induct [where P = "\<lambda>i s tmp r. 255 < s \<longrightarrow> False", OF _ ret])
    fix f :: "u8 \<Rightarrow> u32 \<Rightarrow> u64 \<Rightarrow> u64 option" and i s tmp r
    assume IH: "\<And>i s tmp r. f i s tmp = Some r \<Longrightarrow> 255 < s \<longrightarrow> False"
      and eq: "(if (ucast i :: u32) < s then f (i + 1) s (tmp + ucast NANOS_PER_SEC)
                else Some tmp) = Some r"
    show "255 < s \<longrightarrow> False"
    proof
      assume "255 < s"
      moreover have "unat (ucast i :: u32) \<le> 255"
        using unat_less_pow [of i] by (simp add: unat_ucast_up)
      ultimately have "(ucast i :: u32) < s" by (simp add: word_less_nat_alt)
      with eq IH \<open>255 < s\<close> show False by auto
    qed
  qed
  with s show False by simp
qed

lemma add_secs_loop_value:
  "s \<le> 255 \<Longrightarrow> (ucast i :: u32) \<le> s \<Longrightarrow>
   add_secs_loop i s tmp = Some (tmp + of_nat (unat s - unat i) * 1000000000)"
proof (induction "unat s - unat i" arbitrary: i tmp)
  case 0
  then have "\<not> (ucast i :: u32) < s" by (simp add: word_less_nat_alt unat_ucast_up)
  with 0 show ?case by (simp add: add_secs_loop.simps)
next
  case (Suc k)
  have lt: "unat i < unat s" using Suc.hyps(2) by simp
  have s255: "unat s \<le> 255" using Suc.prems(1) by (simp add: word_le_nat_alt)
  have ui: "unat (i + 1) = unat i + 1"
    using lt s255 by (simp add: unat_word_ariths)
  have "(ucast (i + 1) :: u32) \<le> s"
    using lt s255 ui unat_less_pow [of "i + 1"] by (simp add: word_le_nat_alt unat_ucast_up)
  moreover have "k = unat s - unat (i + 1)" using Suc.hyps(2) ui by simp
  ultimately have "add_secs_loop (i + 1) s (tmp + 1000000000) =
      Some (tmp + 1000000000 + of_nat (unat s - unat (i + 1)) * 1000000000)"
    using Suc.hyps(1) Suc.prems(1) by blast
  moreover have "unat s - unat i = Suc (unat s - unat (i + 1))"
    using ui lt by simp
  moreover have "(ucast i :: u32) < s"
    using lt unat_less_pow [of i] by (simp add: word_less_nat_alt unat_ucast_up)
  ultimately show ?case
    by (subst add_secs_loop.simps) (simp add: NANOS_PER_SEC_def distrib_right)
qed

text \<open>The value of the conversion for every time below 256 seconds.\<close>

lemma time_to_ticks_long_value:
  assumes "secs t \<le> 255"
  shows "nrk_time_to_ticks_long t = Some (of_nat (time_ns t div 976563))"
proof (cases "0 < secs t")
  case False
  then have "secs t = 0" by (simp add: word_gt_0)
  then show ?thesis
    by (simp add: nrk_time_to_ticks_long_def time_ns_def)
       (simp add: word_arith_nat_div NANOS_PER_TICK_def)
next
  case True
  have s: "unat (secs t) \<le> 255" using assms by (simp add: word_le_nat_alt)
  have n: "unat (nano_secs t) < 2 ^ 32" using unat_less_pow [of "nano_secs t"] by simp
  let ?v = "ucast (nano_secs t) + of_nat (unat (secs t)) * 1000000000 :: u64"
  have loop: "add_secs_loop 0 (secs t) (ucast (nano_secs t)) = Some ?v"
    using add_secs_loop_value [of "secs t" 0 "ucast (nano_secs t)"] assms by simp
  have v: "?v = of_nat (time_ns t)"
    by (simp add: time_ns_def add.commute)
  have lt: "time_ns t < 2 ^ 64" using s n by (simp add: time_ns_def)
  have "unat (?v div ucast NANOS_PER_TICK) = time_ns t div 976563"
    unfolding v using lt by (simp add: unat_div unat_of_nat NANOS_PER_TICK_def)
  then have "?v div ucast NANOS_PER_TICK = of_nat (time_ns t div 976563)"
    by (metis of_nat_unat ucast_id)
  then show ?thesis
    using True loop by (simp add: nrk_time_to_ticks_long_def ucast_down_of_nat)
qed

lemma time_to_ticks_long_diverges: "255 < secs t \<Longrightarrow> nrk_time_to_ticks_long t = None"
  using add_secs_loop_diverges [of "secs t"]
  by (auto simp: nrk_time_to_ticks_long_def word_gt_0)

lemma time_to_ticks_total: "nrk_time_to_ticks t \<noteq> None"
proof (cases "65 < secs t")
  case False
  then have "secs t \<le> 255" by (simp add: word_less_nat_alt word_le_nat_alt)
  then show ?thesis
    using add_secs_loop_value [of "secs t" 0] by (auto simp: nrk_time_to_ticks_def)
qed (auto simp: nrk_time_to_ticks_def word_gt_0)

text \<open>A whole second is 1024 ticks, which is 512 nanoseconds more than a second.\<close>

lemma ticks_to_time_fields:
  "unat (secs (nrk_ticks_to_time n)) = unat n div 1024"
  "unat (nano_secs (nrk_ticks_to_time n)) = (unat n mod 1024) * 976563"
proof -
  show "unat (secs (nrk_ticks_to_time n)) = unat n div 1024"
    by (simp add: nrk_ticks_to_time_def TICKS_PER_SEC_def unat_div)
  have "(unat n mod 1024) * 976563 < 2 ^ 32"
    using mod_less_divisor [of 1024 "unat n"] by (simp del: mod_less_divisor)
  then show "unat (nano_secs (nrk_ticks_to_time n)) = (unat n mod 1024) * 976563"
    by (simp add: nrk_ticks_to_time_def TICKS_PER_SEC_def NANOS_PER_TICK_def unat_mod
        unat_word_ariths)
qed

lemma ticks_to_time_normal: "normal (nrk_ticks_to_time n)"
  using ticks_to_time_fields(2) [of n] mod_less_divisor [of 1024 "unat n"]
  by (simp add: normal_def word_less_nat_alt del: mod_less_divisor)

lemma ticks_roundtrip:
  assumes "unat n < 256 * 1024"
  shows "nrk_time_to_ticks_long (nrk_ticks_to_time n) = Some (if n < TICKS_PER_SEC then n else n - 1)"
proof -
  let ?s = "unat n div 1024" and ?r = "unat n mod 1024"
  have s: "?s \<le> 255" using assms by simp
  have sr: "unat n = ?s * 1024 + ?r" by simp
  have "secs (nrk_ticks_to_time n) \<le> 255"
    using s by (simp add: word_le_nat_alt ticks_to_time_fields)
  then have v: "nrk_time_to_ticks_long (nrk_ticks_to_time n)
      = Some (of_nat ((?s * 1000000000 + ?r * 976563) div 976563))"
    by (simp add: time_to_ticks_long_value time_ns_def ticks_to_time_fields)
  show ?thesis
  proof (cases "?s = 0")
    case True
    then have "unat n < 1024" by (simp add: div_eq_0_iff)
    then show ?thesis using v True by (simp add: word_less_nat_alt TICKS_PER_SEC_def)
  next
    case False
    have "(?s * 1000000000 + ?r * 976563) + ?s * 512 = unat n * 976563"
      using sr by linarith
    moreover have "unat n * 976563 = (unat n - 1) * 976563 + 976563"
      using False by (cases "unat n") simp_all
    moreover have "?s * 512 \<le> 976563" using s by simp
    ultimately have "?s * 1000000000 + ?r * 976563 = (unat n - 1) * 976563 + (976563 - ?s * 512)"
      by linarith
    moreover have "976563 - ?s * 512 < 976563" using s False by simp
    ultimately have "(?s * 1000000000 + ?r * 976563) div 976563 = unat n - 1"
      by simp
    moreover have "\<not> n < TICKS_PER_SEC"
      using False by (simp add: word_less_nat_alt TICKS_PER_SEC_def div_eq_0_iff)
    moreover have "of_nat (unat n - 1) = n - 1"
      using False by (simp add: of_nat_diff Suc_leI)
    ultimately show ?thesis using v by simp
  qed
qed

section \<open>Reading the clock\<close>

lemma time_get_value:
  assumes "normal sys" "unat (secs sys) + 4 < 2 ^ 32"
  shows "normal (nrk_time_get b p t sys)"
    and "time_ns (nrk_time_get b p t sys) =
      time_ns sys + unat t * 976563 + (if b then unat p * 63 else 0)"
proof -
  show "normal (nrk_time_get b p t sys)" by (simp add: nrk_time_get_def compact_normal)
  define n where "n = (if b then ucast p * NANOS_PER_PRECISION_TICK else 0) + nano_secs sys
    + ucast t * NANOS_PER_TICK"
  have p: "unat p < 65536" and t: "unat t < 256" using unat_less_pow [of p] unat_less_pow [of t] by simp_all
  have "unat n = (if b then unat p * 63 else 0) + unat (nano_secs sys) + unat t * 976563"
    using normal_unat [OF assms(1)] p t
    by (simp add: n_def unat_word_ariths unat_ucast_up NANOS_PER_PRECISION_TICK_def NANOS_PER_TICK_def)
  then show "time_ns (nrk_time_get b p t sys) =
      time_ns sys + unat t * 976563 + (if b then unat p * 63 else 0)"
    using compact_time_ns [of "\<lparr>secs = secs sys, nano_secs = n\<rparr>"] assms(2)
    by (simp add: nrk_time_get_def Let_def n_def [symmetric]) (simp add: time_ns_def)
qed

section \<open>Properties\<close>

text \<open>
  Subtracting times is exact. For two normalised times \<^verbatim>\<open>nrk_time_sub\<close> returns
  \<^verbatim>\<open>NRK_OK\<close> and the normalised difference in nanoseconds when the first is not
  smaller; otherwise it returns \<^verbatim>\<open>NRK_ERROR\<close> and leaves \<^verbatim>\<open>*result\<close> alone.
\<close>

theorem nrk_time_sub_exact:
  assumes "normal high" "normal low"
  shows "case nrk_time_sub r high low of (c, t) \<Rightarrow>
    if time_ns low \<le> time_ns high
    then c = NRK_OK \<and> normal t \<and> time_ns t = time_ns high - time_ns low
    else c = NRK_ERROR \<and> t = r"
  using time_sub_total [OF assms, of r] by (cases "nrk_time_sub r high low") auto

theorem nrk_time_sub_exact_witness:
  "case nrk_time_sub \<lparr>secs = 9, nano_secs = 9\<rparr> \<lparr>secs = 5, nano_secs = 0\<rparr> \<lparr>secs = 3, nano_secs = 999999999\<rparr> of
    (c, t) \<Rightarrow> c = NRK_OK \<and> time_ns t = 1000000001"
  using nrk_time_sub_exact [of "\<lparr>secs = 5, nano_secs = 0\<rparr>" "\<lparr>secs = 3, nano_secs = 999999999\<rparr>"
      "\<lparr>secs = 9, nano_secs = 9\<rparr>"]
  by (simp add: normal_def NANOS_PER_SEC_def time_ns_def split: prod.splits)

text \<open>
  Addition and subtraction are inverse. Adding two normalised times gives a normalised
  time (as long as the seconds do not overflow), and subtracting one of them again gives
  the other.
\<close>

theorem nrk_time_add_sub:
  assumes "normal a" "normal b" "unat (secs a) + unat (secs b) + 4 < 2 ^ 32"
  shows "normal (snd (nrk_time_add a b)) \<and> nrk_time_sub r (snd (nrk_time_add a b)) b = (NRK_OK, a)"
proof -
  note add = time_add_total [OF assms]
  note sub = time_sub_total [OF add(1) assms(2), of r]
  have "snd (nrk_time_sub r (snd (nrk_time_add a b)) b) = a"
    using sub(2) add(2) assms(1) by (intro time_ns_inject) simp_all
  then show ?thesis using sub(1) add by (simp add: prod_eq_iff)
qed

theorem nrk_time_add_sub_witness:
  "nrk_time_sub \<lparr>secs = 0, nano_secs = 0\<rparr>
     (snd (nrk_time_add \<lparr>secs = 1, nano_secs = 700000000\<rparr> \<lparr>secs = 2, nano_secs = 600000000\<rparr>))
     \<lparr>secs = 2, nano_secs = 600000000\<rparr> = (NRK_OK, \<lparr>secs = 1, nano_secs = 700000000\<rparr>)"
  using nrk_time_add_sub [of "\<lparr>secs = 1, nano_secs = 700000000\<rparr>" "\<lparr>secs = 2, nano_secs = 600000000\<rparr>"
      "\<lparr>secs = 0, nano_secs = 0\<rparr>"]
  by (simp add: normal_def NANOS_PER_SEC_def)

text \<open>
  C26: The conversion of a time to ticks returns exactly for times below 256 seconds, and
  then it returns the number of whole ticks; for 256 seconds and more its loop, which
  counts seconds in 8 bits, never ends.
\<close>

theorem nrk_time_to_ticks_long_total:
  "nrk_time_to_ticks_long t =
     (if secs t \<le> 255 then Some (of_nat (time_ns t div 976563)) else None)"
  using time_to_ticks_long_value [of t] time_to_ticks_long_diverges [of t] by (simp add: not_le)

text \<open>
  Converting ticks to a time and back loses one tick as soon as the time is a second or
  more, because 1024 ticks of 976563 ns are longer than the second they are made into.
\<close>

theorem ticks_to_time_roundtrip:
  assumes "unat n < 256 * 1024"
  shows "normal (nrk_ticks_to_time n) \<and>
    nrk_time_to_ticks_long (nrk_ticks_to_time n) = Some (if n < TICKS_PER_SEC then n else n - 1)"
  using ticks_to_time_normal ticks_roundtrip [OF assms] by blast

theorem ticks_to_time_roundtrip_witness:
  "nrk_time_to_ticks_long (nrk_ticks_to_time 1500) = Some 1499"
  using ticks_to_time_roundtrip [of 1500] by (simp add: TICKS_PER_SEC_def)

text \<open>
  Reading the clock gives the time of the last scheduler run plus the ticks and
  precision ticks the timers have counted since, normalised.
\<close>

theorem nrk_time_get_exact:
  assumes "normal sys" "unat (secs sys) + 4 < 2 ^ 32"
  shows "normal (nrk_time_get b p t sys) \<and> time_ns (nrk_time_get b p t sys) =
    time_ns sys + unat t * 976563 + (if b then unat p * 63 else 0)"
  using time_get_value [OF assms] by blast

theorem nrk_time_get_exact_witness:
  "time_ns (nrk_time_get True 100 255 \<lparr>secs = 7, nano_secs = 999000000\<rparr>) = 8248029865"
  using nrk_time_get_exact [of "\<lparr>secs = 7, nano_secs = 999000000\<rparr>" True 100 255]
  by (simp add: normal_def NANOS_PER_SEC_def time_ns_def)

text \<open>
  The 64-bit reading of the clock keeps only 32 bits of the system time: after 5
  seconds of uptime it is off by a multiple of \<open>2^32\<close> nanoseconds.
\<close>

theorem nrk_full_time_get_wraps:
  "unat (nrk_full_time_get p t sys) =
     time_ns sys mod 2 ^ 32 + (unat p * 63 - unat p div 2) + unat t * 976563"
proof -
  have b: "unat p < 65536" "unat t < 256" using unat_less_pow [of p] unat_less_pow [of t] by simp_all
  have w: "unat (ucast (1000000000 * secs sys + nano_secs sys) :: u64) = time_ns sys mod 2 ^ 32"
    by (simp add: unat_ucast_up unat_word_ariths time_ns_def mod_simps mult.commute)
  have d: "unat (ucast p * ucast NANOS_PER_PRECISION_TICK - drop_bit 1 (ucast p) :: u64) = unat p * 63 - unat p div 2"
  proof -
    have m: "unat (ucast p * ucast NANOS_PER_PRECISION_TICK :: u64) = unat p * 63"
      using b by (simp add: unat_word_ariths unat_ucast_up NANOS_PER_PRECISION_TICK_def)
    have h: "unat (drop_bit 1 (ucast p) :: u64) = unat p div 2"
      by (simp add: drop_bit_eq_div unat_div unat_ucast_up)
    have "drop_bit 1 (ucast p) \<le> (ucast p * ucast NANOS_PER_PRECISION_TICK :: u64)"
      unfolding word_le_nat_alt m h by simp
    then show ?thesis using m h by (simp add: unat_sub)
  qed
  have k: "unat (ucast t * ucast NANOS_PER_TICK :: u64) = unat t * 976563"
    using b by (simp add: unat_word_ariths unat_ucast_up NANOS_PER_TICK_def)
  have "time_ns sys mod 2 ^ 32 < 2 ^ 32" by simp
  then show ?thesis using b
    by (simp only: nrk_full_time_get_def Let_def unat_word_ariths(1) w d k) simp
qed

end
