(* ===== verification/Nrk_Tcb.thy ===== *)
theory Nrk_Tcb
  imports Nrk_Time
begin

text \<open>
  The task control block and the task descriptor of
  \<^verbatim>\<open>src/src/kernel/include/nrk_task.h\<close>, with the task states, event classes and
  scheduling constants. Addresses (stack pointers, entry functions) are 16-bit values, as on
  the target; the code only stores, compares and dereferences them.
\<close>

section \<open>Constants\<close>

definition TIME_PAD :: nat where "TIME_PAD = 2"

text \<open>
  \<^verbatim>\<open>task_state\<close> is a \<^verbatim>\<open>uint8_t\<close> that holds only these constants.
\<close>

definition RUNNING :: u8 where "RUNNING = 0"
definition WAITING :: u8 where "WAITING = 1"
definition READY :: u8 where "READY = 2"
definition SUSPENDED :: u8 where "SUSPENDED = 3"
definition FINISHED :: u8 where "FINISHED = 4"
definition EVENT_SUSPENDED :: u8 where "EVENT_SUSPENDED = 5"

definition SIG_EVENT_SUSPENDED :: u8 where "SIG_EVENT_SUSPENDED = 1"
definition RSRC_EVENT_SUSPENDED :: u8 where "RSRC_EVENT_SUSPENDED = 2"

definition INVALID_TASK :: u8 where "INVALID_TASK = 0"
definition BASIC_TASK :: u8 where "BASIC_TASK = 1"
definition IDLE_TASK :: u8 where "IDLE_TASK = 2"

definition PREEMPTIVE :: u8 where "PREEMPTIVE = 1"

definition TCB_EMPTY_PRIO :: u8 where "TCB_EMPTY_PRIO = 99"

definition NRK_IDLE_TASK_ID :: i8 where "NRK_IDLE_TASK_ID = 0"

lemmas task_state_defs = RUNNING_def WAITING_def READY_def SUSPENDED_def FINISHED_def
  EVENT_SUSPENDED_def

lemmas event_class_defs = SIG_EVENT_SUSPENDED_def RSRC_EVENT_SUSPENDED_def

lemma task_states_distinct [simp]:
  "SUSPENDED \<noteq> FINISHED" "FINISHED \<noteq> SUSPENDED" "READY \<noteq> FINISHED" "FINISHED \<noteq> READY"
  "SUSPENDED \<noteq> READY" "READY \<noteq> SUSPENDED" "EVENT_SUSPENDED \<noteq> FINISHED"
  "EVENT_SUSPENDED \<noteq> READY" "READY \<noteq> EVENT_SUSPENDED" "EVENT_SUSPENDED \<noteq> SUSPENDED"
  "SUSPENDED \<noteq> EVENT_SUSPENDED" "FINISHED \<noteq> EVENT_SUSPENDED"
  by (simp_all add: task_state_defs)

lemma event_classes_distinct [simp]:
  "SIG_EVENT_SUSPENDED \<noteq> RSRC_EVENT_SUSPENDED" "RSRC_EVENT_SUSPENDED \<noteq> SIG_EVENT_SUSPENDED"
  "SIG_EVENT_SUSPENDED \<noteq> 0" "RSRC_EVENT_SUSPENDED \<noteq> 0"
  "0 \<noteq> SIG_EVENT_SUSPENDED" "0 \<noteq> RSRC_EVENT_SUSPENDED"
  by (simp_all add: event_class_defs)

section \<open>The task control block\<close>

record NRK_TCB =
  OSTaskStkPtr :: u16
  OSTCBStkBottom :: u16
  elevated_prio_flag :: bool
  suspend_flag :: bool
  nw_flag :: bool
  event_suspend :: u8
  task_ID :: i8
  task_state :: u8
  task_prio :: u8
  task_prio_ceil :: u8
  errno :: u8
  registered_signal_mask :: u32
  active_signal_mask :: u32
  next_wakeup :: u32
  next_period :: u32
  cpu_remaining :: u32
  period :: u32
  cpu_reserve :: u32
  num_periods :: u16

section \<open>The task descriptor\<close>

text \<open>The fields of \<^verbatim>\<open>nrk_task_type\<close>, prefixed where the TCB has the same name.\<close>

record nrk_task_type =
  tt_task_ID :: i8
  Ptos :: u16
  Pbos :: u16
  task_entry :: u16
  FirstActivation :: bool
  prio :: u8
  Type :: u8
  SchType :: u8
  tt_period :: nrk_time_t
  tt_cpu_reserve :: nrk_time_t
  offset :: nrk_time_t

section \<open>A control block for examples\<close>

definition make_tcb :: "i8 \<Rightarrow> u8 \<Rightarrow> u8 \<Rightarrow> u32 \<Rightarrow> u32 \<Rightarrow> NRK_TCB" where
  "make_tcb tid st pr per nw =
     \<lparr>OSTaskStkPtr = 0, OSTCBStkBottom = 0, elevated_prio_flag = False, suspend_flag = False,
      nw_flag = False, event_suspend = 0, task_ID = tid, task_state = st, task_prio = pr,
      task_prio_ceil = 0, errno = 0, registered_signal_mask = 0, active_signal_mask = 0,
      next_wakeup = nw, next_period = per, cpu_remaining = 0, period = per, cpu_reserve = 0,
      num_periods = 1\<rparr>"

lemma make_tcb_simps [simp]:
  "task_ID (make_tcb tid st pr per nw) = tid" "task_state (make_tcb tid st pr per nw) = st"
  "task_prio (make_tcb tid st pr per nw) = pr" "period (make_tcb tid st pr per nw) = per"
  "next_wakeup (make_tcb tid st pr per nw) = nw" "next_period (make_tcb tid st pr per nw) = per"
  "elevated_prio_flag (make_tcb tid st pr per nw) = False" "suspend_flag (make_tcb tid st pr per nw) = False"
  "event_suspend (make_tcb tid st pr per nw) = 0" "nw_flag (make_tcb tid st pr per nw) = False"
  "cpu_reserve (make_tcb tid st pr per nw) = 0" "num_periods (make_tcb tid st pr per nw) = 1"
  "registered_signal_mask (make_tcb tid st pr per nw) = 0"
  "active_signal_mask (make_tcb tid st pr per nw) = 0"
  by (simp_all add: make_tcb_def)

end
