(* ===== verification/Nrk_PrioQueue.thy ===== *)
theory Nrk_PrioQueue
  imports Nrk_Prelude
begin

text \<open>
  The contract of a priority queue, as locales: the ready queue of the kernel and the
  packet queues of the network stack are instances. \<open>holds q xs\<close> says that the
  concrete queue \<open>q\<close> holds the entries \<open>xs\<close> in that order; \<open>fits xs x\<close>
  says when \<open>x\<close> may be added to a queue that holds \<open>xs\<close>. The lemmas are about
  whole runs of operations, which the clients of the queues make.
\<close>

section \<open>Runs of operations\<close>

datatype 'x queue_op = Enq 'x | Del 'x

fun run_ops :: "('x \<Rightarrow> 'q \<Rightarrow> 'q option) \<Rightarrow> ('x \<Rightarrow> 'q \<Rightarrow> 'q option) \<Rightarrow> 'x queue_op list \<Rightarrow> 'q \<Rightarrow> 'q option" where
  "run_ops enq del [] q = Some q"
| "run_ops enq del (Enq x # ops) q = do { q \<leftarrow> enq x q; run_ops enq del ops q }"
| "run_ops enq del (Del x # ops) q = do { q \<leftarrow> del x q; run_ops enq del ops q }"

fun queue_after :: "('x \<Rightarrow> 'p::linorder) \<Rightarrow> 'x queue_op list \<Rightarrow> 'x list \<Rightarrow> 'x list" where
  "queue_after key [] xs = xs"
| "queue_after key (Enq x # ops) xs = queue_after key ops (pinsert (\<lambda>y. key y < key x) x xs)"
| "queue_after key (Del x # ops) xs = queue_after key ops (remove1 x xs)"

fun legal_ops :: "('x \<Rightarrow> 'p::linorder) \<Rightarrow> ('x list \<Rightarrow> 'x \<Rightarrow> bool) \<Rightarrow> ('x list \<Rightarrow> 'x \<Rightarrow> bool) \<Rightarrow>
    'x queue_op list \<Rightarrow> 'x list \<Rightarrow> bool" where
  "legal_ops key fits may [] xs \<longleftrightarrow> True"
| "legal_ops key fits may (Enq x # ops) xs \<longleftrightarrow>
     fits xs x \<and> legal_ops key fits may ops (pinsert (\<lambda>y. key y < key x) x xs)"
| "legal_ops key fits may (Del x # ops) xs \<longleftrightarrow> may xs x \<and> legal_ops key fits may ops (remove1 x xs)"

fun enq_all :: "('x \<Rightarrow> 'q \<Rightarrow> 'q option) \<Rightarrow> 'x list \<Rightarrow> 'q \<Rightarrow> 'q option" where
  "enq_all enq [] q = Some q"
| "enq_all enq (x # xs) q = do { q \<leftarrow> enq x q; enq_all enq xs q }"

fun drain :: "('q \<Rightarrow> ('x \<times> 'q) option) \<Rightarrow> nat \<Rightarrow> 'q \<Rightarrow> ('x list \<times> 'q) option" where
  "drain pop 0 q = Some ([], q)"
| "drain pop (Suc n) q = do { (x, q) \<leftarrow> pop q; (xs, q) \<leftarrow> drain pop n q; Some (x # xs, q) }"

lemma descending_queue_after: "descending key xs \<Longrightarrow> descending key (queue_after key ops xs)"
proof (induction ops arbitrary: xs)
  case (Cons op ops)
  then show ?case by (cases op) (simp_all add: descending_pinsert descending_remove1)
qed simp

lemma length_queue_after [simp]: "length (queue_after key (map Enq xs) ys) = length ys + length xs"
  by (induction xs arbitrary: ys) simp_all

lemma filter_queue_after:
  assumes "descending key ys"
  shows "filter (\<lambda>y. key y = k) (queue_after key (map Enq xs) ys)
    = filter (\<lambda>y. key y = k) ys @ filter (\<lambda>y. key y = k) xs"
  using assms
proof (induction xs arbitrary: ys)
  case (Cons x xs)
  let ?zs = "pinsert (\<lambda>y. key y < key x) x ys"
  have "filter (\<lambda>y. key y = k) ?zs = filter (\<lambda>y. key y = k) ys @ (if key x = k then [x] else [])"
    using filter_pinsert_same [OF Cons.prems, of x] by (auto simp: filter_pinsert_other)
  with Cons.IH [OF descending_pinsert [OF Cons.prems]] show ?case by simp
qed simp

section \<open>The contracts\<close>

locale prio_queue =
  fixes holds :: "'q \<Rightarrow> 'x list \<Rightarrow> bool"
    and enq :: "'x \<Rightarrow> 'q \<Rightarrow> 'q option"
    and front :: "'q \<Rightarrow> 'x option"
    and key :: "'x \<Rightarrow> 'p::linorder"
    and fits :: "'x list \<Rightarrow> 'x \<Rightarrow> bool"
  assumes enq_law: "\<lbrakk>holds q xs; fits xs x\<rbrakk> \<Longrightarrow>
      \<exists>q'. enq x q = Some q' \<and> holds q' (pinsert (\<lambda>y. key y < key x) x xs)"
    and front_law: "holds q xs \<Longrightarrow> front q = (case xs of [] \<Rightarrow> None | x # _ \<Rightarrow> Some x)"
begin

lemma front_is_max:
  assumes "holds q xs" "descending key xs" "xs \<noteq> []"
  shows "\<exists>x. front q = Some x \<and> x \<in> set xs \<and> (\<forall>y \<in> set xs. key y \<le> key x)"
  using assms front_law [OF assms(1)] by (cases xs) auto

text \<open>Entries added one after the other.\<close>

lemma enq_all_holds:
  assumes "holds q ys" "legal_ops key fits may (map Enq xs) ys"
  shows "\<exists>q'. enq_all enq xs q = Some q' \<and> holds q' (queue_after key (map Enq xs) ys)"
  using assms
proof (induction xs arbitrary: q ys)
  case (Cons x xs)
  then obtain q1 where "enq x q = Some q1" "holds q1 (pinsert (\<lambda>y. key y < key x) x ys)"
    using enq_law [OF Cons.prems(1), of x] by auto
  with Cons.IH Cons.prems(2) show ?case by simp
qed simp

end

text \<open>A queue from which any entry can be taken out, when \<open>may\<close> allows it.\<close>

locale prio_queue_del = prio_queue +
  fixes del :: "'b \<Rightarrow> 'a \<Rightarrow> 'a option"
    and may :: "'b list \<Rightarrow> 'b \<Rightarrow> bool"
  assumes del_law: "\<lbrakk>holds q xs; may xs x\<rbrakk> \<Longrightarrow> \<exists>q'. del x q = Some q' \<and> holds q' (remove1 x xs)"
begin

lemma run_holds:
  assumes "holds q xs" "legal_ops key fits may ops xs"
  shows "\<exists>q'. run_ops enq del ops q = Some q' \<and> holds q' (queue_after key ops xs)"
  using assms
proof (induction ops arbitrary: q xs)
  case (Cons op ops)
  show ?case
  proof (cases op)
    case (Enq x)
    then obtain q1 where "enq x q = Some q1" "holds q1 (pinsert (\<lambda>y. key y < key x) x xs)"
      using enq_law Cons.prems by fastforce
    with Enq Cons show ?thesis by simp
  next
    case (Del x)
    then obtain q1 where "del x q = Some q1" "holds q1 (remove1 x xs)"
      using del_law Cons.prems by fastforce
    with Del Cons show ?thesis by simp
  qed
qed simp

lemma run_front:
  assumes "holds q xs" "descending key xs" "legal_ops key fits may ops xs" "queue_after key ops xs \<noteq> []"
  shows "\<exists>q' x. run_ops enq del ops q = Some q' \<and> front q' = Some x \<and> x \<in> set (queue_after key ops xs) \<and>
    (\<forall>y \<in> set (queue_after key ops xs). key y \<le> key x)"
  using run_holds [OF assms(1,3)] front_is_max [OF _ descending_queue_after [OF assms(2)] assms(4)]
  by blast

end

text \<open>A queue that is emptied from its head.\<close>

locale prio_queue_pop = prio_queue +
  fixes pop :: "'a \<Rightarrow> ('b \<times> 'a) option"
  assumes pop_law: "holds q (x # xs) \<Longrightarrow> \<exists>q'. pop q = Some (x, q') \<and> holds q' xs"
begin

lemma drain_holds: "holds q xs \<Longrightarrow> \<exists>q'. drain pop (length xs) q = Some (xs, q') \<and> holds q' []"
proof (induction xs arbitrary: q)
  case (Cons x xs)
  then obtain q1 where "pop q = Some (x, q1)" "holds q1 xs" using pop_law by blast
  with Cons.IH show ?case by fastforce
qed auto

text \<open>What goes in comes out by priority, and in order of arrival within a priority.\<close>

lemma service_order:
  assumes "holds q []" "legal_ops key fits may (map Enq xs) []"
  shows "\<exists>q1 q2 ys. enq_all enq xs q = Some q1 \<and> drain pop (length xs) q1 = Some (ys, q2) \<and> holds q2 [] \<and>
    descending key ys \<and> (\<forall>k. filter (\<lambda>y. key y = k) ys = filter (\<lambda>y. key y = k) xs)"
proof -
  let ?ys = "queue_after key (map Enq xs) []"
  obtain q1 where q1: "enq_all enq xs q = Some q1" "holds q1 ?ys"
    using enq_all_holds [OF assms] by blast
  then obtain q2 where "drain pop (length xs) q1 = Some (?ys, q2)" "holds q2 []"
    using drain_holds [OF q1(2)] by auto
  moreover have "descending key ?ys" by (rule descending_queue_after) simp
  ultimately show ?thesis using q1(1) filter_queue_after [of key "[]" k xs for k] by auto
qed

end

end
