(* ===== verification/Nrk_ReadyQ.thy ===== *)
theory Nrk_ReadyQ
  imports Nrk_Tcb Nrk_PrioQueue
begin

text \<open>
  The ready queue of \<^verbatim>\<open>src/src/kernel/source/nrk_task.c\<close>: a doubly linked list threaded
  through the static array \<^verbatim>\<open>_nrk_readyQ[NRK_MAX_TASKS+1]\<close>, with a second, singly linked
  list of the unused nodes. The model keeps the pointers: a node is named by its index in
  the array, \<open>None\<close> is \<^verbatim>\<open>NULL\<close>, and each field of the node struct is a function of
  the index (fields of a struct never alias). The theory shows that the pointer code
  implements insertion into and removal from a list of task numbers ordered by priority,
  and exactly where it dereferences \<^verbatim>\<open>NULL\<close>.
\<close>

section \<open>The pointer structure and its operations\<close>

record readyq =
  q_task_ID :: "nat \<Rightarrow> u8"
  q_Prev :: "nat \<Rightarrow> nat option"
  q_Next :: "nat \<Rightarrow> nat option"
  head_node :: "nat option"
  free_node :: "nat option"

definition nrk_get_high_ready_task_ID :: "readyq \<Rightarrow> u8 option" where
  "nrk_get_high_ready_task_ID q = do { h \<leftarrow> head_node q; Some (q_task_ID q h) }"

text \<open>
  The three tests of the search loop, for the queued task \<open>nt\<close> and the task \<open>ct\<close>
  that is being added.
\<close>

definition less_urgent :: "NRK_TCB \<Rightarrow> NRK_TCB \<Rightarrow> bool" where
  "less_urgent nt ct \<longleftrightarrow>
     elevated_prio_flag nt \<and> task_prio_ceil nt < task_prio ct \<or>
     elevated_prio_flag ct \<and> task_prio nt < task_prio_ceil ct \<or>
     task_prio nt < task_prio ct"

definition slot_test :: "NRK_TCB list \<Rightarrow> i8 \<Rightarrow> u8 \<Rightarrow> bool option" where
  "slot_test tcbs tid nid = do {
     nt \<leftarrow> at tcbs (uint nid);
     ct \<leftarrow> at tcbs (sint tid);
     Some (less_urgent nt ct)
   }"

partial_function (option) find_slot ::
    "(u8 \<Rightarrow> bool option) \<Rightarrow> readyq \<Rightarrow> nat option \<Rightarrow> nat option option" where
  "find_slot stop q p =
     (case p of
        None \<Rightarrow> Some None
      | Some a \<Rightarrow> do {
          b \<leftarrow> stop (q_task_ID q a);
          if b then Some (Some a) else find_slot stop q (q_Next q a)
        })"

declare find_slot.simps [code]

text \<open>
  \<open>cur\<close> is \<^verbatim>\<open>CurNode\<close>, \<open>nxt\<close> is \<^verbatim>\<open>NextNode\<close>. Every assignment is made in the
  order of the source; a field access through a \<^verbatim>\<open>NULL\<close> pointer gives \<open>None\<close>.
\<close>

definition nrk_add_to_readyQ :: "NRK_TCB list \<Rightarrow> i8 \<Rightarrow> readyq \<Rightarrow> readyq option" where
  "nrk_add_to_readyQ tcbs tid q =
     (case free_node q of
        None \<Rightarrow> Some q
      | Some cur \<Rightarrow> do {
          nxt \<leftarrow> (if head_node q \<noteq> None then find_slot (slot_test tcbs tid) q (head_node q)
                  else Some (head_node q));
          let q = q\<lparr>q_task_ID := (q_task_ID q)(cur := tid), free_node := q_Next q cur\<rparr>;
          if nxt = head_node q then
            (case head_node q of
               Some h \<Rightarrow>
                 Some (q\<lparr>q_Next := (q_Next q)(cur := Some h),
                         q_Prev := ((q_Prev q)(cur := None))(h := Some cur),
                         head_node := Some cur\<rparr>)
             | None \<Rightarrow> do {
                 f \<leftarrow> free_node q;
                 Some (q\<lparr>q_Next := (q_Next q)(cur := None),
                         q_Prev := ((q_Prev q)(cur := None))(f := Some cur),
                         head_node := Some cur\<rparr>)
               })
          else if nxt \<noteq> free_node q then do {
            n \<leftarrow> nxt;
            p \<leftarrow> q_Prev q n;
            Some (q\<lparr>q_Next := ((q_Next q)(cur := Some n))(p := Some cur),
                    q_Prev := ((q_Prev q)(cur := Some p))(n := Some cur)\<rparr>)
          }
          else do {
            f \<leftarrow> free_node q;
            Some (q\<lparr>q_Next := (q_Next q)(cur := None),
                    q_Prev := ((q_Prev q)(cur := q_Prev q f))(f := Some cur)\<rparr>)
          }
        })"

partial_function (option) find_task :: "i8 \<Rightarrow> readyq \<Rightarrow> nat option \<Rightarrow> nat option option" where
  "find_task tid q p =
     (case p of
        None \<Rightarrow> Some None
      | Some a \<Rightarrow>
          if uint (q_task_ID q a) \<noteq> sint tid then find_task tid q (q_Next q a)
          else Some (Some a))"

declare find_task.simps [code]

text \<open>The node goes to the front of the free list.\<close>

definition free_readyQ_node :: "nat \<Rightarrow> readyq \<Rightarrow> readyq" where
  "free_readyQ_node cur q =
     (case free_node q of
        None \<Rightarrow> q\<lparr>free_node := Some cur, q_Next := (q_Next q)(cur := None),
                 q_Prev := (q_Prev q)(cur := None)\<rparr>
      | Some f \<Rightarrow> q\<lparr>q_Next := (q_Next q)(cur := Some f),
                   q_Prev := ((q_Prev q)(f := Some cur))(cur := None),
                   free_node := Some cur\<rparr>)"

definition nrk_rem_from_readyQ :: "i8 \<Rightarrow> readyq \<Rightarrow> readyq option" where
  "nrk_rem_from_readyQ tid q =
     (case head_node q of
        None \<Rightarrow> Some q
      | Some h \<Rightarrow>
          if uint (q_task_ID q h) = sint tid then do {
            let q = q\<lparr>head_node := q_Next q h\<rparr>;
            h' \<leftarrow> head_node q;
            let q = q\<lparr>q_Prev := (q_Prev q)(h' := None)\<rparr>;
            Some (free_readyQ_node h q)
          }
          else do {
            c \<leftarrow> find_task tid q (head_node q);
            case c of
              None \<Rightarrow> Some q
            | Some cur \<Rightarrow> do {
                p \<leftarrow> q_Prev q cur;
                let q = q\<lparr>q_Next := (q_Next q)(p := q_Next q cur)\<rparr>;
                let q = (case q_Next q cur of
                           None \<Rightarrow> q
                         | Some n \<Rightarrow> q\<lparr>q_Prev := (q_Prev q)(n := q_Prev q cur)\<rparr>);
                Some (free_readyQ_node cur q)
              }
          })"

text \<open>
  The ready queue as \<^verbatim>\<open>nrk_init\<close> leaves it: every node of the array on the free list,
  \<open>n\<close> being \<^verbatim>\<open>NRK_MAX_TASKS\<close>.
\<close>

definition init_readyQ :: "nat \<Rightarrow> readyq \<Rightarrow> readyq" where
  "init_readyQ n q =
     q\<lparr>q_Next := (\<lambda>i. if i < n then Some (i + 1) else if i = n then None else q_Next q i),
       q_Prev := (\<lambda>i. if i = 0 then None else if i \<le> n then Some (i - 1) else q_Prev q i),
       head_node := None,
       free_node := Some 0\<rparr>"

section \<open>Well-formed queues\<close>

definition readyq_ok :: "nat \<Rightarrow> readyq \<Rightarrow> nat list \<Rightarrow> nat list \<Rightarrow> bool" where
  "readyq_ok n q as fs \<longleftrightarrow>
     dll (q_Next q) (q_Prev q) None (head_node q) as \<and> sll (q_Next q) (free_node q) fs \<and>
     distinct (as @ fs) \<and> set (as @ fs) = {..n}"

text \<open>
  The abstraction: the ready queue holds the task numbers \<open>ids\<close>, in that order, in an
  array of \<open>n + 1\<close> nodes.
\<close>

definition readyq_rel :: "nat \<Rightarrow> readyq \<Rightarrow> u8 list \<Rightarrow> bool" where
  "readyq_rel n q ids \<longleftrightarrow> (\<exists>as fs. readyq_ok n q as fs \<and> ids = map (q_task_ID q) as)"

section \<open>The search loops\<close>

lemma find_slot_list:
  assumes "sll (q_Next q) p as" "\<forall>a \<in> set as. stop (q_task_ID q a) = Some (b a)"
  shows "find_slot stop q p =
    Some (case dropWhile (\<lambda>a. \<not> b a) as of [] \<Rightarrow> None | a # _ \<Rightarrow> Some a)"
  using assms
proof (induction as arbitrary: p)
  case Nil
  then show ?case by (simp add: find_slot.simps)
next
  case (Cons a as)
  then show ?case by (simp add: find_slot.simps [of _ _ "Some a"])
qed

lemma find_task_list:
  assumes "sll (q_Next q) p as"
  shows "find_task tid q p =
    Some (case dropWhile (\<lambda>a. uint (q_task_ID q a) \<noteq> sint tid) as of [] \<Rightarrow> None | a # _ \<Rightarrow> Some a)"
  using assms
proof (induction as arbitrary: p)
  case Nil
  then show ?case by (simp add: find_task.simps)
next
  case (Cons a as)
  then show ?case by (simp add: find_task.simps [of _ _ "Some a"])
qed

section \<open>What the operations do to the list of ready tasks\<close>

text \<open>\<open>stops tcbs t i\<close>: the search for the place of task \<open>t\<close> stops at task \<open>i\<close>.\<close>

definition stops :: "NRK_TCB list \<Rightarrow> i8 \<Rightarrow> u8 \<Rightarrow> bool" where
  "stops tcbs t i = less_urgent (tcbs ! unat i) (tcbs ! unat t)"

definition valid_task :: "NRK_TCB list \<Rightarrow> i8 \<Rightarrow> bool" where
  "valid_task tcbs t \<longleftrightarrow> 0 \<le> sint t \<and> unat t < length tcbs"

lemma valid_taskD: "valid_task tcbs t \<Longrightarrow> 0 \<le> sint t" "valid_task tcbs t \<Longrightarrow> unat t < length tcbs"
  by (simp_all add: valid_task_def)

lemma slot_test_stops:
  "unat i < length tcbs \<Longrightarrow> valid_task tcbs t \<Longrightarrow> slot_test tcbs t i = Some (stops tcbs t i)"
  by (simp add: slot_test_def stops_def valid_task_def)

lemma readyq_okD:
  assumes "readyq_ok n q as fs"
  shows "dll (q_Next q) (q_Prev q) None (head_node q) as" "sll (q_Next q) (head_node q) as"
    "sll (q_Next q) (free_node q) fs" "distinct as" "distinct fs" "set as \<inter> set fs = {}"
    "set as \<union> set fs = {..n}" "length as + length fs = Suc n"
proof -
  from assms have d: "distinct (as @ fs)" "set (as @ fs) = {..n}" by (simp_all add: readyq_ok_def)
  then have "length (as @ fs) = card {..n}" by (metis distinct_card)
  then show "length as + length fs = Suc n" by simp
  show "sll (q_Next q) (head_node q) as"
    using assms dll_sll by (auto simp: readyq_ok_def)
qed (use assms in \<open>auto simp: readyq_ok_def\<close>)

lemma readyq_relI: "readyq_ok n q as fs \<Longrightarrow> ids = map (q_task_ID q) as \<Longrightarrow> readyq_rel n q ids"
  by (auto simp: readyq_rel_def)

lemma readyq_relE:
  assumes "readyq_rel n q ids"
  obtains as fs where "readyq_ok n q as fs" "ids = map (q_task_ID q) as"
  using assms by (auto simp: readyq_rel_def)

lemma head_of_rel:
  assumes "readyq_rel n q ids"
  shows "nrk_get_high_ready_task_ID q = (case ids of [] \<Rightarrow> None | i # _ \<Rightarrow> Some i)"
proof -
  obtain as fs where ok: "readyq_ok n q as fs" "ids = map (q_task_ID q) as"
    using assms by (rule readyq_relE)
  show ?thesis
    using readyq_okD(2) [OF ok(1)] ok(2)
    by (cases as) (auto simp: nrk_get_high_ready_task_ID_def)
qed

lemma head_node_of_rel: "readyq_rel n q ids \<Longrightarrow> head_node q = None \<longleftrightarrow> ids = []"
  using readyq_okD(2) by (elim readyq_relE) (metis list.map_disc_iff sll.simps(1) sll_None)

lemma add_full_queue:
  assumes "readyq_rel n q ids" "length ids = Suc n"
  shows "nrk_add_to_readyQ tcbs t q = Some q"
proof -
  obtain as fs where ok: "readyq_ok n q as fs" "ids = map (q_task_ID q) as"
    using assms(1) by (rule readyq_relE)
  then have "fs = []" using assms(2) readyq_okD(8) [OF ok(1)] by simp
  then show ?thesis using readyq_okD(3) [OF ok(1)] by (simp add: nrk_add_to_readyQ_def)
qed

lemma find_slot_rel:
  assumes "readyq_ok n q as fs" "valid_task tcbs t"
    "\<forall>a \<in> set as. unat (q_task_ID q a) < length tcbs"
  shows "find_slot (slot_test tcbs t) q (head_node q) =
    Some (case dropWhile (\<lambda>a. \<not> stops tcbs t (q_task_ID q a)) as of [] \<Rightarrow> None | a # _ \<Rightarrow> Some a)"
  by (rule find_slot_list) (use assms readyq_okD(2) slot_test_stops in blast)+

lemma add_at_head:
  assumes ok: "readyq_ok n q as (c # fs)" and t: "valid_task tcbs t"
    and ids: "\<forall>a \<in> set as. unat (q_task_ID q a) < length tcbs"
    and hd: "if as = [] then fs \<noteq> [] else stops tcbs t (q_task_ID q (hd as))"
  shows "\<exists>q'. nrk_add_to_readyQ tcbs t q = Some q' \<and> readyq_ok n q' (c # as) fs
    \<and> q_task_ID q' = (q_task_ID q)(c := t)"
proof (cases as)
  case Nil
  then obtain f fs' where "fs = f # fs'" using hd by (cases fs) auto
  with Nil ok show ?thesis
    by (auto simp: nrk_add_to_readyQ_def readyq_ok_def)
next
  case (Cons h as')
  then have slot: "find_slot (slot_test tcbs t) q (head_node q) = Some (Some h)"
    using find_slot_rel [OF ok t ids] hd by simp
  have "dll ((q_Next q)(c \<mapsto> h)) ((q_Prev q)(c := None, h \<mapsto> c)) (Some h) (q_Next q h) as'
      = dll (q_Next q) (q_Prev q) (Some h) (q_Next q h) as'"
    by (rule dll_agree) (use ok Cons in \<open>auto simp: readyq_ok_def\<close>)
  with ok Cons slot show ?thesis
    by (auto simp: nrk_add_to_readyQ_def readyq_ok_def fun_upd_same fun_upd_other
             simp del: fun_upd_apply)
qed

lemma add_in_middle:
  assumes ok: "readyq_ok n q (xs @ m # ys) (c # fs)" and t: "valid_task tcbs t"
    and ids: "\<forall>a \<in> set (xs @ m # ys). unat (q_task_ID q a) < length tcbs"
    and xs: "xs \<noteq> []" "\<forall>a \<in> set xs. \<not> stops tcbs t (q_task_ID q a)"
    and m: "stops tcbs t (q_task_ID q m)"
  shows "\<exists>q'. nrk_add_to_readyQ tcbs t q = Some q' \<and> readyq_ok n q' (xs @ c # m # ys) fs
    \<and> q_task_ID q' = (q_task_ID q)(c := t)"
proof -
  note D = readyq_okD [OF ok]
  have slot: "find_slot (slot_test tcbs t) q (head_node q) = Some (Some m)"
    using find_slot_rel [OF ok t ids] xs m by (simp add: dropWhile_append)
  have d: "distinct (xs @ m # ys)" "c \<notin> set (xs @ m # ys)" using D by auto
  note ins = dll_insert [OF D(1) xs(1) d]
  have hd: "head_node q = Some (hd xs)" "hd xs \<noteq> m" "last xs \<noteq> c" "c \<noteq> m"
    using D(2) xs(1) d by (cases xs; auto)+
  have fr: "free_node q = Some c" "sll (q_Next q) (q_Next q c) fs" "Some m \<noteq> q_Next q c"
    using D(3,5,6) by (cases fs; auto)+
  have "sll ((q_Next q)(c := Some m, last xs := Some c)) (q_Next q c) fs
      = sll (q_Next q) (q_Next q c) fs"
    using D(5,6) xs(1) by (intro trans [OF sll_frame sll_frame]) (auto simp: disjoint_iff)
  with fr ins D(7) ok hd slot show ?thesis
    by (auto simp: nrk_add_to_readyQ_def readyq_ok_def fun_upd_same fun_upd_other
             simp del: fun_upd_apply)
qed

lemma add_at_end:
  assumes ok: "readyq_ok n q as (c # fs)" and t: "valid_task tcbs t"
    and ids: "\<forall>a \<in> set as. unat (q_task_ID q a) < length tcbs"
    and as: "as \<noteq> []" "\<forall>a \<in> set as. \<not> stops tcbs t (q_task_ID q a)"
  shows "nrk_add_to_readyQ tcbs t q = None"
proof -
  have dw: "dropWhile (\<lambda>a. \<not> stops tcbs t (q_task_ID q a)) as = []" using as by simp
  have "find_slot (slot_test tcbs t) q (head_node q) = Some None"
    using find_slot_rel [OF ok t ids] unfolding dw by simp
  moreover have "head_node q \<noteq> None" "free_node q = Some c"
    using readyq_okD(2,3) [OF ok] as(1) by (cases as; auto)+
  ultimately show ?thesis by (auto simp: nrk_add_to_readyQ_def Let_def)
qed

text \<open>
  The three together: adding a task to a queue with room is priority insertion, except that
  a non-empty queue in which no task is less urgent than the new one makes the code write
  through \<^verbatim>\<open>NULL\<close>.
\<close>

lemma add_readyq:
  assumes rel: "readyq_rel n q ids" and t: "valid_task tcbs t"
    and ids: "\<forall>i \<in> set ids. unat i < length tcbs" and room: "length ids \<le> n" "0 < n"
  shows "if ids \<noteq> [] \<and> (\<forall>i \<in> set ids. \<not> stops tcbs t i) then nrk_add_to_readyQ tcbs t q = None
    else \<exists>q'. nrk_add_to_readyQ tcbs t q = Some q' \<and> readyq_rel n q' (pinsert (stops tcbs t) t ids)"
proof -
  obtain as fs where ok: "readyq_ok n q as fs" and ids': "ids = map (q_task_ID q) as"
    using rel by (rule readyq_relE)
  have as: "\<forall>a \<in> set as. unat (q_task_ID q a) < length tcbs" using ids ids' by auto
  obtain c fs' where fs: "fs = c # fs'"
    using readyq_okD(8) [OF ok] room ids' by (cases fs) auto
  note ok = ok [unfolded fs]
  have c: "c \<notin> set as" using readyq_okD(6) [OF ok] by auto
  let ?p = "\<lambda>a. stops tcbs t (q_task_ID q a)"
  have eq: "q_task_ID q' = (q_task_ID q)(c := t) \<Longrightarrow>
      map (q_task_ID q') (pinsert ?p c as) = pinsert (stops tcbs t) t ids" for q'
    using c ids' by (induction as arbitrary: ids) auto
  show ?thesis
  proof (cases "as \<noteq> [] \<and> (\<forall>a \<in> set as. \<not> ?p a)")
    case True
    then show ?thesis using add_at_end [OF ok t as] ids' by simp
  next
    case False
    have "\<exists>q' fs''. nrk_add_to_readyQ tcbs t q = Some q' \<and> readyq_ok n q' (pinsert ?p c as) fs''
        \<and> q_task_ID q' = (q_task_ID q)(c := t)"
    proof (cases "as = [] \<or> ?p (hd as)")
      case True
      have "as = [] \<longrightarrow> fs' \<noteq> []"
        using readyq_okD(8) [OF ok] room by (cases fs') auto
      then have "if as = [] then fs' \<noteq> [] else ?p (hd as)" using True by auto
      moreover have "pinsert ?p c as = c # as" using True by (cases as) auto
      ultimately show ?thesis using add_at_head [OF ok t as] by metis
    next
      case F: False
      define xs where "xs = takeWhile (\<lambda>a. \<not> ?p a) as"
      obtain m ys where my: "dropWhile (\<lambda>a. \<not> ?p a) as = m # ys"
        using False F by (cases "dropWhile (\<lambda>a. \<not> ?p a) as") (auto simp: dropWhile_eq_Nil_conv)
      have "as = xs @ m # ys" using my xs_def by (metis takeWhile_dropWhile_id)
      moreover have "xs \<noteq> []" using F by (cases as) (auto simp: xs_def)
      moreover have "\<forall>a \<in> set xs. \<not> ?p a" by (auto simp: xs_def dest: set_takeWhileD)
      moreover have "?p m" using hd_dropWhile [of "\<lambda>a. \<not> ?p a" as] my by simp
      moreover have "pinsert ?p c as = xs @ c # m # ys" by (simp add: pinsert_def my xs_def)
      ultimately show ?thesis using add_in_middle [of n q xs m ys c fs' tcbs t] ok t as by auto
    qed
    then obtain q' fs'' where q': "nrk_add_to_readyQ tcbs t q = Some q'"
      "readyq_ok n q' (pinsert ?p c as) fs''" "q_task_ID q' = (q_task_ID q)(c := t)" by blast
    then have "readyq_rel n q' (pinsert (stops tcbs t) t ids)"
      using readyq_relI [OF q'(2) eq [OF q'(3), symmetric]] by simp
    moreover have "\<not> (ids \<noteq> [] \<and> (\<forall>i \<in> set ids. \<not> stops tcbs t i))"
      using False ids' by simp
    ultimately show ?thesis using q'(1) by (simp only: if_False) blast
  qed
qed

subsection \<open>Removal\<close>

lemma free_readyQ_node_simps [simp]:
  "q_task_ID (free_readyQ_node c q) = q_task_ID q" "head_node (free_readyQ_node c q) = head_node q"
  "free_node (free_readyQ_node c q) = Some c"
  by (simp_all add: free_readyQ_node_def split: option.split)

lemma free_readyQ_node_ok:
  assumes "dll (q_Next q) (q_Prev q) None (head_node q) as" "sll (q_Next q) (free_node q) fs"
    "distinct (as @ c # fs)" "set (as @ c # fs) = {..n}"
  shows "readyq_ok n (free_readyQ_node c q) as (c # fs)"
proof (cases fs)
  case Nil
  with assms show ?thesis
    by (auto simp: readyq_ok_def free_readyQ_node_def)
next
  case (Cons f fs')
  have "dll ((q_Next q)(c := Some f)) ((q_Prev q)(f := Some c, c := None)) None (head_node q) as
      = dll (q_Next q) (q_Prev q) None (head_node q) as"
    by (rule dll_agree) (use assms Cons in auto)
  with Cons assms show ?thesis
    by (auto simp: readyq_ok_def free_readyQ_node_def fun_upd_same fun_upd_other
             simp del: fun_upd_apply)
qed

lemma rem_head:
  assumes ok: "readyq_ok n q (c # as) fs" and t: "uint (q_task_ID q c) = sint t"
  shows "if as = [] then nrk_rem_from_readyQ t q = None
    else \<exists>q'. nrk_rem_from_readyQ t q = Some q' \<and> readyq_ok n q' as (c # fs)
      \<and> q_task_ID q' = q_task_ID q"
proof (cases as)
  case Nil
  with readyq_okD(1) [OF ok] t show ?thesis by (simp add: nrk_rem_from_readyQ_def)
next
  case (Cons a as')
  note D = readyq_okD(1) [OF ok] readyq_okD(3) [OF ok]
  let ?q = "q\<lparr>head_node := Some a, q_Prev := (q_Prev q)(a := None)\<rparr>"
  have "a \<notin> set as'" using readyq_okD(4) [OF ok] Cons by simp
  then have "readyq_ok n (free_readyQ_node c ?q) as (c # fs)"
    using ok Cons by (intro free_readyQ_node_ok) (auto simp: readyq_ok_def)
  moreover have "nrk_rem_from_readyQ t q = Some (free_readyQ_node c ?q)"
    using D t Cons by (simp add: nrk_rem_from_readyQ_def Let_def)
  ultimately show ?thesis using Cons by simp
qed

lemma rem_later:
  assumes ok: "readyq_ok n q (xs @ c # ys) fs" and xs: "xs \<noteq> []"
    and t: "uint (q_task_ID q c) = sint t" "\<forall>a \<in> set xs. uint (q_task_ID q a) \<noteq> sint t"
  shows "\<exists>q'. nrk_rem_from_readyQ t q = Some q' \<and> readyq_ok n q' (xs @ ys) (c # fs)
    \<and> q_task_ID q' = q_task_ID q"
proof -
  note D = readyq_okD [OF ok]
  have del: "q_Prev q c = Some (last xs)"
      "q_Next q c = (case ys of [] \<Rightarrow> None | y # _ \<Rightarrow> Some y)"
      "dll ((q_Next q)(last xs := (case ys of [] \<Rightarrow> None | y # _ \<Rightarrow> Some y)))
        (case ys of [] \<Rightarrow> q_Prev q | y # _ \<Rightarrow> (q_Prev q)(y := Some (last xs))) None (head_node q) (xs @ ys)"
    using dll_delete [OF D(1) xs D(4)] by blast+
  let ?q1 = "q\<lparr>q_Next := (q_Next q)(last xs := q_Next q c)\<rparr>"
  let ?q2 = "case ys of [] \<Rightarrow> ?q1 | y # _ \<Rightarrow> ?q1\<lparr>q_Prev := (q_Prev q)(y := Some (last xs))\<rparr>"
  have hd: "head_node q = Some (hd xs)" using D(2) xs by (cases xs) auto
  have lst: "last xs \<noteq> c" "last xs \<notin> set fs" using D(4,6) xs by (auto simp: disjoint_iff)
  have find: "find_task t q (Some (hd xs)) = Some (Some c)"
    using find_task_list [OF D(2), of t] t hd by (simp add: dropWhile_append)
  have ne: "uint (q_task_ID q (hd xs)) \<noteq> sint t" using t xs by simp
  have "nrk_rem_from_readyQ t q = Some (free_readyQ_node c ?q2)"
    using find hd del(1,2) ne lst by (cases ys) (auto simp: nrk_rem_from_readyQ_def Let_def)
  moreover have "readyq_ok n (free_readyQ_node c ?q2) (xs @ ys) (c # fs)"
    using D del lst by (intro free_readyQ_node_ok) (cases ys; auto)+
  moreover have "q_task_ID ?q2 = q_task_ID q" by (cases ys) auto
  ultimately show ?thesis by simp
qed

lemma rem_absent:
  assumes ok: "readyq_ok n q as fs" and t: "\<forall>a \<in> set as. uint (q_task_ID q a) \<noteq> sint t"
  shows "nrk_rem_from_readyQ t q = Some q"
proof (cases as)
  case Nil
  with readyq_okD(1) [OF ok] show ?thesis by (simp add: nrk_rem_from_readyQ_def)
next
  case (Cons a as')
  have "dropWhile (\<lambda>a. uint (q_task_ID q a) \<noteq> sint t) as = []" using t by simp
  then have "find_task t q (head_node q) = Some None"
    using find_task_list [OF readyq_okD(2) [OF ok], of t] by (simp only: list.case)
  moreover have "head_node q = Some a" using readyq_okD(1) [OF ok] Cons by simp
  ultimately show ?thesis using t Cons by (simp add: nrk_rem_from_readyQ_def)
qed

text \<open>
  Removal takes the first occurrence of the task out of the list, and writes through
  \<^verbatim>\<open>NULL\<close> exactly when the task is the only one queued.
\<close>

lemma rem_readyq:
  assumes rel: "readyq_rel n q ids" and t: "0 \<le> sint t"
  shows "if ids = [t] then nrk_rem_from_readyQ t q = None
    else \<exists>q'. nrk_rem_from_readyQ t q = Some q' \<and> readyq_rel n q' (remove1 t ids)"
proof -
  obtain as fs where ok: "readyq_ok n q as fs" and ids': "ids = map (q_task_ID q) as"
    using rel by (rule readyq_relE)
  note eq = uint_eq_sint_iff [OF t]
  show ?thesis
  proof (cases "t \<in> set ids")
    case False
    then have "\<forall>a \<in> set as. uint (q_task_ID q a) \<noteq> sint t" using ids' eq by force
    then have "nrk_rem_from_readyQ t q = Some q" by (rule rem_absent [OF ok])
    with False rel show ?thesis by (auto simp: remove1_idem)
  next
    case True
    then obtain us vs where uv: "ids = us @ t # vs" "t \<notin> set us" by (meson split_list_first)
    then obtain xs c ys where s: "as = xs @ c # ys" "us = map (q_task_ID q) xs"
        "q_task_ID q c = t" "vs = map (q_task_ID q) ys"
      using ids' by (auto simp: map_eq_append_conv map_eq_Cons_conv)
    have rm: "remove1 t ids = map (q_task_ID q) (xs @ ys)"
      using uv s by (simp add: remove1_append)
    show ?thesis
    proof (cases xs)
      case Nil
      show ?thesis
      proof (cases ys)
        case Nil
        then show ?thesis using \<open>xs = []\<close> rem_head [of n q c ys fs t] ok s uv eq by simp
      next
        case (Cons y ys')
        then obtain q' where "nrk_rem_from_readyQ t q = Some q'" "readyq_ok n q' ys (c # fs)"
            "q_task_ID q' = q_task_ID q"
          using \<open>xs = []\<close> rem_head [of n q c ys fs t] ok s uv eq by auto
        moreover from this have "readyq_rel n q' (remove1 t ids)"
          using rm \<open>xs = []\<close> by (intro readyq_relI) auto
        ultimately show ?thesis using \<open>xs = []\<close> Cons s uv by auto
      qed
    next
      case (Cons x xs')
      moreover have "uint (q_task_ID q c) = sint t" "\<forall>a \<in> set xs. uint (q_task_ID q a) \<noteq> sint t"
        unfolding eq using s uv(2) by (auto simp: image_iff)
      ultimately obtain q' where "nrk_rem_from_readyQ t q = Some q'" "readyq_ok n q' (xs @ ys) (c # fs)"
          "q_task_ID q' = q_task_ID q"
        using rem_later [OF ok [unfolded s(1)]] by blast
      moreover from this have "readyq_rel n q' (remove1 t ids)" using rm by (intro readyq_relI) auto
      ultimately show ?thesis using Cons s uv by auto
    qed
  qed
qed

subsection \<open>The queue at boot\<close>

lemma sll_init:
  "k \<le> n \<Longrightarrow> sll (q_Next (init_readyQ n q)) (Some k) [k ..< Suc n]"
proof (induction "n - k" arbitrary: k)
  case 0
  then show ?case by (simp add: init_readyQ_def)
next
  case (Suc d)
  then have "sll (q_Next (init_readyQ n q)) (Some (Suc k)) [Suc k ..< Suc n]" by simp
  with Suc show ?case by (simp add: init_readyQ_def upt_conv_Cons del: upt_Suc)
qed

lemma init_readyQ_rel: "readyq_rel n (init_readyQ n q) []"
proof -
  have "readyq_ok n (init_readyQ n q) [] [0 ..< Suc n]"
    using sll_init [of 0 n q] by (auto simp: readyq_ok_def init_readyQ_def simp del: upt_Suc)
  then show ?thesis by (rule readyq_relI) simp
qed

section \<open>The ready queue as a priority queue\<close>

text \<open>
  For tasks that hold no semaphore (whose priority is not elevated), the ready queue meets
  the contract of \<^verbatim>\<open>Nrk_PrioQueue\<close> as long as the idle task, numbered 0 and with the
  lowest priority, stays in it.
\<close>

definition rq_task :: "NRK_TCB list \<Rightarrow> u8 \<Rightarrow> bool" where
  "rq_task T x \<longleftrightarrow> valid_task T x \<and> \<not> elevated_prio_flag (T ! unat x) \<and>
     (x \<noteq> 0 \<longrightarrow> task_prio (T ! 0) < task_prio (T ! unat x))"

definition rq_holds :: "NRK_TCB list \<Rightarrow> readyq \<Rightarrow> u8 list \<Rightarrow> bool" where
  "rq_holds T q xs \<longleftrightarrow> readyq_rel (length T) q xs \<and> distinct xs \<and> 0 \<in> set xs \<and> (\<forall>x \<in> set xs. rq_task T x)"

definition rq_key :: "NRK_TCB list \<Rightarrow> u8 \<Rightarrow> u8" where
  "rq_key T x = task_prio (T ! unat x)"

definition rq_fits :: "NRK_TCB list \<Rightarrow> u8 list \<Rightarrow> u8 \<Rightarrow> bool" where
  "rq_fits T xs x \<longleftrightarrow> x \<noteq> 0 \<and> x \<notin> set xs \<and> rq_task T x"

definition rq_may :: "u8 list \<Rightarrow> u8 \<Rightarrow> bool" where
  "rq_may xs x \<longleftrightarrow> x \<noteq> 0 \<and> 0 \<le> sint x"

lemma rq_stops:
  "rq_task T x \<Longrightarrow> rq_task T y \<Longrightarrow> stops T x y \<longleftrightarrow> rq_key T y < rq_key T x"
  by (simp add: stops_def less_urgent_def rq_task_def rq_key_def)

lemma distinct_small:
  assumes "distinct (xs :: u8 list)" "\<forall>x \<in> set xs. unat x < n"
  shows "length xs \<le> n"
proof -
  have "distinct (map unat xs)" using assms(1) by (simp add: distinct_map inj_on_def word_unat_eq_iff)
  moreover have "set (map unat xs) \<subseteq> {..< n}" using assms(2) by auto
  ultimately show ?thesis
    using card_mono [of "{..< n}" "set (map unat xs)"] distinct_card [of "map unat xs"] by simp
qed

interpretation rq: prio_queue_del "rq_holds T" "nrk_add_to_readyQ T" nrk_get_high_ready_task_ID
  "rq_key T" "rq_fits T" nrk_rem_from_readyQ rq_may
proof
  fix q xs x assume q: "rq_holds T q xs" and x: "rq_fits T xs x"
  have R: "readyq_rel (length T) q xs" and xs: "\<forall>y \<in> set xs. rq_task T y"
    and tx: "rq_task T x" and d: "distinct xs" and z: "0 \<in> set xs"
    using q x by (simp_all add: rq_holds_def rq_fits_def)
  have lt: "\<forall>y \<in> set xs. unat y < length T" using xs by (simp add: rq_task_def valid_task_def)
  have len: "length xs \<le> length T" "0 < length T" using distinct_small [OF d lt] z by (auto simp: Suc_le_eq)
  have "rq_task T 0" using xs z by blast
  then have "stops T x 0" using rq_stops [OF tx, of 0] tx x by (simp add: rq_fits_def rq_task_def rq_key_def)
  then have stop: "\<not> (xs \<noteq> [] \<and> (\<forall>y \<in> set xs. \<not> stops T x y))" using z by blast
  have "valid_task T x" using tx by (simp add: rq_task_def)
  from add_readyq [OF R this lt len] stop
  obtain q' where q': "nrk_add_to_readyQ T x q = Some q'"
      "readyq_rel (length T) q' (pinsert (stops T x) x xs)"
    by metis
  have "pinsert (stops T x) x xs = pinsert (\<lambda>y. rq_key T y < rq_key T x) x xs"
    using rq_stops [OF tx] xs by (intro pinsert_cong) blast
  then show "\<exists>q'. nrk_add_to_readyQ T x q = Some q' \<and>
      rq_holds T q' (pinsert (\<lambda>y. rq_key T y < rq_key T x) x xs)"
    using q' q x by (auto simp: rq_holds_def rq_fits_def distinct_pinsert)
next
  fix q xs assume "rq_holds T q xs"
  then show "nrk_get_high_ready_task_ID q = (case xs of [] \<Rightarrow> None | x # _ \<Rightarrow> Some x)"
    using head_of_rel by (auto simp: rq_holds_def split: list.split)
next
  fix q xs x assume q: "rq_holds T q xs" and x: "rq_may xs x"
  then have "xs \<noteq> [x]" "readyq_rel (length T) q xs" "0 \<le> sint x"
    by (auto simp: rq_holds_def rq_may_def)
  then obtain q' where "nrk_rem_from_readyQ x q = Some q'" "readyq_rel (length T) q' (remove1 x xs)"
    using rem_readyq by metis
  with q x show "\<exists>q'. nrk_rem_from_readyQ x q = Some q' \<and> rq_holds T q' (remove1 x xs)"
    by (auto simp: rq_holds_def rq_may_def)
qed

section \<open>Properties\<close>

text \<open>
  An example: an idle task and two tasks of priorities 5 and 9, the idle task queued in
  node 0 of four.
\<close>

definition ex_tasks :: "NRK_TCB list" where
  "ex_tasks = [make_tcb 0 READY 0 0 0, make_tcb 1 SUSPENDED 5 100 7, make_tcb 2 SUSPENDED 9 50 3]"

definition ex_readyq :: readyq where
  "ex_readyq = \<lparr>q_task_ID = (\<lambda>_. 0), q_Prev = (\<lambda>_. None),
     q_Next = (\<lambda>i. if i = 1 then Some 2 else if i = 2 then Some 3 else None),
     head_node = Some 0, free_node = Some 1\<rparr>"

lemma ex_readyq_rel: "readyq_rel 3 ex_readyq [0]"
proof -
  have "readyq_ok 3 ex_readyq [0] [1, 2, 3]"
    by (auto simp: readyq_ok_def ex_readyq_def)
  then show ?thesis by (rule readyq_relI) (simp add: ex_readyq_def)
qed

lemma ex_rq_holds: "rq_holds ex_tasks ex_readyq [0]"
  using ex_readyq_rel by (simp add: rq_holds_def rq_task_def valid_task_def ex_tasks_def numeral_3_eq_3)

text \<open>
  C4: Adding a task to the ready queue. In a queue that holds the tasks \<open>ids\<close> and has a
  free node, \<^verbatim>\<open>nrk_add_to_readyQ\<close> puts the task in front of the first task that is
  less urgent; when the queue is not empty and no task in it is less urgent, the code writes
  through \<^verbatim>\<open>NULL\<close>.
\<close>

theorem nrk_add_to_readyQ_inserts:
  assumes "readyq_rel n q ids" "valid_task tcbs t" "\<forall>i \<in> set ids. unat i < length tcbs"
    "length ids \<le> n" "0 < n"
  shows "if ids \<noteq> [] \<and> (\<forall>i \<in> set ids. \<not> stops tcbs t i) then nrk_add_to_readyQ tcbs t q = None
    else \<exists>q'. nrk_add_to_readyQ tcbs t q = Some q' \<and> readyq_rel n q' (pinsert (stops tcbs t) t ids)"
  using add_readyq [OF assms] .

theorem nrk_add_to_readyQ_inserts_witness:
  "\<exists>q'. nrk_add_to_readyQ ex_tasks 2 ex_readyq = Some q' \<and> readyq_rel 3 q' [2, 0]"
  using nrk_add_to_readyQ_inserts [OF ex_readyq_rel, of ex_tasks 2]
  by (simp add: ex_tasks_def valid_task_def stops_def less_urgent_def)

text \<open>
  C5: Removing a task from the ready queue takes its first occurrence out, and changes
  nothing for a task that is not queued; removing the only task of the queue writes through
  \<^verbatim>\<open>NULL\<close>.
\<close>

theorem nrk_rem_from_readyQ_removes:
  assumes "readyq_rel n q ids" "0 \<le> sint t"
  shows "if ids = [t] then nrk_rem_from_readyQ t q = None
    else \<exists>q'. nrk_rem_from_readyQ t q = Some q' \<and> readyq_rel n q' (remove1 t ids)"
  using rem_readyq [OF assms] .

theorem nrk_rem_from_readyQ_removes_witness:
  "nrk_rem_from_readyQ 0 ex_readyq = None"
  using nrk_rem_from_readyQ_removes [OF ex_readyq_rel, of 0] by simp

text \<open>
  C3: Runs of the ready queue. Starting from a queue in order that holds the idle task, any
  sequence of additions of tasks that are not queued and removals of tasks other than the
  idle task returns, and afterwards the head of the queue is a task of the highest priority
  queued.
\<close>

theorem ready_queue_runs:
  assumes "rq_holds T q xs" "descending (rq_key T) xs" "legal_ops (rq_key T) (rq_fits T) rq_may ops xs"
  shows "\<exists>q' i. run_ops (nrk_add_to_readyQ T) nrk_rem_from_readyQ ops q = Some q' \<and>
    rq_holds T q' (queue_after (rq_key T) ops xs) \<and> descending (rq_key T) (queue_after (rq_key T) ops xs) \<and>
    nrk_get_high_ready_task_ID q' = Some i \<and> i \<in> set (queue_after (rq_key T) ops xs) \<and>
    (\<forall>j \<in> set (queue_after (rq_key T) ops xs). rq_key T j \<le> rq_key T i)"
proof -
  obtain q' where q': "run_ops (nrk_add_to_readyQ T) nrk_rem_from_readyQ ops q = Some q'"
      "rq_holds T q' (queue_after (rq_key T) ops xs)"
    using rq.run_holds [OF assms(1,3)] by blast
  then have "queue_after (rq_key T) ops xs \<noteq> []" by (auto simp: rq_holds_def)
  then show ?thesis
    using q' rq.front_is_max [OF q'(2)] descending_queue_after [OF assms(2)] by blast
qed

theorem ready_queue_runs_witness:
  "\<exists>q' i. run_ops (nrk_add_to_readyQ ex_tasks) nrk_rem_from_readyQ [Enq 1, Enq 2, Del 1] ex_readyq = Some q' \<and>
    nrk_get_high_ready_task_ID q' = Some i \<and> i \<in> {2, 0} \<and> rq_key ex_tasks 2 \<le> rq_key ex_tasks i"
  using ready_queue_runs [OF ex_rq_holds, of "[Enq 1, Enq 2, Del 1]"]
  by (auto simp: rq_fits_def rq_may_def rq_task_def rq_key_def valid_task_def ex_tasks_def)

end
