(* ===== verification/Nrk_Kernel.thy ===== *)
theory Nrk_Kernel
  imports Nrk_ReadyQ
begin

text \<open>
  The kernel's global variables (\<^verbatim>\<open>src/src/kernel/include/nrk_defs.h\<close> and the globals the
  kernel's \<^verbatim>\<open>.c\<close> files declare) as one record, the build options as another, and
  the accesses through \<^verbatim>\<open>nrk_cur_task_TCB\<close>. A pointer into \<^verbatim>\<open>nrk_task_TCB\<close> is
  the index of the entry, \<open>None\<close> is \<^verbatim>\<open>NULL\<close>; a pointer to a semaphore is the
  index of its entry of \<^verbatim>\<open>nrk_sem_list\<close>, \<open>None\<close> being \<^verbatim>\<open>NULL\<close> or any address
  outside the list. \<^verbatim>\<open>NRK_MAX_TASKS\<close>, \<^verbatim>\<open>NRK_MAX_RESOURCE_CNT\<close> and
  \<^verbatim>\<open>NRK_MAX_SW_WDT\<close> are the lengths of the arrays they declare.
\<close>

section \<open>Build options\<close>

record nrk_cfg =
  opt_REPORT_ERRORS :: bool
  opt_HALT_ON_ERROR :: bool
  opt_HALT_AND_LOOP_ON_ERROR :: bool
  opt_REBOOT_ON_ERROR :: bool
  opt_SOFT_REBOOT_ON_ERROR :: bool
  opt_WATCHDOG :: bool
  opt_STACK_CHECK :: bool
  opt_STATS_TRACKER :: bool
  opt_SW_WDT :: bool
  opt_KERNEL_TEST :: bool
  opt_NO_POWER_DOWN :: bool
  opt_SUB_TICK_TIMING :: bool
  opt_IGNORE_EXT_RST_ERROR :: bool
  opt_IGNORE_BROWN_OUT_ERROR :: bool
  opt_STARTUP_VOLTAGE_CHECK :: bool
  RAMEND :: u16
  TCB_addr :: "nat \<Rightarrow> u16"

section \<open>Data\<close>

record nrk_sem_t =
  sem_count :: i8
  resource_ceiling :: i8
  sem_value :: i8

record nrk_task_stat_t =
  total_ticks :: u32
  min_exec_ticks :: u32
  max_exec_ticks :: u32
  last_exec_ticks :: u32
  swapped_in :: u32
  cur_ticks :: u32
  preempted :: u32
  violations :: u8
  overflow :: u8

text \<open>Function pointers are code addresses, \<open>0\<close> being \<^verbatim>\<open>NULL\<close>.\<close>

record nrk_sw_wdt_t =
  error_func :: u16
  wdt_active :: u8
  wdt_period :: nrk_time_t
  wdt_next_period :: nrk_time_t

record nrk_reserve =
  period_ticks :: u32
  set_time :: u32
  cur_time :: u32
  set_access :: i16
  cur_access :: i16
  res_active :: i8
  res_error :: u16

text \<open>
  What the kernel prints, call by call: the format string and the values of the arguments.
\<close>

datatype out_event = Kprintf string | Printf string "int list" | Putchar nat

record kernel =
  nrk_task_TCB :: "NRK_TCB list"
  nrk_readyQ :: readyq
  nrk_cur_task_TCB :: "nat option"
  nrk_cur_task_prio :: u8
  nrk_high_ready_TCB :: "nat option"
  nrk_high_ready_prio :: u8
  nrk_signal_list :: u32
  nrk_wakeup_signal :: i8
  nrk_sem_list :: "nrk_sem_t list"
  nrk_resource_cnt :: u8
  nrk_system_time :: nrk_time_t
  nrk_task_init_cnt :: u8
  nrk_cpu_state :: u8
  nrk_max_sleep_wakeup_time :: u8
  nrk_prev_timer_val :: u8
  OCR2A :: u8
  int_enabled :: bool
  watchdog_enabled :: bool
  error_task :: u8
  error_num :: u8
  cur_task_stats :: "nrk_task_stat_t list"
  nrk_stats_sleep_time :: nrk_time_t
  sw_wdts :: "nrk_sw_wdt_t list"
  nrk_reserves :: "nrk_reserve list"
  memory :: "u16 \<Rightarrow> u8"
  console :: "out_event list"

abbreviation NRK_MAX_TASKS :: "kernel \<Rightarrow> nat" where
  "NRK_MAX_TASKS k \<equiv> length (nrk_task_TCB k)"

abbreviation NRK_MAX_RESOURCE_CNT :: "kernel \<Rightarrow> nat" where
  "NRK_MAX_RESOURCE_CNT k \<equiv> length (nrk_sem_list k)"

definition CPU_ACTIVE :: u8 where "CPU_ACTIVE = 0"
definition CPU_IDLE :: u8 where "CPU_IDLE = 1"
definition CPU_SLEEP :: u8 where "CPU_SLEEP = 2"

definition STK_CANARY_VAL :: u8 where "STK_CANARY_VAL = 0x55"

definition MAX_SCHED_WAKEUP_TIME :: nat where "MAX_SCHED_WAKEUP_TIME = 250"
definition NRK_SLEEP_WAKEUP_TIME :: nat where "NRK_SLEEP_WAKEUP_TIME = 3"

section \<open>Interrupts and the wake-up compare register\<close>

definition nrk_int_disable :: "kernel \<Rightarrow> kernel" where
  "nrk_int_disable k = k\<lparr>int_enabled := False\<rparr>"

definition nrk_int_enable :: "kernel \<Rightarrow> kernel" where
  "nrk_int_enable k = k\<lparr>int_enabled := True\<rparr>"

definition nrk_get_next_wakeup :: "kernel \<Rightarrow> u8" where
  "nrk_get_next_wakeup k = OCR2A k + 1"

definition nrk_set_next_wakeup_reg :: "u8 \<Rightarrow> kernel \<Rightarrow> kernel" where
  "nrk_set_next_wakeup_reg nw k = k\<lparr>OCR2A := nw - 1\<rparr>"

section \<open>Task control blocks\<close>

text \<open>\<open>upd_tcb i f\<close> assigns to fields of \<^verbatim>\<open>nrk_task_TCB[i]\<close>.\<close>

definition upd_tcb :: "nat \<Rightarrow> (NRK_TCB \<Rightarrow> NRK_TCB) \<Rightarrow> kernel \<Rightarrow> kernel" where
  "upd_tcb i f k = k\<lparr>nrk_task_TCB := (nrk_task_TCB k)[i := f (nrk_task_TCB k ! i)]\<rparr>"

definition tcb_index :: "i8 \<Rightarrow> kernel \<Rightarrow> nat option" where
  "tcb_index t k = (if 0 \<le> sint t \<and> nat (sint t) < NRK_MAX_TASKS k then Some (nat (sint t)) else None)"

definition cur_tcb :: "kernel \<Rightarrow> NRK_TCB option" where
  "cur_tcb k = do { c \<leftarrow> nrk_cur_task_TCB k; at (nrk_task_TCB k) (int c) }"

definition upd_cur :: "(NRK_TCB \<Rightarrow> NRK_TCB) \<Rightarrow> kernel \<Rightarrow> kernel option" where
  "upd_cur f k = do { c \<leftarrow> nrk_cur_task_TCB k;
                      t \<leftarrow> at (nrk_task_TCB k) (int c);
                      Some (upd_tcb c f k) }"

text \<open>The ready-queue operations on the kernel state.\<close>

definition k_add_to_readyQ :: "i8 \<Rightarrow> kernel \<Rightarrow> kernel option" where
  "k_add_to_readyQ t k = do { q \<leftarrow> nrk_add_to_readyQ (nrk_task_TCB k) t (nrk_readyQ k);
                              Some (k\<lparr>nrk_readyQ := q\<rparr>) }"

definition k_rem_from_readyQ :: "i8 \<Rightarrow> kernel \<Rightarrow> kernel option" where
  "k_rem_from_readyQ t k = do { q \<leftarrow> nrk_rem_from_readyQ t (nrk_readyQ k);
                                Some (k\<lparr>nrk_readyQ := q\<rparr>) }"

section \<open>Frame facts\<close>

lemma upd_tcb_simps [simp, kstate_simps]:
  "nrk_task_TCB (upd_tcb i f k) = (nrk_task_TCB k)[i := f (nrk_task_TCB k ! i)]"
  "nrk_readyQ (upd_tcb i f k) = nrk_readyQ k"
  "nrk_cur_task_TCB (upd_tcb i f k) = nrk_cur_task_TCB k"
  "nrk_signal_list (upd_tcb i f k) = nrk_signal_list k"
  "nrk_wakeup_signal (upd_tcb i f k) = nrk_wakeup_signal k"
  "nrk_sem_list (upd_tcb i f k) = nrk_sem_list k"
  "nrk_resource_cnt (upd_tcb i f k) = nrk_resource_cnt k"
  "nrk_system_time (upd_tcb i f k) = nrk_system_time k"
  "nrk_prev_timer_val (upd_tcb i f k) = nrk_prev_timer_val k"
  "nrk_cpu_state (upd_tcb i f k) = nrk_cpu_state k"
  "OCR2A (upd_tcb i f k) = OCR2A k"
  "int_enabled (upd_tcb i f k) = int_enabled k"
  "error_num (upd_tcb i f k) = error_num k"
  "error_task (upd_tcb i f k) = error_task k"
  "cur_task_stats (upd_tcb i f k) = cur_task_stats k"
  "memory (upd_tcb i f k) = memory k"
  "nrk_task_init_cnt (upd_tcb i f k) = nrk_task_init_cnt k"
  "nrk_high_ready_TCB (upd_tcb i f k) = nrk_high_ready_TCB k"
  "nrk_reserves (upd_tcb i f k) = nrk_reserves k"
  "sw_wdts (upd_tcb i f k) = sw_wdts k"
  "console (upd_tcb i f k) = console k"
  by (simp_all add: upd_tcb_def)

lemma int_frame [simp, kstate_simps]:
  "nrk_task_TCB (nrk_int_disable k) = nrk_task_TCB k" "nrk_task_TCB (nrk_int_enable k) = nrk_task_TCB k"
  "nrk_readyQ (nrk_int_disable k) = nrk_readyQ k" "nrk_readyQ (nrk_int_enable k) = nrk_readyQ k"
  "nrk_cur_task_TCB (nrk_int_disable k) = nrk_cur_task_TCB k"
  "nrk_cur_task_TCB (nrk_int_enable k) = nrk_cur_task_TCB k"
  "nrk_signal_list (nrk_int_disable k) = nrk_signal_list k"
  "nrk_signal_list (nrk_int_enable k) = nrk_signal_list k"
  "nrk_sem_list (nrk_int_disable k) = nrk_sem_list k" "nrk_sem_list (nrk_int_enable k) = nrk_sem_list k"
  "nrk_resource_cnt (nrk_int_disable k) = nrk_resource_cnt k"
  "nrk_resource_cnt (nrk_int_enable k) = nrk_resource_cnt k"
  "nrk_prev_timer_val (nrk_int_disable k) = nrk_prev_timer_val k"
  "nrk_prev_timer_val (nrk_int_enable k) = nrk_prev_timer_val k"
  "nrk_system_time (nrk_int_disable k) = nrk_system_time k"
  "nrk_system_time (nrk_int_enable k) = nrk_system_time k"
  "OCR2A (nrk_int_disable k) = OCR2A k" "OCR2A (nrk_int_enable k) = OCR2A k"
  "int_enabled (nrk_int_disable k) = False" "int_enabled (nrk_int_enable k) = True"
  by (simp_all add: nrk_int_disable_def nrk_int_enable_def)

lemma upd_tcb_int [simp, kstate_simps]:
  "upd_tcb i f (nrk_int_disable k) = nrk_int_disable (upd_tcb i f k)"
  "upd_tcb i f (nrk_int_enable k) = nrk_int_enable (upd_tcb i f k)"
  by (simp_all add: upd_tcb_def nrk_int_disable_def nrk_int_enable_def)

text \<open>The state is sane: arrays of the sizes the 8-bit counters can run over.\<close>

definition kernel_sizes :: "kernel \<Rightarrow> bool" where
  "kernel_sizes k \<longleftrightarrow> 0 < NRK_MAX_TASKS k \<and> NRK_MAX_TASKS k \<le> 127 \<and>
     NRK_MAX_RESOURCE_CNT k \<le> 127 \<and> length (cur_task_stats k) = NRK_MAX_TASKS k"

definition running :: "kernel \<Rightarrow> nat \<Rightarrow> bool" where
  "running k c \<longleftrightarrow> nrk_cur_task_TCB k = Some c \<and> c < NRK_MAX_TASKS k"

lemma cur_tcb_running [simp]: "running k c \<Longrightarrow> cur_tcb k = Some (nrk_task_TCB k ! c)"
  by (simp add: cur_tcb_def running_def)

lemma upd_cur_running [simp]: "running k c \<Longrightarrow> upd_cur f k = Some (upd_tcb c f k)"
  by (simp add: upd_cur_def running_def)

lemma running_upd_tcb [simp]: "running (upd_tcb i f k) c = running k c"
  by (simp add: running_def)

lemma running_int [simp]:
  "running (nrk_int_disable k) c = running k c" "running (nrk_int_enable k) c = running k c"
  by (simp_all add: running_def)

lemma cur_tcb_None: "nrk_cur_task_TCB k = None \<Longrightarrow> cur_tcb k = None"
  by (simp add: cur_tcb_def)

lemma upd_cur_None: "nrk_cur_task_TCB k = None \<Longrightarrow> upd_cur f k = None"
  by (simp add: upd_cur_def)

section \<open>A state for examples\<close>

text \<open>
  The tasks and the ready queue of \<open>ex_tasks\<close> and \<open>ex_readyq\<close>, task \<open>c\<close>
  running, three unused semaphores.
\<close>

definition ex_cfg :: nrk_cfg where
  "ex_cfg = \<lparr>opt_REPORT_ERRORS = True, opt_HALT_ON_ERROR = False, opt_HALT_AND_LOOP_ON_ERROR = False,
     opt_REBOOT_ON_ERROR = False, opt_SOFT_REBOOT_ON_ERROR = False, opt_WATCHDOG = False,
     opt_STACK_CHECK = True, opt_STATS_TRACKER = True, opt_SW_WDT = False, opt_KERNEL_TEST = True,
     opt_NO_POWER_DOWN = False, opt_SUB_TICK_TIMING = False, opt_IGNORE_EXT_RST_ERROR = True,
     opt_IGNORE_BROWN_OUT_ERROR = False, opt_STARTUP_VOLTAGE_CHECK = False, RAMEND = 0x40FF,
     TCB_addr = (\<lambda>i. of_nat (0x200 + 64 * i))\<rparr>"

definition free_sem :: nrk_sem_t where
  "free_sem = \<lparr>sem_count = - 1, resource_ceiling = - 1, sem_value = - 1\<rparr>"

definition zero_stat :: nrk_task_stat_t where
  "zero_stat = \<lparr>total_ticks = 0, min_exec_ticks = 0, max_exec_ticks = 0, last_exec_ticks = 0,
     swapped_in = 0, cur_ticks = 0, preempted = 0, violations = 0, overflow = 0\<rparr>"

definition ex_kernel :: "nat \<Rightarrow> kernel" where
  "ex_kernel c =
     \<lparr>nrk_task_TCB = ex_tasks, nrk_readyQ = ex_readyq, nrk_cur_task_TCB = Some c, nrk_cur_task_prio = 0,
      nrk_high_ready_TCB = Some c, nrk_high_ready_prio = 0, nrk_signal_list = 1, nrk_wakeup_signal = 0,
      nrk_sem_list = [free_sem, free_sem, free_sem], nrk_resource_cnt = 0,
      nrk_system_time = \<lparr>secs = 0, nano_secs = 0\<rparr>, nrk_task_init_cnt = 3, nrk_cpu_state = CPU_ACTIVE,
      nrk_max_sleep_wakeup_time = 0, nrk_prev_timer_val = 10, OCR2A = 9, int_enabled = True,
      watchdog_enabled = False, error_task = 0, error_num = 0,
      cur_task_stats = [zero_stat, zero_stat, zero_stat],
      nrk_stats_sleep_time = \<lparr>secs = 0, nano_secs = 0\<rparr>, sw_wdts = [], nrk_reserves = [],
      memory = (\<lambda>_. STK_CANARY_VAL), console = []\<rparr>"

lemma ex_kernel_simps [simp]:
  "nrk_task_TCB (ex_kernel c) = ex_tasks" "nrk_readyQ (ex_kernel c) = ex_readyq"
  "nrk_cur_task_TCB (ex_kernel c) = Some c" "nrk_signal_list (ex_kernel c) = 1"
  "nrk_wakeup_signal (ex_kernel c) = 0" "nrk_sem_list (ex_kernel c) = [free_sem, free_sem, free_sem]"
  "nrk_resource_cnt (ex_kernel c) = 0" "cur_task_stats (ex_kernel c) = [zero_stat, zero_stat, zero_stat]"
  "nrk_system_time (ex_kernel c) = \<lparr>secs = 0, nano_secs = 0\<rparr>" "nrk_prev_timer_val (ex_kernel c) = 10"
  by (simp_all add: ex_kernel_def)

lemma ex_running: "c < 3 \<Longrightarrow> running (ex_kernel c) c"
  by (simp add: running_def ex_tasks_def)

end
