(* ===== verification/Nrk_Error.thy ===== *)
theory Nrk_Error
  imports Nrk_Kernel
begin

text \<open>
  Error recording and reporting, \<^verbatim>\<open>src/src/kernel/source/nrk_error.c\<close>: the per-task
  \<^verbatim>\<open>errno\<close>, the kernel's last error, the console message, what the build options make
  the kernel do about an error, and the Morse output. A build that halts or reboots never
  returns from the handler, which is \<open>None\<close>. The EEPROM log (\<^verbatim>\<open>NRK_LOG_ERRORS\<close>)
  is not modelled: no header of the repository defines the address it writes to.
\<close>

section \<open>Error numbers\<close>

definition NRK_UNKOWN :: u8 where "NRK_UNKOWN = 0"
definition NRK_STACK_OVERFLOW :: u8 where "NRK_STACK_OVERFLOW = 1"
definition NRK_RESERVE_ERROR :: u8 where "NRK_RESERVE_ERROR = 2"
definition NRK_RESERVE_VIOLATED :: u8 where "NRK_RESERVE_VIOLATED = 3"
definition NRK_WAKEUP_MISSED :: u8 where "NRK_WAKEUP_MISSED = 4"
definition NRK_DUP_TASK_ID :: u8 where "NRK_DUP_TASK_ID = 5"
definition NRK_BAD_STARTUP :: u8 where "NRK_BAD_STARTUP = 6"
definition NRK_EXTRA_TASK :: u8 where "NRK_EXTRA_TASK = 7"
definition NRK_STACK_SMASH :: u8 where "NRK_STACK_SMASH = 8"
definition NRK_LOW_VOLTAGE :: u8 where "NRK_LOW_VOLTAGE = 9"
definition NRK_SEG_FAULT :: u8 where "NRK_SEG_FAULT = 10"
definition NRK_TIMER_OVERFLOW :: u8 where "NRK_TIMER_OVERFLOW = 11"
definition NRK_DEVICE_DRIVER :: u8 where "NRK_DEVICE_DRIVER = 12"
definition NRK_UNIMPLEMENTED :: u8 where "NRK_UNIMPLEMENTED = 13"
definition NRK_SIGNAL_CREATE_ERROR :: u8 where "NRK_SIGNAL_CREATE_ERROR = 14"
definition NRK_SEMAPHORE_CREATE_ERROR :: u8 where "NRK_SEMAPHORE_CREATE_ERROR = 15"
definition NRK_WATCHDOG_ERROR :: u8 where "NRK_WATCHDOG_ERROR = 16"
definition NRK_STACK_TOO_SMALL :: u8 where "NRK_STACK_TOO_SMALL = 17"
definition NRK_INVALID_STACK_POINTER :: u8 where "NRK_INVALID_STACK_POINTER = 18"
definition NRK_BOD_ERROR :: u8 where "NRK_BOD_ERROR = 19"
definition NRK_EXT_RST_ERROR :: u8 where "NRK_EXT_RST_ERROR = 20"
definition NRK_SW_WATCHDOG_ERROR :: u8 where "NRK_SW_WATCHDOG_ERROR = 21"
definition NRK_PERIOD_OVERFLOW :: u8 where "NRK_PERIOD_OVERFLOW = 22"
definition NRK_NUM_ERRORS :: u8 where "NRK_NUM_ERRORS = 23"

lemmas error_defs = NRK_UNKOWN_def NRK_NUM_ERRORS_def
  NRK_PERIOD_OVERFLOW_def
  NRK_STACK_TOO_SMALL_def
  NRK_STACK_OVERFLOW_def
  NRK_INVALID_STACK_POINTER_def
  NRK_RESERVE_ERROR_def
  NRK_RESERVE_VIOLATED_def
  NRK_WAKEUP_MISSED_def
  NRK_DUP_TASK_ID_def
  NRK_BAD_STARTUP_def
  NRK_STACK_SMASH_def
  NRK_EXTRA_TASK_def
  NRK_LOW_VOLTAGE_def
  NRK_SEG_FAULT_def
  NRK_TIMER_OVERFLOW_def
  NRK_SW_WATCHDOG_ERROR_def
  NRK_WATCHDOG_ERROR_def
  NRK_DEVICE_DRIVER_def
  NRK_UNIMPLEMENTED_def
  NRK_SIGNAL_CREATE_ERROR_def
  NRK_SEMAPHORE_CREATE_ERROR_def
  NRK_BOD_ERROR_def
  NRK_EXT_RST_ERROR_def

section \<open>The error number of a task\<close>

definition nrk_errno_set :: "u8 \<Rightarrow> kernel \<Rightarrow> kernel option" where
  "nrk_errno_set e k = upd_cur (\<lambda>t. t\<lparr>errno := e\<rparr>) k"

definition nrk_errno_get :: "kernel \<Rightarrow> u8 option" where
  "nrk_errno_get k = map_option errno (cur_tcb k)"

section \<open>Reporting\<close>

definition error_text :: "u8 \<Rightarrow> string" where
  "error_text n =
     (if n = NRK_PERIOD_OVERFLOW then ''Task period too large. Period must be less than 61 seconds.''
      else if n = NRK_STACK_TOO_SMALL then ''Stack was not defined as large enough!''
      else if n = NRK_STACK_OVERFLOW then ''Task Stack Overflow''
      else if n = NRK_INVALID_STACK_POINTER then ''Invalid Stack Pointer''
      else if n = NRK_RESERVE_ERROR then ''Reserve Error in Scheduler''
      else if n = NRK_RESERVE_VIOLATED then ''Task Reserve Violated''
      else if n = NRK_WAKEUP_MISSED then ''Scheduler Missed Wakeup''
      else if n = NRK_DUP_TASK_ID then ''Duplicated Task ID''
      else if n = NRK_BAD_STARTUP then ''Unexpected Restart''
      else if n = NRK_STACK_SMASH then ''Idle or Kernel Stack Overflow''
      else if n = NRK_EXTRA_TASK then ''Extra Task started, is nrk_cfg.h ok?''
      else if n = NRK_LOW_VOLTAGE then ''Low Voltage''
      else if n = NRK_SEG_FAULT then ''Unhandled Interrupt Vector''
      else if n = NRK_TIMER_OVERFLOW then ''Timer Overflow''
      else if n = NRK_SW_WATCHDOG_ERROR then ''SW Watchdog Restart''
      else if n = NRK_WATCHDOG_ERROR then ''Watchdog Restart''
      else if n = NRK_DEVICE_DRIVER then ''Device Driver Error''
      else if n = NRK_UNIMPLEMENTED then ''Kernel function not implemented''
      else if n = NRK_SIGNAL_CREATE_ERROR then ''Failed to create Signal''
      else if n = NRK_SEMAPHORE_CREATE_ERROR then ''Failed to create Semaphore''
      else if n = NRK_BOD_ERROR then ''Brown Out Detect''
      else if n = NRK_EXT_RST_ERROR then ''External Reset''
      else ''UNKOWN'')"

definition nrk_watchdog_disable :: "kernel \<Rightarrow> kernel" where
  "nrk_watchdog_disable k = k\<lparr>watchdog_enabled := False\<rparr>"

definition nrk_watchdog_enable :: "kernel \<Rightarrow> kernel" where
  "nrk_watchdog_enable k = k\<lparr>watchdog_enabled := True\<rparr>"

text \<open>With \<^verbatim>\<open>NRK_HALT_AND_LOOP_ON_ERROR\<close> the body is an endless loop.\<close>

definition nrk_error_print :: "nrk_cfg \<Rightarrow> kernel \<Rightarrow> (u8 \<times> kernel) option" where
  "nrk_error_print cfg k =
     (if error_num k = 0 then Some (0, k)
      else if opt_HALT_AND_LOOP_ON_ERROR cfg then None
      else
        let n = (if NRK_NUM_ERRORS < error_num k then NRK_UNKOWN else error_num k)
        in Some (n, k\<lparr>error_num := n,
                    console := console k @
                      [Kprintf ''*NRK ERROR('', Printf ''%d'' [uint (error_task k)], Kprintf ''): '',
                       Kprintf (error_text n), Putchar 13, Putchar 10]\<rparr>))"

definition nrk_error_handle :: "nrk_cfg \<Rightarrow> kernel \<Rightarrow> kernel option" where
  "nrk_error_handle cfg k =
     (let k = (if opt_HALT_ON_ERROR cfg then
                 (if opt_WATCHDOG cfg then nrk_watchdog_disable (nrk_int_disable k)
                  else nrk_int_disable k)
               else k);
          k = (if opt_REBOOT_ON_ERROR cfg then nrk_watchdog_disable (nrk_int_disable k) else k)
      in if opt_SOFT_REBOOT_ON_ERROR cfg then None
      else if opt_REBOOT_ON_ERROR cfg \<and>
              error_num k \<notin> {NRK_WATCHDOG_ERROR, NRK_BOD_ERROR, NRK_EXT_RST_ERROR} then None
      else if opt_HALT_ON_ERROR cfg then None
      else Some (k\<lparr>error_num := 0\<rparr>))"

definition nrk_kernel_error_add :: "nrk_cfg \<Rightarrow> u8 \<Rightarrow> u8 \<Rightarrow> kernel \<Rightarrow> kernel option" where
  "nrk_kernel_error_add cfg n task k = do {
     let k = k\<lparr>error_num := n, error_task := task\<rparr>;
     k \<leftarrow> (if opt_REPORT_ERRORS cfg then map_option snd (nrk_error_print cfg k) else Some k);
     nrk_error_handle cfg k
   }"

definition nrk_error_add :: "nrk_cfg \<Rightarrow> u8 \<Rightarrow> kernel \<Rightarrow> kernel option" where
  "nrk_error_add cfg n k = do {
     let k = k\<lparr>error_num := n\<rparr>;
     t \<leftarrow> cur_tcb k;
     let k = k\<lparr>error_task := task_ID t\<rparr>;
     k \<leftarrow> (if opt_REPORT_ERRORS cfg then map_option snd (nrk_error_print cfg k) else Some k);
     nrk_error_handle cfg k
   }"

text \<open>The result is the return value with what is stored through \<^verbatim>\<open>task_id\<close> and \<^verbatim>\<open>code\<close>.\<close>

definition nrk_error_get :: "kernel \<Rightarrow> u8 \<times> (u8 \<times> u8) option" where
  "nrk_error_get k =
     (if error_num k = 0 then (0, None) else (1, Some (error_task k, error_num k)))"

section \<open>Morse code\<close>

datatype blink = Led_set | Led_clr | Pause

definition blink_dash :: "blink list" where
  "blink_dash = [Led_set, Pause, Pause, Pause, Led_clr, Pause]"

definition blink_dot :: "blink list" where
  "blink_dot = [Led_set, Pause, Led_clr, Pause]"

text \<open>\<open>dec n\<close> is what \<^verbatim>\<open>sprintf(str, "%d", n)\<close> writes.\<close>

fun dec :: "nat \<Rightarrow> nat list" where
  "dec n = (if n < 10 then [n] else dec (n div 10) @ [n mod 10])"

declare dec.simps [simp del]

definition morse_digit :: "nat \<Rightarrow> blink list" where
  "morse_digit d =
     (if d = 0 then blink_dash @ blink_dash @ blink_dash @ blink_dash @ blink_dash
      else if d = 1 then blink_dot @ blink_dash @ blink_dash @ blink_dash @ blink_dash
      else if d = 2 then blink_dot @ blink_dot @ blink_dash @ blink_dash @ blink_dash
      else if d = 3 then blink_dot @ blink_dot @ blink_dot @ blink_dash @ blink_dash
      else if d = 4 then blink_dot @ blink_dot @ blink_dot @ blink_dot @ blink_dash
      else if d = 5 then blink_dot @ blink_dot @ blink_dot @ blink_dot @ blink_dot
      else if d = 6 then blink_dash @ blink_dot @ blink_dot @ blink_dot @ blink_dot
      else if d = 7 then blink_dash @ blink_dash @ blink_dot @ blink_dot @ blink_dot
      else if d = 8 then blink_dash @ blink_dash @ blink_dash @ blink_dot @ blink_dot
      else blink_dash @ blink_dash @ blink_dash @ blink_dash @ blink_dot)"

text \<open>
  The buffer has three characters: a number of three digits and its terminating zero
  overrun it.
\<close>

definition blink_morse_code_error :: "u8 \<Rightarrow> blink list option" where
  "blink_morse_code_error n =
     (let ds = dec (unat n)
      in if 3 < length ds + 1 then None
      else Some (concat (map (\<lambda>d. morse_digit d @ [Pause, Pause, Pause]) ds)))"

section \<open>What recording an error does\<close>

text \<open>Only the error variables, the console, the interrupt flag and the watchdog change.\<close>

lemma kernel_error_add_frame:
  assumes "nrk_kernel_error_add cfg n t k = Some k'"
  shows "\<exists>i w c. k' = k\<lparr>int_enabled := i, watchdog_enabled := w, error_task := t,
                          error_num := 0, console := c\<rparr>"
  using assms
  by (cases k)
     (auto simp: nrk_kernel_error_add_def nrk_error_print_def nrk_error_handle_def Let_def
        nrk_int_disable_def nrk_watchdog_disable_def split: if_splits)

text \<open>The options under which the handler returns whatever the error.\<close>

definition returns_on_error :: "nrk_cfg \<Rightarrow> bool" where
  "returns_on_error cfg \<longleftrightarrow> \<not> opt_HALT_ON_ERROR cfg \<and> \<not> opt_HALT_AND_LOOP_ON_ERROR cfg \<and>
     \<not> opt_REBOOT_ON_ERROR cfg \<and> \<not> opt_SOFT_REBOOT_ON_ERROR cfg"

lemma kernel_error_add_returns:
  assumes "returns_on_error cfg"
  shows "\<exists>c. nrk_kernel_error_add cfg n t k = Some (k\<lparr>error_task := t, error_num := 0, console := c\<rparr>)"
  using assms
  by (cases k)
     (auto simp: returns_on_error_def nrk_kernel_error_add_def nrk_error_print_def
        nrk_error_handle_def Let_def)

lemma dec_length: "n < 100 \<Longrightarrow> length (dec n) \<le> 2" "100 \<le> n \<Longrightarrow> 3 \<le> length (dec n)"
proof -
  show "n < 100 \<Longrightarrow> length (dec n) \<le> 2"
    by (cases "n div 10 < 10") (simp_all add: dec.simps [of n] dec.simps [of "n div 10"])
  have pos: "Suc 0 \<le> length (dec m)" for m by (subst dec.simps) simp
  show "100 \<le> n \<Longrightarrow> 3 \<le> length (dec n)"
    using pos [of "n div 10 div 10"] by (simp add: dec.simps [of n] dec.simps [of "n div 10"])
qed

lemma dec_value: "foldl (\<lambda>v d. 10 * v + d) 0 (dec n) = n"
  by (induction n rule: dec.induct) (subst dec.simps, simp)

section \<open>Properties\<close>

lemma ex_cfg_returns: "returns_on_error ex_cfg"
  by (simp add: returns_on_error_def ex_cfg_def)

text \<open>
  Recorded errors cannot be read back. When the build neither halts nor reboots on an
  error, recording one returns, changes neither the tasks nor the ready queue, and a later
  \<^verbatim>\<open>nrk_error_get\<close> reports that there is no error.
\<close>

theorem nrk_kernel_error_add_lost:
  assumes "returns_on_error cfg"
  shows "\<exists>k'. nrk_kernel_error_add cfg n t k = Some k' \<and> nrk_error_get k' = (0, None) \<and>
    nrk_task_TCB k' = nrk_task_TCB k \<and> nrk_readyQ k' = nrk_readyQ k"
  using kernel_error_add_returns [OF assms, of n t k] by (auto simp: nrk_error_get_def)

theorem nrk_kernel_error_add_lost_witness:
  "\<exists>k'. nrk_kernel_error_add ex_cfg NRK_STACK_OVERFLOW 2 (ex_kernel 1) = Some k' \<and> nrk_error_get k' = (0, None)"
  using nrk_kernel_error_add_lost [OF ex_cfg_returns] by blast

lemma dec_digits: "d \<in> set (dec n) \<Longrightarrow> d < 10"
proof (induction n rule: dec.induct)
  case (1 n)
  then show ?case by (subst (asm) (2) dec.simps) (auto split: if_splits)
qed

text \<open>
  Blinking a number in Morse code. For a number below 100 the LED shows its decimal
  digits, most significant first, each followed by three pauses; a number of three digits
  overruns the buffer the digits are printed into.
\<close>

theorem blink_morse_code_error_digits:
  "if unat n < 100 then
     \<exists>ds. blink_morse_code_error n = Some (concat (map (\<lambda>d. morse_digit d @ [Pause, Pause, Pause]) ds)) \<and>
       (\<forall>d \<in> set ds. d < 10) \<and> foldl (\<lambda>v d. 10 * v + d) 0 ds = unat n
   else blink_morse_code_error n = None"
proof (cases "unat n < 100")
  case True
  then have "blink_morse_code_error n =
      Some (concat (map (\<lambda>d. morse_digit d @ [Pause, Pause, Pause]) (dec (unat n))))"
    using dec_length(1) [of "unat n"] by (simp add: blink_morse_code_error_def Let_def)
  then show ?thesis using True dec_digits dec_value by auto
next
  case False
  then show ?thesis using dec_length(2) [of "unat n"] by (simp add: blink_morse_code_error_def Let_def)
qed

theorem blink_morse_code_error_digits_witness:
  "\<exists>ds. blink_morse_code_error 23 = Some (concat (map (\<lambda>d. morse_digit d @ [Pause, Pause, Pause]) ds)) \<and>
     foldl (\<lambda>v d. 10 * v + d) 0 ds = 23"
  using blink_morse_code_error_digits [of 23] by auto

end
