(* ===== verification/Nrk_Stats.thy ===== *)
theory Nrk_Stats
  imports Nrk_Error
begin

text \<open>
  The task statistics of \<^verbatim>\<open>src/src/kernel/source/nrk_stats.c\<close>: per-task execution time,
  counts of swap-ins, preemptions and violations, each frozen once one of its counters is
  about to overflow. An access to \<^verbatim>\<open>cur_task_stats\<close> out of range is \<open>None\<close>.
\<close>

definition nrk_stats_reset :: "kernel \<Rightarrow> kernel" where
  "nrk_stats_reset k =
     k\<lparr>nrk_stats_sleep_time := \<lparr>secs = 0, nano_secs = 0\<rparr>,
       cur_task_stats := map (\<lambda>s. s\<lparr>total_ticks := 0, max_exec_ticks := 0, min_exec_ticks := 0,
         last_exec_ticks := 0, swapped_in := 0, preempted := 0, violations := 0, overflow := 0\<rparr>)
         (cur_task_stats k)\<rparr>"

definition nrk_stats_sleep :: "u8 \<Rightarrow> kernel \<Rightarrow> kernel" where
  "nrk_stats_sleep t k =
     (let s = nrk_stats_sleep_time k
      in k\<lparr>nrk_stats_sleep_time :=
             nrk_time_compact_nanos (s\<lparr>nano_secs := nano_secs s + ucast t * NANOS_PER_TICK\<rparr>)\<rparr>)"

definition nrk_stats_get_deep_sleep :: "kernel \<Rightarrow> nrk_time_t" where
  "nrk_stats_get_deep_sleep k =
     \<lparr>secs = secs (nrk_stats_sleep_time k), nano_secs = nano_secs (nrk_stats_sleep_time k)\<rparr>"

text \<open>One record of the table is read, and written back by \<open>f\<close> unless it is frozen.\<close>

definition upd_stat :: "(nrk_task_stat_t \<Rightarrow> nrk_task_stat_t) \<Rightarrow> u8 \<Rightarrow> kernel \<Rightarrow> kernel option" where
  "upd_stat f i k = do {
     s \<leftarrow> at (cur_task_stats k) (uint i);
     Some (if overflow s = 1 then k
           else k\<lparr>cur_task_stats := (cur_task_stats k)[unat i := f s]\<rparr>)
   }"

definition stat_violation :: "nrk_task_stat_t \<Rightarrow> nrk_task_stat_t" where
  "stat_violation s =
     (let s = s\<lparr>violations := violations s + 1\<rparr>
      in if violations s = 255 then s\<lparr>overflow := 1\<rparr> else s)"

definition stat_start :: "nrk_task_stat_t \<Rightarrow> nrk_task_stat_t" where
  "stat_start s =
     (let s = s\<lparr>cur_ticks := 0, swapped_in := swapped_in s + 1\<rparr>
      in if swapped_in s = - 1 - 1 then s\<lparr>overflow := 1\<rparr> else s)"

definition stat_preempted :: "u8 \<Rightarrow> nrk_task_stat_t \<Rightarrow> nrk_task_stat_t" where
  "stat_preempted ticks s =
     (let s = s\<lparr>preempted := preempted s + 1, cur_ticks := cur_ticks s + ucast ticks,
                total_ticks := total_ticks s + ucast ticks\<rparr>
      in if preempted s = - 1 - 1 then s\<lparr>overflow := 1\<rparr> else s)"

definition stat_suspend :: "u8 \<Rightarrow> nrk_task_stat_t \<Rightarrow> nrk_task_stat_t" where
  "stat_suspend ticks s =
     (let s = s\<lparr>last_exec_ticks := cur_ticks s + ucast ticks,
                total_ticks := total_ticks s + ucast ticks\<rparr>;
          s = (if min_exec_ticks s = 0 \<or> last_exec_ticks s < min_exec_ticks s
               then s\<lparr>min_exec_ticks := last_exec_ticks s\<rparr> else s)
      in if max_exec_ticks s < last_exec_ticks s
         then s\<lparr>max_exec_ticks := last_exec_ticks s\<rparr> else s)"

definition nrk_stats_add_violation :: "u8 \<Rightarrow> kernel \<Rightarrow> kernel option" where
  "nrk_stats_add_violation i k = upd_stat stat_violation i k"

definition nrk_stats_task_start :: "u8 \<Rightarrow> kernel \<Rightarrow> kernel option" where
  "nrk_stats_task_start i k = upd_stat stat_start i k"

definition nrk_stats_task_preempted :: "u8 \<Rightarrow> u8 \<Rightarrow> kernel \<Rightarrow> kernel option" where
  "nrk_stats_task_preempted i ticks k = upd_stat (stat_preempted ticks) i k"

definition nrk_stats_task_suspend :: "u8 \<Rightarrow> u8 \<Rightarrow> kernel \<Rightarrow> kernel option" where
  "nrk_stats_task_suspend i ticks k = upd_stat (stat_suspend ticks) i k"

text \<open>
  \<^verbatim>\<open>nrk_stats_get\<close> copies every field; it leaves \<^verbatim>\<open>*t\<close> alone (\<open>None\<close> here)
  for a task number out of range.
\<close>

definition nrk_stats_get :: "u8 \<Rightarrow> kernel \<Rightarrow> i8 \<times> nrk_task_stat_t option" where
  "nrk_stats_get pid k =
     (if length (cur_task_stats k) \<le> unat pid then (NRK_ERROR, None)
      else (NRK_OK, Some (cur_task_stats k ! unat pid)))"

section \<open>The report\<close>

definition NANOS_PER_MS :: u32 where "NANOS_PER_MS = 1000000"

definition CRLF :: string where "CRLF = [CHR 0x0D, CHR 0x0A]"

definition secs_ms :: "nrk_time_t \<Rightarrow> int list" where
  "secs_ms t = [uint (secs t), uint (nano_secs t div NANOS_PER_MS)]"

definition ticks_ms :: "u32 \<Rightarrow> int list" where
  "ticks_ms n = secs_ms (nrk_ticks_to_time n)"

definition nrk_stats_display_pid ::
    "nrk_cfg \<Rightarrow> u16 \<Rightarrow> u8 \<Rightarrow> u8 \<Rightarrow> kernel \<Rightarrow> kernel option" where
  "nrk_stats_display_pid cfg tcnt5 timer pid k = do {
     s \<leftarrow> at (cur_task_stats k) (uint pid);
     Some (k\<lparr>console := console k @
       [Kprintf '' Task ID: '', Printf ''%d'' [uint pid]] @
       (if uint pid = sint NRK_IDLE_TASK_ID then
          [Kprintf (CRLF @ ''   Total System Uptime: ''),
           Printf ''%lu secs %lu ms''
             (secs_ms (nrk_time_get (opt_SUB_TICK_TIMING cfg) tcnt5 timer (nrk_system_time k))),
           Kprintf (CRLF @ ''   Idle Task Deep Sleep Time: ''),
           Printf ''%lu secs %lu ms'' (secs_ms (nrk_stats_sleep_time k))]
        else []) @
       [Kprintf (CRLF @ ''   Total CPU: ''),
        Printf ''%lu secs %lu ms'' (ticks_ms (total_ticks s)),
        Kprintf (CRLF @ ''   Time [Min,Last,Max]: ''),
        Printf ''%lu secs %lu ms, '' (ticks_ms (min_exec_ticks s)),
        Printf ''%lu secs %lu ms, '' (ticks_ms (last_exec_ticks s)),
        Printf ''%lu secs %lu ms'' (ticks_ms (max_exec_ticks s)),
        Kprintf (CRLF @ ''   Swap-ins: ''), Printf ''%lu'' [uint (swapped_in s)],
        Kprintf (CRLF @ ''   Preemptions: ''), Printf ''%lu'' [uint (preempted s)],
        Kprintf (CRLF @ ''   Kernel Violations: ''), Printf ''%u'' [uint (violations s)],
        Kprintf (CRLF @ ''   Overflow Error Status: ''), Printf ''%u'' [uint (overflow s)],
        Kprintf CRLF]\<rparr>)
   }"

text \<open>The readings of the two timers may differ from one task to the next.\<close>

fun display_from :: "nrk_cfg \<Rightarrow> (nat \<Rightarrow> u16) \<Rightarrow> (nat \<Rightarrow> u8) \<Rightarrow> nat list \<Rightarrow> kernel \<Rightarrow> kernel option" where
  "display_from cfg tcnt5 timer [] k = Some k"
| "display_from cfg tcnt5 timer (i # is) k = do {
     k \<leftarrow> nrk_stats_display_pid cfg (tcnt5 i) (timer i) (of_nat i) k;
     display_from cfg tcnt5 timer is k
   }"

definition nrk_stats_display_all ::
    "nrk_cfg \<Rightarrow> (nat \<Rightarrow> u16) \<Rightarrow> (nat \<Rightarrow> u8) \<Rightarrow> kernel \<Rightarrow> kernel option" where
  "nrk_stats_display_all cfg tcnt5 timer k =
     display_from cfg tcnt5 timer [0 ..< NRK_MAX_TASKS k]
       (k\<lparr>console := console k @ [Kprintf (CRLF @ ''Nano-RK Task Statistics:'' @ CRLF)]\<rparr>)"

section \<open>Invariants\<close>

text \<open>The last execution time lies between the smallest and the largest.\<close>

definition stat_ok :: "nrk_task_stat_t \<Rightarrow> bool" where
  "stat_ok s \<longleftrightarrow> min_exec_ticks s \<le> last_exec_ticks s \<and> last_exec_ticks s \<le> max_exec_ticks s"

lemma stat_ok_steps:
  "stat_ok s \<Longrightarrow> stat_ok (stat_violation s)" "stat_ok s \<Longrightarrow> stat_ok (stat_start s)"
  "stat_ok s \<Longrightarrow> stat_ok (stat_preempted t s)" "stat_ok (stat_suspend t s)"
  by (auto simp: stat_ok_def stat_violation_def stat_start_def stat_preempted_def
      stat_suspend_def Let_def)

definition stats_ok :: "kernel \<Rightarrow> bool" where
  "stats_ok k \<longleftrightarrow> (\<forall>s \<in> set (cur_task_stats k). stat_ok s)"

lemma upd_stat_SomeD:
  assumes "upd_stat f i k = Some k'"
  shows "unat i < length (cur_task_stats k)"
    and "k' = k\<lparr>cur_task_stats := cur_task_stats k'\<rparr>"
    and "cur_task_stats k' = (if overflow (cur_task_stats k ! unat i) = 1 then cur_task_stats k
      else (cur_task_stats k)[unat i := f (cur_task_stats k ! unat i)])"
proof -
  show lt: "unat i < length (cur_task_stats k)"
    using assms by (rule contrapos_pp) (simp add: upd_stat_def at_uint_iff)
  show "k' = k\<lparr>cur_task_stats := cur_task_stats k'\<rparr>"
    "cur_task_stats k' = (if overflow (cur_task_stats k ! unat i) = 1 then cur_task_stats k
      else (cur_task_stats k)[unat i := f (cur_task_stats k ! unat i)])"
    using assms lt by (auto simp: upd_stat_def)
qed

lemma upd_stat_ok:
  assumes "upd_stat f i k = Some k'" "stats_ok k" "\<And>s. stat_ok s \<Longrightarrow> stat_ok (f s)"
  shows "stats_ok k'"
  using upd_stat_SomeD [OF assms(1)] assms(2,3)
  by (auto simp: stats_ok_def dest!: set_mp [OF set_update_subset_insert])

lemma upd_stat_total:
  "unat i < length (cur_task_stats k) \<Longrightarrow> \<exists>k'. upd_stat f i k = Some k' \<and>
     length (cur_task_stats k') = length (cur_task_stats k)"
  by (simp add: upd_stat_def)

lemmas stats_op_defs = nrk_stats_add_violation_def nrk_stats_task_start_def
  nrk_stats_task_preempted_def nrk_stats_task_suspend_def

text \<open>A record that is not frozen has counters that can still be incremented.\<close>

definition counters_ok :: "nrk_task_stat_t \<Rightarrow> bool" where
  "counters_ok s \<longleftrightarrow> overflow s = 1 \<or> swapped_in s < - 2 \<and> preempted s < - 2 \<and> violations s < 255"

lemma word_inc_below: "(x :: 'a::len word) < y \<Longrightarrow> x + 1 \<noteq> y \<Longrightarrow> x + 1 < y"
  by (simp add: inc_le order.strict_iff_order)

lemma counters_ok_steps:
  assumes "counters_ok s" "overflow s \<noteq> 1"
  shows "counters_ok (stat_violation s)" "counters_ok (stat_start s)" "counters_ok (stat_preempted t s)"
    "counters_ok (stat_suspend t s)"
  using assms word_inc_below [of "swapped_in s" "- 2"] word_inc_below [of "preempted s" "- 2"]
    word_inc_below [of "violations s" 255]
  by (auto simp: counters_ok_def stat_violation_def stat_start_def stat_preempted_def stat_suspend_def Let_def)

lemma upd_stat_all:
  assumes "\<forall>s \<in> set (cur_task_stats k). P s" "\<And>s. P s \<Longrightarrow> overflow s \<noteq> 1 \<Longrightarrow> P (f s)"
  shows "yields (upd_stat f i k) (\<lambda>k'. (\<forall>s \<in> set (cur_task_stats k'). P s) \<and>
    length (cur_task_stats k') = length (cur_task_stats k) \<and> nrk_task_TCB k' = nrk_task_TCB k)"
  unfolding yields_def
proof (intro allI impI)
  fix k' assume s: "upd_stat f i k = Some k'"
  note D = upd_stat_SomeD [OF s]
  have "nrk_task_TCB k' = nrk_task_TCB k" by (subst D(2)) simp
  moreover have "\<forall>s \<in> set (cur_task_stats k'). P s"
    using D(1,3) assms by (auto dest!: set_mp [OF set_update_subset_insert])
  moreover have "length (cur_task_stats k') = length (cur_task_stats k)" using D(3) by simp
  ultimately show "(\<forall>s \<in> set (cur_task_stats k'). P s) \<and>
    length (cur_task_stats k') = length (cur_task_stats k) \<and> nrk_task_TCB k' = nrk_task_TCB k" by blast
qed

section \<open>Properties\<close>

text \<open>
  The statistics stay consistent. In every record the last execution time lies between
  the smallest and the largest, and the counts of swap-ins, preemptions and violations
  never wrap, because a record is frozen before one of them can; each of the four
  operations that write a record keeps this.
\<close>

theorem nrk_stats_invariant:
  assumes "\<forall>s \<in> set (cur_task_stats k). stat_ok s \<and> counters_ok s"
    and op: "op \<in> {nrk_stats_add_violation i, nrk_stats_task_start i, nrk_stats_task_preempted i t,
      nrk_stats_task_suspend i t}"
  shows "yields (op k) (\<lambda>k'. (\<forall>s \<in> set (cur_task_stats k'). stat_ok s \<and> counters_ok s) \<and>
    length (cur_task_stats k') = length (cur_task_stats k) \<and> nrk_task_TCB k' = nrk_task_TCB k)"
  using op assms(1)
  by (auto simp: stats_op_defs intro!: upd_stat_all stat_ok_steps counters_ok_steps)

lemma zero_stat_ok: "stat_ok zero_stat" "counters_ok zero_stat"
  by (simp_all add: stat_ok_def counters_ok_def zero_stat_def word_less_nat_alt)

theorem nrk_stats_invariant_witness:
  "yields (nrk_stats_task_suspend 1 20 (ex_kernel 1))
    (\<lambda>k'. (\<forall>s \<in> set (cur_task_stats k'). stat_ok s \<and> counters_ok s))"
  using nrk_stats_invariant [of "ex_kernel 1" "nrk_stats_task_suspend 1 20" 1 20]
  using zero_stat_ok by (auto simp: yields_def)

end
