(* ===== verification/Nrk_Cpu.thy ===== *)
theory Nrk_Cpu
  imports Nrk_Stats
begin

text \<open>
  The memory the kernel touches directly: the initial stack frame of a task
  (\<^verbatim>\<open>src/src/kernel/hal/atmega256rfr2/nrk_cpu.c\<close>) and the stack canaries
  (\<^verbatim>\<open>src/src/kernel/source/nrk_stack_check.c\<close>). Memory maps 16-bit addresses to bytes.
\<close>

section \<open>The initial stack of a task\<close>

definition nrk_task_set_entry_function :: "nrk_task_type \<Rightarrow> u16 \<Rightarrow> nrk_task_type" where
  "nrk_task_set_entry_function task f = task\<lparr>task_entry := f\<rparr>"

definition nrk_task_set_stk ::
    "nrk_cfg \<Rightarrow> nrk_task_type \<Rightarrow> u16 \<Rightarrow> u16 \<Rightarrow> kernel \<Rightarrow> (nrk_task_type \<times> kernel) option" where
  "nrk_task_set_stk cfg task stk_base stk_size k = do {
     k \<leftarrow> (if stk_size < 32 then nrk_error_add cfg NRK_STACK_TOO_SMALL k else Some k);
     Some (task\<lparr>Ptos := stk_base + (stk_size - 1), Pbos := stk_base\<rparr>, k)
   }"

text \<open>\<^verbatim>\<open>*(--stk) = 0\<close> on a 16-bit pointer, \<open>n\<close> times.\<close>

fun push_zero_words :: "nat \<Rightarrow> u16 \<Rightarrow> (u16 \<Rightarrow> u8) \<Rightarrow> u16 \<times> (u16 \<Rightarrow> u8)" where
  "push_zero_words 0 stk m = (stk, m)"
| "push_zero_words (Suc n) stk m =
     (let stk = stk - 2 in push_zero_words n stk (m(stk := 0, stk + 1 := 0)))"

definition nrk_task_stk_init ::
    "u16 \<Rightarrow> u16 \<Rightarrow> u16 \<Rightarrow> (u16 \<Rightarrow> u8) \<Rightarrow> u16 \<times> (u16 \<Rightarrow> u8)" where
  "nrk_task_stk_init task ptos pbos m =
     (let m = m(pbos := STK_CANARY_VAL);
          stk = ptos - 2;
          m = m(stk := ucast (task div 4096));
          m = m(stk + 1 := ucast (task div 256));
          m = m(stk + 2 := ucast (task mod 256))
      in push_zero_words 17 stk m)"

section \<open>Stack checks\<close>

definition dump_stack_info :: "nrk_cfg \<Rightarrow> kernel \<Rightarrow> kernel option" where
  "dump_stack_info cfg k = do {
     c \<leftarrow> nrk_cur_task_TCB k;
     t \<leftarrow> cur_tcb k;
     Some (k\<lparr>console := console k @
       [Kprintf (CRLF @ ''STACK DUMP'' @ CRLF), Printf ''cur: %d '' [sint (task_ID t)],
        Printf ''bottom = %x '' [uint (OSTCBStkBottom t)],
        Printf ''canary = %x '' [uint (memory k (OSTCBStkBottom t))],
        Printf ''stk = %x '' [uint (OSTaskStkPtr t)],
        Printf (''tcb addr = %x'' @ CRLF) [uint (TCB_addr cfg c)]] @
       concat (map (\<lambda>i. let t = nrk_task_TCB k ! i in
         [Printf ''%d: bottom = %x '' [int i, uint (OSTCBStkBottom t)],
          Printf ''canary = %x '' [uint (memory k (OSTCBStkBottom t))],
          Printf ''stk = %x '' [uint (OSTaskStkPtr t)],
          Printf (''tcb addr = %x'' @ CRLF) [uint (TCB_addr cfg i)]]) [0 ..< NRK_MAX_TASKS k])\<rparr>)
   }"

definition maybe_dump :: "nrk_cfg \<Rightarrow> kernel \<Rightarrow> kernel option" where
  "maybe_dump cfg k = (if opt_REPORT_ERRORS cfg then dump_stack_info cfg k else Some k)"

definition nrk_stack_check :: "nrk_cfg \<Rightarrow> kernel \<Rightarrow> kernel option" where
  "nrk_stack_check cfg k =
     (if \<not> opt_STACK_CHECK cfg then Some k
      else do {
        t \<leftarrow> cur_tcb k;
        let stk = OSTCBStkBottom t;
        k \<leftarrow> (if memory k stk \<noteq> STK_CANARY_VAL then do {
               k \<leftarrow> maybe_dump cfg k;
               k \<leftarrow> nrk_error_add cfg NRK_STACK_OVERFLOW k;
               Some (k\<lparr>memory := (memory k)(stk := STK_CANARY_VAL)\<rparr>)
             } else Some k);
        t \<leftarrow> cur_tcb k;
        if RAMEND cfg < OSTaskStkPtr t then do {
          k \<leftarrow> maybe_dump cfg k;
          nrk_error_add cfg NRK_INVALID_STACK_POINTER k
        } else Some k
      })"

definition nrk_stack_check_pid :: "nrk_cfg \<Rightarrow> i8 \<Rightarrow> kernel \<Rightarrow> (i8 \<times> kernel) option" where
  "nrk_stack_check_pid cfg pid k =
     (if \<not> opt_STACK_CHECK cfg then Some (NRK_OK, k)
      else do {
        i \<leftarrow> tcb_index pid k;
        let t = nrk_task_TCB k ! i;
        if memory k (OSTCBStkBottom t) \<noteq> STK_CANARY_VAL then
          Some (NRK_ERROR, k\<lparr>memory := (memory k)(OSTCBStkBottom t := STK_CANARY_VAL)\<rparr>)
        else if RAMEND cfg < OSTaskStkPtr t then do {
          k \<leftarrow> nrk_error_add cfg NRK_INVALID_STACK_POINTER k;
          Some (NRK_ERROR, k)
        } else Some (NRK_OK, k)
      })"

section \<open>Properties\<close>

text \<open>Pushing \<open>n\<close> zero words clears the \<open>2 n\<close> bytes below the stack pointer.\<close>

lemma neg_small: "unat (- 1 :: u16) = 65535" "unat (- 2 :: u16) = 65534"
proof -
  have "(- 1 :: u16) = 65535" "(- 2 :: u16) = 65534" by simp_all
  then show "unat (- 1 :: u16) = 65535" "unat (- 2 :: u16) = 65534" by (simp_all only: unat_numeral) simp_all
qed

lemma push_zero_words_frame:
  "2 * n < 65536 \<Longrightarrow> push_zero_words n stk m =
    (stk - of_nat (2 * n), \<lambda>a. if 0 < unat (stk - a) \<and> unat (stk - a) \<le> 2 * n then 0 else m a)"
proof (induction n arbitrary: stk m)
  case 0
  have "(\<lambda>a. if 0 < unat (stk - a) \<and> unat (stk - a) \<le> 2 * 0 then 0 else m a) = m" by (rule ext) auto
  then show ?case by simp
next
  case (Suc n)
  let ?s = "stk - 2" and ?m = "m(stk - 2 := 0, stk - 2 + 1 := 0)"
  have IH: "push_zero_words n ?s ?m = (?s - of_nat (2 * n),
      \<lambda>a. if 0 < unat (?s - a) \<and> unat (?s - a) \<le> 2 * n then 0 else ?m a)"
    by (rule Suc.IH) (use Suc.prems in simp)
  have "(if 0 < unat (?s - a) \<and> unat (?s - a) \<le> 2 * n then 0 else ?m a) =
      (if 0 < unat (stk - a) \<and> unat (stk - a) \<le> 2 * Suc n then 0 else m a)" for a
  proof -
    define d where "d = stk - a"
    have a: "a = stk - d" "?s - a = d - 2" by (simp_all add: d_def)
    have e: "a = stk - 2 \<longleftrightarrow> d = 2" "a = stk - 2 + 1 \<longleftrightarrow> d = 1"
      by (auto simp: d_def algebra_simps)
    show ?thesis
    proof (cases "d = 0 \<or> d = 1 \<or> d = 2")
      case True
      from True Suc.prems e show ?thesis
        unfolding a(2) d_def [symmetric] by (elim disjE) (simp_all add: fun_upd_def neg_small)
    next
      case False
      then have "2 < unat d" by (simp add: word_unat_eq_iff)
      then have "unat (d - 2) = unat d - 2" by (simp add: unat_sub word_le_nat_alt)
      with False e \<open>2 < unat d\<close> show ?thesis
        unfolding a(2) d_def [symmetric] by (auto simp: fun_upd_def)
    qed
  qed
  then show ?case using IH by (simp add: Let_def algebra_simps)
qed

text \<open>
  The initial stack of a task. \<^verbatim>\<open>nrk_task_stk_init\<close> returns a stack pointer 36
  bytes below the top; it writes the canary at the bottom, the entry address in the three
  bytes at the top and zeros below them, and no other byte of memory.
\<close>

theorem nrk_task_stk_init_frame:
  assumes "36 < unat (ptos - pbos)"
  shows "case nrk_task_stk_init task ptos pbos m of (stk, m') \<Rightarrow>
    stk = ptos - 36 \<and> m' pbos = STK_CANARY_VAL \<and>
    m' ptos = ucast (task mod 256) \<and> m' (ptos - 1) = ucast (task div 256) \<and>
    m' (ptos - 2) = ucast (task div 4096) \<and>
    (\<forall>j. 2 < unat j \<and> unat j \<le> 36 \<longrightarrow> m' (ptos - j) = 0) \<and>
    (\<forall>a. a \<noteq> pbos \<and> 36 < unat (ptos - a) \<longrightarrow> m' a = m a)"
proof -
  let ?m0 = "m(pbos := STK_CANARY_VAL, ptos - 2 := ucast (task div 4096),
      ptos - 1 := ucast (task div 256), ptos := ucast (task mod 256))"
  define m' where "m' = (\<lambda>a. if 0 < unat (ptos - 2 - a) \<and> unat (ptos - 2 - a) \<le> 34 then 0 else ?m0 a)"
  have eq: "ptos - 2 + 1 = ptos - 1" "ptos - 2 + 2 = ptos" by simp_all
  have init: "nrk_task_stk_init task ptos pbos m = (ptos - 36, m')"
    unfolding m'_def by (simp add: nrk_task_stk_init_def Let_def push_zero_words_frame eq [simplified] cong: if_cong del: fun_upd_apply)
  have far: "unat (d - 2) = unat d - 2" if "2 < unat d" for d :: u16
    using that by (simp add: unat_sub word_le_nat_alt)
  have at_off: "m' (ptos - j) = (if 2 < unat j \<and> unat j \<le> 36 then 0 else ?m0 (ptos - j))" for j
  proof -
    have "ptos - 2 - (ptos - j) = j - 2" by simp
    moreover have "\<not> (0 < unat (j - 2) \<and> unat (j - 2) \<le> 34)" if "\<not> 2 < unat j"
    proof -
      have "j = 0 \<or> j = 1 \<or> j = 2" using that by (auto simp: word_unat_eq_iff)
      then show ?thesis by (elim disjE) (simp_all add: neg_small)
    qed
    ultimately show ?thesis using far [of j] unfolding m'_def by (cases "2 < unat j") auto
  qed
  have bot: "pbos = ptos - (ptos - pbos)" by simp
  have ne: "pbos \<noteq> ptos" "pbos \<noteq> ptos - 1" "pbos \<noteq> ptos - 2" using assms by auto
  have "m' pbos = STK_CANARY_VAL"
    using at_off [of "ptos - pbos"] assms ne by simp
  moreover have "m' a = m a" if "a \<noteq> pbos" "36 < unat (ptos - a)" for a
  proof -
    have "a \<noteq> ptos" "a \<noteq> ptos - 1" "a \<noteq> ptos - 2" using that by auto
    then show ?thesis using at_off [of "ptos - a"] that by simp
  qed
  ultimately show ?thesis
    using init at_off [of 0] at_off [of 1] at_off [of 2] at_off by simp
qed

theorem nrk_task_stk_init_frame_witness:
  "case nrk_task_stk_init 0x1234 0x02FF 0x0200 (\<lambda>_. 7) of (stk, m') \<Rightarrow>
    stk = 0x02DB \<and> m' 0x0200 = 0x55 \<and> m' 0x02FF = 0x34 \<and> m' 0x02FE = 0x12 \<and> m' 0x02FD = 1"
  using nrk_task_stk_init_frame [of "0x02FF" "0x0200" "0x1234" "\<lambda>_. 7"]
  by (simp add: STK_CANARY_VAL_def split: prod.splits)

end
