(* ===== verification/Nrk_Task.thy ===== *)
theory Nrk_Task
  imports Nrk_Cpu
begin

text \<open>
  The calls by which a task gives up the processor,
  \<^verbatim>\<open>src/src/kernel/source/nrk_task.c\<close>. Each of them records what the task waits for and
  ends in \<^verbatim>\<open>_nrk_wait_for_scheduler\<close>, a loop that only the scheduler, running in the
  timer interrupt, can end: \<open>Blocked\<close> is the state in which the task enters that loop,
  and what the call does once the task runs again is a definition of its own. The readings
  of the OS timer are arguments.
\<close>

datatype 'r outcome = Returned 'r | Blocked

text \<open>One turn of the waiting loop: after an interrupt woke the processor up.\<close>

definition nrk_wait_for_scheduler :: "kernel \<Rightarrow> i8 outcome option" where
  "nrk_wait_for_scheduler k = do {
     t \<leftarrow> cur_tcb k;
     Some (if suspend_flag t then Blocked else Returned NRK_OK)
   }"

text \<open>
  Bringing the next scheduler run forward, when the timer is not too close to its end and
  the run planned is later than \<open>timer + TIME_PAD\<close>.
\<close>

definition wake_soon :: "u8 \<Rightarrow> kernel \<Rightarrow> kernel" where
  "wake_soon timer k =
     (if unat timer < MAX_SCHED_WAKEUP_TIME - TIME_PAD \<and>
         unat timer + TIME_PAD \<le> unat (nrk_get_next_wakeup k)
      then nrk_set_next_wakeup_reg (timer + of_nat TIME_PAD)
             (k\<lparr>nrk_prev_timer_val := timer + of_nat TIME_PAD\<rparr>)
      else k)"

definition nrk_wait_until_next_period ::
    "nrk_cfg \<Rightarrow> u8 \<Rightarrow> kernel \<Rightarrow> (i8 outcome \<times> kernel) option" where
  "nrk_wait_until_next_period cfg timer k = do {
     k \<leftarrow> nrk_stack_check cfg k;
     let k = nrk_int_disable k;
     k \<leftarrow> upd_cur (\<lambda>t. t\<lparr>num_periods := 1, suspend_flag := True\<rparr>) k;
     Some (Blocked, nrk_int_enable (wake_soon timer k))
   }"

definition nrk_wait_until_next_n_periods ::
    "nrk_cfg \<Rightarrow> u16 \<Rightarrow> u8 \<Rightarrow> kernel \<Rightarrow> (i8 outcome \<times> kernel) option" where
  "nrk_wait_until_next_n_periods cfg p timer k = do {
     k \<leftarrow> nrk_stack_check cfg k;
     let p = (if p = 0 then 1 else p);
     let k = nrk_int_disable k;
     k \<leftarrow> upd_cur (\<lambda>t. t\<lparr>suspend_flag := True, num_periods := p\<rparr>) k;
     Some (Blocked, nrk_int_enable (wake_soon timer k))
   }"

definition nrk_terminate_task :: "nrk_cfg \<Rightarrow> u8 \<Rightarrow> kernel \<Rightarrow> (i8 outcome \<times> kernel) option" where
  "nrk_terminate_task cfg timer k = do {
     t \<leftarrow> cur_tcb k;
     k \<leftarrow> k_rem_from_readyQ (task_ID t) k;
     k \<leftarrow> upd_cur (\<lambda>t. t\<lparr>task_state := FINISHED\<rparr>) k;
     nrk_wait_until_next_period cfg timer k
   }"

text \<open>\<^verbatim>\<open>ticks + timer\<close> is a 16-bit sum.\<close>

definition nrk_wait_ticks :: "u16 \<Rightarrow> u8 \<Rightarrow> kernel \<Rightarrow> (i8 outcome \<times> kernel) option" where
  "nrk_wait_ticks ticks timer k = do {
     let k = nrk_int_disable k;
     k \<leftarrow> upd_cur (\<lambda>t. t\<lparr>suspend_flag := True, next_wakeup := ucast (ticks + ucast timer)\<rparr>) k;
     Some (Blocked, nrk_int_enable (wake_soon timer k))
   }"

definition nrk_wait_until_ticks :: "u16 \<Rightarrow> u8 \<Rightarrow> kernel \<Rightarrow> (i8 outcome \<times> kernel) option" where
  "nrk_wait_until_ticks ticks timer k = do {
     let k = nrk_int_disable k;
     k \<leftarrow> upd_cur (\<lambda>t. t\<lparr>suspend_flag := True, next_wakeup := ucast ticks\<rparr>) k;
     Some (Blocked, nrk_int_enable (wake_soon timer k))
   }"

text \<open>The tick count is cut to 16 bits; the error return comes before interrupts are enabled.\<close>

definition nrk_set_next_wakeup :: "nrk_time_t \<Rightarrow> u8 \<Rightarrow> kernel \<Rightarrow> (i8 \<times> kernel) option" where
  "nrk_set_next_wakeup t timer k = do {
     let k = nrk_int_disable k;
     nw32 \<leftarrow> nrk_time_to_ticks_long t;
     let nw = (ucast nw32 :: u16);
     if unat nw \<le> TIME_PAD then Some (NRK_ERROR, k)
     else do {
       k \<leftarrow> upd_cur (\<lambda>t. t\<lparr>next_wakeup := ucast (nw + ucast timer)\<rparr>) k;
       Some (NRK_OK, nrk_int_enable k)
     }
   }"

definition nrk_wait_until_nw :: "u8 \<Rightarrow> kernel \<Rightarrow> (i8 outcome \<times> kernel) option" where
  "nrk_wait_until_nw timer k = do {
     let k = nrk_int_disable k;
     k \<leftarrow> upd_cur (\<lambda>t. t\<lparr>suspend_flag := True, nw_flag := True\<rparr>) k;
     Some (Blocked, nrk_int_enable (wake_soon timer k))
   }"

definition nrk_wait :: "nrk_cfg \<Rightarrow> nrk_time_t \<Rightarrow> u8 \<Rightarrow> kernel \<Rightarrow> (i8 outcome \<times> kernel) option" where
  "nrk_wait cfg t timer k = do {
     k \<leftarrow> nrk_stack_check cfg k;
     let k = nrk_int_disable k;
     k \<leftarrow> upd_cur (\<lambda>c. c\<lparr>suspend_flag := True, num_periods := 1\<rparr>) k;
     nw \<leftarrow> nrk_time_to_ticks_long t;
     k \<leftarrow> upd_cur (\<lambda>c. c\<lparr>next_wakeup := nw + ucast timer\<rparr>) k;
     Some (Blocked, nrk_int_enable (wake_soon timer k))
   }"

text \<open>Two readings of the timer: one for the time of day, one in \<^verbatim>\<open>nrk_wait\<close>.\<close>

definition nrk_wait_until ::
    "nrk_cfg \<Rightarrow> nrk_time_t \<Rightarrow> u16 \<Rightarrow> u8 \<Rightarrow> u8 \<Rightarrow> kernel \<Rightarrow> (i8 outcome \<times> kernel) option" where
  "nrk_wait_until cfg t tcnt5 timer1 timer2 k =
     (let ct = nrk_time_get (opt_SUB_TICK_TIMING cfg) tcnt5 timer1 (nrk_system_time k);
          (v, t') = nrk_time_sub t t ct
      in if v = NRK_ERROR then Some (Returned NRK_ERROR, k) else nrk_wait cfg t' timer2 k)"

definition nrk_get_pid :: "kernel \<Rightarrow> u8 option" where
  "nrk_get_pid k = map_option task_ID (cur_tcb k)"

end
