(* ===== verification/Nrk_Events.thy ===== *)
theory Nrk_Events
  imports Nrk_Task
begin

text \<open>
  Signals and semaphores, \<^verbatim>\<open>src/src/kernel/source/nrk_events.c\<close>. A call that can block
  is split where the code waits: the first definition runs up to the wait, the one whose
  name ends in \<open>_resume\<close> is what the code does when the task runs again. A
  semaphore pointer is the index of its entry, \<open>None\<close> for any other address.
\<close>

section \<open>Signals\<close>

text \<open>\<^verbatim>\<open>SIG(x)\<close> is \<^verbatim>\<open>((uint32_t)1)<<x\<close>, undefined for an amount outside 0..31.\<close>

definition SIG :: "i8 \<Rightarrow> u32 option" where
  "SIG x = (if 0 \<le> sint x \<and> sint x < 32 then Some (push_bit (nat (sint x)) 1) else None)"

definition nrk_signal_create :: "kernel \<Rightarrow> i8 \<times> kernel" where
  "nrk_signal_create k =
     (case scan (\<lambda>i. nrk_signal_list k AND push_bit i 1 = 0) 0 32 of
        Some i \<Rightarrow> (of_nat i, k\<lparr>nrk_signal_list := nrk_signal_list k OR push_bit i 1\<rparr>)
      | None \<Rightarrow> (NRK_ERROR, k))"

definition nrk_signal_get_registered_mask :: "kernel \<Rightarrow> u32 option" where
  "nrk_signal_get_registered_mask k = map_option registered_signal_mask (cur_tcb k)"

text \<open>What deleting a signal does to one task.\<close>

definition forget_signal :: "u32 \<Rightarrow> NRK_TCB \<Rightarrow> NRK_TCB" where
  "forget_signal sig_mask t =
     (if task_ID t = - 1 then t
      else
        let t = (if registered_signal_mask t = sig_mask
                 then t\<lparr>active_signal_mask := 0, event_suspend := 0, task_state := SUSPENDED\<rparr>
                 else t);
            t = t\<lparr>registered_signal_mask := registered_signal_mask t AND NOT sig_mask\<rparr>
        in t\<lparr>active_signal_mask := active_signal_mask t AND NOT sig_mask\<rparr>)"

text \<open>
  \<^verbatim>\<open>SIG\<close> expands without outer parentheses, so \<^verbatim>\<open>~SIG(sig_id)\<close> is
  \<^verbatim>\<open>(~((uint32_t)1))<<sig_id\<close>.
\<close>

definition nrk_signal_delete :: "i8 \<Rightarrow> kernel \<Rightarrow> (i8 \<times> kernel) option" where
  "nrk_signal_delete sig_id k = do {
     sig_mask \<leftarrow> SIG sig_id;
     if sig_mask AND nrk_signal_list k = 0 then Some (NRK_ERROR, k)
     else do {
       let k = nrk_int_disable k;
       let k = k\<lparr>nrk_task_TCB := map (forget_signal sig_mask) (nrk_task_TCB k)\<rparr>;
       let k = k\<lparr>nrk_signal_list := nrk_signal_list k AND push_bit (nat (sint sig_id)) (NOT 1)\<rparr>;
       Some (NRK_OK, nrk_int_enable k)
     }
   }"

definition nrk_signal_unregister :: "i8 \<Rightarrow> kernel \<Rightarrow> (i8 \<times> kernel) option" where
  "nrk_signal_unregister sig_id k = do {
     sig_mask \<leftarrow> SIG sig_id;
     t \<leftarrow> cur_tcb k;
     if registered_signal_mask t AND sig_mask \<noteq> 0 then do {
       k \<leftarrow> upd_cur (\<lambda>t. t\<lparr>registered_signal_mask := registered_signal_mask t AND NOT sig_mask,
                         active_signal_mask := active_signal_mask t AND NOT sig_mask\<rparr>) k;
       Some (NRK_OK, k)
     }
     else Some (NRK_ERROR, k)
   }"

definition nrk_signal_register :: "i8 \<Rightarrow> kernel \<Rightarrow> (i8 \<times> kernel) option" where
  "nrk_signal_register sig_id k = do {
     sig_mask \<leftarrow> SIG sig_id;
     if sig_mask AND nrk_signal_list k \<noteq> 0 then do {
       k \<leftarrow> upd_cur (\<lambda>t. t\<lparr>registered_signal_mask := registered_signal_mask t OR sig_mask\<rparr>) k;
       Some (NRK_OK, k)
     }
     else Some (NRK_ERROR, k)
   }"

text \<open>
  The body of the delivery loop, for one task: the new control block, and whether an event
  occurred.
\<close>

definition deliver :: "u32 \<Rightarrow> NRK_TCB \<Rightarrow> NRK_TCB \<times> bool" where
  "deliver sig_mask t =
     (let (t, e) =
        (if event_suspend t = SIG_EVENT_SUSPENDED \<and> active_signal_mask t AND sig_mask \<noteq> 0
         then (t\<lparr>task_state := SUSPENDED, next_wakeup := 0, event_suspend := 0,
                 active_signal_mask := sig_mask\<rparr>, True)
         else (t, False))
      in if event_suspend t = RSRC_EVENT_SUSPENDED \<and> active_signal_mask t = sig_mask
         then (t\<lparr>task_state := SUSPENDED, next_wakeup := 0, event_suspend := 0,
                 active_signal_mask := 0\<rparr>, True)
         else (t, e))"

definition nrk_event_signal :: "i8 \<Rightarrow> kernel \<Rightarrow> (i8 \<times> kernel) option" where
  "nrk_event_signal sig_id k = do {
     sig_mask \<leftarrow> SIG sig_id;
     if sig_mask AND nrk_signal_list k = 0 then do {
       k \<leftarrow> nrk_errno_set 1 k;
       Some (NRK_ERROR, k)
     }
     else do {
       let k = nrk_int_disable k;
       let res = map (deliver sig_mask) (nrk_task_TCB k);
       let k = nrk_int_enable (k\<lparr>nrk_task_TCB := map fst res\<rparr>);
       if (\<exists>r \<in> set res. snd r) then Some (NRK_OK, k)
       else do {
         k \<leftarrow> nrk_errno_set 2 k;
         Some (NRK_ERROR, k)
       }
     }
   }"

definition nrk_event_wait :: "u32 \<Rightarrow> u8 \<Rightarrow> kernel \<Rightarrow> (u32 outcome \<times> kernel) option" where
  "nrk_event_wait event_mask timer k = do {
     t \<leftarrow> cur_tcb k;
     if event_mask AND registered_signal_mask t \<noteq> 0 then do {
       k \<leftarrow> upd_cur (\<lambda>t. t\<lparr>active_signal_mask := event_mask, event_suspend := SIG_EVENT_SUSPENDED\<rparr>) k;
       w \<leftarrow> SIG (nrk_wakeup_signal k);
       (r, k) \<leftarrow> (if event_mask AND w \<noteq> 0 then nrk_wait_until_nw timer k
                  else nrk_wait_until_ticks 0 timer k);
       Some (Blocked, k)
     }
     else Some (Returned 0, k)
   }"

definition nrk_event_wait_resume :: "kernel \<Rightarrow> u32 outcome option" where
  "nrk_event_wait_resume k = do {
     t \<leftarrow> cur_tcb k;
     Some (if suspend_flag t then Blocked else Returned (active_signal_mask t))
   }"

section \<open>Semaphores\<close>

definition nrk_get_resource_index :: "nat option \<Rightarrow> kernel \<Rightarrow> i8" where
  "nrk_get_resource_index resrc k =
     (case scan (\<lambda>i. resrc = Some i) 0 (NRK_MAX_RESOURCE_CNT k) of
        Some i \<Rightarrow> of_nat i
      | None \<Rightarrow> NRK_ERROR)"

text \<open>The two tests that open every operation on an existing semaphore.\<close>

definition with_sem ::
    "nat option \<Rightarrow> kernel \<Rightarrow> (i8 \<Rightarrow> ('r \<times> kernel) option) \<Rightarrow> (i8 \<Rightarrow> 'r) \<Rightarrow> ('r \<times> kernel) option" where
  "with_sem rsrc k body ret =
     (let i = nrk_get_resource_index rsrc k
      in if i = - 1 then do { k \<leftarrow> nrk_errno_set 1 k; Some (ret NRK_ERROR, k) }
      else if sint i = int (NRK_MAX_RESOURCE_CNT k) then do { k \<leftarrow> nrk_errno_set 2 k; Some (ret NRK_ERROR, k) }
      else body i)"

definition upd_sem :: "i8 \<Rightarrow> (nrk_sem_t \<Rightarrow> nrk_sem_t) \<Rightarrow> kernel \<Rightarrow> kernel option" where
  "upd_sem i f k = do {
     s \<leftarrow> at (nrk_sem_list k) (sint i);
     Some (k\<lparr>nrk_sem_list := (nrk_sem_list k)[nat (sint i) := f s]\<rparr>)
   }"

definition nrk_sem_query :: "nat option \<Rightarrow> kernel \<Rightarrow> (i8 \<times> kernel) option" where
  "nrk_sem_query rsrc k =
     with_sem rsrc k (\<lambda>i. do { s \<leftarrow> at (nrk_sem_list k) (sint i); Some (sem_value s, k) }) (\<lambda>r. r)"

text \<open>Lines 247-252: taking the semaphore, at once or after the wait.\<close>

definition nrk_sem_pend_resume :: "i8 \<Rightarrow> kernel \<Rightarrow> (i8 outcome \<times> kernel) option" where
  "nrk_sem_pend_resume i k = do {
     k \<leftarrow> upd_sem i (\<lambda>s. s\<lparr>sem_value := sem_value s - 1\<rparr>) k;
     s \<leftarrow> at (nrk_sem_list k) (sint i);
     k \<leftarrow> upd_cur (\<lambda>t. t\<lparr>task_prio_ceil := resource_ceiling s, elevated_prio_flag := True\<rparr>) k;
     Some (Returned NRK_OK, nrk_int_enable k)
   }"

definition nrk_sem_pend :: "nat option \<Rightarrow> u8 \<Rightarrow> kernel \<Rightarrow> (i8 outcome \<times> kernel) option" where
  "nrk_sem_pend rsrc timer k =
     with_sem rsrc k
       (\<lambda>i. do {
          let k = nrk_int_disable k;
          s \<leftarrow> at (nrk_sem_list k) (sint i);
          if sem_value s = 0 then do {
            k \<leftarrow> upd_cur (\<lambda>t. t\<lparr>event_suspend := event_suspend t OR RSRC_EVENT_SUSPENDED,
                              active_signal_mask := scast i\<rparr>) k;
            nrk_wait_until_ticks 0 timer (nrk_int_enable k)
          }
          else nrk_sem_pend_resume i k
        }) Returned"

text \<open>The body of the wake-up loop of \<^verbatim>\<open>nrk_sem_post\<close>.\<close>

definition release_waiter :: "i8 \<Rightarrow> NRK_TCB \<Rightarrow> NRK_TCB" where
  "release_waiter i t =
     (if event_suspend t = RSRC_EVENT_SUSPENDED \<and> active_signal_mask t = scast i
      then t\<lparr>task_state := SUSPENDED, next_wakeup := 0, event_suspend := 0, active_signal_mask := 0\<rparr>
      else t)"

definition nrk_sem_post :: "nat option \<Rightarrow> kernel \<Rightarrow> (i8 \<times> kernel) option" where
  "nrk_sem_post rsrc k =
     with_sem rsrc k
       (\<lambda>i. do {
          s \<leftarrow> at (nrk_sem_list k) (sint i);
          if sint (sem_value s) < sint (sem_count s) then do {
            let k = nrk_int_disable k;
            k \<leftarrow> upd_sem i (\<lambda>s. s\<lparr>sem_value := sem_value s + 1\<rparr>) k;
            k \<leftarrow> upd_cur (\<lambda>t. t\<lparr>elevated_prio_flag := False\<rparr>) k;
            let k = k\<lparr>nrk_task_TCB := map (release_waiter i) (nrk_task_TCB k)\<rparr>;
            Some (NRK_OK, nrk_int_enable k)
          }
          else Some (NRK_OK, k)
        }) (\<lambda>r. r)"

definition nrk_sem_delete :: "nat option \<Rightarrow> kernel \<Rightarrow> (i8 \<times> kernel) option" where
  "nrk_sem_delete rsrc k =
     with_sem rsrc k
       (\<lambda>i. do {
          k \<leftarrow> upd_sem i (\<lambda>s. s\<lparr>sem_count := - 1, sem_value := - 1, resource_ceiling := - 1\<rparr>) k;
          Some (NRK_OK, k\<lparr>nrk_resource_cnt := nrk_resource_cnt k - 1\<rparr>)
        }) (\<lambda>r. r)"

text \<open>
  The result is the pointer, \<open>None\<close> for \<^verbatim>\<open>NULL\<close>. Where no entry is free the loop
  ends with \<^verbatim>\<open>i == NRK_MAX_RESOURCE_CNT\<close> and the code writes past the array.
\<close>

definition nrk_sem_create :: "u8 \<Rightarrow> u8 \<Rightarrow> kernel \<Rightarrow> (nat option \<times> kernel) option" where
  "nrk_sem_create count ceiling_prio k =
     (if int (NRK_MAX_RESOURCE_CNT k) - 1 \<le> uint (nrk_resource_cnt k) then Some (None, k)
      else
        case scan (\<lambda>i. sem_count (nrk_sem_list k ! i) = - 1) 0 (NRK_MAX_RESOURCE_CNT k) of
          None \<Rightarrow> None
        | Some i \<Rightarrow>
            Some (Some i, k\<lparr>nrk_sem_list := (nrk_sem_list k)[i :=
                              \<lparr>sem_count = count, resource_ceiling = ceiling_prio, sem_value = count\<rparr>],
                            nrk_resource_cnt := nrk_resource_cnt k + 1\<rparr>))"

section \<open>Signals: properties\<close>

lemma SIG_bit: "0 \<le> sint x \<Longrightarrow> sint x < 32 \<Longrightarrow> SIG x = Some (2 ^ nat (sint x))"
  by (simp add: SIG_def)

lemma and_pow2: "(2 ^ k AND w :: u32) = 0 \<longleftrightarrow> \<not> bit w k"
  using and_pow2_eq_0 [of w k] by (simp add: and.commute)

text \<open>
  Creating a signal. \<^verbatim>\<open>nrk_signal_create\<close> returns the smallest identifier that is
  not in use and marks it, and only it, as used; when all 32 are in use it returns
  \<^verbatim>\<open>NRK_ERROR\<close> and changes nothing.
\<close>

theorem nrk_signal_create_least:
  "case nrk_signal_create k of (s, k') \<Rightarrow>
     if \<forall>i < 32. bit (nrk_signal_list k) i then s = NRK_ERROR \<and> k' = k
     else \<exists>i < 32. s = of_nat i \<and> \<not> bit (nrk_signal_list k) i \<and> (\<forall>j < i. bit (nrk_signal_list k) j) \<and>
       (\<forall>j. bit (nrk_signal_list k') j \<longleftrightarrow> bit (nrk_signal_list k) j \<or> j = i) \<and>
       k' = k\<lparr>nrk_signal_list := nrk_signal_list k'\<rparr>"
proof (cases "scan (\<lambda>i. nrk_signal_list k AND push_bit i 1 = 0) 0 32")
  case None
  then have "\<forall>i < 32. bit (nrk_signal_list k) i" by (simp add: scan_None_iff and_pow2_eq_0)
  with None show ?thesis by (simp add: nrk_signal_create_def)
next
  case (Some i)
  then have "i < 32" "\<not> bit (nrk_signal_list k) i" "\<forall>j < i. bit (nrk_signal_list k) j"
    by (auto simp: scan_Some_iff and_pow2_eq_0)
  with Some show ?thesis by (auto simp: nrk_signal_create_def bit_or_pow2)
qed

theorem nrk_signal_create_least_witness:
  "fst (nrk_signal_create (ex_kernel 0)) = 1"
proof -
  obtain s k' where sk: "nrk_signal_create (ex_kernel 0) = (s, k')" by fastforce
  have one: "bit (1 :: u32) i \<longleftrightarrow> i = 0" for i by (simp add: bit_1_iff)
  have "\<not> (\<forall>i < 32. i = (0::nat))" by (auto intro: exI [of _ 1])
  then obtain i where "s = of_nat i" "i \<noteq> 0" "\<forall>j < i. j = 0"
    using nrk_signal_create_least [of "ex_kernel 0"] unfolding sk prod.case ex_kernel_simps one
    by (simp only: if_False) blast
  then have "i = 1" using less_one by (metis One_nat_def Suc_lessI neq0_conv zero_neq_one)
  then show ?thesis using sk \<open>s = of_nat i\<close> by simp
qed

text \<open>
  Deleting a signal deletes every signal with a smaller identifier too.
  \<^verbatim>\<open>~SIG(sig_id)\<close> expands to \<^verbatim>\<open>(~1) << sig_id\<close>, so after the call a signal is
  in use only if it was in use before and its identifier is above \<open>sig_id\<close>.
\<close>

theorem nrk_signal_delete_clears_lower:
  assumes "0 \<le> sint s" "sint s < 32" "bit (nrk_signal_list k) (nat (sint s))"
  shows "\<exists>k'. nrk_signal_delete s k = Some (NRK_OK, k') \<and>
    (\<forall>j. bit (nrk_signal_list k') j \<longleftrightarrow> bit (nrk_signal_list k) j \<and> sint s < int j) \<and>
    (\<forall>i < NRK_MAX_TASKS k. task_ID (nrk_task_TCB k ! i) \<noteq> - 1 \<longrightarrow>
       \<not> bit (registered_signal_mask (nrk_task_TCB k' ! i)) (nat (sint s)))"
proof -
  let ?n = "nat (sint s)"
  have "bit (nrk_signal_list k AND push_bit ?n (NOT 1)) j \<longleftrightarrow> bit (nrk_signal_list k) j \<and> sint s < int j" for j
    using assms(1,2) by (auto simp: bit_and_iff bit_push_bit_iff bit_not_iff bit_1_iff dest: bit_imp_le_length)
  moreover have "\<not> bit (registered_signal_mask (forget_signal (2 ^ ?n) t)) ?n" if "task_ID t \<noteq> - 1" for t
    using that by (auto simp: forget_signal_def Let_def bit_and_not_pow2)
  ultimately show ?thesis
    using assms SIG_bit [OF assms(1,2)] by (auto simp: nrk_signal_delete_def and_pow2 nrk_int_disable_def nrk_int_enable_def)
qed

theorem nrk_signal_delete_clears_lower_witness:
  "\<exists>k'. nrk_signal_delete 4 (ex_kernel 0\<lparr>nrk_signal_list := 0x17\<rparr>) = Some (NRK_OK, k') \<and>
    \<not> bit (nrk_signal_list k') 0"
proof -
  let ?k = "ex_kernel 0\<lparr>nrk_signal_list := 0x17\<rparr>"
  have "sint (4 :: i8) = 4" "bit (0x17 :: u32) 4" by simp_all
  then have four: "sint (4 :: i8) = 4" "bit (nrk_signal_list ?k) (nat (sint (4 :: i8)))" by simp_all
  from nrk_signal_delete_clears_lower [OF _ _ four(2)] obtain k' where
    "nrk_signal_delete 4 ?k = Some (NRK_OK, k')"
    "\<forall>j. bit (nrk_signal_list k') j \<longleftrightarrow> bit (nrk_signal_list ?k) j \<and> sint (4 :: i8) < int j"
    using four(1) by auto
  moreover from this(2) have "\<not> bit (nrk_signal_list k') 0" using four(1) by simp
  ultimately show ?thesis by blast
qed

text \<open>A task that a signal wakes: one that waits for it, or one that waits for the semaphore
  whose index is \<open>2 ^ s\<close>.\<close>

definition woken_by :: "nat \<Rightarrow> NRK_TCB \<Rightarrow> bool" where
  "woken_by s t \<longleftrightarrow> event_suspend t = SIG_EVENT_SUSPENDED \<and> bit (active_signal_mask t) s \<or>
     event_suspend t = RSRC_EVENT_SUSPENDED \<and> active_signal_mask t = 2 ^ s"

lemma deliver_woken:
  "snd (deliver (2 ^ s) t) \<longleftrightarrow> woken_by s t"
  "woken_by s t \<Longrightarrow> task_state (fst (deliver (2 ^ s) t)) = SUSPENDED \<and>
     next_wakeup (fst (deliver (2 ^ s) t)) = 0 \<and> event_suspend (fst (deliver (2 ^ s) t)) = 0"
  "\<not> woken_by s t \<Longrightarrow> fst (deliver (2 ^ s) t) = t"
  by (auto simp: deliver_def woken_by_def and_pow2_eq_0 Let_def)

text \<open>
  C21: Signalling an event wakes exactly the tasks waiting for it. For a signal in use the
  call returns; a task waiting for the signal is made runnable (suspended, due at once,
  waiting for nothing), every other task keeps its control block but for the error number,
  and the result is \<^verbatim>\<open>NRK_OK\<close> just when some task was woken. A task waiting for
  semaphore number \<open>2 ^ s\<close> is woken as well.
\<close>

theorem nrk_event_signal_wakes:
  assumes "running k c" "0 \<le> sint s" "sint s < 32" "bit (nrk_signal_list k) (nat (sint s))"
  shows "\<exists>r k'. nrk_event_signal s k = Some (r, k') \<and> NRK_MAX_TASKS k' = NRK_MAX_TASKS k \<and>
    (r = NRK_OK \<longleftrightarrow> (\<exists>t \<in> set (nrk_task_TCB k). woken_by (nat (sint s)) t)) \<and>
    (\<forall>i < NRK_MAX_TASKS k. let t = nrk_task_TCB k ! i; t' = nrk_task_TCB k' ! i in
       if woken_by (nat (sint s)) t
       then task_state t' = SUSPENDED \<and> next_wakeup t' = 0 \<and> event_suspend t' = 0
       else t'\<lparr>errno := errno t\<rparr> = t)"
proof -
  let ?m = "2 ^ nat (sint s) :: u32"
  let ?T = "map (\<lambda>t. fst (deliver ?m t)) (nrk_task_TCB k)"
  let ?k = "nrk_int_enable (nrk_int_disable k\<lparr>nrk_task_TCB := ?T\<rparr>)"
  have run: "running ?k c" using assms(1) by (simp add: running_def)
  have set: "?m AND nrk_signal_list k \<noteq> 0" using assms(4) by (simp add: and_pow2)
  have "nrk_event_signal s k =
      (if \<exists>t \<in> set (nrk_task_TCB k). woken_by (nat (sint s)) t then Some (NRK_OK, ?k)
       else Some (NRK_ERROR, upd_tcb c (\<lambda>t. t\<lparr>errno := 2\<rparr>) ?k))"
    using SIG_bit [OF assms(2,3)] set run
    by (simp add: nrk_event_signal_def nrk_errno_set_def comp_def deliver_woken(1))
  then show ?thesis
    using deliver_woken(2,3) assms(1) by (auto simp: Let_def nth_list_update running_def)
qed

theorem nrk_event_signal_wakes_witness:
  "\<exists>k'. nrk_event_signal 0 (upd_tcb 2 (\<lambda>t. t\<lparr>event_suspend := 1, active_signal_mask := 5\<rparr>) (ex_kernel 1)) = Some (NRK_OK, k') \<and>
    task_state (nrk_task_TCB k' ! 2) = SUSPENDED \<and> next_wakeup (nrk_task_TCB k' ! 2) = 0"
proof -
  let ?k = "upd_tcb 2 (\<lambda>t. t\<lparr>event_suspend := 1, active_signal_mask := 5\<rparr>) (ex_kernel 1)"
  have "running ?k 1" using ex_running [of 1] by simp
  moreover have "woken_by 0 (nrk_task_TCB ?k ! 2)"
    by (simp add: woken_by_def ex_tasks_def SIG_EVENT_SUSPENDED_def bit_0)
  moreover have "NRK_MAX_TASKS ?k = 3" by (simp add: ex_tasks_def)
  ultimately show ?thesis
    using nrk_event_signal_wakes [of ?k 1 0] nth_mem [of 2 "nrk_task_TCB ?k"]
    by (fastforce simp: Let_def)
qed

section \<open>Small numbers in a byte\<close>

lemma unat_of_nat_u8 [simp]: "n < 256 \<Longrightarrow> unat (of_nat n :: u8) = n"
  by (simp add: unsigned_of_nat take_bit_nat_eq_self)

lemma sint_of_nat_i8 [simp]: "n < 128 \<Longrightarrow> sint (of_nat n :: i8) = int n"
  by (simp add: signed_of_nat signed_take_bit_int_eq_self)

lemma of_nat_unat_u8 [simp]: "of_nat (unat (i :: u8)) = i"
  by simp

section \<open>Semaphores: properties\<close>

definition sem_used :: "nrk_sem_t \<Rightarrow> bool" where
  "sem_used s \<longleftrightarrow> sem_count s \<noteq> - 1"

definition sems_ok :: "kernel \<Rightarrow> bool" where
  "sems_ok k \<longleftrightarrow> NRK_MAX_RESOURCE_CNT k \<le> 127 \<and>
     unat (nrk_resource_cnt k) = length (filter sem_used (nrk_sem_list k))"

lemma length_filter_update:
  "i < length xs \<Longrightarrow> \<not> P (xs ! i) \<Longrightarrow> P x \<Longrightarrow> length (filter P (xs[i := x])) = Suc (length (filter P xs))"
proof (induction xs arbitrary: i)
  case (Cons y ys)
  then show ?case by (cases i) auto
qed simp

text \<open>
  Creating a semaphore. While the counter agrees with the entries in use, a call
  returns: it fails when at most one entry is free (so the last entry of the table is never
  used), and otherwise takes a free entry, with the given count as its value, and the
  counter still agrees.
\<close>

theorem nrk_sem_create_takes_free:
  assumes "sems_ok k" "count \<noteq> - 1"
  shows "if NRK_MAX_RESOURCE_CNT k \<le> length (filter sem_used (nrk_sem_list k)) + 1
    then nrk_sem_create count c k = Some (None, k)
    else \<exists>i k'. nrk_sem_create count c k = Some (Some i, k') \<and> i < NRK_MAX_RESOURCE_CNT k \<and>
      \<not> sem_used (nrk_sem_list k ! i) \<and>
      nrk_sem_list k' = (nrk_sem_list k)[i := \<lparr>sem_count = count, resource_ceiling = c, sem_value = count\<rparr>] \<and>
      sems_ok k'"
proof -
  let ?n = "NRK_MAX_RESOURCE_CNT k" and ?u = "length (filter sem_used (nrk_sem_list k))"
  have cnt: "uint (nrk_resource_cnt k) = int ?u" "?n \<le> 127"
    using assms(1) by (simp_all add: sems_ok_def flip: unat_eq_nat_uint) (metis uint_nat)
  show ?thesis
  proof (cases "?n \<le> ?u + 1")
    case True
    then show ?thesis using cnt by (simp add: nrk_sem_create_def)
  next
    case False
    have "\<exists>i < ?n. \<not> sem_used (nrk_sem_list k ! i)"
    proof (rule ccontr)
      assume "\<not> ?thesis"
      then have "filter sem_used (nrk_sem_list k) = nrk_sem_list k" by (auto simp: filter_id_conv in_set_conv_nth)
      with False show False by simp
    qed
    then obtain i where i: "scan (\<lambda>i. sem_count (nrk_sem_list k ! i) = - 1) 0 ?n = Some i"
      by (cases "scan (\<lambda>i. sem_count (nrk_sem_list k ! i) = - 1) 0 ?n") (auto simp: scan_None_iff sem_used_def)
    then have "i < ?n" "\<not> sem_used (nrk_sem_list k ! i)"
      by (auto simp: scan_Some_iff sem_used_def)
    moreover have "unat (nrk_resource_cnt k + 1) = ?u + 1"
      using False cnt assms(1) by (simp add: sems_ok_def unat_word_ariths)
    moreover have "length (filter sem_used ((nrk_sem_list k)[i := \<lparr>sem_count = count, resource_ceiling = c,
        sem_value = count\<rparr>])) = Suc ?u"
      using calculation assms(2) by (intro length_filter_update) (simp_all add: sem_used_def)
    ultimately show ?thesis using False cnt i
      by (auto simp: nrk_sem_create_def sems_ok_def)
  qed
qed

lemma ex_sems_ok: "sems_ok (ex_kernel 1)"
  by (simp add: sems_ok_def sem_used_def free_sem_def)

theorem nrk_sem_create_takes_free_witness:
  "\<exists>i k'. nrk_sem_create 1 20 (ex_kernel 1) = Some (Some i, k') \<and> sems_ok k'"
  using nrk_sem_create_takes_free [OF ex_sems_ok, of 1 20] by (auto simp: sem_used_def free_sem_def)

lemma resource_index: "i < NRK_MAX_RESOURCE_CNT k \<Longrightarrow> nrk_get_resource_index (Some i) k = of_nat i"
proof -
  assume "i < NRK_MAX_RESOURCE_CNT k"
  then have "scan (\<lambda>j. Some i = Some j) 0 (NRK_MAX_RESOURCE_CNT k) = Some i"
    by (simp add: scan_Some_iff)
  then show ?thesis by (simp add: nrk_get_resource_index_def)
qed

lemma with_sem_valid:
  assumes "i < NRK_MAX_RESOURCE_CNT k" "NRK_MAX_RESOURCE_CNT k \<le> 127"
  shows "with_sem (Some i) k body ret = body (of_nat i)"
proof -
  have "sint (of_nat i :: i8) = int i" using assms by simp
  moreover from this have "(of_nat i :: i8) \<noteq> - 1" by auto
  ultimately show ?thesis using assms by (simp add: with_sem_def resource_index)
qed

text \<open>
  Deleting a semaphore that is not in use corrupts the counter. Right after boot, when
  no semaphore exists, \<^verbatim>\<open>nrk_sem_delete\<close> on an entry of the table returns
  \<^verbatim>\<open>NRK_OK\<close> and wraps the counter to 255, after which every creation fails.
\<close>

theorem nrk_sem_delete_unused:
  assumes "i < NRK_MAX_RESOURCE_CNT k" "NRK_MAX_RESOURCE_CNT k \<le> 127" "nrk_resource_cnt k = 0"
  shows "\<exists>k'. nrk_sem_delete (Some i) k = Some (NRK_OK, k') \<and> nrk_resource_cnt k' = 255 \<and>
    nrk_sem_create count c k' = Some (None, k')"
proof -
  have "(- 1 :: u8) = 255" by simp
  then have "uint (- 1 :: u8) = 255" by (simp only:) simp
  then show ?thesis
    using assms by (simp add: nrk_sem_delete_def with_sem_valid upd_sem_def nrk_sem_create_def)
qed

theorem nrk_sem_delete_unused_witness:
  "\<exists>k'. nrk_sem_delete (Some 0) (ex_kernel 1) = Some (NRK_OK, k') \<and> nrk_sem_create 1 5 k' = Some (None, k')"
  using nrk_sem_delete_unused [of 0 "ex_kernel 1" 1 5] by auto

definition waits_for_sem :: "nat \<Rightarrow> NRK_TCB \<Rightarrow> bool" where
  "waits_for_sem i t \<longleftrightarrow> event_suspend t = RSRC_EVENT_SUSPENDED \<and> active_signal_mask t = scast (of_nat i :: i8)"

text \<open>
  C22: A post lets every waiter in. When two tasks wait for a semaphore of value 0, one
  \<^verbatim>\<open>nrk_sem_post\<close> makes both of them runnable, and as neither looks at the value again
  both calls of \<^verbatim>\<open>nrk_sem_pend\<close> return \<^verbatim>\<open>NRK_OK\<close>, leaving the value at -1.
\<close>

theorem nrk_sem_post_admits_all:
  assumes sem: "i < NRK_MAX_RESOURCE_CNT k" "NRK_MAX_RESOURCE_CNT k \<le> 127"
      "sem_value (nrk_sem_list k ! i) = 0" "0 < sint (sem_count (nrk_sem_list k ! i))"
    and run: "running k c" and ab: "a < NRK_MAX_TASKS k" "b < NRK_MAX_TASKS k"
      "waits_for_sem i (nrk_task_TCB k ! a)" "waits_for_sem i (nrk_task_TCB k ! b)"
  shows "\<exists>k1 k2 k3. nrk_sem_post (Some i) k = Some (NRK_OK, k1) \<and>
    (\<forall>t \<in> {a, b}. task_state (nrk_task_TCB k1 ! t) = SUSPENDED \<and> next_wakeup (nrk_task_TCB k1 ! t) = 0) \<and>
    nrk_sem_pend_resume (of_nat i) (k1\<lparr>nrk_cur_task_TCB := Some a\<rparr>) = Some (Returned NRK_OK, k2) \<and>
    nrk_sem_pend_resume (of_nat i) (k2\<lparr>nrk_cur_task_TCB := Some b\<rparr>) = Some (Returned NRK_OK, k3) \<and>
    sem_value (nrk_sem_list k3 ! i) = - 1"
proof -
  have i: "i < 128" "sint (of_nat i :: i8) = int i" using sem by simp_all
  define k0 where "k0 = upd_tcb c (\<lambda>t. t\<lparr>elevated_prio_flag := False\<rparr>)
    (nrk_int_disable k\<lparr>nrk_sem_list := (nrk_sem_list k)[i := (nrk_sem_list k ! i)\<lparr>sem_value := 1\<rparr>]\<rparr>)"
  define k1 where "k1 = nrk_int_enable (k0\<lparr>nrk_task_TCB := map (release_waiter (of_nat i)) (nrk_task_TCB k0)\<rparr>)"
  have run': "running (nrk_int_disable k\<lparr>nrk_sem_list := x\<rparr>) c" for x using run by (simp add: running_def)
  have post: "nrk_sem_post (Some i) k = Some (NRK_OK, k1)"
    using sem i run' [of "(nrk_sem_list k)[i := (nrk_sem_list k ! i)\<lparr>sem_value := 1\<rparr>]"]
    by (simp add: nrk_sem_post_def with_sem_valid upd_sem_def k1_def k0_def)
  have len: "NRK_MAX_TASKS k1 = NRK_MAX_TASKS k" by (simp add: k1_def k0_def)
  let ?T = "(nrk_task_TCB k)[c := (nrk_task_TCB k ! c)\<lparr>elevated_prio_flag := False\<rparr>]"
  have same: "event_suspend (?T ! t) = event_suspend (nrk_task_TCB k ! t)"
    "active_signal_mask (?T ! t) = active_signal_mask (nrk_task_TCB k ! t)" for t
    by (rule nth_update_same, simp)+
  have "waits_for_sem i (nrk_task_TCB k0 ! t)" if "t \<in> {a, b}" for t
    using that ab by (auto simp: k0_def same waits_for_sem_def)
  then have woken: "task_state (nrk_task_TCB k1 ! t) = SUSPENDED \<and> next_wakeup (nrk_task_TCB k1 ! t) = 0"
    if "t \<in> {a, b}" for t
    using that ab by (auto simp: k1_def k0_def release_waiter_def waits_for_sem_def)
  have take: "\<exists>k''. nrk_sem_pend_resume (of_nat i) (k'\<lparr>nrk_cur_task_TCB := Some t\<rparr>) = Some (Returned NRK_OK, k'') \<and>
      NRK_MAX_TASKS k'' = NRK_MAX_TASKS k' \<and> NRK_MAX_RESOURCE_CNT k'' = NRK_MAX_RESOURCE_CNT k' \<and>
      sem_value (nrk_sem_list k'' ! i) = sem_value (nrk_sem_list k' ! i) - 1"
    if "i < NRK_MAX_RESOURCE_CNT k'" "t < NRK_MAX_TASKS k'" for k' t
    using that i by (simp add: nrk_sem_pend_resume_def upd_sem_def upd_cur_def)
  have k1: "i < NRK_MAX_RESOURCE_CNT k1" "a < NRK_MAX_TASKS k1" "sem_value (nrk_sem_list k1 ! i) = 1"
    using sem ab len by (simp_all add: k1_def k0_def)
  obtain k2 where k2: "nrk_sem_pend_resume (of_nat i) (k1\<lparr>nrk_cur_task_TCB := Some a\<rparr>) = Some (Returned NRK_OK, k2)"
      "i < NRK_MAX_RESOURCE_CNT k2" "b < NRK_MAX_TASKS k2" "sem_value (nrk_sem_list k2 ! i) = 0"
    using take [OF k1(1,2)] k1 ab len by auto
  obtain k3 where "nrk_sem_pend_resume (of_nat i) (k2\<lparr>nrk_cur_task_TCB := Some b\<rparr>) = Some (Returned NRK_OK, k3)"
      "sem_value (nrk_sem_list k3 ! i) = - 1"
    using take [OF k2(2,3)] k2(4) by auto
  with post woken k2(1) show ?thesis by blast
qed

theorem nrk_sem_post_admits_all_witness:
  "\<exists>k k1 k2 k3. nrk_sem_post (Some 0) k = Some (NRK_OK, k1) \<and>
    nrk_sem_pend_resume 0 (k1\<lparr>nrk_cur_task_TCB := Some 1\<rparr>) = Some (Returned NRK_OK, k2) \<and>
    nrk_sem_pend_resume 0 (k2\<lparr>nrk_cur_task_TCB := Some 2\<rparr>) = Some (Returned NRK_OK, k3) \<and>
    sem_value (nrk_sem_list k3 ! 0) = - 1"
proof -
  let ?w = "\<lambda>t. t\<lparr>event_suspend := RSRC_EVENT_SUSPENDED, active_signal_mask := 0\<rparr>"
  let ?k = "upd_tcb 1 ?w (upd_tcb 2 ?w (ex_kernel 0\<lparr>nrk_sem_list :=
      [\<lparr>sem_count = 1, resource_ceiling = 20, sem_value = 0\<rparr>]\<rparr>))"
  have "running ?k 0" "waits_for_sem 0 (nrk_task_TCB ?k ! 1)" "waits_for_sem 0 (nrk_task_TCB ?k ! 2)"
    by (simp_all add: running_def waits_for_sem_def ex_tasks_def)
  then show ?thesis
    using nrk_sem_post_admits_all [of 0 ?k 0 1 2] by (simp add: ex_tasks_def) blast
qed

end
