(* ===== verification/Nrk_Reserve.thy ===== *)
theory Nrk_Reserve
  imports Nrk_Events
begin

text \<open>
  Resource reserves (\<^verbatim>\<open>src/src/kernel/source/nrk_reserve.c\<close>) and the software watchdog
  timers (\<^verbatim>\<open>nrk_sw_wdt.c\<close>). Both read the clock; the readings of the timers are
  arguments. The handlers they call are addresses of application code: \<open>call\<close> stands
  for calling one.
\<close>

section \<open>Reserves\<close>

definition nrk_reserve_init :: "kernel \<Rightarrow> kernel" where
  "nrk_reserve_init k = k\<lparr>nrk_reserves := map (\<lambda>r. r\<lparr>res_active := - 1\<rparr>) (nrk_reserves k)\<rparr>"

definition nrk_reserve_create :: "kernel \<Rightarrow> i8 \<times> kernel" where
  "nrk_reserve_create k =
     (case scan (\<lambda>i. res_active (nrk_reserves k ! i) = - 1) 0 (length (nrk_reserves k)) of
        Some i \<Rightarrow> (of_nat i, k\<lparr>nrk_reserves := (nrk_reserves k)[i := (nrk_reserves k ! i)\<lparr>res_active := 1\<rparr>]\<rparr>)
      | None \<Rightarrow> (NRK_ERROR, k))"

text \<open>
  The code indexes the table with its uninitialised local \<^verbatim>\<open>i\<close>, not with
  \<^verbatim>\<open>reserve_id\<close>: \<open>junk\<close> is whatever that variable holds.
\<close>

definition nrk_reserve_delete :: "i8 \<Rightarrow> u8 \<Rightarrow> kernel \<Rightarrow> (i8 \<times> kernel) option" where
  "nrk_reserve_delete junk reserve_id k =
     (if unat reserve_id < length (nrk_reserves k) then do {
        r \<leftarrow> at (nrk_reserves k) (sint junk);
        if res_active r = 1
        then Some (NRK_OK, k\<lparr>nrk_reserves := (nrk_reserves k)[nat (sint junk) := r\<lparr>res_active := 0\<rparr>]\<rparr>)
        else Some (NRK_ERROR, k)
      }
      else Some (NRK_ERROR, k))"

text \<open>One entry brought up to date at the time \<open>now\<close>, in ticks.\<close>

definition replenish :: "u32 \<Rightarrow> nrk_reserve \<Rightarrow> nrk_reserve" where
  "replenish now r =
     (let r = r\<lparr>cur_time := now\<rparr>
      in if set_time r \<le> cur_time r
         then r\<lparr>set_time := cur_time r + period_ticks r, cur_access := 0\<rparr> else r)"

definition nrk_reserve_update :: "nrk_cfg \<Rightarrow> u16 \<Rightarrow> u8 \<Rightarrow> u8 \<Rightarrow> kernel \<Rightarrow> kernel option" where
  "nrk_reserve_update cfg tcnt5 timer reserve_id k = do {
     let k = nrk_int_disable k;
     let t = nrk_time_get (opt_SUB_TICK_TIMING cfg) tcnt5 timer (nrk_system_time k);
     now \<leftarrow> nrk_time_to_ticks_long t;
     r \<leftarrow> at (nrk_reserves k) (uint reserve_id);
     Some (nrk_int_enable (k\<lparr>nrk_reserves := (nrk_reserves k)[unat reserve_id := replenish now r]\<rparr>))
   }"

definition nrk_reserve_get :: "nrk_cfg \<Rightarrow> u16 \<Rightarrow> u8 \<Rightarrow> u8 \<Rightarrow> kernel \<Rightarrow> (u8 \<times> kernel) option" where
  "nrk_reserve_get cfg tcnt5 timer reserve_id k =
     (if length (nrk_reserves k) \<le> unat reserve_id then do {
        k \<leftarrow> nrk_errno_set 1 k;
        Some (0, k)
      }
      else if res_active (nrk_reserves k ! unat reserve_id) = - 1 then do {
        k \<leftarrow> nrk_errno_set 2 k;
        Some (0, k)
      }
      else do {
        k \<leftarrow> nrk_reserve_update cfg tcnt5 timer reserve_id k;
        let r = nrk_reserves k ! unat reserve_id;
        Some (if sint (set_access r) < sint (cur_access r) then 0
              else ucast (set_access r - cur_access r), k)
      })"

definition nrk_reserve_consume ::
    "(u16 \<Rightarrow> kernel \<Rightarrow> kernel option) \<Rightarrow> nrk_cfg \<Rightarrow> u16 \<Rightarrow> u8 \<Rightarrow> u8 \<Rightarrow> kernel \<Rightarrow> (i8 \<times> kernel) option" where
  "nrk_reserve_consume call cfg tcnt5 timer reserve_id k =
     (if length (nrk_reserves k) \<le> unat reserve_id then do {
        k \<leftarrow> nrk_errno_set 1 k;
        Some (NRK_ERROR, k)
      }
      else if res_active (nrk_reserves k ! unat reserve_id) = - 1 then do {
        k \<leftarrow> nrk_errno_set 2 k;
        Some (NRK_ERROR, k)
      }
      else do {
        k \<leftarrow> nrk_reserve_update cfg tcnt5 timer reserve_id k;
        let r = nrk_reserves k ! unat reserve_id;
        if sint (set_access r) \<le> sint (cur_access r) then do {
          let k = nrk_int_enable k;
          k \<leftarrow> (if res_error r \<noteq> 0 then call (res_error r) k else Some k);
          Some (NRK_ERROR, k)
        }
        else Some (NRK_OK, k\<lparr>nrk_reserves :=
               (nrk_reserves k)[unat reserve_id := r\<lparr>cur_access := cur_access r + 1\<rparr>]\<rparr>)
      })"

definition nrk_reserve_set ::
    "nrk_cfg \<Rightarrow> u16 \<Rightarrow> u8 \<Rightarrow> u8 \<Rightarrow> nrk_time_t \<Rightarrow> i16 \<Rightarrow> u16 \<Rightarrow> kernel \<Rightarrow> (i8 \<times> kernel) option" where
  "nrk_reserve_set cfg tcnt5 timer i per access_count errhandler k =
     (if length (nrk_reserves k) \<le> unat i then Some (NRK_ERROR, k)
      else if res_active (nrk_reserves k ! unat i) = - 1 then Some (NRK_ERROR, k)
      else do {
        p \<leftarrow> nrk_time_to_ticks_long \<lparr>secs = secs per, nano_secs = nano_secs per\<rparr>;
        now \<leftarrow> nrk_time_to_ticks_long
                 (nrk_time_get (opt_SUB_TICK_TIMING cfg) tcnt5 timer (nrk_system_time k));
        Some (NRK_OK, k\<lparr>nrk_reserves := (nrk_reserves k)[unat i := (nrk_reserves k ! unat i)
          \<lparr>period_ticks := p, set_access := access_count, cur_access := 0, cur_time := now,
           set_time := now + p, res_error := errhandler\<rparr>]\<rparr>)
      })"

section \<open>Software watchdogs\<close>

text \<open>
  The check stops the system (\<open>None\<close>, \<^verbatim>\<open>nrk_halt\<close>) when a timer without a handler
  has run out. Time reads are the same for all timers: the clock is read once.
\<close>

fun sw_wdt_check_from ::
    "(u16 \<Rightarrow> kernel \<Rightarrow> kernel option) \<Rightarrow> nrk_cfg \<Rightarrow> nrk_time_t \<Rightarrow> nat list \<Rightarrow> kernel \<Rightarrow> kernel option" where
  "sw_wdt_check_from call cfg now [] k = Some k"
| "sw_wdt_check_from call cfg now (i # is) k = do {
     w \<leftarrow> at (sw_wdts k) (int i);
     k \<leftarrow> (if wdt_active w = 1 \<and> fst (nrk_time_sub now (wdt_next_period w) now) = NRK_ERROR
           then do {
             k \<leftarrow> nrk_kernel_error_add cfg NRK_SW_WATCHDOG_ERROR (of_nat i) k;
             if error_func w = 0 then None else call (error_func w) k
           }
           else Some k);
     sw_wdt_check_from call cfg now is k
   }"

definition nrk_sw_wdt_check ::
    "(u16 \<Rightarrow> kernel \<Rightarrow> kernel option) \<Rightarrow> nrk_cfg \<Rightarrow> u16 \<Rightarrow> u8 \<Rightarrow> kernel \<Rightarrow> kernel option" where
  "nrk_sw_wdt_check call cfg tcnt5 timer k =
     sw_wdt_check_from call cfg
       (nrk_time_get (opt_SUB_TICK_TIMING cfg) tcnt5 timer (nrk_system_time k))
       [0 ..< length (sw_wdts k)] k"

definition nrk_sw_wdt_init_all :: "kernel \<Rightarrow> kernel" where
  "nrk_sw_wdt_init_all k = k\<lparr>sw_wdts := map (\<lambda>w. w\<lparr>wdt_active := 0\<rparr>) (sw_wdts k)\<rparr>"

definition upd_wdt :: "u8 \<Rightarrow> (nrk_sw_wdt_t \<Rightarrow> nrk_sw_wdt_t) \<Rightarrow> kernel \<Rightarrow> i8 \<times> kernel" where
  "upd_wdt i f k =
     (if length (sw_wdts k) \<le> unat i then (NRK_ERROR, k)
      else (NRK_OK, k\<lparr>sw_wdts := (sw_wdts k)[unat i := f (sw_wdts k ! unat i)]\<rparr>))"

definition nrk_sw_wdt_init :: "u8 \<Rightarrow> nrk_time_t \<Rightarrow> u16 \<Rightarrow> kernel \<Rightarrow> i8 \<times> kernel" where
  "nrk_sw_wdt_init i per func k =
     upd_wdt i (\<lambda>w. w\<lparr>error_func := func,
                      wdt_period := \<lparr>secs = secs per, nano_secs = nano_secs per\<rparr>,
                      wdt_active := 0\<rparr>) k"

definition wdt_deadline :: "nrk_time_t \<Rightarrow> nrk_sw_wdt_t \<Rightarrow> nrk_time_t" where
  "wdt_deadline now w = \<lparr>secs = secs now + secs (wdt_period w),
                         nano_secs = nano_secs now + nano_secs (wdt_period w)\<rparr>"

definition nrk_sw_wdt_update :: "nrk_cfg \<Rightarrow> u16 \<Rightarrow> u8 \<Rightarrow> u8 \<Rightarrow> kernel \<Rightarrow> i8 \<times> kernel" where
  "nrk_sw_wdt_update cfg tcnt5 timer i k =
     (let now = nrk_time_get (opt_SUB_TICK_TIMING cfg) tcnt5 timer (nrk_system_time k)
      in upd_wdt i (\<lambda>w. w\<lparr>wdt_next_period := nrk_time_compact_nanos (wdt_deadline now w),
                          wdt_active := 1\<rparr>) k)"

text \<open>Unlike the update, the start does not normalise the deadline.\<close>

definition nrk_sw_wdt_start :: "nrk_cfg \<Rightarrow> u16 \<Rightarrow> u8 \<Rightarrow> u8 \<Rightarrow> kernel \<Rightarrow> i8 \<times> kernel" where
  "nrk_sw_wdt_start cfg tcnt5 timer i k =
     (let now = nrk_time_get (opt_SUB_TICK_TIMING cfg) tcnt5 timer (nrk_system_time k)
      in upd_wdt i (\<lambda>w. w\<lparr>wdt_next_period := wdt_deadline now w, wdt_active := 1\<rparr>) k)"

definition nrk_sw_wdt_stop :: "u8 \<Rightarrow> kernel \<Rightarrow> i8 \<times> kernel" where
  "nrk_sw_wdt_stop i k = upd_wdt i (\<lambda>w. w\<lparr>wdt_active := 0\<rparr>) k"

section \<open>Properties\<close>

abbreviation clock_now :: "nrk_cfg \<Rightarrow> u16 \<Rightarrow> u8 \<Rightarrow> kernel \<Rightarrow> nrk_time_t" where
  "clock_now cfg tcnt5 timer k \<equiv> nrk_time_get (opt_SUB_TICK_TIMING cfg) tcnt5 timer (nrk_system_time k)"

lemma int_toggle_reserves [simp]:
  "nrk_reserves (nrk_int_disable k) = nrk_reserves k" "nrk_reserves (nrk_int_enable k) = nrk_reserves k"
  by (simp_all add: nrk_int_disable_def nrk_int_enable_def)

lemma reserve_update_value:
  assumes "unat i < length (nrk_reserves k)"
  shows "nrk_reserve_update cfg tcnt5 timer i k =
    map_option (\<lambda>now. nrk_int_enable (nrk_int_disable k\<lparr>nrk_reserves :=
      (nrk_reserves k)[unat i := replenish now (nrk_reserves k ! unat i)]\<rparr>))
    (nrk_time_to_ticks_long (clock_now cfg tcnt5 timer k))"
  using assms by (cases "nrk_time_to_ticks_long (clock_now cfg tcnt5 timer k)") (simp_all add: nrk_reserve_update_def)

definition budget_ok :: "nrk_reserve \<Rightarrow> bool" where
  "budget_ok r \<longleftrightarrow> 0 \<le> sint (cur_access r) \<and> sint (cur_access r) \<le> sint (set_access r)"

lemma replenish_keeps:
  "set_access (replenish now r) = set_access r" "res_active (replenish now r) = res_active r"
  "res_error (replenish now r) = res_error r"
  "cur_access (replenish now r) = (if set_time r \<le> now then 0 else cur_access r)"
  "budget_ok r \<Longrightarrow> budget_ok (replenish now r)"
  by (auto simp: replenish_def budget_ok_def Let_def)

lemma sint_inc:
  assumes "sint (x :: i16) < sint (y :: i16)"
  shows "sint (x + 1) = sint x + 1"
proof -
  have "- (2 ^ 15) \<le> sint x" "sint y < 2 ^ 15" using sint_ge [of x] sint_lt [of y] by simp_all
  then show ?thesis using assms
    by (simp add: sint_word_ariths signed_take_bit_int_eq_self)
qed


text \<open>
  Reserves hang after 256 seconds. Once the clock shows 256 seconds or more, consuming
  from, reading or setting a reserve in use never returns.
\<close>

theorem nrk_reserve_hangs:
  assumes "unat i < length (nrk_reserves k)" "res_active (nrk_reserves k ! unat i) \<noteq> - 1"
    "255 < secs (clock_now cfg tcnt5 timer k)"
  shows "nrk_reserve_consume call cfg tcnt5 timer i k = None \<and> nrk_reserve_get cfg tcnt5 timer i k = None \<and>
    nrk_reserve_set cfg tcnt5 timer i per n h k = None"
  using assms time_to_ticks_long_diverges [OF assms(3)]
  by (cases "nrk_time_to_ticks_long \<lparr>secs = secs per, nano_secs = nano_secs per\<rparr>")
     (simp_all add: nrk_reserve_consume_def nrk_reserve_get_def nrk_reserve_set_def reserve_update_value)

definition ex_reserves :: "u32 \<Rightarrow> kernel" where
  "ex_reserves s = ex_kernel 1\<lparr>nrk_system_time := \<lparr>secs = s, nano_secs = 0\<rparr>,
     nrk_reserves := [\<lparr>period_ticks = 1024, set_time = 500000, cur_time = 0, set_access = 3, cur_access = 2,
       res_active = 1, res_error = 0\<rparr>]\<rparr>"

lemma ex_reserves_now:
  "unat s < 1000 \<Longrightarrow> secs (clock_now ex_cfg 0 0 (ex_reserves s)) = s \<and> time_ns (clock_now ex_cfg 0 0 (ex_reserves s)) = unat s * 1000000000"
  by (simp add: ex_cfg_def ex_reserves_def nrk_time_get_def Let_def compact_id normal_def NANOS_PER_SEC_def time_ns_def)


theorem nrk_reserve_hangs_witness:
  "nrk_reserve_consume (\<lambda>_. Some) ex_cfg 0 0 0 (ex_reserves 256) = None"
  using nrk_reserve_hangs [of 0 "ex_reserves 256" ex_cfg 0 0] ex_reserves_now [of 256]
  by (simp add: ex_reserves_def)

text \<open>
  A software watchdog that was started, not updated, can fire almost a second early.
  \<^verbatim>\<open>nrk_sw_wdt_start\<close> does not normalise the deadline; when the nanoseconds of the clock
  and the period add up to a second or more, the check that \<^verbatim>\<open>nrk_sw_wdt_check\<close> makes
  reports the watchdog as expired in the next second, although the deadline lies ahead.
\<close>

theorem nrk_sw_wdt_start_early:
  assumes now: "normal now" "normal (wdt_period w)" "unat (secs now) + unat (secs (wdt_period w)) + 4 < 2 ^ 32"
    and later: "normal now'" "secs now' = secs now + secs (wdt_period w) + 1"
      "time_ns now' < time_ns now + time_ns (wdt_period w)"
  shows "fst (nrk_time_sub r (wdt_deadline now w) now') = NRK_ERROR \<and>
    fst (nrk_time_sub r (nrk_time_compact_nanos (wdt_deadline now w)) now') = NRK_OK"
proof -
  have "unat (secs now + secs (wdt_period w)) = unat (secs now) + unat (secs (wdt_period w))"
    using now(3) by (simp add: unat_word_ariths)
  then have "secs (wdt_deadline now w) < secs now'"
    using now(3) later(2) by (simp add: wdt_deadline_def word_less_nat_alt unat_word_ariths)
  then have "fst (nrk_time_sub r (wdt_deadline now w) now') = NRK_ERROR" by (simp add: nrk_time_sub_def)
  moreover have "wdt_deadline now w = \<lparr>secs = secs now + secs (wdt_period w),
      nano_secs = nano_secs now + nano_secs (wdt_period w)\<rparr>" by (simp add: wdt_deadline_def)
  then have "nrk_time_compact_nanos (wdt_deadline now w) = snd (nrk_time_add now (wdt_period w))"
    by (simp add: nrk_time_add_def)
  then have "fst (nrk_time_sub r (nrk_time_compact_nanos (wdt_deadline now w)) now') = NRK_OK"
    using time_add_total [OF now] time_sub_total(1) [of "snd (nrk_time_add now (wdt_period w))" now' r] later by simp
  ultimately show ?thesis by blast
qed

theorem nrk_sw_wdt_start_early_witness:
  "fst (nrk_time_sub \<lparr>secs = 0, nano_secs = 0\<rparr> (wdt_deadline \<lparr>secs = 10, nano_secs = 900000000\<rparr>
    \<lparr>error_func = 0, wdt_active = 1, wdt_period = \<lparr>secs = 2, nano_secs = 900000000\<rparr>,
     wdt_next_period = \<lparr>secs = 0, nano_secs = 0\<rparr>\<rparr>) \<lparr>secs = 13, nano_secs = 100000000\<rparr>) = NRK_ERROR"
  using nrk_sw_wdt_start_early [of "\<lparr>secs = 10, nano_secs = 900000000\<rparr>"
    "\<lparr>error_func = 0, wdt_active = 1, wdt_period = \<lparr>secs = 2, nano_secs = 900000000\<rparr>,
     wdt_next_period = \<lparr>secs = 0, nano_secs = 0\<rparr>\<rparr>" "\<lparr>secs = 13, nano_secs = 100000000\<rparr>"]
  by (simp add: normal_def NANOS_PER_SEC_def time_ns_def)

end
