(* ===== verification/Nrk_Init.thy ===== *)
theory Nrk_Init
  imports Nrk_Reserve
begin

text \<open>
  Boot and task creation: \<^verbatim>\<open>nrk_init\<close>, \<^verbatim>\<open>nrk_start\<close> and \<^verbatim>\<open>nrk_TCB_init\<close> of
  \<^verbatim>\<open>src/src/kernel/source/nrk.c\<close>, \<^verbatim>\<open>nrk_activate_task\<close> of \<^verbatim>\<open>nrk_task.c\<close>. The
  task descriptor is the caller's; the operations return it as they leave it.
\<close>

definition nrk_TCB_init ::
    "nrk_cfg \<Rightarrow> nrk_task_type \<Rightarrow> u16 \<Rightarrow> u16 \<Rightarrow> kernel \<Rightarrow> (nrk_task_type \<times> kernel) option" where
  "nrk_TCB_init cfg Task ptos pbos k = do {
     let Task = Task\<lparr>tt_task_ID := (if Type Task \<noteq> IDLE_TASK then nrk_task_init_cnt k else NRK_IDLE_TASK_ID)\<rparr>;
     k \<leftarrow> (if NRK_MAX_TASKS k \<le> unat (nrk_task_init_cnt k)
            then nrk_kernel_error_add cfg NRK_EXTRA_TASK 0 k else Some k);
     let k = (if Type Task \<noteq> IDLE_TASK then k\<lparr>nrk_task_init_cnt := nrk_task_init_cnt k + 1\<rparr> else k);
     let k = (if uint (nrk_task_init_cnt k) = sint NRK_IDLE_TASK_ID
              then k\<lparr>nrk_task_init_cnt := nrk_task_init_cnt k + 1\<rparr> else k);
     i \<leftarrow> tcb_index (tt_task_ID Task) k;
     p \<leftarrow> nrk_time_to_ticks_long (tt_period Task);
     let k = upd_tcb i (\<lambda>t. t\<lparr>OSTaskStkPtr := ptos, task_prio := prio Task, task_state := SUSPENDED,
                             task_ID := tt_task_ID Task, suspend_flag := False, period := p\<rparr>) k;
     k \<leftarrow> (if 4294967 < secs (tt_period Task)
            then nrk_kernel_error_add cfg NRK_PERIOD_OVERFLOW (tt_task_ID Task) k else Some k);
     nw \<leftarrow> nrk_time_to_ticks_long (offset Task);
     res \<leftarrow> nrk_time_to_ticks_long (tt_cpu_reserve Task);
     let k = upd_tcb i (\<lambda>t. t\<lparr>next_wakeup := nw, next_period := period t + nw, cpu_reserve := res,
                             cpu_remaining := res, num_periods := 1, OSTCBStkBottom := pbos,
                             errno := NRK_OK\<rparr>) k;
     Some (Task, k)
   }"

text \<open>
  The stack frame of the task is built before the state of the task is looked at.
\<close>

definition nrk_activate_task ::
    "nrk_cfg \<Rightarrow> nrk_task_type \<Rightarrow> kernel \<Rightarrow> (i8 \<times> nrk_task_type \<times> kernel) option" where
  "nrk_activate_task cfg Task k = do {
     let (topOfStackPtr, m) = nrk_task_stk_init (task_entry Task) (Ptos Task) (Pbos Task) (memory k);
     let k = k\<lparr>memory := m\<rparr>;
     (r, Task, k) \<leftarrow>
       (if FirstActivation Task then do {
          (Task, k) \<leftarrow> nrk_TCB_init cfg Task topOfStackPtr (Pbos Task) k;
          Some (NRK_OK, Task\<lparr>FirstActivation := False\<rparr>, k)
        }
        else do {
          i \<leftarrow> tcb_index (tt_task_ID Task) k;
          if task_state (nrk_task_TCB k ! i) \<noteq> SUSPENDED then Some (NRK_ERROR, Task, k)
          else Some (NRK_OK, Task, upd_tcb i (\<lambda>t. t\<lparr>OSTaskStkPtr := topOfStackPtr\<rparr>) k)
        });
     if r = NRK_ERROR then Some (NRK_ERROR, Task, k)
     else do {
       i \<leftarrow> tcb_index (tt_task_ID Task) k;
       k \<leftarrow> (if next_wakeup (nrk_task_TCB k ! i) = 0
              then k_add_to_readyQ (tt_task_ID Task) (upd_tcb i (\<lambda>t. t\<lparr>task_state := READY\<rparr>) k)
              else Some k);
       Some (NRK_OK, Task, k)
     }
   }"

text \<open>
  What the hardware reports at reset (\<^verbatim>\<open>_nrk_startup_error\<close>,
  \<^verbatim>\<open>nrk_voltage_status\<close>, \<^verbatim>\<open>nrk_watchdog_check\<close>) and where the idle task lives.
\<close>

record boot_info =
  startup_error :: u8
  voltage_status :: u8
  watchdog_check :: i8
  idle_entry :: u16
  idle_stk :: u16
  idle_stk_size :: u16
  idle_descr :: nrk_task_type

definition report :: "nrk_cfg \<Rightarrow> bool \<Rightarrow> u8 \<Rightarrow> kernel \<Rightarrow> kernel option" where
  "report cfg b e k = (if b then nrk_kernel_error_add cfg e 0 k else Some k)"

text \<open>Lines 78-122: the checks made before the tables are set up.\<close>

definition init_checks :: "nrk_cfg \<Rightarrow> boot_info \<Rightarrow> kernel \<Rightarrow> kernel option" where
  "init_checks cfg b k = do {
     let (s, k) = nrk_signal_create k;
     let k = k\<lparr>nrk_wakeup_signal := s\<rparr>;
     k \<leftarrow> report cfg (s = NRK_ERROR) NRK_SIGNAL_CREATE_ERROR k;
     let early = \<not> opt_SOFT_REBOOT_ON_ERROR cfg;
     k \<leftarrow> report cfg (early \<and> startup_error b AND 1 \<noteq> 0) NRK_BAD_STARTUP k;
     k \<leftarrow> report cfg (early \<and> \<not> opt_IGNORE_EXT_RST_ERROR cfg \<and> startup_error b AND 2 \<noteq> 0)
            NRK_EXT_RST_ERROR k;
     k \<leftarrow> report cfg (early \<and> \<not> opt_IGNORE_BROWN_OUT_ERROR cfg \<and> startup_error b AND 4 \<noteq> 0)
            NRK_BOD_ERROR k;
     k \<leftarrow> report cfg (opt_STARTUP_VOLTAGE_CHECK cfg \<and> voltage_status b = 0) NRK_LOW_VOLTAGE k;
     if opt_REBOOT_ON_ERROR cfg \<and> \<not> opt_WATCHDOG cfg then None
     else if opt_WATCHDOG cfg then do {
       k \<leftarrow> (if watchdog_check b = NRK_ERROR
              then nrk_kernel_error_add cfg NRK_WATCHDOG_ERROR 0 (nrk_watchdog_disable k)
              else Some k);
       Some (nrk_watchdog_enable k)
     }
     else Some k
   }"

text \<open>Lines 143-187: the tables.\<close>

definition init_tables :: "nrk_cfg \<Rightarrow> kernel \<Rightarrow> kernel" where
  "init_tables cfg k =
     (let k = k\<lparr>nrk_cur_task_prio := 0, nrk_cur_task_TCB := None, nrk_high_ready_TCB := None,
                nrk_high_ready_prio := 0\<rparr>;
          k = (if opt_STATS_TRACKER cfg then nrk_stats_reset k else k);
          k = nrk_reserve_init k;
          k = k\<lparr>nrk_resource_cnt := 0,
                nrk_sem_list := map (\<lambda>s. s\<lparr>sem_count := - 1, sem_value := - 1, resource_ceiling := - 1\<rparr>)
                                  (nrk_sem_list k),
                nrk_task_TCB := map (\<lambda>t. t\<lparr>task_prio := TCB_EMPTY_PRIO, task_ID := - 1\<rparr>)
                                  (nrk_task_TCB k)\<rparr>
      in k\<lparr>nrk_readyQ := init_readyQ (NRK_MAX_TASKS k) (nrk_readyQ k)\<rparr>)"

text \<open>Lines 192-206: the idle task.\<close>

definition init_idle_task :: "nrk_cfg \<Rightarrow> boot_info \<Rightarrow> kernel \<Rightarrow> (nrk_task_type \<times> kernel) option" where
  "init_idle_task cfg b k = do {
     let T = nrk_task_set_entry_function (idle_descr b) (idle_entry b);
     (T, k) \<leftarrow> nrk_task_set_stk cfg T (idle_stk b) (idle_stk_size b) k;
     let k = k\<lparr>memory := (memory k)(idle_stk b := STK_CANARY_VAL)\<rparr>;
     let zero = \<lparr>secs = 0, nano_secs = 0\<rparr>;
     let T = T\<lparr>prio := 0, tt_period := zero, tt_cpu_reserve := zero, offset := zero,
               FirstActivation := True, Type := IDLE_TASK, SchType := PREEMPTIVE\<rparr>;
     (r, T, k) \<leftarrow> nrk_activate_task cfg T k;
     Some (T, k)
   }"

definition nrk_init :: "nrk_cfg \<Rightarrow> boot_info \<Rightarrow> kernel \<Rightarrow> kernel option" where
  "nrk_init cfg b k = do {
     k \<leftarrow> init_checks cfg b k;
     (T, k) \<leftarrow> init_idle_task cfg b (init_tables cfg k);
     Some k
   }"

text \<open>The two nested loops that look for task numbers used twice.\<close>

fun report_dups :: "nrk_cfg \<Rightarrow> (nat \<times> nat) list \<Rightarrow> kernel \<Rightarrow> kernel option" where
  "report_dups cfg [] k = Some k"
| "report_dups cfg ((i, j) # ps) k = do {
     let t = task_ID (nrk_task_TCB k ! i);
     k \<leftarrow> (if t \<noteq> - 1 \<and> i \<noteq> j \<and> t = task_ID (nrk_task_TCB k ! j)
            then nrk_kernel_error_add cfg NRK_DUP_TASK_ID t k else Some k);
     report_dups cfg ps k
   }"

text \<open>
  \<^verbatim>\<open>nrk_target_start\<close> with \<^verbatim>\<open>_nrk_setup_timer\<close> (\<^verbatim>\<open>nrk_timer.c\<close>): the compare
  register starts at 254, resetting the timer clears \<^verbatim>\<open>_nrk_prev_timer_val\<close>.
\<close>

definition nrk_setup_timer :: "kernel \<Rightarrow> kernel" where
  "nrk_setup_timer k = k\<lparr>OCR2A := 254, nrk_prev_timer_val := 0\<rparr>"

definition nrk_target_start :: "kernel \<Rightarrow> kernel" where
  "nrk_target_start k = nrk_int_enable (nrk_setup_timer k)"

text \<open>The state in which the first task starts to run.\<close>

definition nrk_start :: "nrk_cfg \<Rightarrow> kernel \<Rightarrow> kernel option" where
  "nrk_start cfg k = do {
     let n = NRK_MAX_TASKS k;
     k \<leftarrow> report_dups cfg (List.product [0 ..< n] [0 ..< n]) k;
     task_ID \<leftarrow> nrk_get_high_ready_task_ID (nrk_readyQ k);
     i \<leftarrow> tcb_index task_ID k;
     let k = k\<lparr>nrk_high_ready_prio := task_prio (nrk_task_TCB k ! i)\<rparr>;
     let k = k\<lparr>nrk_cur_task_TCB := Some i, nrk_high_ready_TCB := Some i,
               nrk_cur_task_prio := nrk_high_ready_prio k\<rparr>;
     Some (nrk_target_start k)
   }"

end
