(* ===== verification/Nrk_Scheduler.thy ===== *)
theory Nrk_Scheduler
  imports Nrk_Init
begin

text \<open>
  \<^verbatim>\<open>_nrk_scheduler\<close> of \<^verbatim>\<open>src/src/kernel/source/nrk_scheduler.c\<close>, which runs in the
  timer interrupt: it accounts the elapsed ticks to the clock, the statistics and the
  reserve of the interrupted task, takes a task that gave up the processor out of the ready
  queue, wakes the tasks that are due, picks the head of the queue and programs the next
  interrupt. One definition per part of the function, in its order, and their composition.
  The timer readings are arguments, as are the handlers of the software watchdogs.
\<close>

section \<open>The parts\<close>

text \<open>Lines 123-128.\<close>

function carry_secs :: "nrk_time_t \<Rightarrow> nrk_time_t" where
  "carry_secs s =
     (if NANOS_PER_SEC \<le> nano_secs s
      then let n = nano_secs s - NANOS_PER_SEC
           in carry_secs (s\<lparr>secs := secs s + 1, nano_secs := n - n mod NANOS_PER_TICK\<rparr>)
      else s)"
  by pat_completeness auto
termination
proof (relation "measure (\<lambda>s. unat (nano_secs s))")
  fix s :: nrk_time_t and n
  assume le: "NANOS_PER_SEC \<le> nano_secs s" and n: "n = nano_secs s - NANOS_PER_SEC"
  have "unat (n - n mod NANOS_PER_TICK) \<le> unat n"
    by (simp add: unat_sub_mod)
  moreover have "unat n < unat (nano_secs s)"
    using le by (simp add: n unat_sub word_le_nat_alt NANOS_PER_SEC_def)
  ultimately show "(s\<lparr>secs := secs s + 1, nano_secs := n - n mod NANOS_PER_TICK\<rparr>, s)
      \<in> measure (\<lambda>s. unat (nano_secs s))" by simp
qed simp

declare carry_secs.simps [simp del]

text \<open>Lines 103, 104 and 123-128: the clock.\<close>

definition advance_clock :: "u8 \<Rightarrow> nrk_time_t \<Rightarrow> nrk_time_t" where
  "advance_clock prev s =
     (let n = nano_secs s + ucast prev * NANOS_PER_TICK
      in carry_secs (s\<lparr>nano_secs := n - n mod NANOS_PER_TICK\<rparr>))"

text \<open>Lines 106-121.\<close>

definition account_stats :: "nrk_cfg \<Rightarrow> kernel \<Rightarrow> kernel option" where
  "account_stats cfg k =
     (if \<not> opt_STATS_TRACKER cfg then Some k
      else do {
        t \<leftarrow> cur_tcb k;
        let p = nrk_prev_timer_val k;
        if task_ID t = NRK_IDLE_TASK_ID then do {
          let k = (if nrk_cpu_state k = CPU_SLEEP then nrk_stats_sleep p k else k);
          k \<leftarrow> nrk_stats_task_preempted (task_ID t) p k;
          nrk_stats_task_suspend (task_ID t) 0 k
        }
        else if suspend_flag t then nrk_stats_task_suspend (task_ID t) p k
        else nrk_stats_task_preempted (task_ID t) p k
      })"

text \<open>Lines 131-152: the state a task that gave up the processor goes to.\<close>

definition suspend_tcb :: "NRK_TCB \<Rightarrow> NRK_TCB" where
  "suspend_tcb t =
     (if event_suspend t = RSRC_EVENT_SUSPENDED then t\<lparr>task_state := EVENT_SUSPENDED\<rparr>
      else if 0 < event_suspend t \<and> \<not> nw_flag t then t\<lparr>task_state := EVENT_SUSPENDED\<rparr>
      else if 0 < event_suspend t \<and> nw_flag t then t\<lparr>task_state := SUSPENDED\<rparr>
      else
        let t = t\<lparr>task_state := SUSPENDED, event_suspend := 0, nw_flag := False\<rparr>
        in if next_wakeup t = 0 then t\<lparr>next_wakeup := next_period t\<rparr> else t)"

definition suspend_current :: "kernel \<Rightarrow> kernel option" where
  "suspend_current k = do {
     t \<leftarrow> cur_tcb k;
     if suspend_flag t \<and> task_state t \<noteq> FINISHED then do {
       k \<leftarrow> upd_cur suspend_tcb k;
       k_rem_from_readyQ (task_ID t) k
     }
     else Some k
   }"

definition add_violation :: "nrk_cfg \<Rightarrow> i8 \<Rightarrow> kernel \<Rightarrow> kernel option" where
  "add_violation cfg t k = (if opt_STATS_TRACKER cfg then nrk_stats_add_violation t k else Some k)"

text \<open>Lines 159-183: the CPU reserve of the task that ran.\<close>

definition charge_reserve :: "nrk_cfg \<Rightarrow> kernel \<Rightarrow> kernel option" where
  "charge_reserve cfg k = do {
     t \<leftarrow> cur_tcb k;
     let p = nrk_prev_timer_val k;
     if cpu_reserve t \<noteq> 0 \<and> task_ID t \<noteq> NRK_IDLE_TASK_ID \<and> task_state t \<noteq> FINISHED then do {
       k \<leftarrow> (if cpu_remaining t < ucast p then do {
              k \<leftarrow> add_violation cfg (task_ID t) k;
              k \<leftarrow> nrk_kernel_error_add cfg NRK_RESERVE_ERROR (task_ID t) k;
              upd_cur (\<lambda>t. t\<lparr>cpu_remaining := 0\<rparr>) k
            }
            else upd_cur (\<lambda>t. t\<lparr>cpu_remaining := cpu_remaining t - ucast p\<rparr>) k);
       t \<leftarrow> cur_tcb k;
       if cpu_remaining t = 0 then do {
         k \<leftarrow> add_violation cfg (task_ID t) k;
         k \<leftarrow> nrk_kernel_error_add cfg NRK_RESERVE_VIOLATED (task_ID t) k;
         k \<leftarrow> upd_cur (\<lambda>t. t\<lparr>task_state := SUSPENDED\<rparr>) k;
         k_rem_from_readyQ (task_ID t) k
       }
       else Some k
     }
     else Some k
   }"

text \<open>
  Lines 204-212: the time to the next period, \<open>np\<close> before, in a period of \<open>per\<close> ticks,
  \<open>p\<close> ticks later. The last case is a remainder by zero for a task without a period.
\<close>

definition period_left :: "u32 \<Rightarrow> u32 \<Rightarrow> u32 \<Rightarrow> u32 option" where
  "period_left p np per =
     (if p \<le> np then Some (np - p)
      else if p < per then Some (per - p)
      else if per = 0 then None
      else Some (p mod per))"

text \<open>Lines 193-215: the wake-up and period counters of a task.\<close>

definition count_down :: "u8 \<Rightarrow> NRK_TCB \<Rightarrow> NRK_TCB option" where
  "count_down prev t =
     (if task_ID t \<noteq> NRK_IDLE_TASK_ID \<and> task_state t \<noteq> FINISHED then do {
        let p = (ucast prev :: u32);
        let t = t\<lparr>next_wakeup := (if p \<le> next_wakeup t then next_wakeup t - p else 0)\<rparr>;
        np \<leftarrow> period_left p (next_period t) (period t);
        Some (t\<lparr>next_period := (if np = 0 then period t else np)\<rparr>)
      }
      else Some t)"

text \<open>Lines 226-230: the reason for waiting is cleared.\<close>

definition clear_wait :: "i8 \<Rightarrow> NRK_TCB \<Rightarrow> NRK_TCB option" where
  "clear_wait wakeup_signal t = do {
     t \<leftarrow> (if 0 < event_suspend t \<and> nw_flag t then do {
            w \<leftarrow> SIG wakeup_signal;
            Some (t\<lparr>active_signal_mask := w\<rparr>)
          } else Some t);
     Some (t\<lparr>event_suspend := 0, nw_flag := False, suspend_flag := False\<rparr>)
   }"

text \<open>Lines 233-237 and 242-248: a task that is due becomes ready, or starts to skip periods.\<close>

definition make_ready :: "NRK_TCB \<Rightarrow> NRK_TCB" where
  "make_ready t =
     t\<lparr>cpu_remaining := cpu_reserve t, task_state := READY,
       next_wakeup := (if period t = 0 then of_nat MAX_SCHED_WAKEUP_TIME else next_period t)\<rparr>"

definition skip_periods :: "NRK_TCB \<Rightarrow> NRK_TCB" where
  "skip_periods t =
     (let w = period t * ucast (num_periods t - 1)
      in t\<lparr>cpu_remaining := cpu_reserve t,
           next_wakeup := (if period t = 0 then of_nat MAX_SCHED_WAKEUP_TIME else w),
           next_period := w, num_periods := 1\<rparr>)"

text \<open>Lines 191-261: the body of the task loop; \<open>nw\<close> is \<^verbatim>\<open>next_wake\<close>.\<close>

definition sched_task :: "nat \<Rightarrow> kernel \<times> u16 \<Rightarrow> (kernel \<times> u16) option" where
  "sched_task i s = do {
     let (k, nw) = s;
     if task_ID (nrk_task_TCB k ! i) = - 1 then Some (k, nw)
     else do {
       t \<leftarrow> count_down (nrk_prev_timer_val k) ((nrk_task_TCB k ! i)\<lparr>suspend_flag := False\<rparr>);
       let k = upd_tcb i (\<lambda>_. t) k;
       if task_state t = SUSPENDED then do {
         k \<leftarrow> (if next_wakeup t = 0 then do {
                t \<leftarrow> clear_wait (nrk_wakeup_signal k) t;
                if num_periods t = 1 then k_add_to_readyQ (of_nat i) (upd_tcb i (\<lambda>_. make_ready t) k)
                else Some (upd_tcb i (\<lambda>_. skip_periods t) k)
              }
              else Some k);
         let w = next_wakeup (nrk_task_TCB k ! i);
         Some (k, if w \<noteq> 0 \<and> w < ucast nw then ucast w else nw)
       }
       else Some (k, nw)
     }
   }"

fun sched_tasks :: "nat list \<Rightarrow> kernel \<times> u16 \<Rightarrow> (kernel \<times> u16) option" where
  "sched_tasks [] s = Some s"
| "sched_tasks (i # is) s = do { s \<leftarrow> sched_task i s; sched_tasks is s }"

text \<open>Lines 265-270.\<close>

definition pick_task :: "nrk_cfg \<Rightarrow> kernel \<Rightarrow> (i8 \<times> kernel) option" where
  "pick_task cfg k = do {
     k \<leftarrow> (if opt_STATS_TRACKER cfg then do {
            t \<leftarrow> cur_tcb k;
            nrk_stats_task_start (task_ID t) k
          } else Some k);
     task \<leftarrow> nrk_get_high_ready_task_ID (nrk_readyQ k);
     i \<leftarrow> tcb_index task k;
     Some (task, k\<lparr>nrk_high_ready_prio := task_prio (nrk_task_TCB k ! i),
                   nrk_high_ready_TCB := Some i\<rparr>)
   }"

text \<open>Lines 278-344: when the scheduler has to run again, for the picked task \<open>t\<close>.\<close>

definition pick_next_wake :: "bool \<Rightarrow> i8 \<Rightarrow> NRK_TCB \<Rightarrow> u16 \<Rightarrow> u16" where
  "pick_next_wake no_power_down task t nw =
     (let max_wake = of_nat MAX_SCHED_WAKEUP_TIME :: u16;
          sleep_wake = of_nat NRK_SLEEP_WAKEUP_TIME :: u16;
          nw =
            (if task \<noteq> NRK_IDLE_TASK_ID then
               (if cpu_reserve t \<noteq> 0 \<and> cpu_remaining t < of_nat MAX_SCHED_WAKEUP_TIME then
                  (if cpu_remaining t < ucast nw then ucast (cpu_remaining t) else nw)
                else if max_wake < nw then max_wake else nw)
             else if no_power_down then nw
             else if sleep_wake < nw then
               (if nw - sleep_wake < max_wake then
                  (if nw - sleep_wake < sleep_wake then sleep_wake - 1 else nw - sleep_wake)
                else if sleep_wake + max_wake < nw then max_wake
                else max_wake - sleep_wake)
             else nw)
      in if no_power_down \<and> max_wake < nw then max_wake else nw)"

text \<open>
  Lines 346-377: the switch. \<open>t1\<close> is read to see whether the wake-up was missed,
  \<open>t2\<close> to program a new one.
\<close>

definition switch_task :: "nrk_cfg \<Rightarrow> u8 \<Rightarrow> u8 \<Rightarrow> i8 \<Rightarrow> u16 \<Rightarrow> kernel \<Rightarrow> kernel option" where
  "switch_task cfg t1 t2 task nw k = do {
     let k = k\<lparr>nrk_cur_task_prio := nrk_high_ready_prio k, nrk_cur_task_TCB := nrk_high_ready_TCB k\<rparr>;
     let k = k\<lparr>nrk_prev_timer_val := ucast nw\<rparr>;
     (k, nw) \<leftarrow>
       (if unat nw \<le> unat t1 + 1 then do {
          k \<leftarrow> (if opt_KERNEL_TEST cfg \<and> \<not> (task = NRK_IDLE_TASK_ID \<and> nrk_cpu_state k = CPU_SLEEP)
                then nrk_kernel_error_add cfg NRK_WAKEUP_MISSED task k else Some k);
          let nw = (ucast t2 + 2 :: u16);
          Some (k\<lparr>nrk_prev_timer_val := ucast nw\<rparr>, nw)
        }
        else Some (k, nw));
     let k = (if task \<noteq> NRK_IDLE_TASK_ID then k\<lparr>nrk_cpu_state := CPU_ACTIVE\<rparr> else k);
     Some (nrk_set_next_wakeup_reg (ucast nw) k)
   }"

text \<open>Lines 68-104: what happens before the accounting.\<close>

definition sched_enter ::
    "(u16 \<Rightarrow> kernel \<Rightarrow> kernel option) \<Rightarrow> nrk_cfg \<Rightarrow> u16 \<Rightarrow> u8 \<Rightarrow> kernel \<Rightarrow> kernel option" where
  "sched_enter call cfg tcnt5 t0 k = do {
     let k = nrk_set_next_wakeup_reg (of_nat MAX_SCHED_WAKEUP_TIME) k;
     k \<leftarrow> (if opt_SW_WDT cfg then nrk_sw_wdt_check call cfg tcnt5 t0 k else Some k);
     Some (if opt_KERNEL_TEST cfg \<and> nrk_cpu_state k \<noteq> CPU_ACTIVE \<and> nrk_max_sleep_wakeup_time k < t0
           then k\<lparr>nrk_max_sleep_wakeup_time := t0\<rparr> else k)
   }"

section \<open>The scheduler\<close>

definition nrk_scheduler ::
    "(u16 \<Rightarrow> kernel \<Rightarrow> kernel option) \<Rightarrow> nrk_cfg \<Rightarrow> u16 \<Rightarrow> u8 \<Rightarrow> u8 \<Rightarrow> u8 \<Rightarrow> kernel \<Rightarrow> kernel option" where
  "nrk_scheduler call cfg tcnt5 t0 t1 t2 k = do {
     k \<leftarrow> sched_enter call cfg tcnt5 t0 k;
     k \<leftarrow> account_stats cfg k;
     let k = k\<lparr>nrk_system_time := advance_clock (nrk_prev_timer_val k) (nrk_system_time k)\<rparr>;
     k \<leftarrow> suspend_current k;
     k \<leftarrow> charge_reserve cfg k;
     (k, nw) \<leftarrow> sched_tasks [0 ..< NRK_MAX_TASKS k] (k, 60000);
     (task, k) \<leftarrow> pick_task cfg k;
     i \<leftarrow> tcb_index task k;
     switch_task cfg t1 t2 task (pick_next_wake (opt_NO_POWER_DOWN cfg) task (nrk_task_TCB k ! i) nw) k
   }"

section \<open>Properties of the parts\<close>

text \<open>
  The system time stands on a tick when its nanoseconds are a whole number of ticks below a
  second, which 1024 ticks make up. \<open>clock_ticks\<close> is the time in ticks.
\<close>

definition on_tick :: "nrk_time_t \<Rightarrow> bool" where
  "on_tick s \<longleftrightarrow> (\<exists>j < 1024. unat (nano_secs s) = j * 976563)"

definition clock_ticks :: "nrk_time_t \<Rightarrow> nat" where
  "clock_ticks s = unat (secs s) * 1024 + unat (nano_secs s) div 976563"

lemma carry_secs_done: "nano_secs s < NANOS_PER_SEC \<Longrightarrow> carry_secs s = s"
  by (simp add: carry_secs.simps [of s])

lemma carry_secs_once:
  assumes "NANOS_PER_SEC \<le> nano_secs s" "unat (nano_secs s) < 2000000000"
  shows "carry_secs s = s\<lparr>secs := secs s + 1, nano_secs := of_nat ((unat (nano_secs s) - 1000000000) div 976563 * 976563)\<rparr>"
proof -
  let ?n = "nano_secs s - NANOS_PER_SEC"
  have n: "unat ?n = unat (nano_secs s) - 1000000000" using assms(1) by (simp add: unat_sub)
  have "unat (?n - ?n mod NANOS_PER_TICK) = (unat (nano_secs s) - 1000000000) div 976563 * 976563"
    unfolding unat_sub_mod n by (simp add: minus_mod_eq_div_mult)
  then have eq: "?n - ?n mod NANOS_PER_TICK = of_nat ((unat (nano_secs s) - 1000000000) div 976563 * 976563)"
    by (metis of_nat_unat ucast_id)
  have "unat (?n - ?n mod NANOS_PER_TICK) < 1000000000"
    using assms(2) n unat_sub_mod [of ?n NANOS_PER_TICK] by simp
  then have "?n - ?n mod NANOS_PER_TICK < NANOS_PER_SEC" by (simp add: word_less_nat_alt)
  then show ?thesis using assms(1) carry_secs_done [of "s\<lparr>secs := secs s + 1, nano_secs := ?n - ?n mod NANOS_PER_TICK\<rparr>"] eq
    by (simp add: carry_secs.simps [of s] Let_def)
qed

lemma carry_secs_ticks:
  assumes "unat (nano_secs s) = (q + 1024) * 976563" "q < 1000"
  shows "carry_secs s = s\<lparr>secs := secs s + 1, nano_secs := of_nat (q * 976563)\<rparr>"
proof -
  have "((q + 1024) * 976563 - 1000000000) div 976563 = q" by simp
  then have "(unat (nano_secs s) - 1000000000) div 976563 = q" unfolding assms(1) .
  moreover have "NANOS_PER_SEC \<le> nano_secs s" "unat (nano_secs s) < 2000000000"
    using assms by (simp_all add: word_le_nat_alt)
  ultimately show ?thesis using carry_secs_once [of s] by simp
qed

text \<open>
  C25: The clock does not drift against the ticks it is given. From a time that stands on a
  tick, a scheduler run that accounts \<open>p\<close> ticks advances the system time by exactly
  \<open>p\<close> ticks, carrying 1024 of them into a second, and the time stands on a tick again.
\<close>

theorem advance_clock_exact:
  assumes "on_tick s" "unat (secs s) + 1 < 2 ^ 32"
  shows "on_tick (advance_clock p s) \<and> normal (advance_clock p s) \<and>
    clock_ticks (advance_clock p s) = clock_ticks s + unat p"
proof -
  obtain j where j: "j < 1024" "unat (nano_secs s) = j * 976563" using assms(1) by (auto simp: on_tick_def)
  have p: "unat p < 256" using unat_less_pow [of p] by simp
  let ?n = "nano_secs s + ucast p * NANOS_PER_TICK"
  have n: "unat ?n = (j + unat p) * 976563"
    using j p by (simp add: unat_word_ariths unat_ucast_up distrib_right)
  have "unat (?n - ?n mod NANOS_PER_TICK) = (j + unat p) * 976563"
    by (simp add: unat_sub_mod n)
  then have eq: "?n - ?n mod NANOS_PER_TICK = ?n" using n by (simp add: word_unat_eq_iff)
  let ?s = "s\<lparr>nano_secs := ?n\<rparr>"
  have adv: "advance_clock p s = carry_secs ?s" by (simp add: advance_clock_def Let_def eq)
  show ?thesis
  proof (cases "j + unat p < 1024")
    case True
    then have lt: "unat ?n < 1000000000" using n by simp
    then have "carry_secs ?s = ?s" by (intro carry_secs_done) (simp add: word_less_nat_alt)
    moreover have "on_tick ?s" unfolding on_tick_def using n True by (intro exI [of _ "j + unat p"]) simp
    moreover have "unat ?n div 976563 = j + unat p" using n by (simp only:) simp
    ultimately show ?thesis using adv j lt
      by (simp add: normal_def clock_ticks_def word_less_nat_alt)
  next
    case False
    let ?q = "j + unat p - 1024"
    have "unat ?n = (?q + 1024) * 976563" "?q < 1000" using n False j p by simp_all
    then have c: "carry_secs ?s = s\<lparr>secs := secs s + 1, nano_secs := of_nat (?q * 976563)\<rparr>"
      using carry_secs_ticks [of ?s ?q] by (simp del: of_nat_mult)
    have uq: "unat (of_nat (?q * 976563) :: u32) = ?q * 976563" "?q < 1024"
      using j p by (simp_all add: unsigned_of_nat take_bit_nat_eq_self del: of_nat_mult)
    have "unat (secs s + 1) = unat (secs s) + 1" using assms(2) by (simp add: unat_word_ariths)
    then show ?thesis using adv c uq False j p
      by (auto simp: on_tick_def normal_def clock_ticks_def word_less_nat_alt simp del: of_nat_mult)
  qed
qed

theorem advance_clock_exact_witness:
  "clock_ticks (advance_clock 200 \<lparr>secs = 5, nano_secs = 976563000\<rparr>) = 6320"
proof -
  have "on_tick \<lparr>secs = 5, nano_secs = 976563000\<rparr>"
    unfolding on_tick_def by (intro exI [of _ 1000]) simp
  then show ?thesis
    using advance_clock_exact [of "\<lparr>secs = 5, nano_secs = 976563000\<rparr>" 200] by (simp add: clock_ticks_def)
qed

text \<open>
  When a run of the scheduler comes late, the period of a task drifts. With \<open>np\<close>
  ticks left to the next period, \<open>p\<close> ticks later the counter is exact when the boundary
  has not been passed; when it has, the counter restarts at the period less \<open>p\<close>, so the
  following boundary comes \<open>np\<close> ticks early, and with no period at all the code divides
  by zero.
\<close>

theorem period_left_drift:
  assumes "per \<noteq> 0 \<Longrightarrow> p < per"
  shows "if p \<le> np then \<exists>r. period_left p np per = Some r \<and> unat r = unat np - unat p
    else if per = 0 then period_left p np per = None
    else \<exists>r. period_left p np per = Some r \<and>
      unat r + unat np = unat per - (unat p - unat np) \<and> unat p - unat np \<le> unat per"
  using assms by (auto simp: period_left_def unat_sub word_le_nat_alt word_less_nat_alt)

theorem period_left_drift_witness:
  "\<exists>r. period_left 10 6 100 = Some r \<and> unat r + 6 = 96"
  using period_left_drift [of 100 10 6] by auto



end
