(* ===== verification/Nrk_Invariant.thy ===== *)
theory Nrk_Invariant
  imports Nrk_Scheduler
begin

text \<open>
  The invariant of the kernel between two runs of the scheduler, and that the scheduler
  keeps it: its queue operations never write through \<^verbatim>\<open>NULL\<close>, the task tables stay
  consistent, and the task it switches to is the head of the ready queue.
\<close>

section \<open>The invariant\<close>

text \<open>The table of tasks: entry 0 is the idle task, every other task in use has a priority
  above its and a period.\<close>

definition tcbs_ok :: "NRK_TCB list \<Rightarrow> bool" where
  "tcbs_ok T \<longleftrightarrow> 0 < length T \<and> length T \<le> 127 \<and> task_ID (T ! 0) = 0 \<and> task_prio (T ! 0) = 0 \<and>
     (\<forall>i < length T. task_ID (T ! i) = - 1 \<or> task_ID (T ! i) = of_nat i) \<and>
     (\<forall>i < length T. 0 < i \<longrightarrow> task_ID (T ! i) \<noteq> - 1 \<longrightarrow> 0 < task_prio (T ! i) \<and> 0 < period (T ! i))"

definition queue_ok :: "NRK_TCB list \<Rightarrow> readyq \<Rightarrow> u8 list \<Rightarrow> bool" where
  "queue_ok T q ids \<longleftrightarrow> readyq_rel (length T) q ids \<and> distinct ids \<and> 0 \<in> set ids \<and>
     (\<forall>i \<in> set ids. unat i < length T \<and> task_ID (T ! unat i) \<noteq> - 1)"

text \<open>
  A queued task is ready and waits for no event, but for the running task on its way out
  of the queue.
\<close>

definition queued_ok :: "NRK_TCB \<Rightarrow> bool" where
  "queued_ok t \<longleftrightarrow> task_state t = READY \<and> event_suspend t = 0"

definition states_ok :: "NRK_TCB list \<Rightarrow> nat option \<Rightarrow> u8 list \<Rightarrow> bool" where
  "states_ok T cur ids \<longleftrightarrow> \<not> suspend_flag (T ! 0) \<and>
     (\<forall>i \<in> set ids. queued_ok (T ! unat i) \<or>
        cur = Some (unat i) \<and> suspend_flag (T ! unat i) \<and> task_state (T ! unat i) \<noteq> FINISHED)"

definition cur_ok :: "NRK_TCB list \<Rightarrow> nat option \<Rightarrow> bool" where
  "cur_ok T cur \<longleftrightarrow> (\<exists>c < length T. cur = Some c \<and> task_ID (T ! c) \<noteq> - 1)"

definition kernel_inv :: "kernel \<Rightarrow> u8 list \<Rightarrow> bool" where
  "kernel_inv k ids \<longleftrightarrow> tcbs_ok (nrk_task_TCB k) \<and> queue_ok (nrk_task_TCB k) (nrk_readyQ k) ids \<and>
     states_ok (nrk_task_TCB k) (nrk_cur_task_TCB k) ids \<and>
     cur_ok (nrk_task_TCB k) (nrk_cur_task_TCB k) \<and>
     NRK_MAX_TASKS k \<le> length (cur_task_stats k) \<and>
     0 \<le> sint (nrk_wakeup_signal k) \<and> sint (nrk_wakeup_signal k) < 32"

lemma kernel_inv_cong:
  assumes "nrk_task_TCB k' = nrk_task_TCB k" "nrk_readyQ k' = nrk_readyQ k"
    "nrk_cur_task_TCB k' = nrk_cur_task_TCB k" "length (cur_task_stats k') = length (cur_task_stats k)"
    "nrk_wakeup_signal k' = nrk_wakeup_signal k"
  shows "kernel_inv k' ids = kernel_inv k ids"
  using assms by (simp add: kernel_inv_def)

lemma kernel_inv_frame [simp, kstate_simps]:
  "kernel_inv (k\<lparr>nrk_prev_timer_val := x0\<rparr>) ids = kernel_inv k ids"
  "kernel_inv (k\<lparr>nrk_cpu_state := x1\<rparr>) ids = kernel_inv k ids"
  "kernel_inv (k\<lparr>error_task := x2\<rparr>) ids = kernel_inv k ids"
  "kernel_inv (k\<lparr>error_num := x3\<rparr>) ids = kernel_inv k ids"
  "kernel_inv (k\<lparr>console := x4\<rparr>) ids = kernel_inv k ids"
  "kernel_inv (k\<lparr>nrk_cur_task_prio := x5\<rparr>) ids = kernel_inv k ids"
  "kernel_inv (k\<lparr>nrk_high_ready_prio := x6\<rparr>) ids = kernel_inv k ids"
  "kernel_inv (k\<lparr>nrk_high_ready_TCB := x7\<rparr>) ids = kernel_inv k ids"
  "kernel_inv (k\<lparr>nrk_system_time := x8\<rparr>) ids = kernel_inv k ids"
  "kernel_inv (k\<lparr>OCR2A := x9\<rparr>) ids = kernel_inv k ids"
  "kernel_inv (k\<lparr>int_enabled := x10\<rparr>) ids = kernel_inv k ids"
  "kernel_inv (k\<lparr>nrk_max_sleep_wakeup_time := x11\<rparr>) ids = kernel_inv k ids"
  "kernel_inv (k\<lparr>nrk_stats_sleep_time := x12\<rparr>) ids = kernel_inv k ids"
  "kernel_inv (k\<lparr>nrk_signal_list := x13\<rparr>) ids = kernel_inv k ids"
  "kernel_inv (k\<lparr>nrk_sem_list := x14\<rparr>) ids = kernel_inv k ids"
  "kernel_inv (k\<lparr>nrk_resource_cnt := x15\<rparr>) ids = kernel_inv k ids"
  "kernel_inv (k\<lparr>memory := x16\<rparr>) ids = kernel_inv k ids"
  by (simp_all add: kernel_inv_def)

lemma kernel_invD:
  assumes "kernel_inv k ids"
  shows "tcbs_ok (nrk_task_TCB k)" "queue_ok (nrk_task_TCB k) (nrk_readyQ k) ids"
    "states_ok (nrk_task_TCB k) (nrk_cur_task_TCB k) ids"
    "cur_ok (nrk_task_TCB k) (nrk_cur_task_TCB k)"
    "NRK_MAX_TASKS k \<le> length (cur_task_stats k)"
    "0 \<le> sint (nrk_wakeup_signal k)" "sint (nrk_wakeup_signal k) < 32"
  using assms by (simp_all add: kernel_inv_def)

lemma kernel_inv_running:
  assumes "kernel_inv k ids"
  obtains c where "running k c" "nrk_cur_task_TCB k = Some c" "c < NRK_MAX_TASKS k" "c < 128"
    "task_ID (nrk_task_TCB k ! c) = of_nat c"
proof -
  obtain c where c: "c < NRK_MAX_TASKS k" "nrk_cur_task_TCB k = Some c"
      "task_ID (nrk_task_TCB k ! c) \<noteq> - 1"
    using kernel_invD(4) [OF assms] by (auto simp: cur_ok_def)
  moreover have "task_ID (nrk_task_TCB k ! c) = of_nat c" "c < 128"
    using c kernel_invD(1) [OF assms] by (auto simp: tcbs_ok_def)
  ultimately show ?thesis using that by (auto simp: running_def)
qed

lemma tcb_index_of_nat [simp]: "i < NRK_MAX_TASKS k \<Longrightarrow> i < 128 \<Longrightarrow> tcb_index (of_nat i) k = Some i"
  by (simp add: tcb_index_def)

lemma tcb_index_unat:
  assumes "0 \<le> sint t" "unat t < NRK_MAX_TASKS k"
  shows "tcb_index t k = Some (unat t)"
proof -
  have "sint t = int (unat t)" by (metis sint_nonneg [OF assms(1)] uint_nat)
  then show ?thesis unfolding tcb_index_def using assms(2) by (simp only: nat_int) simp
qed

text \<open>Assigning fields of one task that the tables do not depend on.\<close>

lemma tcbs_ok_update:
  assumes "tcbs_ok T" "i < length T" "task_ID t = task_ID (T ! i)" "task_prio t = task_prio (T ! i)"
    "period t = period (T ! i)"
  shows "tcbs_ok (T[i := t])"
  using assms by (auto simp: tcbs_ok_def nth_list_update)

lemma queue_ok_update:
  assumes "queue_ok T q ids" "task_ID t = task_ID (T ! i)"
  shows "queue_ok (T[i := t]) q ids"
  using assms nth_update_same [where f = task_ID, OF assms(2)] by (simp add: queue_ok_def)

lemma cur_ok_update:
  assumes "cur_ok T cur" "task_ID t = task_ID (T ! i)"
  shows "cur_ok (T[i := t]) cur"
  using assms(1) nth_update_same [where f = task_ID, OF assms(2)] by (simp add: cur_ok_def)

lemma states_ok_update:
  assumes "states_ok T cur ids" "suspend_flag t = suspend_flag (T ! i)"
    "task_state t = task_state (T ! i)" "event_suspend t = event_suspend (T ! i)"
  shows "states_ok (T[i := t]) cur ids"
proof -
  have "queued_ok (T[i := t] ! j) = queued_ok (T ! j)" for j
    using assms by (intro nth_update_same) (simp add: queued_ok_def)
  then show ?thesis
    using assms(1) nth_update_same [where f = suspend_flag, OF assms(2)]
      nth_update_same [where f = task_state, OF assms(3)]
    by (simp add: states_ok_def)
qed

lemma kernel_inv_upd_same:
  assumes "kernel_inv k ids"
    and "\<And>t. task_ID (f t) = task_ID t" "\<And>t. task_prio (f t) = task_prio t" "\<And>t. period (f t) = period t"
      "\<And>t. suspend_flag (f t) = suspend_flag t" "\<And>t. task_state (f t) = task_state t"
      "\<And>t. event_suspend (f t) = event_suspend t" and "i < NRK_MAX_TASKS k"
  shows "kernel_inv (upd_tcb i f k) ids"
  using assms
  by (simp add: kernel_inv_def tcbs_ok_update queue_ok_update cur_ok_update states_ok_update)

section \<open>Queue operations under the invariant\<close>

text \<open>The idle task stops every search: adding a task never runs off the queue.\<close>

lemma idle_stops:
  assumes "tcbs_ok T" "i < length T" "0 < i" "task_ID (T ! i) \<noteq> - 1"
  shows "stops T (of_nat i) 0"
proof -
  have "i < 256" using assms by (auto simp: tcbs_ok_def)
  with assms show ?thesis by (auto simp: stops_def less_urgent_def tcbs_ok_def)
qed

lemma queue_length:
  assumes "queue_ok T q ids" "i < length T" "of_nat i \<notin> set ids" "length T \<le> 127"
  shows "length ids < length T"
proof -
  have "unat ` set ids \<subseteq> {..< length T} - {i}"
  proof
    fix n assume "n \<in> unat ` set ids"
    then obtain j where j: "j \<in> set ids" "n = unat j" by auto
    moreover have "n \<noteq> i" using j assms(3) by (metis of_nat_unat_u8)
    ultimately show "n \<in> {..< length T} - {i}" using assms(1) by (auto simp: queue_ok_def)
  qed
  then have "card (unat ` set ids) \<le> card ({..< length T} - {i})" by (rule card_mono [rotated]) simp
  moreover have "card (unat ` set ids) = length ids"
    using assms(1) by (subst card_image) (auto simp: inj_on_def queue_ok_def distinct_card word_unat_eq_iff)
  ultimately show ?thesis using assms(2) by simp
qed

lemma add_under_inv:
  assumes T: "tcbs_ok T" and q: "queue_ok T q ids"
    and i: "i < length T" "0 < i" "task_ID (T ! i) \<noteq> - 1" "of_nat i \<notin> set ids"
  shows "\<exists>q'. nrk_add_to_readyQ T (of_nat i) q = Some q' \<and>
    queue_ok T q' (pinsert (stops T (of_nat i)) (of_nat i) ids)"
proof -
  have n: "length T \<le> 127" "0 < length T" using T by (auto simp: tcbs_ok_def)
  have v: "valid_task T (of_nat i)" using i n by (simp add: valid_task_def)
  have "length ids \<le> length T" using queue_length [OF q i(1) i(4) n(1)] by simp
  moreover have "\<exists>j \<in> set ids. stops T (of_nat i) j"
    using idle_stops [OF T i(1,2,3)] q by (auto simp: queue_ok_def)
  ultimately obtain q' where "nrk_add_to_readyQ T (of_nat i) q = Some q'"
      "readyq_rel (length T) q' (pinsert (stops T (of_nat i)) (of_nat i) ids)"
    using add_readyq [of "length T" q ids T "of_nat i"] q v n
    by (auto simp: queue_ok_def split: if_splits)
  moreover have "task_ID (T ! unat (of_nat i :: u8)) \<noteq> - 1" "unat (of_nat i :: u8) < length T"
    using i n by auto
  ultimately show ?thesis using q i by (auto simp: queue_ok_def distinct_pinsert)
qed

lemma rem_under_inv:
  assumes q: "queue_ok T q ids" and i: "0 < i" "i < length T" "length T \<le> 127"
  shows "\<exists>q'. nrk_rem_from_readyQ (of_nat i) q = Some q' \<and> queue_ok T q' (remove1 (of_nat i) ids)"
proof -
  have nz: "(of_nat i :: u8) \<noteq> 0" using i by (simp add: word_unat_eq_iff)
  then have "ids \<noteq> [of_nat i]" using q by (auto simp: queue_ok_def)
  then obtain q' where "nrk_rem_from_readyQ (of_nat i) q = Some q'"
      "readyq_rel (length T) q' (remove1 (of_nat i) ids)"
    using rem_readyq [of "length T" q ids "of_nat i"] q i by (auto simp: queue_ok_def split: if_splits)
  then show ?thesis using q nz by (auto simp: queue_ok_def in_set_remove1 dest: notin_set_remove1)
qed

section \<open>The scheduler keeps the invariant\<close>

text \<open>While the scheduler runs, no queued task is suspended.\<close>

definition sched_inv :: "kernel \<Rightarrow> u8 list \<Rightarrow> bool" where
  "sched_inv k ids \<longleftrightarrow> kernel_inv k ids \<and> (\<forall>i \<in> set ids. queued_ok (nrk_task_TCB k ! unat i))"

lemma sched_inv_cong:
  assumes "nrk_task_TCB k' = nrk_task_TCB k" "nrk_readyQ k' = nrk_readyQ k"
    "nrk_cur_task_TCB k' = nrk_cur_task_TCB k" "length (cur_task_stats k') = length (cur_task_stats k)"
    "nrk_wakeup_signal k' = nrk_wakeup_signal k"
  shows "sched_inv k' ids = sched_inv k ids"
  using assms kernel_inv_cong [of k' k ids] by (simp add: sched_inv_def)

lemma sched_inv_upd:
  assumes "sched_inv k ids" "i < NRK_MAX_TASKS k" "t = nrk_task_TCB k ! i"
    "task_ID (f t) = task_ID t" "task_prio (f t) = task_prio t" "period (f t) = period t"
    "i = 0 \<Longrightarrow> \<not> suspend_flag (f t)" "of_nat i \<in> set ids \<Longrightarrow> queued_ok (f t)"
  shows "sched_inv (upd_tcb i f k) ids"
proof -
  have st: "queued_ok ((nrk_task_TCB k)[i := f t] ! unat j)" if "j \<in> set ids" for j
    using that assms by (cases "unat j = i") (auto simp: sched_inv_def)
  have "\<not> suspend_flag ((nrk_task_TCB k)[i := f t] ! 0)"
    using assms by (cases i) (auto simp: sched_inv_def kernel_inv_def states_ok_def)
  with assms st show ?thesis
    by (auto simp: sched_inv_def kernel_inv_def tcbs_ok_update queue_ok_update cur_ok_update states_ok_def)
qed

text \<open>What a part of the scheduler leaves alone.\<close>

definition same_run :: "kernel \<Rightarrow> kernel \<Rightarrow> bool" where
  "same_run k k' \<longleftrightarrow> NRK_MAX_TASKS k' = NRK_MAX_TASKS k \<and> nrk_cur_task_TCB k' = nrk_cur_task_TCB k \<and>
     nrk_system_time k' = nrk_system_time k \<and> nrk_prev_timer_val k' = nrk_prev_timer_val k \<and>
     nrk_cpu_state k' = nrk_cpu_state k"

lemma same_run_refl [simp]: "same_run k k"
  by (simp add: same_run_def)

lemma same_run_trans: "same_run k k' \<Longrightarrow> same_run k' k'' \<Longrightarrow> same_run k k''"
  by (simp add: same_run_def)

lemma same_run_upd [simp]: "same_run k (upd_tcb i f k') = same_run k k'"
  by (simp add: same_run_def)

lemma running_ID:
  assumes "kernel_inv k ids" "running k c"
  shows "task_ID (nrk_task_TCB k ! c) = of_nat c" "c < 128" "c < NRK_MAX_TASKS k"
proof -
  obtain c' where "nrk_cur_task_TCB k = Some c'" "c' < 128" "task_ID (nrk_task_TCB k ! c') = of_nat c'"
    using assms(1) by (rule kernel_inv_running)
  then show "task_ID (nrk_task_TCB k ! c) = of_nat c" "c < 128" "c < NRK_MAX_TASKS k"
    using assms(2) by (auto simp: running_def)
qed

text \<open>Statistics.\<close>

definition on_run :: "kernel \<Rightarrow> u8 list \<Rightarrow> nat \<Rightarrow> kernel \<Rightarrow> bool" where
  "on_run k0 ids c k \<longleftrightarrow> same_run k0 k \<and> kernel_inv k ids \<and> running k c \<and>
     nrk_task_TCB k = nrk_task_TCB k0"

lemma on_run_start: "kernel_inv k ids \<Longrightarrow> running k c \<Longrightarrow> on_run k ids c k"
  by (simp add: on_run_def)

lemma on_run_ID:
  "on_run k0 ids c k \<Longrightarrow> task_ID (nrk_task_TCB k ! c) = of_nat c"
  "on_run k0 ids c k \<Longrightarrow> task_ID (nrk_task_TCB k0 ! c) = of_nat c"
  "on_run k0 ids c k \<Longrightarrow> c < 128" "on_run k0 ids c k \<Longrightarrow> running k c"
  unfolding on_run_def by (metis running_ID)+

lemma on_run_stat:
  assumes "on_run k0 ids c k"
  shows "ensures (upd_stat f (of_nat c) k) (on_run k0 ids c)"
proof -
  have c: "c < length (cur_task_stats k)" "c < 128"
    using assms running_ID [of k ids c] kernel_invD(5) [of k ids] by (auto simp: on_run_def)
  let ?s = "if overflow (cur_task_stats k ! c) = 1 then cur_task_stats k
            else (cur_task_stats k)[c := f (cur_task_stats k ! c)]"
  have "upd_stat f (of_nat c) k = Some (k\<lparr>cur_task_stats := ?s\<rparr>)"
    using c by (simp add: upd_stat_def)
  moreover have "on_run k0 ids c (k\<lparr>cur_task_stats := ?s\<rparr>)"
    using assms kernel_inv_cong [of "k\<lparr>cur_task_stats := ?s\<rparr>" k ids]
    by (auto simp: on_run_def same_run_def running_def)
  ultimately show ?thesis by simp
qed

lemma account_stats_inv:
  assumes inv: "kernel_inv k ids" "running k c"
  shows "ensures (account_stats cfg k) (on_run k ids c)"
proof (cases "opt_STATS_TRACKER cfg")
  case False
  then show ?thesis using on_run_start [OF inv] by (simp add: account_stats_def)
next
  case True
  let ?k1 = "if nrk_cpu_state k = CPU_SLEEP then nrk_stats_sleep (nrk_prev_timer_val k) k else k"
  have "on_run k ids c ?k1"
    using inv kernel_inv_cong [of ?k1 k ids]
    by (auto simp: on_run_def same_run_def running_def nrk_stats_sleep_def Let_def)
  moreover have "account_stats cfg k =
      (if of_nat c = NRK_IDLE_TASK_ID then do {
         k1 \<leftarrow> upd_stat (stat_preempted (nrk_prev_timer_val k)) (of_nat c) ?k1;
         upd_stat (stat_suspend 0) (of_nat c) k1
       }
       else if suspend_flag (nrk_task_TCB k ! c)
       then upd_stat (stat_suspend (nrk_prev_timer_val k)) (of_nat c) k
       else upd_stat (stat_preempted (nrk_prev_timer_val k)) (of_nat c) k)"
    using True inv(2) running_ID(1) [OF inv] by (simp add: account_stats_def stats_op_defs [abs_def] Let_def)
  ultimately show ?thesis
    using on_run_start [OF inv]
    by (simp only:) (intro ensures_if ensures_bind [of _ "on_run k ids c"] on_run_stat)
qed

text \<open>Recording an error, under options that let the handler return.\<close>

lemma on_run_error:
  assumes "on_run k0 ids c k" "returns_on_error cfg"
  shows "ensures (nrk_kernel_error_add cfg n t k) (on_run k0 ids c)"
proof -
  obtain out where "nrk_kernel_error_add cfg n t k = Some (k\<lparr>error_task := t, error_num := 0, console := out\<rparr>)"
    using kernel_error_add_returns [OF assms(2)] by blast
  moreover have "on_run k0 ids c (k\<lparr>error_task := t, error_num := 0, console := out\<rparr>)"
    using assms(1) kernel_inv_cong [of "k\<lparr>error_task := t, error_num := 0, console := out\<rparr>" k ids]
    by (auto simp: on_run_def same_run_def running_def)
  ultimately show ?thesis by simp
qed

lemma on_run_violation:
  "on_run k0 ids c k \<Longrightarrow> ensures (add_violation cfg (of_nat c) k) (on_run k0 ids c)"
  by (simp add: add_violation_def nrk_stats_add_violation_def on_run_stat)

text \<open>The running task is taken out of the queue.\<close>

lemma leave_queue:
  assumes inv: "kernel_inv k ids" and c: "running k c" "0 < c"
    and f: "\<And>t. task_ID (f t) = task_ID t" "\<And>t. task_prio (f t) = task_prio t" "\<And>t. period (f t) = period t"
  shows "ensures (do { k \<leftarrow> upd_cur f k; k_rem_from_readyQ (of_nat c) k })
    (\<lambda>k'. same_run k k' \<and> sched_inv k' (remove1 (of_nat c) ids))"
proof -
  let ?T = "nrk_task_TCB k" and ?T' = "(nrk_task_TCB k)[c := f (nrk_task_TCB k ! c)]"
  note D = kernel_invD [OF inv]
  have lt: "c < length ?T" "c < 128" "length ?T \<le> 127"
    using running_ID [OF inv c(1)] D(1) by (auto simp: tcbs_ok_def)
  have q: "queue_ok ?T' (nrk_readyQ k) ids" using D(2) f by (simp add: queue_ok_update)
  obtain q' where q': "nrk_rem_from_readyQ (of_nat c) (nrk_readyQ k) = Some q'"
      "queue_ok ?T' q' (remove1 (of_nat c) ids)"
    using rem_under_inv [OF q c(2)] lt by auto
  have st: "queued_ok (?T' ! unat i)" if "i \<in> set (remove1 (of_nat c) ids)" for i
  proof -
    have "i \<in> set ids" "i \<noteq> of_nat c" using that D(2) by (auto simp: queue_ok_def)
    moreover from this have "unat i \<noteq> c" by (metis of_nat_unat_u8)
    ultimately show ?thesis using D(3) c by (auto simp: states_ok_def running_def)
  qed
  have "sched_inv (upd_tcb c f k\<lparr>nrk_readyQ := q'\<rparr>) (remove1 (of_nat c) ids)"
    using D q'(2) c(2) lt st f
    by (auto simp: sched_inv_def kernel_inv_def tcbs_ok_update cur_ok_update states_ok_def)
  then show ?thesis using c(1) q'(1) by (simp add: k_rem_from_readyQ_def same_run_def)
qed

lemma sched_invI:
  assumes "kernel_inv k ids" "running k c"
    "\<not> suspend_flag (nrk_task_TCB k ! c) \<or> task_state (nrk_task_TCB k ! c) = FINISHED"
  shows "sched_inv k ids"
  using assms kernel_invD(3) [OF assms(1)] by (auto simp: sched_inv_def states_ok_def running_def)

lemma suspend_tcb_keeps [simp]:
  "task_ID (suspend_tcb t) = task_ID t" "task_prio (suspend_tcb t) = task_prio t"
  "period (suspend_tcb t) = period t" "suspend_flag (suspend_tcb t) = suspend_flag t"
  by (simp_all add: suspend_tcb_def Let_def)

lemma suspend_current_inv:
  assumes inv: "kernel_inv k ids" and c: "running k c"
  shows "ensures (suspend_current k) (\<lambda>k'. same_run k k' \<and> (\<exists>ids'. sched_inv k' ids'))"
proof (cases "suspend_flag (nrk_task_TCB k ! c) \<and> task_state (nrk_task_TCB k ! c) \<noteq> FINISHED")
  case False
  then have "suspend_current k = Some k" using c by (auto simp: suspend_current_def)
  moreover have "sched_inv k ids" using sched_invI [OF inv c] False by auto
  ultimately show ?thesis by auto
next
  case True
  then have "0 < c" using kernel_invD(3) [OF inv] by (cases c) (auto simp: states_ok_def)
  then have "ensures (do { k \<leftarrow> upd_cur suspend_tcb k; k_rem_from_readyQ (of_nat c) k })
      (\<lambda>k'. same_run k k' \<and> sched_inv k' (remove1 (of_nat c) ids))"
    using leave_queue [OF inv c] by simp
  moreover have "suspend_current k = do { k \<leftarrow> upd_cur suspend_tcb k; k_rem_from_readyQ (of_nat c) k }"
    using True c running_ID(1) [OF inv c] by (simp add: suspend_current_def)
  ultimately show ?thesis by (auto elim: ensures_mono)
qed

text \<open>The reserve of the task that ran.\<close>

definition charging :: "kernel \<Rightarrow> u8 list \<Rightarrow> nat \<Rightarrow> kernel \<Rightarrow> bool" where
  "charging k0 ids c k \<longleftrightarrow> same_run k0 k \<and> sched_inv k ids \<and> running k c"

lemma charging_on_run:
  assumes "charging k0 ids c k" "on_run k ids c k'"
  shows "charging k0 ids c k'"
proof -
  have "same_run k0 k'" "running k' c" "nrk_task_TCB k' = nrk_task_TCB k" "kernel_inv k' ids"
    using assms same_run_trans by (auto simp: charging_def on_run_def)
  moreover have "\<forall>i \<in> set ids. queued_ok (nrk_task_TCB k ! unat i)"
    using assms(1) by (simp add: charging_def sched_inv_def)
  ultimately show ?thesis by (simp add: charging_def sched_inv_def)
qed

lemma charging_start: "charging k0 ids c k \<Longrightarrow> on_run k ids c k"
  by (simp add: charging_def sched_inv_def on_run_start)

lemma charging_error:
  "charging k0 ids c k \<Longrightarrow> returns_on_error cfg \<Longrightarrow>
   ensures (nrk_kernel_error_add cfg n t k) (charging k0 ids c)"
  using on_run_error [OF charging_start] charging_on_run by (blast intro: ensures_mono)

lemma charging_violation:
  "charging k0 ids c k \<Longrightarrow> ensures (add_violation cfg (of_nat c) k) (charging k0 ids c)"
  using on_run_violation [OF charging_start] charging_on_run by (blast intro: ensures_mono)

lemma charging_remaining:
  assumes P: "charging k0 ids c k"
  shows "ensures (upd_cur (\<lambda>t. t\<lparr>cpu_remaining := g t\<rparr>) k) (charging k0 ids c)"
proof -
  have run: "running k c" and inv: "sched_inv k ids" using P by (simp_all add: charging_def)
  note D = kernel_invD [OF conjunct1 [OF inv [unfolded sched_inv_def]]]
  have lt: "c < NRK_MAX_TASKS k" using run by (simp add: running_def)
  let ?t = "nrk_task_TCB k ! c"
  have same: "queued_ok ((nrk_task_TCB k)[c := ?t\<lparr>cpu_remaining := g ?t\<rparr>] ! j) = queued_ok (nrk_task_TCB k ! j)"
    "task_state ((nrk_task_TCB k)[c := ?t\<lparr>cpu_remaining := g ?t\<rparr>] ! j) = task_state (nrk_task_TCB k ! j)"
    "suspend_flag ((nrk_task_TCB k)[c := ?t\<lparr>cpu_remaining := g ?t\<rparr>] ! j) = suspend_flag (nrk_task_TCB k ! j)" for j
    by (rule nth_update_same, simp add: queued_ok_def)+
  have "sched_inv (upd_tcb c (\<lambda>t. t\<lparr>cpu_remaining := g t\<rparr>) k) ids"
    using inv D lt
    by (simp add: sched_inv_def kernel_inv_def tcbs_ok_update queue_ok_update cur_ok_update states_ok_def same)
  then show ?thesis using P run by (simp add: charging_def)
qed

lemma charge_reserve_inv:
  assumes inv: "sched_inv k ids" "running k c" and cfg: "returns_on_error cfg"
  shows "ensures (charge_reserve cfg k) (\<lambda>k'. same_run k k' \<and> (\<exists>ids'. sched_inv k' ids'))"
proof -
  note ID = running_ID [OF conjunct1 [OF inv(1) [unfolded sched_inv_def]] inv(2)]
  have P: "charging k ids c k" using inv by (simp add: charging_def)
  let ?t = "nrk_task_TCB k ! c"
  show ?thesis
  proof (cases "cpu_reserve ?t \<noteq> 0 \<and> (of_nat c :: i8) \<noteq> NRK_IDLE_TASK_ID \<and> task_state ?t \<noteq> FINISHED")
    case False
    then have "charge_reserve cfg k = Some k" using inv(2) ID by (auto simp: charge_reserve_def)
    with inv show ?thesis by auto
  next
    case True
    then have c0: "0 < c" by (cases c) (auto simp: NRK_IDLE_TASK_ID_def)
    let ?p = "ucast (nrk_prev_timer_val k) :: u32"
    let ?first = "if cpu_remaining ?t < ?p then do {
              k \<leftarrow> add_violation cfg (of_nat c) k;
              k \<leftarrow> nrk_kernel_error_add cfg NRK_RESERVE_ERROR (of_nat c) k;
              upd_cur (\<lambda>t. t\<lparr>cpu_remaining := 0\<rparr>) k
            }
            else upd_cur (\<lambda>t. t\<lparr>cpu_remaining := cpu_remaining t - ?p\<rparr>) k"
    have first: "ensures ?first (charging k ids c)"
      using P cfg
      by (intro ensures_if ensures_bind [of _ "charging k ids c"] charging_violation charging_error
            charging_remaining)
    have out: "ensures (do {
         k \<leftarrow> upd_cur (\<lambda>t. t\<lparr>task_state := SUSPENDED\<rparr>) k';
         k_rem_from_readyQ (of_nat c) k }) (\<lambda>k'. same_run k k' \<and> (\<exists>ids'. sched_inv k' ids'))"
      if "charging k ids c k'" for k'
      using that leave_queue [of k' ids c "\<lambda>t. t\<lparr>task_state := SUSPENDED\<rparr>"] c0
      by (auto simp: charging_def sched_inv_def elim!: ensures_mono intro: same_run_trans)
    let ?last = "\<lambda>k'. if cpu_remaining (nrk_task_TCB k' ! c) = 0 then do {
         k \<leftarrow> add_violation cfg (of_nat c) k';
         k \<leftarrow> nrk_kernel_error_add cfg NRK_RESERVE_VIOLATED (of_nat c) k;
         k \<leftarrow> upd_cur (\<lambda>t. t\<lparr>task_state := SUSPENDED\<rparr>) k;
         k_rem_from_readyQ (of_nat c) k } else Some k'"
    have last: "ensures (?last k') (\<lambda>k'. same_run k k' \<and> (\<exists>ids'. sched_inv k' ids'))"
      if "charging k ids c k'" for k'
      using that cfg
      by (intro ensures_if ensures_bind [of _ "charging k ids c"] charging_violation charging_error out)
         (auto simp: charging_def)
    have eq: "charge_reserve cfg k = ?first \<bind> (\<lambda>k'. do {
        t \<leftarrow> cur_tcb k';
        if cpu_remaining t = 0 then do {
         k \<leftarrow> add_violation cfg (task_ID t) k';
         k \<leftarrow> nrk_kernel_error_add cfg NRK_RESERVE_VIOLATED (task_ID t) k;
         k \<leftarrow> upd_cur (\<lambda>t. t\<lparr>task_state := SUSPENDED\<rparr>) k;
         k_rem_from_readyQ (task_ID t) k } else Some k' })"
      using True inv(2) ID by (simp add: charge_reserve_def Let_def)
    have cur: "cur_tcb k' = Some (nrk_task_TCB k' ! c) \<and> task_ID (nrk_task_TCB k' ! c) = of_nat c"
      if "charging k ids c k'" for k'
      using that running_ID(1) [of k' ids c] by (auto simp: charging_def sched_inv_def)
    show ?thesis unfolding eq
    proof (rule ensures_bind [OF first], goal_cases)
      case (1 k')
      then show ?case using last [OF 1] cur [OF 1] by (auto split: if_splits)
    qed
  qed
qed

text \<open>One turn of the task loop.\<close>

lemma period_left_total: "per \<noteq> 0 \<Longrightarrow> \<exists>r. period_left p np per = Some r"
  by (simp add: period_left_def)

lemma count_down_total:
  assumes "task_ID t = 0 \<or> 0 < period t"
  shows "\<exists>w p. count_down prev t = Some (t\<lparr>next_wakeup := w, next_period := p\<rparr>)"
proof (cases "task_ID t \<noteq> NRK_IDLE_TASK_ID \<and> task_state t \<noteq> FINISHED")
  case True
  with assms have "period t \<noteq> 0" by (auto simp: NRK_IDLE_TASK_ID_def)
  then obtain np where "period_left (ucast prev) (next_period t) (period t) = Some np"
    using period_left_total by blast
  with True have "count_down prev t = Some (t\<lparr>next_wakeup := (if ucast prev \<le> next_wakeup t
      then next_wakeup t - ucast prev else 0), next_period := (if np = 0 then period t else np)\<rparr>)"
    by (simp add: count_down_def Let_def)
  then show ?thesis by blast
next
  case False
  then have "count_down prev t = Some t" unfolding count_down_def by (simp only: if_False)
  moreover have "t\<lparr>next_wakeup := next_wakeup t, next_period := next_period t\<rparr> = t" by simp
  ultimately show ?thesis by metis
qed

lemma clear_wait_total:
  assumes "0 \<le> sint w" "sint w < 32"
  shows "\<exists>m. clear_wait w t = Some (t\<lparr>active_signal_mask := m, event_suspend := 0, nw_flag := False,
    suspend_flag := False\<rparr>)"
proof -
  have "clear_wait w t = Some (t\<lparr>active_signal_mask :=
      (if 0 < event_suspend t \<and> nw_flag t then push_bit (nat (sint w)) 1 else active_signal_mask t),
      event_suspend := 0, nw_flag := False, suspend_flag := False\<rparr>)"
    using assms by (simp add: clear_wait_def SIG_def del: push_bit_of_1)
  then show ?thesis by blast
qed

lemma ready_inv:
  assumes inv: "sched_inv k ids" and i: "i < NRK_MAX_TASKS k" "0 < i" "task_ID (nrk_task_TCB k ! i) \<noteq> - 1"
    "of_nat i \<notin> set ids"
    and t: "task_ID t = task_ID (nrk_task_TCB k ! i)" "task_prio t = task_prio (nrk_task_TCB k ! i)"
      "period t = period (nrk_task_TCB k ! i)" "queued_ok t"
  shows "ensures (k_add_to_readyQ (of_nat i) (upd_tcb i (\<lambda>_. t) k))
    (\<lambda>k'. same_run k k' \<and> nrk_task_TCB k' = (nrk_task_TCB k)[i := t] \<and> (\<exists>ids'. sched_inv k' ids'))"
proof -
  let ?T' = "(nrk_task_TCB k)[i := t]"
  have D: "sched_inv (upd_tcb i (\<lambda>_. t) k) ids"
    using t i by (intro sched_inv_upd [OF inv i(1) refl]) auto
  have T': "tcbs_ok ?T'" "queue_ok ?T' (nrk_readyQ k) ids"
    using D by (auto simp: sched_inv_def kernel_inv_def)
  have i': "i < length ?T'" "task_ID (?T' ! i) \<noteq> - 1" using i t by auto
  obtain q' where q': "nrk_add_to_readyQ ?T' (of_nat i) (nrk_readyQ k) = Some q'"
      "queue_ok ?T' q' (pinsert (stops ?T' (of_nat i)) (of_nat i) ids)"
    using add_under_inv [OF T' i'(1) i(2) i'(2) i(4)] by auto
  have "i < 256" using T'(1) i by (auto simp: tcbs_ok_def)
  then have "sched_inv (upd_tcb i (\<lambda>_. t) k\<lparr>nrk_readyQ := q'\<rparr>) (pinsert (stops ?T' (of_nat i)) (of_nat i) ids)"
    using D q'(2) i t by (auto simp: sched_inv_def kernel_inv_def states_ok_def)
  then show ?thesis using q'(1) by (auto simp: k_add_to_readyQ_def same_run_def)
qed

lemma sched_inv_not_queued:
  "sched_inv k ids \<Longrightarrow> task_state (nrk_task_TCB k ! i) = SUSPENDED \<Longrightarrow> i < 256 \<Longrightarrow> of_nat i \<notin> set ids"
  by (fastforce simp: sched_inv_def queued_ok_def)

lemma sched_inv_queued:
  assumes "sched_inv k ids" "of_nat i \<in> set ids" "i < 256"
  shows "queued_ok (nrk_task_TCB k ! i)"
proof -
  have "queued_ok (nrk_task_TCB k ! unat (of_nat i :: u8))" using assms by (simp add: sched_inv_def del: unat_of_nat_u8)
  then show ?thesis using assms(3) by simp
qed

lemma sched_inv_idle_ready:
  assumes "sched_inv k ids"
  shows "task_state (nrk_task_TCB k ! 0) \<noteq> SUSPENDED"
proof -
  have "0 \<in> set ids" using assms by (simp add: sched_inv_def kernel_inv_def queue_ok_def)
  then show ?thesis using assms by (fastforce simp: sched_inv_def queued_ok_def)
qed

text \<open>The wake-up part, for a task that is suspended.\<close>

lemma wake_inv:
  assumes inv: "sched_inv k ids" and i: "i < NRK_MAX_TASKS k" "task_ID (nrk_task_TCB k ! i) \<noteq> - 1"
    and t: "t = nrk_task_TCB k ! i" "task_state t = SUSPENDED"
  shows "ensures (if next_wakeup t = 0 then do {
                t \<leftarrow> clear_wait (nrk_wakeup_signal k) t;
                if num_periods t = 1 then k_add_to_readyQ (of_nat i) (upd_tcb i (\<lambda>_. make_ready t) k)
                else Some (upd_tcb i (\<lambda>_. skip_periods t) k)
              }
              else Some k) (\<lambda>k'. same_run k k' \<and> (\<exists>ids'. sched_inv k' ids'))"
proof (cases "next_wakeup t = 0")
  case True
  have i0: "0 < i" using sched_inv_idle_ready [OF inv] t by (cases i) auto
  have i256: "i < 256" using inv i by (auto simp: sched_inv_def kernel_inv_def tcbs_ok_def)
  have nq: "of_nat i \<notin> set ids" using sched_inv_not_queued [OF inv _ i256] t by simp
  have w: "0 \<le> sint (nrk_wakeup_signal k)" "sint (nrk_wakeup_signal k) < 32"
    using inv by (simp_all add: sched_inv_def kernel_inv_def)
  obtain m where m: "clear_wait (nrk_wakeup_signal k) t = Some (t\<lparr>active_signal_mask := m,
      event_suspend := 0, nw_flag := False, suspend_flag := False\<rparr>)" (is "_ = Some ?t")
    using clear_wait_total [OF w] by blast
  have "ensures (k_add_to_readyQ (of_nat i) (upd_tcb i (\<lambda>_. make_ready ?t) k))
      (\<lambda>k'. same_run k k' \<and> (\<exists>ids'. sched_inv k' ids'))"
    using ready_inv [OF inv i(1) i0 i(2) nq, of "make_ready ?t"] t
    by (auto simp: make_ready_def queued_ok_def elim!: ensures_mono)
  moreover have "sched_inv (upd_tcb i (\<lambda>_. skip_periods ?t) k) ids"
    using t i0 nq by (intro sched_inv_upd [OF inv i(1) refl]) (auto simp: skip_periods_def Let_def)
  ultimately show ?thesis using True m by auto
qed (use inv in auto)

lemma sched_task_inv:
  assumes inv: "sched_inv k ids" and i: "i < NRK_MAX_TASKS k" and nw: "0 < nw"
  shows "ensures (sched_task i (k, nw))
    (\<lambda>(k', nw'). same_run k k' \<and> (\<exists>ids'. sched_inv k' ids') \<and> 0 < nw' \<and> nw' \<le> nw)"
proof (cases "task_ID (nrk_task_TCB k ! i) = - 1")
  case True
  with inv nw show ?thesis by (auto simp: sched_task_def)
next
  case False
  let ?t0 = "(nrk_task_TCB k ! i)\<lparr>suspend_flag := False\<rparr>"
  have T: "tcbs_ok (nrk_task_TCB k)" using inv by (simp add: sched_inv_def kernel_inv_def)
  then have "task_ID ?t0 = 0 \<or> 0 < period ?t0" using i False by (cases i) (auto simp: tcbs_ok_def)
  then obtain w p where cd: "count_down (nrk_prev_timer_val k) ?t0 =
      Some (?t0\<lparr>next_wakeup := w, next_period := p\<rparr>)" (is "_ = Some ?t")
    using count_down_total by blast
  let ?k1 = "upd_tcb i (\<lambda>_. ?t) k"
  have inv1: "sched_inv ?k1 ids"
    using i T sched_inv_queued [OF inv]
    by (intro sched_inv_upd [OF inv i refl]) (auto simp: tcbs_ok_def queued_ok_def)
  have w1: "nrk_wakeup_signal ?k1 = nrk_wakeup_signal k" "nrk_task_TCB ?k1 ! i = ?t" using i by simp_all
  show ?thesis
  proof (cases "task_state ?t = SUSPENDED")
    case False
    with \<open>task_ID _ \<noteq> - 1\<close> cd inv1 nw show ?thesis by (auto simp: sched_task_def)
  next
    case True
    note W = wake_inv [OF inv1, of i ?t, unfolded w1]
    have W: "ensures (if next_wakeup ?t = 0 then do {
                t \<leftarrow> clear_wait (nrk_wakeup_signal k) ?t;
                if num_periods t = 1 then k_add_to_readyQ (of_nat i) (upd_tcb i (\<lambda>_. make_ready t) ?k1)
                else Some (upd_tcb i (\<lambda>_. skip_periods t) ?k1)
              }
              else Some ?k1) (\<lambda>k'. same_run k k' \<and> (\<exists>ids'. sched_inv k' ids'))" (is "ensures ?m _")
      using W True i False by (auto elim!: ensures_mono simp: same_run_def)
    have eq: "sched_task i (k, nw) = ?m \<bind> (\<lambda>k'. let w = next_wakeup (nrk_task_TCB k' ! i) in
        Some (k', if w \<noteq> 0 \<and> w < ucast nw then ucast w else nw))"
      using True False cd by (simp add: sched_task_def Let_def)
    have small: "0 < (if w \<noteq> 0 \<and> w < ucast nw then ucast w else nw) \<and>
        (if w \<noteq> 0 \<and> w < ucast nw then ucast w else nw) \<le> nw" for w :: u32
    proof (cases "w \<noteq> 0 \<and> w < ucast nw")
      case True
      then have "unat w < unat nw" by (simp add: word_less_nat_alt unat_ucast_up)
      then have "unat (ucast w :: u16) = unat w"
        using unat_less_pow [of nw] by (intro unat_ucast_fits) simp
      moreover have "unat w \<noteq> 0" using True by (simp add: word_unat_eq_iff)
      ultimately show ?thesis using True \<open>unat w < unat nw\<close>
        by (simp add: word_less_nat_alt word_le_nat_alt)
    qed (use nw in auto)
    show ?thesis unfolding eq
      by (rule ensures_bind [OF W]) (use small in \<open>simp add: Let_def\<close>)
  qed
qed

lemma sched_tasks_inv:
  assumes "sched_inv k ids" "0 < nw" "\<forall>i \<in> set is. i < NRK_MAX_TASKS k"
  shows "ensures (sched_tasks is (k, nw))
    (\<lambda>(k', nw'). same_run k k' \<and> (\<exists>ids'. sched_inv k' ids') \<and> 0 < nw' \<and> nw' \<le> nw)"
  using assms
proof (induction "is" arbitrary: k ids nw)
  case (Cons i "is")
  have "ensures (sched_task i (k, nw))
    (\<lambda>(k', nw'). same_run k k' \<and> (\<exists>ids'. sched_inv k' ids') \<and> 0 < nw' \<and> nw' \<le> nw)"
    using Cons.prems by (intro sched_task_inv) auto
  then show ?case unfolding sched_tasks.simps
  proof (rule ensures_bind, clarsimp, goal_cases)
    case (1 k' nw' ids')
    have "\<forall>i \<in> set is. i < NRK_MAX_TASKS k'" using 1 Cons.prems by (simp add: same_run_def)
    then show ?case using Cons.IH [of k' ids' nw'] 1 same_run_trans
      by (auto elim!: ensures_mono)
  qed
qed auto

section \<open>Picking the next task and the next wake-up\<close>

lemma pick_next_wake_bound: "unat (pick_next_wake npd task t nw) \<le> 250"
proof -
  have "unat (ucast (cpu_remaining t) :: u16) \<le> 250" if "cpu_remaining t < 250"
    using that by (subst unat_ucast_fits) (simp_all add: word_less_nat_alt)
  moreover have "unat nw \<le> 250" if "cpu_remaining t < 250" "ucast nw \<le> cpu_remaining t"
    using that by (simp add: word_less_nat_alt word_le_nat_alt unat_ucast_up)
  ultimately show ?thesis
    by (auto simp: pick_next_wake_def Let_def MAX_SCHED_WAKEUP_TIME_def NRK_SLEEP_WAKEUP_TIME_def
        word_less_nat_alt word_le_nat_alt unat_sub not_less)
qed

lemma pick_next_wake_pos:
  assumes "0 < nw" "cpu_reserve t \<noteq> 0 \<Longrightarrow> cpu_remaining t \<noteq> 0"
  shows "0 < pick_next_wake npd task t nw"
proof -
  have "0 < unat (ucast (cpu_remaining t) :: u16)" if "cpu_remaining t < 250" "cpu_remaining t \<noteq> 0"
    using that by (subst unat_ucast_fits) (simp_all add: word_less_nat_alt unat_gt_0)
  with assms show ?thesis
    by (auto simp: pick_next_wake_def Let_def MAX_SCHED_WAKEUP_TIME_def NRK_SLEEP_WAKEUP_TIME_def
        word_less_nat_alt word_le_nat_alt unat_sub not_less)
qed

lemma pick_task_inv:
  assumes inv: "sched_inv k ids" "running k c"
  shows "ensures (pick_task cfg k) (\<lambda>(t, k'). ids \<noteq> [] \<and> t = hd ids \<and> unat t < NRK_MAX_TASKS k' \<and>
    0 \<le> sint t \<and> sched_inv k' ids \<and> nrk_high_ready_TCB k' = Some (unat t) \<and>
    nrk_system_time k' = nrk_system_time k)"
proof -
  have kinv: "kernel_inv k ids" using inv(1) by (simp add: sched_inv_def)
  have first: "ensures (if opt_STATS_TRACKER cfg then do {
            t \<leftarrow> cur_tcb k;
            nrk_stats_task_start (task_ID t) k
          } else Some k) (charging k ids c)"
  proof (cases "opt_STATS_TRACKER cfg")
    case True
    have P: "charging k ids c k" using inv by (simp add: charging_def)
    have "ensures (upd_stat stat_start (of_nat c) k) (charging k ids c)"
      by (rule ensures_mono [OF on_run_stat [OF charging_start [OF P]]]) (rule charging_on_run [OF P])
    then show ?thesis using True inv(2) running_ID(1) [OF kinv inv(2)]
      by (simp add: nrk_stats_task_start_def)
  qed (use inv in \<open>simp add: charging_def\<close>)
  show ?thesis unfolding pick_task_def
  proof (rule ensures_bind [OF first], goal_cases)
    case (1 k')
    have inv': "sched_inv k' ids" using 1 by (simp add: charging_def)
    then have q: "queue_ok (nrk_task_TCB k') (nrk_readyQ k') ids" "tcbs_ok (nrk_task_TCB k')"
      by (simp_all add: sched_inv_def kernel_inv_def)
    obtain i js where ids: "ids = i # js" using q(1) by (cases ids) (auto simp: queue_ok_def)
    have hd: "nrk_get_high_ready_task_ID (nrk_readyQ k') = Some i"
      using head_of_rel [of "length (nrk_task_TCB k')" "nrk_readyQ k'" ids] q(1) ids
      by (simp add: queue_ok_def)
    have lt: "unat i < NRK_MAX_TASKS k'" "unat i < 128"
      using q ids by (auto simp: queue_ok_def tcbs_ok_def)
    then have idx: "tcb_index i k' = Some (unat i)" "0 \<le> sint i"
      using tcb_index_of_nat [of "unat i" k'] sint_of_nat_i8 [of "unat i"] by simp_all
    have "sched_inv (k'\<lparr>nrk_high_ready_prio := p, nrk_high_ready_TCB := x\<rparr>) ids" for p x
      using inv' by (subst sched_inv_cong) simp_all
    then show ?case using hd idx lt ids 1 by (simp add: charging_def same_run_def)
  qed
qed

text \<open>After the switch: the compare register and the ticks to account at the next run agree.\<close>

lemma switch_task_inv:
  assumes inv: "sched_inv k ids" and t: "ids \<noteq> []" "nrk_high_ready_TCB k = Some (unat (hd ids))"
    and cfg: "returns_on_error cfg"
  shows "ensures (switch_task cfg t1 t2 task nw k) (\<lambda>k'. kernel_inv k' ids \<and>
    nrk_cur_task_TCB k' = Some (unat (hd ids)) \<and> nrk_system_time k' = nrk_system_time k \<and>
    nrk_get_next_wakeup k' = nrk_prev_timer_val k' \<and>
    nrk_prev_timer_val k' = (if unat nw \<le> unat t1 + 1 then t2 + 2 else ucast nw))"
proof -
  have hd: "hd ids \<in> set ids" using t(1) by simp
  have base: "kernel_inv (k\<lparr>nrk_cur_task_prio := p, nrk_cur_task_TCB := nrk_high_ready_TCB k\<rparr>) ids" for p
    using inv hd t by (auto simp: sched_inv_def kernel_inv_def states_ok_def cur_ok_def queue_ok_def)
  have narrow: "ucast (ucast t2 + 2 :: u16) = t2 + 2"
    using unat_less_pow [of t2]
    by (simp add: word_unat_eq_iff unsigned_ucast_eq unat_word_ariths take_bit_eq_mod)
  let ?k0 = "k\<lparr>nrk_cur_task_prio := nrk_high_ready_prio k, nrk_cur_task_TCB := nrk_high_ready_TCB k,
      nrk_prev_timer_val := ucast nw\<rparr>"
  obtain out where err: "nrk_kernel_error_add cfg NRK_WAKEUP_MISSED task ?k0 =
      Some (?k0\<lparr>error_task := task, error_num := 0, console := out\<rparr>)"
    using kernel_error_add_returns [OF cfg] by blast
  show ?thesis
  proof (cases "unat nw \<le> unat t1 + 1")
    case False
    then show ?thesis using base t
      by (simp add: switch_task_def Let_def nrk_set_next_wakeup_reg_def nrk_get_next_wakeup_def)
  next
    case True
    then show ?thesis using base t err narrow
      by (simp add: switch_task_def Let_def nrk_set_next_wakeup_reg_def nrk_get_next_wakeup_def)
  qed
qed

section \<open>The whole scheduler\<close>

definition sched_post :: "kernel \<Rightarrow> u8 \<Rightarrow> kernel \<Rightarrow> bool" where
  "sched_post k t2 k' \<longleftrightarrow> (\<exists>ids. kernel_inv k' ids \<and> ids \<noteq> [] \<and>
     nrk_cur_task_TCB k' = Some (unat (hd ids))) \<and>
     nrk_system_time k' = advance_clock (nrk_prev_timer_val k) (nrk_system_time k) \<and>
     nrk_get_next_wakeup k' = nrk_prev_timer_val k' \<and>
     (nrk_prev_timer_val k' = t2 + 2 \<or> unat (nrk_prev_timer_val k') \<le> 250)"

lemma sched_enter_inv:
  assumes "kernel_inv k ids" "running k c" "\<not> opt_SW_WDT cfg"
  shows "ensures (sched_enter call cfg tcnt5 t0 k) (\<lambda>k'. kernel_inv k' ids \<and> running k' c \<and>
    nrk_system_time k' = nrk_system_time k \<and> nrk_prev_timer_val k' = nrk_prev_timer_val k)"
  using assms by (simp add: sched_enter_def nrk_set_next_wakeup_reg_def running_def Let_def)

lemma scheduler_ensures:
  assumes inv: "kernel_inv k ids" and cfg: "returns_on_error cfg" "\<not> opt_SW_WDT cfg"
  shows "ensures (nrk_scheduler call cfg tcnt5 t0 t1 t2 k) (sched_post k t2)"
proof -
  obtain c where c: "running k c" using inv by (rule kernel_inv_running)
  let ?clk = "advance_clock (nrk_prev_timer_val k) (nrk_system_time k)"
  have run: "running k' c" if "same_run k0 k'" "running k0 c" for k0 k'
    using that by (simp add: same_run_def running_def)
  show ?thesis unfolding nrk_scheduler_def
  proof (rule ensures_bind [OF sched_enter_inv [OF inv c cfg(2)]], goal_cases)
    case (1 k1)
    show ?case
    proof (rule ensures_bind [OF account_stats_inv [of k1 ids c]], use 1 in simp, use 1 in simp, goal_cases)
      case (1 k2)
      let ?k2 = "k2\<lparr>nrk_system_time := advance_clock (nrk_prev_timer_val k2) (nrk_system_time k2)\<rparr>"
      have k2: "kernel_inv ?k2 ids" "running ?k2 c" "nrk_system_time ?k2 = ?clk"
        using 1 \<open>kernel_inv k1 ids \<and> _\<close> by (auto simp: on_run_def same_run_def running_def)
      show ?case unfolding Let_def
      proof (rule ensures_bind [OF suspend_current_inv [OF k2(1,2)]], goal_cases)
        case (1 k3)
        then obtain ids3 where k3: "same_run ?k2 k3" "sched_inv k3 ids3" "running k3 c"
          using run [OF _ k2(2)] by blast
        show ?case
        proof (rule ensures_bind [OF charge_reserve_inv [OF k3(2,3) cfg(1)]], goal_cases)
          case (1 k4)
          then obtain ids4 where k4: "same_run ?k2 k4" "sched_inv k4 ids4"
            using same_run_trans [OF k3(1)] by blast
          show ?case
          proof (rule ensures_bind [OF sched_tasks_inv [OF k4(2)]], simp, simp, clarsimp, goal_cases)
            case (1 k5 nw ids5)
            then have k5: "same_run ?k2 k5" using same_run_trans [OF k4(1)] by blast
            show ?case
            proof (rule ensures_bind [OF pick_task_inv [of k5 ids5 c]], use 1 in simp,
                use run [OF k5 k2(2)] in simp, clarsimp, goal_cases)
              case (1 k6)
              let ?i = "hd ids5"
              have idx: "tcb_index ?i k6 = Some (unat ?i)"
                using 1 by (intro tcb_index_unat) auto
              have t6: "nrk_system_time k6 = ?clk" using 1 k5 k2(3) by (simp add: same_run_def)
              let ?w = "pick_next_wake (opt_NO_POWER_DOWN cfg) ?i (nrk_task_TCB k6 ! unat ?i) nw"
              have "unat (ucast ?w :: u8) \<le> 250"
                using pick_next_wake_bound [of "opt_NO_POWER_DOWN cfg" ?i "nrk_task_TCB k6 ! unat ?i" nw]
                by (subst unat_ucast_fits) simp_all
              then have "ensures (switch_task cfg t1 t2 ?i ?w k6) (sched_post k t2)"
                using switch_task_inv [of k6 ids5 cfg t1 t2 ?i ?w] 1 cfg(1) t6
                by (auto simp: sched_post_def elim!: ensures_mono)
              then show ?case using idx by simp
            qed
          qed
        qed
      qed
    qed
  qed
qed

section \<open>Properties\<close>

lemma ex_kernel_inv:
  assumes "c < 3"
  shows "kernel_inv (ex_kernel c) [0]"
proof -
  have T: "ex_tasks ! 0 = make_tcb 0 READY 0 0 0" "ex_tasks ! 1 = make_tcb 1 SUSPENDED 5 100 7"
    "ex_tasks ! 2 = make_tcb 2 SUSPENDED 9 50 3" "length ex_tasks = 3"
    by (simp_all add: ex_tasks_def)
  have three: "i < 3 \<longleftrightarrow> i = 0 \<or> i = 1 \<or> i = 2" for i :: nat by auto
  have "tcbs_ok ex_tasks" unfolding tcbs_ok_def T(4) three using T by auto
  moreover have "queue_ok ex_tasks ex_readyq [0]"
    using ex_readyq_rel T by (simp add: queue_ok_def)
  moreover have "states_ok ex_tasks (Some c) [0]" using T by (simp add: states_ok_def queued_ok_def)
  moreover have "cur_ok ex_tasks (Some c)" using assms T unfolding cur_ok_def T(4) three by auto
  ultimately show ?thesis using T(4) by (simp add: kernel_inv_def)
qed

text \<open>
  C2: The scheduler is safe. In a state that satisfies the kernel invariant, with a build
  that neither halts nor reboots on errors and no software watchdogs, a run of the
  scheduler returns whatever the timers show: it dereferences no \<^verbatim>\<open>NULL\<close> pointer and
  stays inside its arrays; the invariant holds again, the running task is the head of the
  ready queue, the clock has advanced by the ticks accounted, and the compare register
  agrees with the ticks to account at the next run.
\<close>

theorem nrk_scheduler_safe:
  assumes "kernel_inv k ids" "returns_on_error cfg" "\<not> opt_SW_WDT cfg"
  shows "\<exists>k' ids'. nrk_scheduler call cfg tcnt5 t0 t1 t2 k = Some k' \<and> kernel_inv k' ids' \<and> ids' \<noteq> [] \<and>
    nrk_cur_task_TCB k' = Some (unat (hd ids')) \<and>
    nrk_system_time k' = advance_clock (nrk_prev_timer_val k) (nrk_system_time k) \<and>
    nrk_get_next_wakeup k' = nrk_prev_timer_val k'"
  using scheduler_ensures [OF assms, of call tcnt5 t0 t1 t2] by (auto simp: ensures_def sched_post_def)

theorem nrk_scheduler_safe_witness:
  "\<exists>k'. nrk_scheduler (\<lambda>_. Some) ex_cfg 0 12 13 14 (ex_kernel 0) = Some k' \<and>
    nrk_system_time k' = advance_clock 10 \<lparr>secs = 0, nano_secs = 0\<rparr>"
  using nrk_scheduler_safe [OF ex_kernel_inv [of 0] ex_cfg_returns] by (simp add: ex_cfg_def) blast



end
