(* ===== verification/Nrk_Idle.thy ===== *)
theory Nrk_Idle
  imports Nrk_Cpu
begin

text \<open>
  The idle task, \<^verbatim>\<open>src/src/kernel/source/nrk_idle_task.c\<close>: one round of its endless loop, in two
  steps, because the scheduler may run while the processor sleeps. \<^verbatim>\<open>NRK_SLEEP_WAKEUP_TIME\<close>
  and the addresses of the two stacks are parameters.
\<close>

text \<open>Up to the sleep\<close>

definition idle_before_sleep :: "nrk_cfg \<Rightarrow> u8 \<Rightarrow> kernel \<Rightarrow> kernel option" where
  "idle_before_sleep cfg wakeup_time k = do {
     k \<leftarrow> nrk_stack_check cfg k;
     Some (if nrk_get_next_wakeup k \<le> wakeup_time then k\<lparr>nrk_cpu_state := CPU_IDLE\<rparr>
           else if \<not> opt_NO_POWER_DOWN cfg then k\<lparr>nrk_cpu_state := CPU_SLEEP\<rparr>
           else k)
   }"

text \<open>After it: the canaries of the idle stack and of the kernel stack\<close>

definition idle_after_sleep :: "nrk_cfg \<Rightarrow> u16 \<Rightarrow> u16 \<Rightarrow> kernel \<Rightarrow> kernel option" where
  "idle_after_sleep cfg istk kstk k =
     (if \<not> opt_STACK_CHECK cfg then Some k
      else do {
        k \<leftarrow> (if memory k istk \<noteq> STK_CANARY_VAL then nrk_error_add cfg NRK_STACK_SMASH k else Some k);
        (if memory k kstk \<noteq> STK_CANARY_VAL then nrk_error_add cfg NRK_STACK_SMASH k else Some k)
      })"

end
