(* ===== verification/Nrk_System.thy ===== *)
theory Nrk_System
  imports Nrk_Invariant Nrk_Idle
begin

text \<open>
  The kernel as a transition system: runs of the scheduler, the calls the running task
  makes, the rounds of the idle task, and signals sent from interrupt handlers. The invariant of
  \<^verbatim>\<open>Nrk_Invariant\<close> holds in every state reachable from one in which it holds, and
  booting establishes it.
\<close>

section \<open>Calls and the invariant\<close>

text \<open>New contents for the task table that change no identity, priority or period, clear no
  suspend flag, and leave the queued tasks queued.\<close>

lemma kernel_inv_tcbs:
  assumes inv: "kernel_inv k ids" and len: "length T' = NRK_MAX_TASKS k"
    and same: "\<And>i. i < NRK_MAX_TASKS k \<Longrightarrow> task_ID (T' ! i) = task_ID (nrk_task_TCB k ! i) \<and>
      task_prio (T' ! i) = task_prio (nrk_task_TCB k ! i) \<and> period (T' ! i) = period (nrk_task_TCB k ! i)"
    and idle: "\<not> suspend_flag (T' ! 0)"
    and queued: "\<And>i. i \<in> set ids \<Longrightarrow> queued_ok (nrk_task_TCB k ! unat i) \<Longrightarrow>
      queued_ok (T' ! unat i) \<or>
      nrk_cur_task_TCB k = Some (unat i) \<and> suspend_flag (T' ! unat i) \<and> task_state (T' ! unat i) \<noteq> FINISHED"
    and leaving: "\<And>i. nrk_cur_task_TCB k = Some i \<Longrightarrow> suspend_flag (nrk_task_TCB k ! i) \<Longrightarrow>
      task_state (nrk_task_TCB k ! i) \<noteq> FINISHED \<Longrightarrow>
      suspend_flag (T' ! i) \<and> task_state (T' ! i) \<noteq> FINISHED"
  shows "kernel_inv (k\<lparr>nrk_task_TCB := T'\<rparr>) ids"
proof -
  note D = kernel_invD [OF inv]
  have "tcbs_ok T'" using D(1) len same by (auto simp: tcbs_ok_def)
  moreover have "queue_ok T' (nrk_readyQ k) ids" using D(2) len same by (auto simp: queue_ok_def)
  moreover have "cur_ok T' (nrk_cur_task_TCB k)" using D(4) len same by (auto simp: cur_ok_def)
  moreover have "states_ok T' (nrk_cur_task_TCB k) ids"
    using D(3) idle queued leaving by (auto simp: states_ok_def)
  ultimately show ?thesis using D len by (simp add: kernel_inv_def)
qed

text \<open>The running task updates itself.\<close>

lemma kernel_inv_upd_cur:
  assumes inv: "kernel_inv k ids" and c: "running k c" "c \<noteq> 0"
    and f: "task_ID (f t) = task_ID t" "task_prio (f t) = task_prio t" "period (f t) = period t"
      "task_state (f t) = task_state t" "suspend_flag t \<Longrightarrow> suspend_flag (f t)"
      "\<not> suspend_flag (f t) \<Longrightarrow> event_suspend (f t) = event_suspend t"
    and t: "t = nrk_task_TCB k ! c"
  shows "kernel_inv (upd_tcb c f k) ids"
  unfolding upd_tcb_def
proof (rule kernel_inv_tcbs [OF inv])
  let ?T' = "(nrk_task_TCB k)[c := f (nrk_task_TCB k ! c)]"
  have lt: "c < NRK_MAX_TASKS k" using c by (simp add: running_def)
  show "length ?T' = NRK_MAX_TASKS k" by simp
  show "\<not> suspend_flag (?T' ! 0)" using kernel_invD(3) [OF inv] c by (simp add: states_ok_def)
  fix i
  show "task_ID (?T' ! i) = task_ID (nrk_task_TCB k ! i) \<and> task_prio (?T' ! i) = task_prio (nrk_task_TCB k ! i) \<and>
      period (?T' ! i) = period (nrk_task_TCB k ! i)" if "i < NRK_MAX_TASKS k"
    using f t lt by (auto simp: nth_list_update)
  show "suspend_flag (?T' ! i) \<and> task_state (?T' ! i) \<noteq> FINISHED"
    if "nrk_cur_task_TCB k = Some i" "suspend_flag (nrk_task_TCB k ! i)"
      "task_state (nrk_task_TCB k ! i) \<noteq> FINISHED"
    using that f t lt c by (auto simp: running_def)
next
  fix i assume i: "i \<in> set ids" "queued_ok (nrk_task_TCB k ! unat i)"
  let ?T' = "(nrk_task_TCB k)[c := f (nrk_task_TCB k ! c)]"
  show "queued_ok (?T' ! unat i) \<or> nrk_cur_task_TCB k = Some (unat i) \<and>
      suspend_flag (?T' ! unat i) \<and> task_state (?T' ! unat i) \<noteq> FINISHED"
    using i f t c by (cases "unat i = c") (auto simp: queued_ok_def running_def)
qed

text \<open>A sweep over all tasks that touches only tasks waiting for an event.\<close>

lemma kernel_inv_sweep:
  assumes inv: "kernel_inv k ids"
    and f: "\<And>t. task_ID (f t) = task_ID t" "\<And>t. task_prio (f t) = task_prio t" "\<And>t. period (f t) = period t"
      "\<And>t. suspend_flag (f t) = suspend_flag t" "\<And>t. event_suspend t = 0 \<Longrightarrow> f t = t"
      "\<And>t. task_state (f t) \<noteq> FINISHED \<or> task_state t = FINISHED"
  shows "kernel_inv (k\<lparr>nrk_task_TCB := map f (nrk_task_TCB k)\<rparr>) ids"
proof (rule kernel_inv_tcbs [OF inv])
  have ne: "0 < NRK_MAX_TASKS k" using kernel_invD(1) [OF inv] by (simp add: tcbs_ok_def)
  show "\<not> suspend_flag (map f (nrk_task_TCB k) ! 0)"
    using kernel_invD(3) [OF inv] ne f(4) by (simp add: states_ok_def)
  fix i
  show "suspend_flag (map f (nrk_task_TCB k) ! i) \<and> task_state (map f (nrk_task_TCB k) ! i) \<noteq> FINISHED"
    if "nrk_cur_task_TCB k = Some i" "suspend_flag (nrk_task_TCB k ! i)" "task_state (nrk_task_TCB k ! i) \<noteq> FINISHED"
  proof -
    have "i < NRK_MAX_TASKS k" using that(1) kernel_invD(4) [OF inv] by (auto simp: cur_ok_def)
    then show ?thesis using that(2,3) f(4) f(6) [of "nrk_task_TCB k ! i"] by simp
  qed
next
  fix i assume "i \<in> set ids" "queued_ok (nrk_task_TCB k ! unat i)"
  moreover from this have "unat i < NRK_MAX_TASKS k" using kernel_invD(2) [OF inv] by (auto simp: queue_ok_def)
  ultimately show "queued_ok (map f (nrk_task_TCB k) ! unat i) \<or> nrk_cur_task_TCB k = Some (unat i) \<and>
      suspend_flag (map f (nrk_task_TCB k) ! unat i) \<and> task_state (map f (nrk_task_TCB k) ! unat i) \<noteq> FINISHED"
    using f(5) by (simp add: queued_ok_def)
qed (use f(1,2,3) in simp_all)

lemma forget_deliver_release [simp]:
  "task_ID (fst (deliver m t)) = task_ID t" "task_prio (fst (deliver m t)) = task_prio t"
  "period (fst (deliver m t)) = period t" "suspend_flag (fst (deliver m t)) = suspend_flag t"
  "event_suspend t = 0 \<Longrightarrow> deliver m t = (t, False)"
  "task_ID (release_waiter i t) = task_ID t" "task_prio (release_waiter i t) = task_prio t"
  "period (release_waiter i t) = period t" "suspend_flag (release_waiter i t) = suspend_flag t"
  "event_suspend t = 0 \<Longrightarrow> release_waiter i t = t"
  by (auto simp: deliver_def release_waiter_def Let_def event_class_defs)

lemma deliver_release_state:
  "task_state (fst (deliver m t)) \<noteq> FINISHED \<or> task_state t = FINISHED"
  "task_state (release_waiter i t) \<noteq> FINISHED \<or> task_state t = FINISHED"
  by (auto simp: deliver_def release_waiter_def Let_def)

section \<open>Calls\<close>

lemma wake_soon_simps [simp]:
  "nrk_task_TCB (wake_soon t k) = nrk_task_TCB k" "nrk_cur_task_TCB (wake_soon t k) = nrk_cur_task_TCB k"
  "nrk_signal_list (wake_soon t k) = nrk_signal_list k" "nrk_sem_list (wake_soon t k) = nrk_sem_list k"
  "kernel_inv (wake_soon t k) ids = kernel_inv k ids" "running (wake_soon t k) c = running k c"
  by (simp_all add: wake_soon_def nrk_set_next_wakeup_reg_def kernel_inv_def running_def)

lemma kernel_inv_int [simp]:
  "kernel_inv (nrk_int_enable k) ids = kernel_inv k ids" "kernel_inv (nrk_int_disable k) ids = kernel_inv k ids"
  by (simp_all add: nrk_int_enable_def nrk_int_disable_def)

text \<open>What reporting an error leaves alone.\<close>

definition quiet :: "kernel \<Rightarrow> kernel \<Rightarrow> bool" where
  "quiet k k' \<longleftrightarrow> nrk_task_TCB k' = nrk_task_TCB k \<and> nrk_readyQ k' = nrk_readyQ k \<and>
     nrk_cur_task_TCB k' = nrk_cur_task_TCB k \<and> cur_task_stats k' = cur_task_stats k \<and>
     nrk_wakeup_signal k' = nrk_wakeup_signal k \<and> nrk_signal_list k' = nrk_signal_list k \<and>
     nrk_sem_list k' = nrk_sem_list k \<and> nrk_system_time k' = nrk_system_time k \<and>
     nrk_task_init_cnt k' = nrk_task_init_cnt k"

lemma quiet_refl [simp]: "quiet k k"
  by (simp add: quiet_def)

lemma quiet_trans: "quiet k k' \<Longrightarrow> quiet k' k'' \<Longrightarrow> quiet k k''"
  by (simp add: quiet_def)

lemma quiet_keeps:
  assumes "quiet k k'"
  shows "kernel_inv k' ids = kernel_inv k ids" "running k' c = running k c"
    "nrk_task_TCB k' = nrk_task_TCB k" "nrk_readyQ k' = nrk_readyQ k"
  using assms by (simp_all add: quiet_def kernel_inv_def running_def)

lemma quiet_memory [simp]: "quiet k0 (k\<lparr>memory := m\<rparr>) = quiet k0 k"
  by (simp add: quiet_def)

lemma kernel_error_add_quiet: "yields (nrk_kernel_error_add cfg n t k) (quiet k)"
  using kernel_error_add_frame by (fastforce simp: yields_def quiet_def)

lemma error_add_as_kernel:
  "nrk_error_add cfg n k = cur_tcb k \<bind> (\<lambda>t. nrk_kernel_error_add cfg n (task_ID t) k)"
  by (simp add: nrk_error_add_def nrk_kernel_error_add_def cur_tcb_def Let_def)

lemma error_add_quiet: "quiet k0 k \<Longrightarrow> yields (nrk_error_add cfg n k) (quiet k0)"
  unfolding error_add_as_kernel
  by (intro yields_bind_any yields_mono [OF kernel_error_add_quiet]) (rule quiet_trans)

lemma maybe_dump_quiet: "quiet k0 k \<Longrightarrow> yields (maybe_dump cfg k) (quiet k0)"
  unfolding maybe_dump_def dump_stack_info_def
  by (intro yields_if yields_bind_any) (simp_all add: quiet_def)

lemma stack_check_quiet: "yields (nrk_stack_check cfg k) (quiet k)"
  unfolding nrk_stack_check_def Let_def
  by (intro yields_if yields_bind_any yields_bind [of _ "quiet k"] maybe_dump_quiet error_add_quiet)
     simp_all

text \<open>The idle task changes nothing that the scheduler relies on.\<close>

lemma idle_quiet:
  "yields (idle_before_sleep cfg wakeup_time k) (quiet k)" "yields (idle_after_sleep cfg istk kstk k) (quiet k)"
proof -
  have "quiet k k' \<Longrightarrow> quiet k (k'\<lparr>nrk_cpu_state := x\<rparr>)" for k' x by (simp add: quiet_def)
  then show "yields (idle_before_sleep cfg wakeup_time k) (quiet k)"
    unfolding idle_before_sleep_def by (intro yields_bind [OF stack_check_quiet]) simp
  show "yields (idle_after_sleep cfg istk kstk k) (quiet k)"
    unfolding idle_after_sleep_def
    by (intro yields_if yields_bind [of _ "quiet k"] error_add_quiet) simp_all
qed

text \<open>A task other than the idle task, running and not on its way out.\<close>

definition calling :: "kernel \<Rightarrow> u8 list \<Rightarrow> nat \<Rightarrow> bool" where
  "calling k ids c \<longleftrightarrow> kernel_inv k ids \<and> running k c \<and> c \<noteq> 0"

lemma calling_quiet: "quiet k k' \<Longrightarrow> calling k' ids c = calling k ids c"
  by (simp add: calling_def quiet_keeps)

lemma calling_frame [simp]:
  "calling (wake_soon t k) ids c = calling k ids c" "calling (nrk_int_disable k) ids c = calling k ids c"
  "calling (nrk_int_enable k) ids c = calling k ids c"
  "calling (k\<lparr>nrk_sem_list := s\<rparr>) ids c = calling k ids c"
  "calling (k\<lparr>nrk_signal_list := l\<rparr>) ids c = calling k ids c"
  by (simp_all add: calling_def running_def)

lemma calling_upd:
  assumes "calling k ids c"
    and "\<And>t. task_ID (f t) = task_ID t" "\<And>t. task_prio (f t) = task_prio t" "\<And>t. period (f t) = period t"
      "\<And>t. task_state (f t) = task_state t" "\<And>t. suspend_flag t \<Longrightarrow> suspend_flag (f t)"
      "\<And>t. \<not> suspend_flag (f t) \<Longrightarrow> event_suspend (f t) = event_suspend t"
  shows "yields (upd_cur f k) (\<lambda>k'. calling k' ids c)"
proof -
  have "kernel_inv (upd_tcb c f k) ids"
    using assms kernel_inv_upd_cur [of k ids c f "nrk_task_TCB k ! c"] by (simp add: calling_def)
  then show ?thesis using assms(1) by (auto simp: calling_def)
qed

lemma stack_check_calling:
  "calling k ids c \<Longrightarrow> yields (nrk_stack_check cfg k) (\<lambda>k'. calling k' ids c)"
  using stack_check_quiet by (rule yields_mono) (simp add: calling_quiet)

lemmas wait_defs = nrk_wait_until_next_period_def nrk_wait_until_next_n_periods_def nrk_wait_ticks_def
  nrk_wait_until_ticks_def nrk_wait_until_nw_def nrk_wait_def nrk_set_next_wakeup_def

lemma waits_keep:
  assumes "calling k ids c"
  shows "yields (nrk_wait_until_next_period cfg timer k) (\<lambda>(r, k'). calling k' ids c)"
    "yields (nrk_wait_until_next_n_periods cfg p timer k) (\<lambda>(r, k'). calling k' ids c)"
    "yields (nrk_wait_ticks ticks timer k) (\<lambda>(r, k'). calling k' ids c)"
    "yields (nrk_wait_until_ticks ticks timer k) (\<lambda>(r, k'). calling k' ids c)"
    "yields (nrk_wait_until_nw timer k) (\<lambda>(r, k'). calling k' ids c)"
    "yields (nrk_wait cfg t timer k) (\<lambda>(r, k'). calling k' ids c)"
    "yields (nrk_set_next_wakeup t timer k) (\<lambda>(r, k'). calling k' ids c)"
  unfolding wait_defs Let_def
  by (insert assms; intro yields_bind [OF stack_check_calling] yields_bind [OF calling_upd] yields_bind_any
      yields_if; simp)+

lemma wait_until_keeps:
  "calling k ids c \<Longrightarrow> yields (nrk_wait_until cfg t tcnt5 t1 t2 k) (\<lambda>(r, k'). calling k' ids c)"
  using waits_keep(6) by (simp add: nrk_wait_until_def Let_def split: prod.split)

text \<open>
  Between noting what it waits for and setting its suspend flag a task is \<open>leaving\<close>:
  the invariant holds again once the flag is set.
\<close>

definition leaving :: "kernel \<Rightarrow> u8 list \<Rightarrow> nat \<Rightarrow> bool" where
  "leaving k ids c \<longleftrightarrow> calling (upd_tcb c (\<lambda>t. t\<lparr>suspend_flag := True\<rparr>) k) ids c"

lemma leaving_frame [simp]:
  "leaving (nrk_int_enable k) ids c = leaving k ids c" "leaving (nrk_int_disable k) ids c = leaving k ids c"
  by (simp_all add: leaving_def)

lemma upd_upd:
  "c < NRK_MAX_TASKS k \<Longrightarrow> upd_tcb c g (upd_tcb c f k) = upd_tcb c (\<lambda>t. g (f t)) k"
  by (simp add: upd_tcb_def)

lemma leavingI:
  assumes "calling k ids c"
    and "\<And>t. task_ID (f t) = task_ID t" "\<And>t. task_prio (f t) = task_prio t" "\<And>t. period (f t) = period t"
      "\<And>t. task_state (f t) = task_state t"
  shows "yields (upd_cur f k) (\<lambda>k'. leaving k' ids c)"
proof -
  have c: "running k c" "c < NRK_MAX_TASKS k" using assms by (simp_all add: calling_def running_def)
  have "yields (upd_cur (\<lambda>t. (f t)\<lparr>suspend_flag := True\<rparr>) k) (\<lambda>k'. calling k' ids c)"
    using assms by (intro calling_upd) simp_all
  then show ?thesis using c by (simp add: leaving_def upd_upd)
qed

lemma leaving_wait:
  assumes "leaving k ids c"
  shows "yields (nrk_wait_until_ticks w timer k) (\<lambda>(r, k'). calling k' ids c)"
    "yields (nrk_wait_until_nw timer k) (\<lambda>(r, k'). calling k' ids c)"
proof -
  have c: "running k c" "c < NRK_MAX_TASKS k" using assms by (simp_all add: leaving_def calling_def running_def)
  have "yields (upd_cur g (upd_tcb c (\<lambda>t. t\<lparr>suspend_flag := True\<rparr>) k)) (\<lambda>k'. calling k' ids c)"
    if "\<And>t. task_ID (g t) = task_ID t" "\<And>t. task_prio (g t) = task_prio t" "\<And>t. period (g t) = period t"
      "\<And>t. task_state (g t) = task_state t" "\<And>t. suspend_flag (g t) = suspend_flag t"
      "\<And>t. event_suspend (g t) = event_suspend t" for g
    using assms that unfolding leaving_def by (intro calling_upd) simp_all
  from this [of "\<lambda>t. t\<lparr>next_wakeup := ucast w\<rparr>"] this [of "\<lambda>t. t\<lparr>nw_flag := True\<rparr>"]
  have "calling (upd_tcb c (\<lambda>t. t\<lparr>suspend_flag := True, next_wakeup := ucast w\<rparr>) (nrk_int_disable k)) ids c"
    "calling (upd_tcb c (\<lambda>t. t\<lparr>suspend_flag := True, nw_flag := True\<rparr>) (nrk_int_disable k)) ids c"
    using c by (simp_all add: upd_upd)
  then show "yields (nrk_wait_until_ticks w timer k) (\<lambda>(r, k'). calling k' ids c)"
    "yields (nrk_wait_until_nw timer k) (\<lambda>(r, k'). calling k' ids c)"
    using c by (simp_all add: nrk_wait_until_ticks_def nrk_wait_until_nw_def Let_def)
qed

lemma event_wait_keeps:
  "calling k ids c \<Longrightarrow> yields (nrk_event_wait m timer k) (\<lambda>(r, k'). calling k' ids c)"
  unfolding nrk_event_wait_def
  by (intro yields_bind_any yields_if yields_bind [OF leavingI]
      yields_bind [where P = "\<lambda>(r, k'). calling k' ids c"]) (auto intro: leaving_wait)

lemma errno_keeps: "calling k ids c \<Longrightarrow> yields (nrk_errno_set e k) (\<lambda>k'. calling k' ids c)"
  unfolding nrk_errno_set_def by (rule calling_upd) simp_all

text \<open>Signals may also come from interrupt handlers, whatever task runs.\<close>

definition any_inv :: "kernel \<Rightarrow> bool" where
  "any_inv k \<longleftrightarrow> (\<exists>ids. kernel_inv k ids)"

lemma errno_any:
  assumes "kernel_inv k ids"
  shows "yields (nrk_errno_set e k) (\<lambda>k'. kernel_inv k' ids)"
proof -
  obtain c where c: "running k c" "c < NRK_MAX_TASKS k" using assms by (rule kernel_inv_running)
  have "kernel_inv (upd_tcb c (\<lambda>t. t\<lparr>errno := e\<rparr>) k) ids"
    using assms c by (intro kernel_inv_upd_same) simp_all
  then show ?thesis using c by (simp add: nrk_errno_set_def)
qed

lemma event_signal_any:
  assumes "kernel_inv k ids"
  shows "yields (nrk_event_signal s k) (\<lambda>(r, k'). kernel_inv k' ids)"
proof -
  have sweep: "kernel_inv (k'\<lparr>nrk_task_TCB := map (\<lambda>t. fst (deliver m t)) (nrk_task_TCB k')\<rparr>) ids"
    if "kernel_inv k' ids" for k' m
    by (rule kernel_inv_sweep [OF that]; (rule deliver_release_state | simp))
  have "kernel_inv (nrk_int_enable (nrk_int_disable k\<lparr>nrk_task_TCB := map fst (map (deliver m) (nrk_task_TCB (nrk_int_disable k)))\<rparr>)) ids" for m
    using sweep [of "nrk_int_disable k" m] assms by (simp add: comp_def)
  with assms show ?thesis
    unfolding nrk_event_signal_def Let_def
    by (intro yields_bind_any yields_if yields_bind [OF errno_any]) simp_all
qed

lemma upd_sem_keeps: "calling k ids c \<Longrightarrow> yields (upd_sem i f k) (\<lambda>k'. calling k' ids c)"
  unfolding upd_sem_def by (intro yields_bind_any) simp

lemma with_sem_keeps:
  assumes "calling k ids c" "\<And>i. yields (body i) (\<lambda>(r, k'). kernel_inv k' ids)"
  shows "yields (with_sem r k body ret) (\<lambda>(r, k'). kernel_inv k' ids)"
  unfolding with_sem_def Let_def
  using assms by (intro yields_if yields_bind [OF errno_keeps]) (auto simp: calling_def)

lemma sem_pend_resume_keeps:
  "calling k ids c \<Longrightarrow> yields (nrk_sem_pend_resume i k) (\<lambda>(r, k'). kernel_inv k' ids)"
  unfolding nrk_sem_pend_resume_def
  by (rule yields_bind [OF upd_sem_keeps], assumption, rule yields_bind_any,
      rule yields_bind [OF calling_upd], assumption) (simp_all add: calling_def)

lemma sem_pend_keeps:
  assumes "calling k ids c"
  shows "yields (nrk_sem_pend r timer k) (\<lambda>(r, k'). kernel_inv k' ids)"
  unfolding nrk_sem_pend_def
proof (rule with_sem_keeps [OF assms], unfold Let_def, intro yields_bind_any yields_if, goal_cases)
  case (1 i s k1)
  have "yields (upd_cur (\<lambda>t. t\<lparr>event_suspend := event_suspend t OR RSRC_EVENT_SUSPENDED,
      active_signal_mask := scast i\<rparr>) (nrk_int_disable k)) (\<lambda>k'. leaving k' ids c)"
    using assms by (intro leavingI) simp_all
  then have "leaving (nrk_int_enable k1) ids c" using 1(3) by (simp add: yields_def)
  from leaving_wait(1) [OF this] show ?case
    by (rule yields_mono) (auto simp: calling_def)
next
  case (2 i s)
  then show ?case using assms by (intro sem_pend_resume_keeps) simp
qed

lemma sem_post_keeps:
  assumes "calling k ids c"
  shows "yields (nrk_sem_post r k) (\<lambda>(r, k'). kernel_inv k' ids)"
  unfolding nrk_sem_post_def
proof (rule with_sem_keeps [OF assms], unfold Let_def, rule yields_bind_any, rule yields_if, goal_cases)
  case (1 i s)
  have sweep: "kernel_inv (k'\<lparr>nrk_task_TCB := map (release_waiter i) (nrk_task_TCB k')\<rparr>) ids"
    if "calling k' ids c" for k'
    by (rule kernel_inv_sweep [OF conjunct1 [OF that [unfolded calling_def]]];
        (rule deliver_release_state | simp))
  show ?case
    by (rule yields_bind [OF upd_sem_keeps], use assms in simp, rule yields_bind [OF calling_upd], assumption)
       (simp_all add: sweep)
qed (use assms in \<open>simp add: calling_def\<close>)

lemma terminate_keeps:
  assumes call: "calling k ids c" and sus: "\<not> suspend_flag (nrk_task_TCB k ! c)"
  shows "yields (nrk_terminate_task cfg timer k) (\<lambda>(r, k'). \<exists>ids. kernel_inv k' ids)"
proof -
  have inv: "kernel_inv k ids" and c: "running k c" "0 < c" using call by (auto simp: calling_def)
  note ID = running_ID [OF inv c(1)] and D = kernel_invD [OF inv]
  have n: "length (nrk_task_TCB k) \<le> 127" using D(1) by (simp add: tcbs_ok_def)
  let ?ids = "remove1 (of_nat c) ids" and ?f = "\<lambda>t. t\<lparr>task_state := FINISHED\<rparr>"
  obtain q' where q': "nrk_rem_from_readyQ (of_nat c) (nrk_readyQ k) = Some q'"
      "queue_ok (nrk_task_TCB k) q' ?ids"
    using rem_under_inv [OF D(2) c(2) ID(3) n] by auto
  have sub: "set ?ids = set ids - {of_nat c}" using D(2) by (simp add: queue_ok_def)
  have inv1: "kernel_inv (k\<lparr>nrk_readyQ := q'\<rparr>) ?ids"
    using D q'(2) sub by (auto simp: kernel_inv_def states_ok_def)
  have ne: "unat i \<noteq> c" if "i \<in> set ?ids" for i
  proof
    assume "unat i = c"
    then have "i = of_nat c" using of_nat_unat_u8 [of i] by simp
    with that sub show False by blast
  qed
  have "kernel_inv (upd_tcb c ?f (k\<lparr>nrk_readyQ := q'\<rparr>)) ?ids"
    unfolding upd_tcb_def
  proof (rule kernel_inv_tcbs [OF inv1], goal_cases)
    case (2 i)
    then show ?case using nth_update_same [of task_ID "?f (nrk_task_TCB k ! c)"]
      nth_update_same [of task_prio "?f (nrk_task_TCB k ! c)"]
      nth_update_same [of period "?f (nrk_task_TCB k ! c)"] by simp
  next
    case 3
    then show ?case using D(3) c(2) by (simp add: states_ok_def)
  next
    case (4 i)
    then show ?case using ne [OF 4(1)] by simp
  next
    case (5 i)
    then show ?case using sus c(1) by (simp add: running_def)
  qed simp
  then have "calling (upd_tcb c ?f (k\<lparr>nrk_readyQ := q'\<rparr>)) ?ids c"
    using c by (simp add: calling_def running_def)
  from waits_keep(1) [OF this]
  have "yields (nrk_wait_until_next_period cfg timer (upd_tcb c ?f (k\<lparr>nrk_readyQ := q'\<rparr>)))
      (\<lambda>(r, k'). \<exists>ids. kernel_inv k' ids)"
    by (rule yields_mono) (auto simp: calling_def)
  then show ?thesis using c ID q'(1)
    by (simp add: nrk_terminate_task_def k_rem_from_readyQ_def running_def cur_tcb_def upd_cur_def)
qed

lemma signal_calls_keep:
  assumes "calling k ids c"
  shows "kernel_inv (snd (nrk_signal_create k)) ids"
    "yields (nrk_signal_register s k) (\<lambda>(r, k'). kernel_inv k' ids)"
    "yields (nrk_signal_unregister s k) (\<lambda>(r, k'). kernel_inv k' ids)"
proof -
  show "kernel_inv (snd (nrk_signal_create k)) ids"
    using assms by (simp add: nrk_signal_create_def calling_def split: option.split)
  show "yields (nrk_signal_register s k) (\<lambda>(r, k'). kernel_inv k' ids)"
    "yields (nrk_signal_unregister s k) (\<lambda>(r, k'). kernel_inv k' ids)"
    unfolding nrk_signal_register_def nrk_signal_unregister_def
    by (insert assms, (intro yields_if yields_bind [OF calling_upd [of k ids c]] yields_bind_any;
        auto simp: calling_def))+
qed

lemma sem_table_keeps:
  assumes "calling k ids c"
  shows "yields (nrk_sem_create n p k) (\<lambda>(r, k'). kernel_inv k' ids)"
    "yields (nrk_sem_delete r k) (\<lambda>(r, k'). kernel_inv k' ids)"
    "yields (nrk_sem_query r k) (\<lambda>(r, k'). kernel_inv k' ids)"
proof -
  have inv: "kernel_inv k ids" using assms by (simp add: calling_def)
  show "yields (nrk_sem_create n p k) (\<lambda>(r, k'). kernel_inv k' ids)"
    using inv by (auto simp: nrk_sem_create_def split: option.split)
  show "yields (nrk_sem_delete r k) (\<lambda>(r, k'). kernel_inv k' ids)"
    unfolding nrk_sem_delete_def upd_sem_def
    by (rule with_sem_keeps [OF assms], intro yields_bind_any)
       (use inv in \<open>auto simp: bind_eq_Some_conv\<close>)
  show "yields (nrk_sem_query r k) (\<lambda>(r, k'). kernel_inv k' ids)"
    unfolding nrk_sem_query_def
    by (rule with_sem_keeps [OF assms], intro yields_bind_any) (use inv in auto)
qed

section \<open>The kernel as a transition system\<close>

text \<open>
  A step is a run of the scheduler, a call of the running task (not the idle task, and not
  one already waiting for the scheduler), or a signal from an interrupt handler.
  \<^verbatim>\<open>nrk_signal_delete\<close> is no step: it can suspend a task that is queued.
\<close>

inductive kernel_step :: "nrk_cfg \<Rightarrow> kernel \<Rightarrow> kernel \<Rightarrow> bool" for cfg where
  tick: "nrk_scheduler call cfg tcnt5 t0 t1 t2 k = Some k' \<Longrightarrow> kernel_step cfg k k'"
| isr_signal: "nrk_event_signal s k = Some (r, k') \<Longrightarrow> kernel_step cfg k k'"
| wait_period: "\<lbrakk>running k c; c \<noteq> 0; \<not> suspend_flag (nrk_task_TCB k ! c);
    nrk_wait_until_next_period cfg t k = Some (w, k')\<rbrakk> \<Longrightarrow> kernel_step cfg k k'"
| wait_n_periods: "\<lbrakk>running k c; c \<noteq> 0; \<not> suspend_flag (nrk_task_TCB k ! c);
    nrk_wait_until_next_n_periods cfg p t k = Some (w, k')\<rbrakk> \<Longrightarrow> kernel_step cfg k k'"
| wait_ticks: "\<lbrakk>running k c; c \<noteq> 0; \<not> suspend_flag (nrk_task_TCB k ! c);
    nrk_wait_ticks n t k = Some (w, k')\<rbrakk> \<Longrightarrow> kernel_step cfg k k'"
| wait_until_ticks: "\<lbrakk>running k c; c \<noteq> 0; \<not> suspend_flag (nrk_task_TCB k ! c);
    nrk_wait_until_ticks n t k = Some (w, k')\<rbrakk> \<Longrightarrow> kernel_step cfg k k'"
| wait_nw: "\<lbrakk>running k c; c \<noteq> 0; \<not> suspend_flag (nrk_task_TCB k ! c);
    nrk_wait_until_nw t k = Some (w, k')\<rbrakk> \<Longrightarrow> kernel_step cfg k k'"
| set_wakeup: "\<lbrakk>running k c; c \<noteq> 0; \<not> suspend_flag (nrk_task_TCB k ! c);
    nrk_set_next_wakeup tm t k = Some (r, k')\<rbrakk> \<Longrightarrow> kernel_step cfg k k'"
| wait_time: "\<lbrakk>running k c; c \<noteq> 0; \<not> suspend_flag (nrk_task_TCB k ! c);
    nrk_wait cfg tm t k = Some (w, k')\<rbrakk> \<Longrightarrow> kernel_step cfg k k'"
| wait_until: "\<lbrakk>running k c; c \<noteq> 0; \<not> suspend_flag (nrk_task_TCB k ! c);
    nrk_wait_until cfg tm tcnt5 t t' k = Some (w, k')\<rbrakk> \<Longrightarrow> kernel_step cfg k k'"
| terminate: "\<lbrakk>running k c; c \<noteq> 0; \<not> suspend_flag (nrk_task_TCB k ! c);
    nrk_terminate_task cfg t k = Some (w, k')\<rbrakk> \<Longrightarrow> kernel_step cfg k k'"
| event_wait: "\<lbrakk>running k c; c \<noteq> 0; \<not> suspend_flag (nrk_task_TCB k ! c);
    nrk_event_wait m t k = Some (e, k')\<rbrakk> \<Longrightarrow> kernel_step cfg k k'"
| sem_pend: "\<lbrakk>running k c; c \<noteq> 0; \<not> suspend_flag (nrk_task_TCB k ! c);
    nrk_sem_pend r t k = Some (w, k')\<rbrakk> \<Longrightarrow> kernel_step cfg k k'"
| sem_pend_resume: "\<lbrakk>running k c; c \<noteq> 0; \<not> suspend_flag (nrk_task_TCB k ! c);
    nrk_sem_pend_resume i k = Some (w, k')\<rbrakk> \<Longrightarrow> kernel_step cfg k k'"
| sem_post: "\<lbrakk>running k c; c \<noteq> 0; \<not> suspend_flag (nrk_task_TCB k ! c);
    nrk_sem_post r k = Some (e', k')\<rbrakk> \<Longrightarrow> kernel_step cfg k k'"
| sem_create: "\<lbrakk>running k c; c \<noteq> 0; \<not> suspend_flag (nrk_task_TCB k ! c);
    nrk_sem_create n pr k = Some (p', k')\<rbrakk> \<Longrightarrow> kernel_step cfg k k'"
| sem_delete: "\<lbrakk>running k c; c \<noteq> 0; \<not> suspend_flag (nrk_task_TCB k ! c);
    nrk_sem_delete r k = Some (e', k')\<rbrakk> \<Longrightarrow> kernel_step cfg k k'"
| sem_query: "\<lbrakk>running k c; c \<noteq> 0; \<not> suspend_flag (nrk_task_TCB k ! c);
    nrk_sem_query r k = Some (e', k')\<rbrakk> \<Longrightarrow> kernel_step cfg k k'"
| signal_create: "\<lbrakk>running k c; c \<noteq> 0; \<not> suspend_flag (nrk_task_TCB k ! c);
    nrk_signal_create k = (s, k')\<rbrakk> \<Longrightarrow> kernel_step cfg k k'"
| signal_register: "\<lbrakk>running k c; c \<noteq> 0; \<not> suspend_flag (nrk_task_TCB k ! c);
    nrk_signal_register s k = Some (r', k')\<rbrakk> \<Longrightarrow> kernel_step cfg k k'"
| signal_unregister: "\<lbrakk>running k c; c \<noteq> 0; \<not> suspend_flag (nrk_task_TCB k ! c);
    nrk_signal_unregister s k = Some (r', k')\<rbrakk> \<Longrightarrow> kernel_step cfg k k'"
| idle_sleep: "\<lbrakk>running k 0; idle_before_sleep cfg wakeup_time k = Some k'\<rbrakk> \<Longrightarrow> kernel_step cfg k k'"
| idle_awake: "\<lbrakk>running k 0; idle_after_sleep cfg istk kstk k = Some k'\<rbrakk> \<Longrightarrow> kernel_step cfg k k'"

inductive_cases kernel_stepE: "kernel_step cfg k k'"

lemma kernel_step_inv:
  assumes step: "kernel_step cfg k k'" and inv: "kernel_inv k ids"
    and cfg: "returns_on_error cfg" "\<not> opt_SW_WDT cfg"
  shows "\<exists>ids. kernel_inv k' ids"
proof -
  have call: "calling k ids c" if "running k c" "c \<noteq> 0" for c
    using that inv by (simp add: calling_def)
  have drop: "\<exists>ids. kernel_inv k' ids"
    if "yields m (\<lambda>(r, k'). calling k' ids c)" "m = Some (r, k')" for m :: "('r \<times> kernel) option" and r c
    using yieldsD [OF that] by (auto simp: calling_def)
  have keep: "\<exists>ids. kernel_inv k' ids"
    if "yields m (\<lambda>(r, k'). kernel_inv k' ids)" "m = Some (r, k')" for m :: "('r \<times> kernel) option" and r
    using yieldsD [OF that] by auto
  show ?thesis using step
  proof cases
    case (tick call tcnt5 t0 t1 t2)
    then show ?thesis using scheduler_ensures [OF inv cfg, of call tcnt5 t0 t1 t2]
      by (auto simp: sched_post_def)
  next
    case (isr_signal s r)
    show ?thesis by (rule keep [OF event_signal_any [OF inv] isr_signal])
  next
    case (terminate c t w)
    then show ?thesis using yieldsD [OF terminate_keeps [OF call]] by fastforce
  next
    case (signal_create c s)
    then show ?thesis using signal_calls_keep(1) [OF call] by fastforce
  next
    case (idle_sleep wakeup_time)
    then show ?thesis using yieldsD [OF idle_quiet(1)] quiet_keeps(1) inv by blast
  next
    case (idle_awake istk kstk)
    then show ?thesis using yieldsD [OF idle_quiet(2)] quiet_keeps(1) inv by blast
  qed (auto dest: call intro: drop [OF waits_keep(1)] drop [OF waits_keep(2)] drop [OF waits_keep(3)]
        drop [OF waits_keep(4)] drop [OF waits_keep(5)] drop [OF waits_keep(6)] drop [OF waits_keep(7)]
        drop [OF wait_until_keeps] drop [OF event_wait_keeps] keep [OF sem_pend_keeps]
        keep [OF sem_pend_resume_keeps] keep [OF sem_post_keeps] keep [OF signal_calls_keep(2)]
        keep [OF signal_calls_keep(3)] keep [OF sem_table_keeps(1)] keep [OF sem_table_keeps(2)]
        keep [OF sem_table_keeps(3)])
qed

inductive reachable :: "nrk_cfg \<Rightarrow> kernel \<Rightarrow> kernel \<Rightarrow> bool" for cfg k0 where
  start: "reachable cfg k0 k0"
| step: "reachable cfg k0 k \<Longrightarrow> kernel_step cfg k k' \<Longrightarrow> reachable cfg k0 k'"

lemma reachable_inv:
  assumes "reachable cfg k0 k" "kernel_inv k0 ids" "returns_on_error cfg" "\<not> opt_SW_WDT cfg"
  shows "\<exists>ids. kernel_inv k ids"
  using assms(1)
proof induction
  case start
  then show ?case using assms(2) by blast
next
  case (step k k')
  then show ?case using kernel_step_inv assms(3,4) by blast
qed

end
