(* ===== verification/Nrk_Boot.thy ===== *)
theory Nrk_Boot
  imports Nrk_System
begin

text \<open>
  Booting establishes the invariant: \<^verbatim>\<open>nrk_init\<close> leaves the tables with the idle task
  alone in the ready queue, \<^verbatim>\<open>nrk_activate_task\<close> adds tasks, and \<^verbatim>\<open>nrk_start\<close>
  runs the head of the queue.
\<close>

section \<open>The state between \<open>nrk_init\<close> and \<open>nrk_start\<close>\<close>

definition boot_inv :: "kernel \<Rightarrow> u8 list \<Rightarrow> bool" where
  "boot_inv k ids \<longleftrightarrow> tcbs_ok (nrk_task_TCB k) \<and> queue_ok (nrk_task_TCB k) (nrk_readyQ k) ids \<and>
     (\<forall>i \<in> set ids. queued_ok (nrk_task_TCB k ! unat i)) \<and>
     (\<forall>t \<in> set (nrk_task_TCB k). \<not> suspend_flag t \<and> event_suspend t = 0) \<and>
     NRK_MAX_TASKS k \<le> length (cur_task_stats k) \<and>
     0 \<le> sint (nrk_wakeup_signal k) \<and> sint (nrk_wakeup_signal k) < 32"

text \<open>The zeroed memory the C start-up code leaves.\<close>

definition reset_state :: "kernel \<Rightarrow> bool" where
  "reset_state k \<longleftrightarrow> 0 < NRK_MAX_TASKS k \<and> NRK_MAX_TASKS k \<le> 127 \<and>
     length (cur_task_stats k) = NRK_MAX_TASKS k \<and> nrk_signal_list k = 0 \<and> nrk_task_init_cnt k = 0 \<and>
     (\<forall>t \<in> set (nrk_task_TCB k). \<not> suspend_flag t \<and> event_suspend t = 0)"

lemma kernel_error_add_ensures:
  "returns_on_error cfg \<Longrightarrow> quiet k0 k \<Longrightarrow> ensures (nrk_kernel_error_add cfg n t k) (quiet k0)"
  using kernel_error_add_returns [of cfg n t k] by (auto simp: quiet_def)

lemma report_ensures:
  "returns_on_error cfg \<Longrightarrow> quiet k0 k \<Longrightarrow> ensures (report cfg b e k) (quiet k0)"
  by (simp add: report_def kernel_error_add_ensures)

lemma init_checks_ensures:
  assumes cfg: "returns_on_error cfg" and k: "nrk_signal_list k = 0"
  shows "ensures (init_checks cfg b k)
    (quiet (k\<lparr>nrk_signal_list := 1, nrk_wakeup_signal := 0\<rparr>))" (is "ensures _ (quiet ?k)")
proof -
  have sc: "nrk_signal_create k = (0, k\<lparr>nrk_signal_list := 1\<rparr>)"
    using k by (simp add: nrk_signal_create_def scan.simps)
  have wd: "quiet ?k k' \<Longrightarrow> quiet ?k (nrk_watchdog_disable k')" "quiet ?k k' \<Longrightarrow> quiet ?k (nrk_watchdog_enable k')" for k'
    by (simp_all add: quiet_def nrk_watchdog_disable_def nrk_watchdog_enable_def)
  have nb: "\<not> opt_REBOOT_ON_ERROR cfg" using cfg by (simp add: returns_on_error_def)
  show ?thesis unfolding init_checks_def sc Let_def prod.case
    by (intro ensures_bind [OF report_ensures [OF cfg]] ensures_bind [OF kernel_error_add_ensures [OF cfg]]
        ensures_if ensures_bind [where P = "quiet ?k"]) (simp_all add: nb wd kernel_error_add_ensures [OF cfg])
qed

section \<open>Activating a task\<close>

text \<open>The control block \<^verbatim>\<open>nrk_TCB_init\<close> fills in, for the tick values of the descriptor.\<close>

definition fresh_tcb :: "nrk_task_type \<Rightarrow> u16 \<Rightarrow> u16 \<Rightarrow> u32 \<Rightarrow> u32 \<Rightarrow> u32 \<Rightarrow> NRK_TCB \<Rightarrow> NRK_TCB" where
  "fresh_tcb T ptos pbos p nw res t =
     t\<lparr>OSTaskStkPtr := ptos, task_prio := prio T, task_state := SUSPENDED, task_ID := tt_task_ID T,
       suspend_flag := False, period := p, next_wakeup := nw, next_period := p + nw,
       cpu_reserve := res, cpu_remaining := res, num_periods := 1, OSTCBStkBottom := pbos,
       errno := NRK_OK\<rparr>"

lemma TCB_init_ok:
  assumes ticks: "nrk_time_to_ticks_long (tt_period T) = Some p" "nrk_time_to_ticks_long (offset T) = Some nw"
      "nrk_time_to_ticks_long (tt_cpu_reserve T) = Some res"
    and c: "unat (nrk_task_init_cnt k) < NRK_MAX_TASKS k" "NRK_MAX_TASKS k \<le> 127"
    and i: "i = (if Type T \<noteq> IDLE_TASK then unat (nrk_task_init_cnt k) else 0)"
  shows "\<exists>n. nrk_TCB_init cfg T ptos pbos k = Some (T\<lparr>tt_task_ID := of_nat i\<rparr>,
    upd_tcb i (fresh_tcb (T\<lparr>tt_task_ID := of_nat i\<rparr>) ptos pbos p nw res) (k\<lparr>nrk_task_init_cnt := n\<rparr>)) \<and>
    (if Type T \<noteq> IDLE_TASK then unat n = unat (nrk_task_init_cnt k) + 1
     else nrk_task_init_cnt k = 0 \<longrightarrow> n = 1)"
proof -
  let ?c = "nrk_task_init_cnt k"
  let ?T = "T\<lparr>tt_task_ID := of_nat i\<rparr>"
  have small: "\<not> 4294967 < secs (tt_period T)"
    using ticks(1) time_to_ticks_long_diverges [of "tt_period T"] by (auto simp: word_less_nat_alt)
  have i_lt: "i < NRK_MAX_TASKS k" "i < 128" using c i by auto
  have next_c: "unat (?c + 1) = unat ?c + 1" using c by (simp add: unat_word_ariths)
  have tid: "(if Type T \<noteq> IDLE_TASK then ?c else NRK_IDLE_TASK_ID) = (of_nat i :: i8)"
    using i by (simp add: NRK_IDLE_TASK_ID_def)
  define n where "n = (if Type T \<noteq> IDLE_TASK then ?c + 1 else if ?c = 0 then 1 else ?c)"
  have z: "uint (x :: u8) = sint NRK_IDLE_TASK_ID \<longleftrightarrow> x = 0" for x
    by (simp add: NRK_IDLE_TASK_ID_def word_uint_eq_iff)
  have nz: "?c + 1 \<noteq> 0" using next_c by (metis Zero_not_Suc Suc_eq_plus1 unat_0)
  have idx: "tcb_index (of_nat i) k' = Some i" if "NRK_MAX_TASKS k' = NRK_MAX_TASKS k" for k'
    using i_lt that by simp
  have "nrk_TCB_init cfg T ptos pbos k = Some (?T,
    upd_tcb i (fresh_tcb ?T ptos pbos p nw res) (k\<lparr>nrk_task_init_cnt := n\<rparr>))"
  proof (cases "Type T \<noteq> IDLE_TASK")
    case True
    have "tcb_index ?c k' = Some (unat ?c)" if "NRK_MAX_TASKS k' = NRK_MAX_TASKS k" for k'
      using idx [OF that] i True by simp
    then show ?thesis using True i ticks small c(1) i_lt nz
      by (simp add: nrk_TCB_init_def z n_def upd_tcb_def fresh_tcb_def Let_def)
  next
    case False
    then have i0: "i = 0" using i by simp
    have id0: "NRK_IDLE_TASK_ID = 0" by (simp add: NRK_IDLE_TASK_ID_def)
    have idx0: "tcb_index 0 (k\<lparr>nrk_task_init_cnt := m\<rparr>) = Some 0" "tcb_index 0 k = Some 0" for m
      using idx i0 by simp_all
    have u0: "uint (x :: u8) = 0 \<longleftrightarrow> x = 0" for x by (simp add: word_uint_eq_iff)
    have "0 < NRK_MAX_TASKS k" using i_lt(1) i0 by simp
    then show ?thesis using False ticks small c(1)
      by (cases "?c = 0")
         (simp_all add: nrk_TCB_init_def u0 id0 i0 idx0 n_def upd_tcb_def fresh_tcb_def Let_def)
  qed
  moreover have "if Type T \<noteq> IDLE_TASK then unat n = unat ?c + 1 else ?c = 0 \<longrightarrow> n = 1"
    using next_c by (simp add: n_def)
  ultimately show ?thesis by blast
qed

lemma boot_inv_cong:
  assumes "nrk_task_TCB k' = nrk_task_TCB k" "nrk_readyQ k' = nrk_readyQ k"
    "length (cur_task_stats k') = length (cur_task_stats k)" "nrk_wakeup_signal k' = nrk_wakeup_signal k"
  shows "boot_inv k' ids = boot_inv k ids"
  using assms by (simp add: boot_inv_def)

lemma fresh_tcb_simps [simp]:
  "task_ID (fresh_tcb T s b p nw r t) = tt_task_ID T" "task_prio (fresh_tcb T s b p nw r t) = prio T"
  "period (fresh_tcb T s b p nw r t) = p" "next_wakeup (fresh_tcb T s b p nw r t) = nw"
  "suspend_flag (fresh_tcb T s b p nw r t) = False"
  "event_suspend (fresh_tcb T s b p nw r t) = event_suspend t"
  by (simp_all add: fresh_tcb_def)

lemma activate_user:
  assumes inv: "boot_inv k ids" and T: "FirstActivation T" "Type T \<noteq> IDLE_TASK" "0 < prio T"
    and ticks: "nrk_time_to_ticks_long (tt_period T) = Some p" "nrk_time_to_ticks_long (offset T) = Some nw"
      "nrk_time_to_ticks_long (tt_cpu_reserve T) = Some res" "0 < p"
    and cnt: "c = unat (nrk_task_init_cnt k)"
    and c: "0 < c" "c < NRK_MAX_TASKS k"
      "task_ID (nrk_task_TCB k ! c) = - 1"
  shows "\<exists>k' ids'. nrk_activate_task cfg T k =
      Some (NRK_OK, T\<lparr>tt_task_ID := of_nat c, FirstActivation := False\<rparr>, k') \<and>
    boot_inv k' ids' \<and> unat (nrk_task_init_cnt k') = c + 1 \<and>
    (\<forall>j. j \<noteq> c \<longrightarrow> nrk_task_TCB k' ! j = nrk_task_TCB k ! j) \<and> NRK_MAX_TASKS k' = NRK_MAX_TASKS k \<and>
    set ids' = (if nw = 0 then insert (of_nat c) (set ids) else set ids)"
proof -
  have D: "tcbs_ok (nrk_task_TCB k)" "queue_ok (nrk_task_TCB k) (nrk_readyQ k) ids"
    "\<forall>t \<in> set (nrk_task_TCB k). \<not> suspend_flag t \<and> event_suspend t = 0"
    "\<forall>i \<in> set ids. queued_ok (nrk_task_TCB k ! unat i)"
    using inv by (simp_all add: boot_inv_def)
  have n: "NRK_MAX_TASKS k \<le> 127" "c < 128" "c < 256" using D(1) c by (auto simp: tcbs_ok_def)
  have nq: "of_nat c \<notin> set ids"
  proof
    assume "of_nat c \<in> set ids"
    then have "task_ID (nrk_task_TCB k ! unat (of_nat c :: u8)) \<noteq> - 1"
      using D(2) unfolding queue_ok_def by blast
    with n c show False by simp
  qed
  obtain stk m where sm: "nrk_task_stk_init (task_entry T) (Ptos T) (Pbos T) (memory k) = (stk, m)"
    by fastforce
  let ?k0 = "k\<lparr>memory := m\<rparr>" and ?T = "T\<lparr>tt_task_ID := of_nat c\<rparr>"
  obtain cnt where ini: "nrk_TCB_init cfg T stk (Pbos T) ?k0 = Some (?T,
      upd_tcb c (fresh_tcb ?T stk (Pbos T) p nw res) (?k0\<lparr>nrk_task_init_cnt := cnt\<rparr>))"
      "unat cnt = c + 1"
    using TCB_init_ok [OF ticks(1-3), of ?k0 c cfg stk "Pbos T"] cnt c n T(2) by auto
  define t where "t = fresh_tcb ?T stk (Pbos T) p nw res (nrk_task_TCB k ! c)"
  let ?k1 = "?k0\<lparr>nrk_task_init_cnt := cnt\<rparr>"
  have neg: "(of_nat c :: i8) \<noteq> - 1" using sint_of_nat_i8 [OF n(2)] by auto
  have tc: "task_ID t = of_nat c" "task_prio t = prio T" "period t = p" "next_wakeup t = nw"
    "\<not> suspend_flag t" "event_suspend t = 0"
    using D(3) c by (simp_all add: t_def)
  have okT: "tcbs_ok ((nrk_task_TCB k)[c := s])"
    if "task_ID s = of_nat c" "task_prio s = prio T" "period s = p" for s
    using D(1) that c T(3) ticks(4) by (auto simp: tcbs_ok_def nth_list_update)
  have okQ: "queue_ok ((nrk_task_TCB k)[c := s]) (nrk_readyQ k) ids" if "task_ID s = of_nat c" for s
    using D(2) that c neg by (auto simp: queue_ok_def nth_list_update)
  have st: "queued_ok ((nrk_task_TCB k)[c := s] ! unat i)" if "i \<in> set ids" for i s
  proof -
    have "unat i \<noteq> c" using that nq by (metis of_nat_unat_u8)
    then show ?thesis using D(4) that by simp
  qed
  have fl: "\<forall>u \<in> set ((nrk_task_TCB k)[c := s]). \<not> suspend_flag u \<and> event_suspend u = 0"
    if "\<not> suspend_flag s" "event_suspend s = 0" for s
    using D(3) that by (auto dest!: set_mp [OF set_update_subset_insert])
  have act: "nrk_activate_task cfg T k =
      (if nw = 0 then do {
         k \<leftarrow> k_add_to_readyQ (of_nat c) (upd_tcb c (\<lambda>t. t\<lparr>task_state := READY\<rparr>) (upd_tcb c (\<lambda>_. t) ?k1));
         Some (NRK_OK, ?T\<lparr>FirstActivation := False\<rparr>, k) }
       else Some (NRK_OK, ?T\<lparr>FirstActivation := False\<rparr>, upd_tcb c (\<lambda>_. t) ?k1))"
    using T(1) ini(1) sm c n by (simp add: nrk_activate_task_def upd_tcb_def t_def)
  show ?thesis
  proof (cases "nw = 0")
    case False
    have "boot_inv (upd_tcb c (\<lambda>_. t) ?k1) ids"
      using inv okT [OF tc(1-3)] okQ [OF tc(1)] st [of _ t] fl [OF tc(5,6)] by (simp add: boot_inv_def)
    with False act ini(2) show ?thesis by auto
  next
    case True
    let ?r = "t\<lparr>task_state := READY\<rparr>"
    let ?T' = "(nrk_task_TCB k)[c := ?r]"
    obtain q' where q': "nrk_add_to_readyQ ?T' (of_nat c) (nrk_readyQ k) = Some q'"
        "queue_ok ?T' q' (pinsert (stops ?T' (of_nat c)) (of_nat c) ids)"
      using add_under_inv [OF okT [of ?r] okQ [of ?r] _ c(1) _ nq] tc c neg by auto
    have "boot_inv (upd_tcb c (\<lambda>_. ?r) ?k1\<lparr>nrk_readyQ := q'\<rparr>)
        (pinsert (stops ?T' (of_nat c)) (of_nat c) ids)"
    proof -
      have "queued_ok (?T' ! unat i)" if "i \<in> set (pinsert (stops ?T' (of_nat c)) (of_nat c) ids)" for i
      proof (cases "i = of_nat c")
        case True
        then have "unat i = c" using n by simp
        then show ?thesis using c tc by (simp add: queued_ok_def)
      qed (use that st [of i ?r] in simp)
      moreover have "\<forall>u \<in> set ?T'. \<not> suspend_flag u \<and> event_suspend u = 0" using tc by (intro fl) simp_all
      moreover have "tcbs_ok ?T'" using tc by (intro okT) simp_all
      ultimately show ?thesis using inv q'(2) by (simp add: boot_inv_def)
    qed
    moreover have "nrk_activate_task cfg T k = Some (NRK_OK, ?T\<lparr>FirstActivation := False\<rparr>,
        upd_tcb c (\<lambda>_. ?r) ?k1\<lparr>nrk_readyQ := q'\<rparr>)"
      using True act q'(1) c by (simp add: k_add_to_readyQ_def upd_tcb_def)
    ultimately show ?thesis using True ini(2) by auto
  qed
qed

section \<open>Initialisation\<close>

lemma init_tables_fields [simp]:
  "nrk_task_TCB (init_tables cfg k) = map (\<lambda>t. t\<lparr>task_prio := TCB_EMPTY_PRIO, task_ID := - 1\<rparr>) (nrk_task_TCB k)"
  "nrk_readyQ (init_tables cfg k) = init_readyQ (NRK_MAX_TASKS k) (nrk_readyQ k)"
  "length (cur_task_stats (init_tables cfg k)) = length (cur_task_stats k)"
  "nrk_wakeup_signal (init_tables cfg k) = nrk_wakeup_signal k"
  "nrk_task_init_cnt (init_tables cfg k) = nrk_task_init_cnt k"
  "nrk_sem_list (init_tables cfg k) =
     map (\<lambda>s. s\<lparr>sem_count := - 1, sem_value := - 1, resource_ceiling := - 1\<rparr>) (nrk_sem_list k)"
  "nrk_resource_cnt (init_tables cfg k) = 0"
  by (simp_all add: init_tables_def Let_def nrk_stats_reset_def nrk_reserve_init_def comp_def)

lemma ticks_zero [simp]: "nrk_time_to_ticks_long \<lparr>secs = 0, nano_secs = 0\<rparr> = Some 0"
  by (simp add: nrk_time_to_ticks_long_def NANOS_PER_TICK_def)

lemma init_idle_ensures:
  assumes k: "nrk_task_TCB k = map (\<lambda>t. t\<lparr>task_prio := TCB_EMPTY_PRIO, task_ID := - 1\<rparr>) T0"
      "\<forall>t \<in> set T0. \<not> suspend_flag t \<and> event_suspend t = 0"
      "readyq_rel (length T0) (nrk_readyQ k) []"
    and n: "0 < length T0" "length T0 \<le> 127" "length T0 \<le> length (cur_task_stats k)"
    and w: "0 \<le> sint (nrk_wakeup_signal k)" "sint (nrk_wakeup_signal k) < 32"
    and cnt: "nrk_task_init_cnt k = 0" and stk: "32 \<le> idle_stk_size b"
  shows "ensures (init_idle_task cfg b k) (\<lambda>(T, k'). boot_inv k' [0] \<and> nrk_task_init_cnt k' = 1 \<and>
    NRK_MAX_TASKS k' = length T0 \<and> (\<forall>i < length T0. 0 < i \<longrightarrow> task_ID (nrk_task_TCB k' ! i) = - 1))"
proof -
  let ?z = "\<lparr>secs = 0, nano_secs = 0\<rparr>"
  define T where "T = (nrk_task_set_entry_function (idle_descr b) (idle_entry b))
    \<lparr>Ptos := idle_stk b + (idle_stk_size b - 1), Pbos := idle_stk b, prio := 0, tt_period := ?z,
     tt_cpu_reserve := ?z, offset := ?z, FirstActivation := True, Type := IDLE_TASK, SchType := PREEMPTIVE\<rparr>"
  let ?k1 = "k\<lparr>memory := (memory k)(idle_stk b := STK_CANARY_VAL)\<rparr>"
  have N: "NRK_MAX_TASKS k = length T0" using k(1) by simp
  have N1: "nrk_task_TCB k \<noteq> []" using N n(1) by auto
  have T: "FirstActivation T" "Type T = IDLE_TASK" "tt_period T = ?z" "offset T = ?z" "tt_cpu_reserve T = ?z"
    "prio T = 0" by (simp_all add: T_def)
  obtain stkp m where sm: "nrk_task_stk_init (task_entry T) (Ptos T) (Pbos T) (memory ?k1) = (stkp, m)"
    by fastforce
  let ?k2 = "?k1\<lparr>memory := m\<rparr>" and ?T = "T\<lparr>tt_task_ID := 0\<rparr>"
  have ini: "nrk_TCB_init cfg T stkp (Pbos T) ?k2 = Some (?T,
      upd_tcb 0 (fresh_tcb ?T stkp (Pbos T) 0 0 0) (?k2\<lparr>nrk_task_init_cnt := 1\<rparr>))"
    using TCB_init_ok [of T 0 0 0 ?k2 0 cfg stkp "Pbos T"] T N n cnt by auto
  define r where "r = (fresh_tcb ?T stkp (Pbos T) 0 0 0 (nrk_task_TCB k ! 0))\<lparr>task_state := READY\<rparr>"
  let ?T' = "(nrk_task_TCB k)[0 := r]"
  have r: "task_ID r = 0" "task_prio r = 0" "\<not> suspend_flag r" "event_suspend r = 0" "task_state r = READY"
    using k n T by (simp_all add: r_def)
  have okT: "tcbs_ok ?T'" using r N n k(1) by (auto simp: tcbs_ok_def nth_list_update)
  have v: "valid_task ?T' 0" using N n by (simp add: valid_task_def)
  obtain q' where q': "nrk_add_to_readyQ ?T' 0 (nrk_readyQ k) = Some q'" "readyq_rel (length T0) q' [0]"
    using add_readyq [OF k(3) v] n by auto
  let ?k3 = "upd_tcb 0 (\<lambda>_. r) (?k2\<lparr>nrk_task_init_cnt := 1\<rparr>)\<lparr>nrk_readyQ := q'\<rparr>"
  have act: "nrk_activate_task cfg T ?k1 = Some (NRK_OK, ?T\<lparr>FirstActivation := False\<rparr>, ?k3)"
    using T(1) ini sm q'(1) N n(1) N1
    by (simp add: nrk_activate_task_def upd_tcb_def r_def tcb_index_def k_add_to_readyQ_def)
  have fl: "\<forall>t \<in> set ?T'. \<not> suspend_flag t \<and> event_suspend t = 0"
    using k(1,2) r by (auto dest!: set_mp [OF set_update_subset_insert])
  have inv: "boot_inv ?k3 [0]"
    using okT q'(2) r N n w fl by (auto simp: boot_inv_def queue_ok_def queued_ok_def)
  have "init_idle_task cfg b k = Some (?T\<lparr>FirstActivation := False\<rparr>, ?k3)"
    using act stk
    by (simp add: init_idle_task_def nrk_task_set_stk_def T_def [symmetric] not_less [symmetric] Let_def)
  then show ?thesis using inv N k(1) by auto
qed

theorem init_ensures:
  assumes k: "reset_state k" and cfg: "returns_on_error cfg" and stk: "32 \<le> idle_stk_size b"
  shows "ensures (nrk_init cfg b k) (\<lambda>k'. boot_inv k' [0] \<and> nrk_task_init_cnt k' = 1 \<and>
    NRK_MAX_TASKS k' = NRK_MAX_TASKS k \<and> (\<forall>i < NRK_MAX_TASKS k. 0 < i \<longrightarrow> task_ID (nrk_task_TCB k' ! i) = - 1))"
  unfolding nrk_init_def
proof (rule ensures_bind [OF init_checks_ensures [OF cfg]], use k in \<open>simp add: reset_state_def\<close>, goal_cases)
  case (1 k1)
  then have q: "nrk_task_TCB k1 = nrk_task_TCB k" "cur_task_stats k1 = cur_task_stats k"
    "nrk_wakeup_signal k1 = 0" "nrk_task_init_cnt k1 = nrk_task_init_cnt k"
    by (simp_all add: quiet_def)
  have "ensures (init_idle_task cfg b (init_tables cfg k1)) (\<lambda>(T, k'). boot_inv k' [0] \<and>
    nrk_task_init_cnt k' = 1 \<and> NRK_MAX_TASKS k' = length (nrk_task_TCB k) \<and>
    (\<forall>i < length (nrk_task_TCB k). 0 < i \<longrightarrow> task_ID (nrk_task_TCB k' ! i) = - 1))"
    using k q init_readyQ_rel by (intro init_idle_ensures [OF _ _ _ _ _ _ _ _ _ stk]) (auto simp: reset_state_def)
  then show ?case by (rule ensures_bind) auto
qed

section \<open>Start\<close>

definition unique_ids :: "kernel \<Rightarrow> bool" where
  "unique_ids k \<longleftrightarrow> (\<forall>i < NRK_MAX_TASKS k. \<forall>j < NRK_MAX_TASKS k.
     i \<noteq> j \<longrightarrow> task_ID (nrk_task_TCB k ! i) \<noteq> - 1 \<longrightarrow> task_ID (nrk_task_TCB k ! i) \<noteq> task_ID (nrk_task_TCB k ! j))"

lemma report_dups_none:
  assumes "unique_ids k" "\<forall>(i, j) \<in> set ps. i < NRK_MAX_TASKS k \<and> j < NRK_MAX_TASKS k"
  shows "report_dups cfg ps k = Some k"
  using assms(2)
proof (induction ps)
  case (Cons p ps)
  obtain i j where p: "p = (i, j)" by fastforce
  have "\<not> (task_ID (nrk_task_TCB k ! i) \<noteq> - 1 \<and> i \<noteq> j \<and>
      task_ID (nrk_task_TCB k ! i) = task_ID (nrk_task_TCB k ! j))"
    using assms(1) Cons.prems p unfolding unique_ids_def by auto
  then show ?case using Cons p by (auto simp: Let_def)
qed simp

lemma tcbs_ok_unique: "tcbs_ok (nrk_task_TCB k) \<Longrightarrow> unique_ids k"
  unfolding unique_ids_def
proof (intro allI impI)
  fix i j assume T: "tcbs_ok (nrk_task_TCB k)" and ij: "i < NRK_MAX_TASKS k" "j < NRK_MAX_TASKS k" "i \<noteq> j"
    "task_ID (nrk_task_TCB k ! i) \<noteq> - 1"
  have "i < 256" "j < 256" using T ij by (auto simp: tcbs_ok_def)
  then have "(of_nat i :: i8) \<noteq> of_nat j" using ij(3) by (metis unat_of_nat_u8)
  moreover have "task_ID (nrk_task_TCB k ! i) = of_nat i"
    "task_ID (nrk_task_TCB k ! j) = - 1 \<or> task_ID (nrk_task_TCB k ! j) = of_nat j"
    using T ij by (auto simp: tcbs_ok_def)
  ultimately show "task_ID (nrk_task_TCB k ! i) \<noteq> task_ID (nrk_task_TCB k ! j)"
    using ij(4) by metis
qed

theorem start_ensures:
  assumes inv: "boot_inv k ids"
  shows "ensures (nrk_start cfg k) (\<lambda>k'. kernel_inv k' ids \<and> ids \<noteq> [] \<and>
    nrk_cur_task_TCB k' = Some (unat (hd ids)) \<and> int_enabled k' \<and> nrk_prev_timer_val k' = 0)"
proof -
  have D: "tcbs_ok (nrk_task_TCB k)" "queue_ok (nrk_task_TCB k) (nrk_readyQ k) ids"
    using inv by (simp_all add: boot_inv_def)
  have dups: "report_dups cfg (List.product [0 ..< NRK_MAX_TASKS k] [0 ..< NRK_MAX_TASKS k]) k = Some k"
    by (rule report_dups_none [OF tcbs_ok_unique [OF D(1)]]) auto
  obtain i js where ids: "ids = i # js" using D(2) by (cases ids) (auto simp: queue_ok_def)
  have hd: "nrk_get_high_ready_task_ID (nrk_readyQ k) = Some i"
    using head_of_rel [of "length (nrk_task_TCB k)" "nrk_readyQ k" ids] D(2) ids by (simp add: queue_ok_def)
  have lt: "unat i < NRK_MAX_TASKS k" "unat i < 128" using D ids by (auto simp: queue_ok_def tcbs_ok_def)
  then have idx: "tcb_index i k = Some (unat i)"
    using tcb_index_of_nat [of "unat i" k] by simp
  have "kernel_inv (k\<lparr>nrk_cur_task_TCB := Some (unat i)\<rparr>) ids"
    using inv ids lt by (auto simp: kernel_inv_def boot_inv_def states_ok_def cur_ok_def queue_ok_def tcbs_ok_def)
  then have "kernel_inv (nrk_target_start (k\<lparr>nrk_high_ready_prio := p, nrk_cur_task_TCB := Some (unat i),
      nrk_high_ready_TCB := h, nrk_cur_task_prio := p'\<rparr>)) ids" for p p' h
    by (subst kernel_inv_cong [of _ "k\<lparr>nrk_cur_task_TCB := Some (unat i)\<rparr>"])
       (simp_all add: nrk_target_start_def nrk_setup_timer_def nrk_int_enable_def)
  then show ?thesis using dups hd idx ids
    by (simp add: nrk_start_def Let_def nrk_target_start_def nrk_setup_timer_def nrk_int_enable_def)
qed

section \<open>Properties\<close>

text \<open>
  The states between \<^verbatim>\<open>nrk_init\<close> and \<^verbatim>\<open>nrk_start\<close>: tasks are activated one after
  the other, each with a priority above the idle task's, a period, and times below 256
  seconds, while there is room in the table.
\<close>

inductive booting :: "nrk_cfg \<Rightarrow> boot_info \<Rightarrow> kernel \<Rightarrow> kernel \<Rightarrow> bool" for cfg b k0 where
  init: "nrk_init cfg b k0 = Some k \<Longrightarrow> booting cfg b k0 k"
| activate: "\<lbrakk>booting cfg b k0 k; FirstActivation T; Type T \<noteq> IDLE_TASK; 0 < prio T;
    nrk_time_to_ticks_long (tt_period T) = Some p; 0 < p; nrk_time_to_ticks_long (offset T) = Some nw;
    nrk_time_to_ticks_long (tt_cpu_reserve T) = Some res; unat (nrk_task_init_cnt k) < NRK_MAX_TASKS k;
    nrk_activate_task cfg T k = Some (r, T', k')\<rbrakk> \<Longrightarrow> booting cfg b k0 k'"

definition booted_inv :: "kernel \<Rightarrow> bool" where
  "booted_inv k \<longleftrightarrow> (\<exists>ids. boot_inv k ids) \<and> 0 < nrk_task_init_cnt k \<and>
     (\<forall>j < NRK_MAX_TASKS k. unat (nrk_task_init_cnt k) \<le> j \<longrightarrow> task_ID (nrk_task_TCB k ! j) = - 1)"

lemma activate_booted:
  assumes "booted_inv k" "FirstActivation T" "Type T \<noteq> IDLE_TASK" "0 < prio T"
    "nrk_time_to_ticks_long (tt_period T) = Some p" "0 < p" "nrk_time_to_ticks_long (offset T) = Some nw"
    "nrk_time_to_ticks_long (tt_cpu_reserve T) = Some res" "unat (nrk_task_init_cnt k) < NRK_MAX_TASKS k"
  shows "\<exists>T' k'. nrk_activate_task cfg T k = Some (NRK_OK, T', k') \<and> booted_inv k'"
proof -
  obtain ids where ids: "boot_inv k ids" using assms(1) by (auto simp: booted_inv_def)
  let ?c = "unat (nrk_task_init_cnt k)"
  have c: "0 < ?c" "task_ID (nrk_task_TCB k ! ?c) = - 1"
    using assms(1,9) by (auto simp: booted_inv_def word_less_nat_alt)
  obtain k' ids' where k': "nrk_activate_task cfg T k =
      Some (NRK_OK, T\<lparr>tt_task_ID := of_nat ?c, FirstActivation := False\<rparr>, k')"
    "boot_inv k' ids'" "unat (nrk_task_init_cnt k') = ?c + 1"
    "\<forall>j. j \<noteq> ?c \<longrightarrow> nrk_task_TCB k' ! j = nrk_task_TCB k ! j" "NRK_MAX_TASKS k' = NRK_MAX_TASKS k"
    using activate_user [OF ids assms(2-5,7,8,6) refl c(1) assms(9) c(2), of cfg] by auto
  then have "booted_inv k'" using assms(1) by (auto simp: booted_inv_def word_less_nat_alt)
  with k'(1) show ?thesis by blast
qed

lemma booting_inv:
  assumes "booting cfg b k0 k" "reset_state k0" "returns_on_error cfg" "32 \<le> idle_stk_size b"
  shows "booted_inv k"
  using assms(1)
proof induction
  case (init k)
  then show ?case using init_ensures [OF assms(2-4)]
    by (auto simp: ensures_def booted_inv_def)
next
  case (activate k T p nw res r T' k')
  then show ?case using activate_booted [of k T p nw res cfg] by auto
qed


definition ex_boot :: boot_info where
  "ex_boot = \<lparr>startup_error = 0, voltage_status = 1, watchdog_check = NRK_OK, idle_entry = 0x100,
     idle_stk = 0x1000, idle_stk_size = 128, idle_descr =
       \<lparr>tt_task_ID = 0, Ptos = 0, Pbos = 0, task_entry = 0, FirstActivation = True, prio = 0, Type = 0,
        SchType = 0, tt_period = \<lparr>secs = 0, nano_secs = 0\<rparr>, tt_cpu_reserve = \<lparr>secs = 0, nano_secs = 0\<rparr>,
        offset = \<lparr>secs = 0, nano_secs = 0\<rparr>\<rparr>\<rparr>"

definition ex_reset :: kernel where
  "ex_reset = (ex_kernel 0)\<lparr>nrk_signal_list := 0, nrk_task_init_cnt := 0\<rparr>"

lemma ex_reset_state: "reset_state ex_reset"
  by (simp add: reset_state_def ex_reset_def ex_tasks_def)


text \<open>
  Activating a task. Between \<^verbatim>\<open>nrk_init\<close> and \<^verbatim>\<open>nrk_start\<close> the first activation of
  a task with a priority, a period and times below 256 seconds returns \<^verbatim>\<open>NRK_OK\<close>, gives
  the task the next number, changes no other control block, and puts the task into the
  ready queue just when its offset is zero.
\<close>

theorem nrk_activate_task_ok:
  assumes "boot_inv k ids" "FirstActivation T" "Type T \<noteq> IDLE_TASK" "0 < prio T"
    "nrk_time_to_ticks_long (tt_period T) = Some p" "0 < p" "nrk_time_to_ticks_long (offset T) = Some nw"
    "nrk_time_to_ticks_long (tt_cpu_reserve T) = Some res" "c = unat (nrk_task_init_cnt k)" "0 < c"
    "c < NRK_MAX_TASKS k" "task_ID (nrk_task_TCB k ! c) = - 1"
  shows "\<exists>k' ids'. nrk_activate_task cfg T k =
      Some (NRK_OK, T\<lparr>tt_task_ID := of_nat c, FirstActivation := False\<rparr>, k') \<and>
    boot_inv k' ids' \<and> unat (nrk_task_init_cnt k') = c + 1 \<and>
    (\<forall>j. j \<noteq> c \<longrightarrow> nrk_task_TCB k' ! j = nrk_task_TCB k ! j) \<and> NRK_MAX_TASKS k' = NRK_MAX_TASKS k \<and>
    set ids' = (if nw = 0 then insert (of_nat c) (set ids) else set ids)"
  by (rule activate_user [OF assms(1-5,7,8,6) assms(9-12)])

definition ex_task :: nrk_task_type where
  "ex_task = \<lparr>tt_task_ID = 0, Ptos = 0x2FF, Pbos = 0x200, task_entry = 0x400, FirstActivation = True, prio = 7,
     Type = BASIC_TASK, SchType = PREEMPTIVE, tt_period = \<lparr>secs = 2, nano_secs = 0\<rparr>,
     tt_cpu_reserve = \<lparr>secs = 0, nano_secs = 50000000\<rparr>, offset = \<lparr>secs = 0, nano_secs = 0\<rparr>\<rparr>"

theorem nrk_activate_task_ok_witness:
  "\<exists>k T' k'. nrk_init ex_cfg ex_boot ex_reset = Some k \<and>
    nrk_activate_task ex_cfg ex_task k = Some (NRK_OK, T', k') \<and> (\<exists>ids. boot_inv k' ids \<and> set ids = {1, 0})"
proof -
  have stk: "32 \<le> idle_stk_size ex_boot" by (simp add: ex_boot_def)
  obtain k where k: "nrk_init ex_cfg ex_boot ex_reset = Some k" "boot_inv k [0]" "nrk_task_init_cnt k = 1"
      "NRK_MAX_TASKS k = 3" "task_ID (nrk_task_TCB k ! 1) = - 1"
    using init_ensures [OF ex_reset_state ex_cfg_returns stk]
    by (auto simp: ensures_def ex_reset_def ex_tasks_def)
  have t: "nrk_time_to_ticks_long (tt_period ex_task) = Some 2047" "nrk_time_to_ticks_long (offset ex_task) = Some 0"
    "nrk_time_to_ticks_long (tt_cpu_reserve ex_task) = Some 51"
    using time_to_ticks_long_value [of "tt_period ex_task"] time_to_ticks_long_value [of "tt_cpu_reserve ex_task"]
    by (simp_all add: ex_task_def time_ns_def)
  obtain k' ids where k': "nrk_activate_task ex_cfg ex_task k = Some (NRK_OK, ex_task\<lparr>tt_task_ID := 1, FirstActivation := False\<rparr>, k')"
      "boot_inv k' ids" "set ids = {1, 0}"
    using nrk_activate_task_ok [OF k(2), of ex_task 2047 0 51 1 ex_cfg] t k(3-5)
    by (auto simp: ex_task_def BASIC_TASK_def IDLE_TASK_def)
  show ?thesis using k(1) k' by blast
qed

end
