(* ===== verification/Net_Pack.thy ===== *)
theory Net_Pack
  imports Nrk_Prelude
begin

text \<open>
  The wire format of the network stack, \<^verbatim>\<open>src/src/net/networkstack/Pack.c\<close>, with the
  structures of \<^verbatim>\<open>NetworkLayer.h\<close>, \<^verbatim>\<open>TransportLayerUDP.h\<close> and \<^verbatim>\<open>Serial.h\<close>
  that it packs. A byte buffer is a function from offsets to bytes; a routine that packs
  gets the offset \<open>d\<close> its \<^verbatim>\<open>dest\<close> points at. Two parameters run through the
  theory: \<open>le\<close> says whether the processor stores the low byte of a 16-bit value first,
  and \<open>en\<close> is the static variable \<^verbatim>\<open>endian\<close>, which is 0 until \<^verbatim>\<open>endianness()\<close>
  has been called.
\<close>

section \<open>Structures\<close>

type_synonym buffer = "nat \<Rightarrow> u8"

record Neighbor =
  nb_addr :: u16
  nb_rssi :: i8
  nb_lastReport :: i8
  nb_isNew :: i8

record NeighborList =
  nl_my_addr :: u16
  nl_ngbs :: "Neighbor list"
  nl_count :: i8

record Msg_Hello =
  mh_n :: Neighbor

record Msg_NgbList =
  mn_nl :: NeighborList

record RoutingTable =
  rt_dest :: u16
  rt_nextHop :: u16
  rt_cost :: u8

record Msg_RoutingTable =
  mr_dg :: u16
  mr_node :: u16
  mr_rt :: "RoutingTable list"

record NW_Packet =
  pkt_src :: u16
  pkt_dest :: u16
  pkt_prevHop :: u16
  pkt_nextHop :: u16
  pkt_ttl :: i8
  pkt_type :: u8
  pkt_length :: i8
  pkt_prio :: i8
  pkt_data :: "u8 list"

record Transport_Segment_UDP =
  seg_srcPort :: u8
  seg_destPort :: u8
  seg_length :: i8
  seg_data :: "u8 list"

text \<open>The packets on the serial line: two structures with the same three fields.\<close>

record NodeToGatewaySerial_Packet =
  ng_type :: u8
  ng_length :: i8
  ng_data :: "u8 list"

record GatewayToNodeSerial_Packet =
  gn_type :: u8
  gn_length :: i8
  gn_data :: "u8 list"

definition MAX_NGBS :: nat where "MAX_NGBS = 5"
definition MAX_NODES :: nat where "MAX_NODES = 5"
definition SIZE_NEIGHBOR :: nat where "SIZE_NEIGHBOR = 5"
definition SIZE_ROUTING_TABLE_ENTRY :: nat where "SIZE_ROUTING_TABLE_ENTRY = 5"

definition LITTLE_ENDIAN :: i8 where "LITTLE_ENDIAN = 1"
definition BIG_ENDIAN :: i8 where "BIG_ENDIAN = 2"
definition ERROR_ENDIAN :: i8 where "ERROR_ENDIAN = 9"

lemmas pack_consts [codec_simps] = MAX_NGBS_def MAX_NODES_def SIZE_NEIGHBOR_def
  SIZE_ROUTING_TABLE_ENTRY_def

section \<open>The bytes of a 16-bit object\<close>

text \<open>\<open>byte_at le w i\<close> is \<^verbatim>\<open>((uint8_t*)(&w))[i]\<close>; \<open>of_bytes le b0 b1\<close> is the value
  of an object whose bytes are assigned \<open>b0\<close> and \<open>b1\<close>.\<close>

definition hi8 :: "u16 \<Rightarrow> u8" where "hi8 w = ucast (drop_bit 8 w)"
definition lo8 :: "u16 \<Rightarrow> u8" where "lo8 w = ucast w"
definition join8 :: "u8 \<Rightarrow> u8 \<Rightarrow> u16" where "join8 h l = push_bit 8 (ucast h) OR ucast l"

definition byte_at :: "bool \<Rightarrow> u16 \<Rightarrow> nat \<Rightarrow> u8" where
  "byte_at le w i = (if le = (i = 0) then lo8 w else hi8 w)"

definition of_bytes :: "bool \<Rightarrow> u8 \<Rightarrow> u8 \<Rightarrow> u16" where
  "of_bytes le b0 b1 = (if le then join8 b1 b0 else join8 b0 b1)"

definition endianness :: "bool \<Rightarrow> i8 \<Rightarrow> i8 \<times> i8" where
  "endianness le en =
     (let n = 0x0102 :: u16
      in if byte_at le n 0 = 2 \<and> byte_at le n 1 = 1 then (LITTLE_ENDIAN, LITTLE_ENDIAN)
      else if byte_at le n 0 = 1 \<and> byte_at le n 1 = 2 then (BIG_ENDIAN, BIG_ENDIAN)
      else (ERROR_ENDIAN, en))"

text \<open>How every routine writes and reads a 16-bit field.\<close>

definition put16 :: "bool \<Rightarrow> i8 \<Rightarrow> u16 \<Rightarrow> nat \<Rightarrow> buffer \<Rightarrow> buffer" where
  "put16 le en w d buf =
     (if en = LITTLE_ENDIAN then buf(d := byte_at le w 1, d + 1 := byte_at le w 0)
      else buf(d := byte_at le w 0, d + 1 := byte_at le w 1))"

definition get16 :: "bool \<Rightarrow> i8 \<Rightarrow> buffer \<Rightarrow> nat \<Rightarrow> u16" where
  "get16 le en src d =
     (if en = LITTLE_ENDIAN then of_bytes le (src (d + 1)) (src d)
      else of_bytes le (src d) (src (d + 1)))"

definition hton :: "bool \<Rightarrow> i8 \<Rightarrow> u16 \<Rightarrow> u16" where
  "hton le en host =
     (if en = BIG_ENDIAN then host else of_bytes le (byte_at le host 1) (byte_at le host 0))"

definition ntoh :: "bool \<Rightarrow> i8 \<Rightarrow> u16 \<Rightarrow> u16" where
  "ntoh le en nw =
     (if en = BIG_ENDIAN then nw else of_bytes le (byte_at le nw 1) (byte_at le nw 0))"

section \<open>Packing\<close>

definition pack_Neighbor :: "bool \<Rightarrow> i8 \<Rightarrow> Neighbor \<Rightarrow> nat \<Rightarrow> buffer \<Rightarrow> buffer" where
  "pack_Neighbor le en n d buf =
     (put16 le en (nb_addr n) d buf)(d + 2 := nb_rssi n, d + 3 := nb_lastReport n, d + 4 := nb_isNew n)"

definition pack_Msg_Hello :: "bool \<Rightarrow> i8 \<Rightarrow> Msg_Hello \<Rightarrow> nat \<Rightarrow> buffer \<Rightarrow> buffer" where
  "pack_Msg_Hello le en m d buf = pack_Neighbor le en (mh_n m) d buf"

text \<open>\<^verbatim>\<open>for(i=0, j=0; i<n; i++, j+=sz) pack(dest+j, &xs[i]);\<close>\<close>

fun pack_array :: "('a \<Rightarrow> nat \<Rightarrow> buffer \<Rightarrow> buffer) \<Rightarrow> nat \<Rightarrow> 'a list \<Rightarrow> nat \<Rightarrow> buffer \<Rightarrow> buffer" where
  "pack_array pk sz [] d buf = buf"
| "pack_array pk sz (x # xs) d buf = pack_array pk sz xs (d + sz) (pk x d buf)"

definition pack_NeighborList :: "bool \<Rightarrow> i8 \<Rightarrow> NeighborList \<Rightarrow> nat \<Rightarrow> buffer \<Rightarrow> buffer" where
  "pack_NeighborList le en n d buf =
     (pack_array (pack_Neighbor le en) SIZE_NEIGHBOR (nl_ngbs n) (d + 2)
        (put16 le en (nl_my_addr n) d buf))(d + 27 := nl_count n)"

definition pack_Msg_NgbList :: "bool \<Rightarrow> i8 \<Rightarrow> Msg_NgbList \<Rightarrow> nat \<Rightarrow> buffer \<Rightarrow> buffer" where
  "pack_Msg_NgbList le en m d buf = pack_NeighborList le en (mn_nl m) d buf"

definition pack_RoutingTableEntry :: "bool \<Rightarrow> i8 \<Rightarrow> RoutingTable \<Rightarrow> nat \<Rightarrow> buffer \<Rightarrow> buffer" where
  "pack_RoutingTableEntry le en rt d buf =
     (put16 le en (rt_nextHop rt) (d + 2) (put16 le en (rt_dest rt) d buf))(d + 4 := rt_cost rt)"

definition pack_RoutingTable :: "bool \<Rightarrow> i8 \<Rightarrow> RoutingTable list \<Rightarrow> nat \<Rightarrow> buffer \<Rightarrow> buffer" where
  "pack_RoutingTable le en = pack_array (pack_RoutingTableEntry le en) SIZE_ROUTING_TABLE_ENTRY"

definition pack_Msg_RoutingTable :: "bool \<Rightarrow> i8 \<Rightarrow> Msg_RoutingTable \<Rightarrow> nat \<Rightarrow> buffer \<Rightarrow> buffer" where
  "pack_Msg_RoutingTable le en m d buf =
     pack_RoutingTable le en (mr_rt m) (d + 4)
       (put16 le en (mr_node m) (d + 2) (put16 le en (mr_dg m) d buf))"

definition pack_NW_Packet_header :: "bool \<Rightarrow> i8 \<Rightarrow> NW_Packet \<Rightarrow> nat \<Rightarrow> buffer \<Rightarrow> buffer" where
  "pack_NW_Packet_header le en p d buf =
     (put16 le en (pkt_nextHop p) (d + 6)
       (put16 le en (pkt_prevHop p) (d + 4)
         (put16 le en (pkt_dest p) (d + 2)
           (put16 le en (pkt_src p) d buf))))
     (d + 8 := pkt_ttl p, d + 9 := pkt_type p, d + 10 := pkt_length p, d + 11 := pkt_prio p)"

definition pack_NodeToGatewaySerial_Packet_header ::
    "NodeToGatewaySerial_Packet \<Rightarrow> nat \<Rightarrow> buffer \<Rightarrow> buffer" where
  "pack_NodeToGatewaySerial_Packet_header p d buf = buf(d := ng_type p, d + 1 := ng_length p)"

definition pack_GatewayToNodeSerial_Packet_header ::
    "GatewayToNodeSerial_Packet \<Rightarrow> nat \<Rightarrow> buffer \<Rightarrow> buffer" where
  "pack_GatewayToNodeSerial_Packet_header p d buf = buf(d := gn_type p, d + 1 := gn_length p)"

definition pack_TL_UDP_header :: "Transport_Segment_UDP \<Rightarrow> nat \<Rightarrow> buffer \<Rightarrow> buffer" where
  "pack_TL_UDP_header s d buf = buf(d := seg_srcPort s, d + 1 := seg_destPort s, d + 2 := seg_length s)"

section \<open>Unpacking\<close>

text \<open>
  A routine that assigns every field of its result does not take the old one.
\<close>

definition unpack_TL_UDP_header :: "Transport_Segment_UDP \<Rightarrow> buffer \<Rightarrow> nat \<Rightarrow> Transport_Segment_UDP" where
  "unpack_TL_UDP_header s src d =
     s\<lparr>seg_srcPort := src d, seg_destPort := src (d + 1), seg_length := src (d + 2)\<rparr>"

definition unpack_Neighbor :: "bool \<Rightarrow> i8 \<Rightarrow> buffer \<Rightarrow> nat \<Rightarrow> Neighbor" where
  "unpack_Neighbor le en src d =
     \<lparr>nb_addr = get16 le en src d, nb_rssi = src (d + 2), nb_lastReport = src (d + 3),
      nb_isNew = src (d + 4)\<rparr>"

definition unpack_Msg_Hello :: "bool \<Rightarrow> i8 \<Rightarrow> buffer \<Rightarrow> nat \<Rightarrow> Msg_Hello" where
  "unpack_Msg_Hello le en src d = \<lparr>mh_n = unpack_Neighbor le en src d\<rparr>"

text \<open>\<^verbatim>\<open>for(i=0, j=0; i<n; i++, j+=sz) unpack(&xs[i], src+j);\<close>\<close>

fun unpack_array :: "(buffer \<Rightarrow> nat \<Rightarrow> 'a) \<Rightarrow> nat \<Rightarrow> nat \<Rightarrow> buffer \<Rightarrow> nat \<Rightarrow> 'a list" where
  "unpack_array up sz 0 src d = []"
| "unpack_array up sz (Suc n) src d = up src d # unpack_array up sz n src (d + sz)"

definition unpack_NeighborList :: "bool \<Rightarrow> i8 \<Rightarrow> buffer \<Rightarrow> nat \<Rightarrow> NeighborList" where
  "unpack_NeighborList le en src d =
     \<lparr>nl_my_addr = get16 le en src d,
      nl_ngbs = unpack_array (unpack_Neighbor le en) SIZE_NEIGHBOR MAX_NGBS src (d + 2),
      nl_count = src (d + (2 + MAX_NGBS * SIZE_NEIGHBOR))\<rparr>"

definition unpack_Msg_NgbList :: "bool \<Rightarrow> i8 \<Rightarrow> buffer \<Rightarrow> nat \<Rightarrow> Msg_NgbList" where
  "unpack_Msg_NgbList le en src d = \<lparr>mn_nl = unpack_NeighborList le en src d\<rparr>"

definition unpack_RoutingTableEntry :: "bool \<Rightarrow> i8 \<Rightarrow> buffer \<Rightarrow> nat \<Rightarrow> RoutingTable" where
  "unpack_RoutingTableEntry le en src d =
     \<lparr>rt_dest = get16 le en src d, rt_nextHop = get16 le en src (d + 2), rt_cost = src (d + 4)\<rparr>"

definition unpack_RoutingTable :: "bool \<Rightarrow> i8 \<Rightarrow> buffer \<Rightarrow> nat \<Rightarrow> RoutingTable list" where
  "unpack_RoutingTable le en = unpack_array (unpack_RoutingTableEntry le en) SIZE_ROUTING_TABLE_ENTRY MAX_NODES"

definition unpack_Msg_RoutingTable :: "bool \<Rightarrow> i8 \<Rightarrow> buffer \<Rightarrow> nat \<Rightarrow> Msg_RoutingTable" where
  "unpack_Msg_RoutingTable le en src d =
     \<lparr>mr_dg = get16 le en src d, mr_node = get16 le en src (d + 2),
      mr_rt = unpack_RoutingTable le en src (d + 4)\<rparr>"

definition unpack_NW_Packet_header :: "bool \<Rightarrow> i8 \<Rightarrow> NW_Packet \<Rightarrow> buffer \<Rightarrow> nat \<Rightarrow> NW_Packet" where
  "unpack_NW_Packet_header le en p src d =
     p\<lparr>pkt_src := get16 le en src d, pkt_dest := get16 le en src (d + 2),
       pkt_prevHop := get16 le en src (d + 4), pkt_nextHop := get16 le en src (d + 6),
       pkt_ttl := src (d + 8), pkt_type := src (d + 9), pkt_length := src (d + 10),
       pkt_prio := src (d + 11)\<rparr>"

definition unpack_NodeToGatewaySerial_Packet_header ::
    "NodeToGatewaySerial_Packet \<Rightarrow> buffer \<Rightarrow> nat \<Rightarrow> NodeToGatewaySerial_Packet" where
  "unpack_NodeToGatewaySerial_Packet_header p src d = p\<lparr>ng_type := src d, ng_length := src (d + 1)\<rparr>"

definition unpack_GatewayToNodeSerial_Packet_header ::
    "GatewayToNodeSerial_Packet \<Rightarrow> buffer \<Rightarrow> nat \<Rightarrow> GatewayToNodeSerial_Packet" where
  "unpack_GatewayToNodeSerial_Packet_header p src d = p\<lparr>gn_type := src d, gn_length := src (d + 1)\<rparr>"

section \<open>16-bit fields\<close>

lemma join_split [simp]: "join8 (hi8 w) (lo8 w) = w"
  by (rule bit_word_eqI) (auto simp: join8_def hi8_def lo8_def bit_or_iff bit_push_bit_iff bit_ucast_iff bit_drop_bit_eq)

lemma split_join [simp]: "hi8 (join8 h l) = h" "lo8 (join8 h l) = l"
  by (rule bit_word_eqI, auto simp: join8_def hi8_def lo8_def bit_or_iff bit_push_bit_iff bit_ucast_iff bit_drop_bit_eq
      dest: bit_imp_le_length)+

lemma of_bytes_at [simp]:
  "of_bytes le (byte_at le w 0) (byte_at le w (Suc 0)) = w"
  by (simp add: of_bytes_def byte_at_def)

lemma put16_other [simp]: "i \<noteq> d \<Longrightarrow> i \<noteq> Suc d \<Longrightarrow> put16 le en w d buf i = buf i"
  by (simp add: put16_def)

lemma get_put16 [simp]: "get16 le en (put16 le en w d buf) d = w"
  by (simp add: get16_def put16_def)

lemma get16_cong: "b d = b' d \<Longrightarrow> b (Suc d) = b' (Suc d) \<Longrightarrow> get16 le en b d = get16 le en b' d"
  by (simp add: get16_def)

lemma get16_frame [simp]:
  "i \<noteq> d \<Longrightarrow> i \<noteq> Suc d \<Longrightarrow> get16 le en (b(i := v)) d = get16 le en b d"
  "e \<noteq> d \<Longrightarrow> e \<noteq> Suc d \<Longrightarrow> Suc e \<noteq> d \<Longrightarrow> get16 le en (put16 le en w e b) d = get16 le en b d"
  by (simp_all add: get16_def)

text \<open>After \<open>endianness()\<close> the wire format is the same on both kinds of processor: high
  byte first.\<close>

lemma endianness_value: "endianness le en = (if le then (LITTLE_ENDIAN, LITTLE_ENDIAN) else (BIG_ENDIAN, BIG_ENDIAN))"
proof -
  have "hi8 0x0102 = 1" "lo8 0x0102 = 2"
    by (simp_all add: hi8_def lo8_def)
  then show ?thesis by (simp add: endianness_def byte_at_def Let_def)
qed

definition native :: "bool \<Rightarrow> i8 \<Rightarrow> bool" where
  "native le en \<longleftrightarrow> en = snd (endianness le 0)"

lemma native_iff: "native le en \<longleftrightarrow> en = (if le then LITTLE_ENDIAN else BIG_ENDIAN)"
  by (simp add: native_def endianness_value)

lemma put16_wire: "native le en \<Longrightarrow> put16 le en w d buf = buf(d := hi8 w, Suc d := lo8 w)"
  by (auto simp: put16_def native_iff byte_at_def LITTLE_ENDIAN_def BIG_ENDIAN_def)

lemma get16_wire: "native le en \<Longrightarrow> get16 le en src d = join8 (src d) (src (Suc d))"
  by (auto simp: get16_def native_iff of_bytes_def LITTLE_ENDIAN_def BIG_ENDIAN_def)

section \<open>Codecs\<close>

text \<open>
  The contract between a packing routine and its unpacking routine: what was packed is
  read back, only \<open>sz\<close> bytes are written, and only those are read. \<open>good\<close> says
  which values have a packed form (arrays of the declared length).
\<close>

locale codec =
  fixes enc :: "'a \<Rightarrow> nat \<Rightarrow> buffer \<Rightarrow> buffer"
    and dec :: "buffer \<Rightarrow> nat \<Rightarrow> 'a"
    and sz :: nat
    and good :: "'a \<Rightarrow> bool"
  assumes dec_enc: "good x \<Longrightarrow> dec (enc x d b) d = x"
    and enc_frame: "good x \<Longrightarrow> i < d \<or> d + sz \<le> i \<Longrightarrow> enc x d b i = b i"
    and dec_local: "(\<And>i. d \<le> i \<Longrightarrow> i < d + sz \<Longrightarrow> b i = b' i) \<Longrightarrow> dec b d = dec b' d"
begin

lemma dec_later_write: "i < d \<or> d + sz \<le> i \<Longrightarrow> dec (b(i := v)) d = dec b d"
  by (rule dec_local) auto

lemma array_frame:
  "\<forall>x \<in> set xs. good x \<Longrightarrow> i < d \<or> d + length xs * sz \<le> i \<Longrightarrow> pack_array enc sz xs d b i = b i"
proof (induction xs arbitrary: d b)
  case (Cons x xs)
  then have "pack_array enc sz xs (d + sz) (enc x d b) i = enc x d b i" by (intro Cons.IH) auto
  moreover have "enc x d b i = b i" by (rule enc_frame) (use Cons.prems in auto)
  ultimately show ?case by simp
qed simp

lemma array_get16:
  assumes "\<forall>x \<in> set xs. good x" "e + 2 \<le> d"
  shows "get16 le en (pack_array enc sz xs d b) e = get16 le en b e"
  by (rule get16_cong) (use assms array_frame [OF assms(1)] in auto)

lemma array_dec_enc:
  "\<forall>x \<in> set xs. good x \<Longrightarrow> unpack_array dec sz (length xs) (pack_array enc sz xs d b) d = xs"
proof (induction xs arbitrary: d b)
  case (Cons x xs)
  have "dec (pack_array enc sz xs (d + sz) (enc x d b)) d = dec (enc x d b) d"
    using Cons.prems by (intro dec_local array_frame) auto
  then show ?case using Cons by (simp add: dec_enc)
qed simp

lemma array_local:
  "(\<And>i. d \<le> i \<Longrightarrow> i < d + n * sz \<Longrightarrow> b i = b' i) \<Longrightarrow> unpack_array dec sz n b d = unpack_array dec sz n b' d"
proof (induction n arbitrary: d)
  case (Suc n)
  have "dec b d = dec b' d" by (rule dec_local) (use Suc.prems in auto)
  moreover have "unpack_array dec sz n b (d + sz) = unpack_array dec sz n b' (d + sz)"
    by (rule Suc.IH) (use Suc.prems in auto)
  ultimately show ?case by simp
qed simp

end

text \<open>An array of \<open>n\<close> values is itself packed and read back.\<close>

locale codec_array = codec +
  fixes n :: nat

sublocale codec_array \<subseteq> arr: codec "pack_array enc sz" "unpack_array dec sz n" "n * sz"
    "\<lambda>xs. length xs = n \<and> (\<forall>x \<in> set xs. good x)"
proof
  show "unpack_array dec sz n (pack_array enc sz xs d b) d = xs"
    if "length xs = n \<and> (\<forall>x \<in> set xs. good x)" for xs d b
    using that array_dec_enc by blast
  show "pack_array enc sz xs d b i = b i"
    if "length xs = n \<and> (\<forall>x \<in> set xs. good x)" "i < d \<or> d + n * sz \<le> i" for xs d b i
    using that array_frame by blast
qed (rule array_local)

section \<open>The structures as codecs\<close>

interpretation neighbor: codec_array "pack_Neighbor le en" "unpack_Neighbor le en" SIZE_NEIGHBOR "\<lambda>_. True" MAX_NGBS
  by unfold_locales (auto simp: pack_Neighbor_def unpack_Neighbor_def SIZE_NEIGHBOR_def intro: get16_cong)

interpretation route: codec_array "pack_RoutingTableEntry le en" "unpack_RoutingTableEntry le en"
  SIZE_ROUTING_TABLE_ENTRY "\<lambda>_. True" MAX_NODES
  by unfold_locales (auto simp: pack_RoutingTableEntry_def unpack_RoutingTableEntry_def
      SIZE_ROUTING_TABLE_ENTRY_def intro: get16_cong)

interpretation neighbor_list: codec "pack_NeighborList le en" "unpack_NeighborList le en" 28
  "\<lambda>n. length (nl_ngbs n) = MAX_NGBS"
proof
  fix x :: NeighborList and d b i assume len: "length (nl_ngbs x) = MAX_NGBS"
  note frame = neighbor.arr.enc_frame [of "nl_ngbs x", unfolded pack_consts]
  have "unpack_array (unpack_Neighbor le en) 5 5
      ((pack_array (pack_Neighbor le en) 5 (nl_ngbs x) (d + 2) b')(d + 27 := v)) (d + 2) = nl_ngbs x" for b' v
    using neighbor.arr.dec_later_write [of "d + 27" "d + 2", unfolded pack_consts]
      neighbor.arr.dec_enc [of "nl_ngbs x"] len unfolding pack_consts by simp
  then show "unpack_NeighborList le en (pack_NeighborList le en x d b) d = x"
    by (simp add: pack_NeighborList_def unpack_NeighborList_def pack_consts
        neighbor.array_get16 [unfolded pack_consts])
  show "pack_NeighborList le en x d b i = b i" if "i < d \<or> d + 28 \<le> i"
    using that len frame by (auto simp: pack_NeighborList_def pack_consts)
next
  fix d and b b' :: buffer assume eq: "\<And>i. d \<le> i \<Longrightarrow> i < d + 28 \<Longrightarrow> b i = b' i"
  have "unpack_array (unpack_Neighbor le en) 5 5 b (d + 2) = unpack_array (unpack_Neighbor le en) 5 5 b' (d + 2)"
    by (rule neighbor.arr.dec_local [unfolded pack_consts]) (use eq in auto)
  then show "unpack_NeighborList le en b d = unpack_NeighborList le en b' d"
    using eq get16_cong [of b d b' le en] by (simp add: unpack_NeighborList_def pack_consts)
qed

interpretation routing_msg: codec "pack_Msg_RoutingTable le en" "unpack_Msg_RoutingTable le en" 29
  "\<lambda>m. length (mr_rt m) = MAX_NODES"
proof
  fix x :: Msg_RoutingTable and d b i assume len: "length (mr_rt x) = MAX_NODES"
  note frame = route.arr.enc_frame [of "mr_rt x", unfolded pack_consts]
  show "unpack_Msg_RoutingTable le en (pack_Msg_RoutingTable le en x d b) d = x"
    using route.arr.dec_enc [of "mr_rt x"] len
    by (simp add: pack_Msg_RoutingTable_def unpack_Msg_RoutingTable_def pack_RoutingTable_def
        unpack_RoutingTable_def route.array_get16)
  show "pack_Msg_RoutingTable le en x d b i = b i" if "i < d \<or> d + 29 \<le> i"
    using that len frame by (auto simp: pack_Msg_RoutingTable_def pack_RoutingTable_def pack_consts)
next
  fix d and b b' :: buffer assume eq: "\<And>i. d \<le> i \<Longrightarrow> i < d + 29 \<Longrightarrow> b i = b' i"
  have "unpack_array (unpack_RoutingTableEntry le en) 5 5 b (d + 4) = unpack_array (unpack_RoutingTableEntry le en) 5 5 b' (d + 4)"
    by (rule route.arr.dec_local [unfolded pack_consts]) (use eq in auto)
  then show "unpack_Msg_RoutingTable le en b d = unpack_Msg_RoutingTable le en b' d"
    using eq get16_cong [of b d b' le en] get16_cong [of b "d + 2" b' le en]
    by (simp add: unpack_Msg_RoutingTable_def unpack_RoutingTable_def pack_consts)
qed

text \<open>The headers, whose unpacking keeps the payload of the packet it fills in.\<close>

interpretation nw_header: codec "pack_NW_Packet_header le en" "unpack_NW_Packet_header le en p" 12
  "\<lambda>x. pkt_data x = pkt_data p"
proof
  fix d and b b' :: buffer assume eq: "\<And>i. d \<le> i \<Longrightarrow> i < d + 12 \<Longrightarrow> b i = b' i"
  have "get16 le en b (d + j) = get16 le en b' (d + j)" if "j < 11" for j
    by (rule get16_cong) (use eq that in auto)
  from this [of 0] this [of 2] this [of 4] this [of 6]
  show "unpack_NW_Packet_header le en p b d = unpack_NW_Packet_header le en p b' d"
    using eq by (simp add: unpack_NW_Packet_header_def)
qed (auto simp: pack_NW_Packet_header_def unpack_NW_Packet_header_def)

interpretation udp_header: codec pack_TL_UDP_header "unpack_TL_UDP_header s" 3
  "\<lambda>x. seg_data x = seg_data s"
  by unfold_locales (auto simp: pack_TL_UDP_header_def unpack_TL_UDP_header_def)

interpretation to_gateway: codec pack_NodeToGatewaySerial_Packet_header
  "unpack_NodeToGatewaySerial_Packet_header p" 2 "\<lambda>x. ng_data x = ng_data p"
  by unfold_locales
     (auto simp: pack_NodeToGatewaySerial_Packet_header_def unpack_NodeToGatewaySerial_Packet_header_def)

interpretation from_gateway: codec pack_GatewayToNodeSerial_Packet_header
  "unpack_GatewayToNodeSerial_Packet_header p" 2 "\<lambda>x. gn_data x = gn_data p"
  by unfold_locales
     (auto simp: pack_GatewayToNodeSerial_Packet_header_def unpack_GatewayToNodeSerial_Packet_header_def)

section \<open>Nodes with different processors\<close>

text \<open>
  Once both nodes have called \<^verbatim>\<open>endianness()\<close>, every routine works as on a
  little-endian node.
\<close>

lemma native_canonical:
  assumes "native le en"
  shows "put16 le en = put16 True LITTLE_ENDIAN" "get16 le en = get16 True LITTLE_ENDIAN"
proof -
  have t: "native True LITTLE_ENDIAN" by (simp add: native_iff)
  show "put16 le en = put16 True LITTLE_ENDIAN" "get16 le en = get16 True LITTLE_ENDIAN"
    by (intro ext, simp add: put16_wire [OF assms] put16_wire [OF t] get16_wire [OF assms] get16_wire [OF t])+
qed

lemma native_pack:
  assumes "native le en"
  shows "pack_Neighbor le en = pack_Neighbor True LITTLE_ENDIAN"
    "pack_NeighborList le en = pack_NeighborList True LITTLE_ENDIAN"
    "pack_Msg_RoutingTable le en = pack_Msg_RoutingTable True LITTLE_ENDIAN"
    "pack_NW_Packet_header le en = pack_NW_Packet_header True LITTLE_ENDIAN"
proof -
  note c = native_canonical [OF assms]
  show n: "pack_Neighbor le en = pack_Neighbor True LITTLE_ENDIAN"
    by (intro ext) (simp add: pack_Neighbor_def c)
  show "pack_NeighborList le en = pack_NeighborList True LITTLE_ENDIAN"
    by (intro ext) (simp add: pack_NeighborList_def c n)
  have r: "pack_RoutingTableEntry le en = pack_RoutingTableEntry True LITTLE_ENDIAN"
    by (intro ext) (simp add: pack_RoutingTableEntry_def c)
  show "pack_Msg_RoutingTable le en = pack_Msg_RoutingTable True LITTLE_ENDIAN"
    by (intro ext) (simp add: pack_Msg_RoutingTable_def pack_RoutingTable_def c r)
  show "pack_NW_Packet_header le en = pack_NW_Packet_header True LITTLE_ENDIAN"
    by (intro ext) (simp add: pack_NW_Packet_header_def c)
qed

lemma hton_wire:
  assumes "native le en"
  shows "byte_at le (hton le en w) 0 = hi8 w" "byte_at le (hton le en w) 1 = lo8 w"
  using assms by (auto simp: native_iff hton_def byte_at_def of_bytes_def LITTLE_ENDIAN_def BIG_ENDIAN_def)

lemma ntoh_hton: "ntoh le en (hton le en w) = w"
  by (auto simp: ntoh_def hton_def byte_at_def of_bytes_def)

lemma native_unpack:
  assumes "native le en"
  shows "unpack_NeighborList le en = unpack_NeighborList True LITTLE_ENDIAN"
    "unpack_Msg_RoutingTable le en = unpack_Msg_RoutingTable True LITTLE_ENDIAN"
    "unpack_NW_Packet_header le en = unpack_NW_Packet_header True LITTLE_ENDIAN"
proof -
  note c = native_canonical [OF assms]
  have n: "unpack_Neighbor le en = unpack_Neighbor True LITTLE_ENDIAN"
    by (intro ext) (simp add: unpack_Neighbor_def c)
  show "unpack_NeighborList le en = unpack_NeighborList True LITTLE_ENDIAN"
    by (intro ext) (simp add: unpack_NeighborList_def c n)
  have r: "unpack_RoutingTableEntry le en = unpack_RoutingTableEntry True LITTLE_ENDIAN"
    by (intro ext) (simp add: unpack_RoutingTableEntry_def c)
  show "unpack_Msg_RoutingTable le en = unpack_Msg_RoutingTable True LITTLE_ENDIAN"
    by (intro ext) (simp add: unpack_Msg_RoutingTable_def unpack_RoutingTable_def c r)
  show "unpack_NW_Packet_header le en = unpack_NW_Packet_header True LITTLE_ENDIAN"
    by (intro ext) (simp add: unpack_NW_Packet_header_def c)
qed

lemma native_both: "native True LITTLE_ENDIAN" "native False BIG_ENDIAN"
  by (simp_all add: native_iff)

lemma pack_NW_header_data [simp]:
  "pack_NW_Packet_header le en (x\<lparr>pkt_data := ds\<rparr>) d b = pack_NW_Packet_header le en x d b"
  by (simp add: pack_NW_Packet_header_def)

section \<open>Properties\<close>

text \<open>
  C19: The header of a packet on its way. Between any two nodes that have called
  \<^verbatim>\<open>endianness()\<close>, whatever the byte order of their processors, unpacking a packed header
  gives the header and keeps the receiver's payload; packing writes the twelve bytes of the
  header and no other byte of the buffer.
\<close>

theorem nw_header_roundtrip:
  assumes "native le en" "native le' en'"
  shows "unpack_NW_Packet_header le' en' p (pack_NW_Packet_header le en x d b) d = x\<lparr>pkt_data := pkt_data p\<rparr> \<and>
    (\<forall>i. i < d \<or> d + 12 \<le> i \<longrightarrow> pack_NW_Packet_header le en x d b i = b i)"
proof -
  let ?x = "x\<lparr>pkt_data := pkt_data p\<rparr>"
  have "unpack_NW_Packet_header le' en' p (pack_NW_Packet_header le en ?x d b) d = ?x"
    unfolding native_pack [OF assms(1)] native_unpack [OF assms(2)] by (rule nw_header.dec_enc) simp
  moreover have "pack_NW_Packet_header le en ?x d b i = b i" if "i < d \<or> d + 12 \<le> i" for i
    using that by (intro nw_header.enc_frame [of ?x p]) auto
  ultimately show ?thesis by simp
qed

theorem nw_header_roundtrip_witness:
  "\<forall>p x b. unpack_NW_Packet_header False BIG_ENDIAN p (pack_NW_Packet_header True LITTLE_ENDIAN x 3 b) 3
    = x\<lparr>pkt_data := pkt_data p\<rparr>"
  using nw_header_roundtrip [OF native_both, where d = 3] by blast

text \<open>
  C20: Neighbour lists and routing tables on their way. A list of five neighbours and a table
  of five routes are read back unchanged by a node of either byte order from the 28 and 29
  bytes they are packed into, and no other byte of the buffer is written.
\<close>

theorem message_roundtrip:
  assumes "native le en" "native le' en'" "length (nl_ngbs n) = MAX_NGBS" "length (mr_rt m) = MAX_NODES"
  shows "unpack_NeighborList le' en' (pack_NeighborList le en n d b) d = n \<and>
    unpack_Msg_RoutingTable le' en' (pack_Msg_RoutingTable le en m d b) d = m \<and>
    (\<forall>i. i < d \<or> d + 28 \<le> i \<longrightarrow> pack_NeighborList le en n d b i = b i) \<and>
    (\<forall>i. i < d \<or> d + 29 \<le> i \<longrightarrow> pack_Msg_RoutingTable le en m d b i = b i)"
  using assms(3,4) neighbor_list.enc_frame [of n] routing_msg.enc_frame [of m]
  unfolding native_pack [OF assms(1)] native_unpack [OF assms(2)]
  by (simp add: neighbor_list.dec_enc routing_msg.dec_enc)

theorem message_roundtrip_witness:
  "\<exists>n m b. unpack_NeighborList False BIG_ENDIAN (pack_NeighborList True LITTLE_ENDIAN n 2 b) 2 = n \<and>
    unpack_Msg_RoutingTable False BIG_ENDIAN (pack_Msg_RoutingTable True LITTLE_ENDIAN m 2 b) 2 = m"
proof -
  let ?n = "\<lparr>nl_my_addr = 1, nl_ngbs = replicate MAX_NGBS \<lparr>nb_addr = 2, nb_rssi = 3, nb_lastReport = 4, nb_isNew = 5\<rparr>,
    nl_count = 5\<rparr>"
  let ?m = "\<lparr>mr_dg = 1, mr_node = 2, mr_rt = replicate MAX_NODES \<lparr>rt_dest = 3, rt_nextHop = 4, rt_cost = 5\<rparr>\<rparr>"
  have "length (nl_ngbs ?n) = MAX_NGBS" "length (mr_rt ?m) = MAX_NODES" by simp_all
  from message_roundtrip [OF native_both this, where d = 2] show ?thesis by blast
qed

text \<open>
  Network byte order. After \<^verbatim>\<open>endianness()\<close> a 16-bit field travels high byte first
  from either kind of processor, and \<^verbatim>\<open>hton\<close> gives a value whose memory holds these two
  bytes; \<^verbatim>\<open>ntoh\<close> undoes \<^verbatim>\<open>hton\<close> even before. But before the call a little-endian
  node packs the low byte first.
\<close>

theorem network_byte_order:
  assumes "native le en"
  shows "pack_NW_Packet_header le en x d b d = hi8 (pkt_src x) \<and>
    pack_NW_Packet_header le en x d b (d + 1) = lo8 (pkt_src x) \<and>
    byte_at le (hton le en w) 0 = hi8 w \<and> byte_at le (hton le en w) 1 = lo8 w \<and>
    ntoh le en' (hton le en' w) = w \<and>
    pack_NW_Packet_header True 0 x d b d = lo8 (pkt_src x)"
  using hton_wire [OF assms, of w]
  by (simp add: pack_NW_Packet_header_def put16_wire [OF assms] ntoh_hton)
     (simp add: put16_def byte_at_def LITTLE_ENDIAN_def)

theorem network_byte_order_witness:
  "byte_at True (hton True LITTLE_ENDIAN 0x0102) 0 = hi8 0x0102 \<and> ntoh True 0 (hton True 0 0x0102) = 0x0102"
  using network_byte_order [OF native_both(1), of x d b "0x0102" 0] by blast

end
