(* ===== verification/Net_Tx.thy ===== *)
theory Net_Tx
  imports Net_Pack Nrk_PrioQueue
begin

text \<open>
  The transmit side of \<^verbatim>\<open>src/src/net/networkstack/BufferManager.c\<close>: a pool of four
  buffers, each on the free queue or on the active queue, which is kept in order of
  priority. A pointer to \<^verbatim>\<open>tx_buf[i]\<close> is the index \<open>i\<close>, \<open>None\<close> is
  \<^verbatim>\<open>NULL\<close>.
\<close>

section \<open>Data\<close>

definition MAX_RX_QUEUE_SIZE :: nat where "MAX_RX_QUEUE_SIZE = 8"
definition MAX_TX_QUEUE_SIZE :: nat where "MAX_TX_QUEUE_SIZE = 4"
definition NUM_PORTS :: nat where "NUM_PORTS = 4"
definition MAX_PRIORITY :: int where "MAX_PRIORITY = 31"
definition MAX_NETWORK_PAYLOAD :: nat where "MAX_NETWORK_PAYLOAD = 43"

definition UNALLOCATED :: i8 where "UNALLOCATED = 1"
definition EMPTY :: i8 where "EMPTY = 2"
definition FULL :: i8 where "FULL = 3"

lemma status_distinct [simp]:
  "EMPTY \<noteq> FULL" "FULL \<noteq> EMPTY" "UNALLOCATED \<noteq> EMPTY" "EMPTY \<noteq> UNALLOCATED"
  "UNALLOCATED \<noteq> FULL" "FULL \<noteq> UNALLOCATED"
  by (simp_all add: EMPTY_def FULL_def UNALLOCATED_def)

text \<open>The array \<^verbatim>\<open>tx_buf\<close>, field by field, and \<^verbatim>\<open>tx_buf_mgr\<close>.\<close>

record tx_state =
  tb_pkt :: "nat \<Rightarrow> NW_Packet"
  tb_status :: "nat \<Rightarrow> i8"
  tb_prio :: "nat \<Rightarrow> i8"
  tb_next :: "nat \<Rightarrow> nat option"
  tx_head_fq :: "nat option"
  tx_tail_fq :: "nat option"
  tx_head_aq :: "nat option"
  tx_tail_aq :: "nat option"
  count_aq :: i8
  count_fq :: i8

text \<open>\<^verbatim>\<open>prevHop\<close> and \<^verbatim>\<open>nextHop\<close> keep what they held.\<close>

definition initialise_nw_packet :: "NW_Packet \<Rightarrow> NW_Packet" where
  "initialise_nw_packet p =
     p\<lparr>pkt_src := 0, pkt_dest := 0, pkt_ttl := 0, pkt_type := 0xFF, pkt_length := 0, pkt_prio := 0,
       pkt_data := replicate MAX_NETWORK_PAYLOAD 0\<rparr>"

section \<open>The free queue\<close>

definition insert_tx_fq :: "nat \<Rightarrow> tx_state \<Rightarrow> tx_state option" where
  "insert_tx_fq b s = do {
     s \<leftarrow> (case tx_head_fq s of
            None \<Rightarrow> Some (s\<lparr>tx_head_fq := Some b, tx_tail_fq := Some b\<rparr>)
          | Some _ \<Rightarrow> do {
              t \<leftarrow> tx_tail_fq s;
              Some (s\<lparr>tb_next := (tb_next s)(t := Some b), tx_tail_fq := Some b\<rparr>)
            });
     Some (s\<lparr>tb_status := (tb_status s)(b := EMPTY), tb_next := (tb_next s)(b := None),
             tb_pkt := (tb_pkt s)(b := initialise_nw_packet (tb_pkt s b)),
             count_fq := count_fq s + 1\<rparr>)
   }"

definition remove_tx_fq :: "tx_state \<Rightarrow> nat option \<times> tx_state" where
  "remove_tx_fq s =
     (case tx_head_fq s of
        None \<Rightarrow> (None, s)
      | Some h \<Rightarrow>
          let s = (if tx_head_fq s = tx_tail_fq s then s\<lparr>tx_tail_fq := None\<rparr> else s)
          in (Some h, s\<lparr>tx_head_fq := tb_next s h, count_fq := count_fq s - 1\<rparr>))"

section \<open>The active queue\<close>

text \<open>
  The search loop both queues of segments and packets use: from \<open>ptr\<close>, with \<open>prev\<close>
  behind it, to the first buffer of a lower priority than \<open>p\<close>.
\<close>

partial_function (option) find_lower ::
    "(nat \<Rightarrow> i8) \<Rightarrow> (nat \<Rightarrow> nat option) \<Rightarrow> i8 \<Rightarrow> nat option \<Rightarrow> nat option \<Rightarrow> (nat option \<times> nat option) option" where
  "find_lower pr nx p prev ptr =
     (case ptr of
        None \<Rightarrow> Some (prev, None)
      | Some a \<Rightarrow>
          if sint (pr a) < sint p then Some (prev, Some a)
          else find_lower pr nx p (Some a) (nx a))"

declare find_lower.simps [code]

definition insert_tx_aq :: "NW_Packet \<Rightarrow> tx_state \<Rightarrow> (i8 \<times> tx_state) option" where
  "insert_tx_aq pkt s =
     (case remove_tx_fq s of
        (None, s) \<Rightarrow> Some (NRK_ERROR, s)
      | (Some b, s) \<Rightarrow>
          if tx_head_aq s = None then
            Some (NRK_OK, s\<lparr>tb_pkt := (tb_pkt s)(b := pkt), tb_status := (tb_status s)(b := FULL),
              tb_prio := (tb_prio s)(b := pkt_prio pkt), tb_next := (tb_next s)(b := None),
              tx_head_aq := Some b, tx_tail_aq := Some b, count_aq := count_aq s + 1\<rparr>)
          else do {
            (prev, ptr) \<leftarrow> find_lower (tb_prio s) (tb_next s) (pkt_prio pkt) None (tx_head_aq s);
            let s = s\<lparr>tb_pkt := (tb_pkt s)(b := pkt), tb_status := (tb_status s)(b := FULL),
                      tb_prio := (tb_prio s)(b := pkt_prio pkt), tb_next := (tb_next s)(b := ptr)\<rparr>;
            let s = (case prev of
                       None \<Rightarrow> s\<lparr>tx_head_aq := Some b\<rparr>
                     | Some p \<Rightarrow>
                         let s = s\<lparr>tb_next := (tb_next s)(p := Some b)\<rparr>
                         in if prev = tx_tail_aq s then s\<lparr>tx_tail_aq := Some b\<rparr> else s);
            Some (NRK_OK, s\<lparr>count_aq := count_aq s + 1\<rparr>)
          })"

definition remove_tx_aq :: "tx_state \<Rightarrow> nat option \<times> tx_state" where
  "remove_tx_aq s =
     (case tx_head_aq s of
        None \<Rightarrow> (None, s)
      | Some h \<Rightarrow>
          let s = (if tx_head_aq s = tx_tail_aq s then s\<lparr>tx_tail_aq := None\<rparr> else s)
          in (Some h, s\<lparr>tx_head_aq := tb_next s h, count_aq := count_aq s - 1\<rparr>))"

text \<open>\<^verbatim>\<open>convert_ptr_to_index\<close>: the length of the array for any other pointer.\<close>

definition convert_ptr_to_index :: "nat option \<Rightarrow> i8" where
  "convert_ptr_to_index ptr =
     (case scan (\<lambda>i. ptr = Some i) 0 MAX_TX_QUEUE_SIZE of
        Some i \<Rightarrow> of_nat i
      | None \<Rightarrow> of_nat MAX_TX_QUEUE_SIZE)"

text \<open>The transmit part of \<^verbatim>\<open>initialise_buffer_manager\<close> (lines 558-573).\<close>

fun init_tx_bufs :: "nat list \<Rightarrow> tx_state \<Rightarrow> tx_state option" where
  "init_tx_bufs [] s = Some s"
| "init_tx_bufs (i # is) s = do {
     s \<leftarrow> insert_tx_fq i (s\<lparr>tb_status := (tb_status s)(i := EMPTY), tb_next := (tb_next s)(i := None),
            tb_pkt := (tb_pkt s)(i := initialise_nw_packet (tb_pkt s i))\<rparr>);
     init_tx_bufs is s
   }"

definition initialise_tx :: "tx_state \<Rightarrow> tx_state option" where
  "initialise_tx s =
     init_tx_bufs [0 ..< MAX_TX_QUEUE_SIZE]
       (s\<lparr>tx_head_fq := None, tx_tail_fq := None, tx_head_aq := None, tx_tail_aq := None,
          count_fq := 0, count_aq := 0\<rparr>)"

section \<open>Well-formed queues\<close>

text \<open>
  The active queue is the list \<open>as\<close> of buffers, the free queue the list \<open>fs\<close>; the
  tail pointers and the counts agree with them.
\<close>

definition tx_ok :: "tx_state \<Rightarrow> nat list \<Rightarrow> nat list \<Rightarrow> bool" where
  "tx_ok s as fs \<longleftrightarrow>
     sll (tb_next s) (tx_head_aq s) as \<and> sll (tb_next s) (tx_head_fq s) fs \<and>
     tx_tail_aq s = lasto as \<and> tx_tail_fq s = lasto fs \<and>
     distinct (as @ fs) \<and> set (as @ fs) \<subseteq> {..< MAX_TX_QUEUE_SIZE} \<and>
     count_aq s = of_nat (length as) \<and> count_fq s = of_nat (length fs) \<and>
     (\<forall>a \<in> set as. tb_status s a = FULL \<and> tb_prio s a = pkt_prio (tb_pkt s a)) \<and>
     (\<forall>f \<in> set fs. tb_status s f = EMPTY)"

lemma tx_okD:
  assumes "tx_ok s as fs"
  shows "sll (tb_next s) (tx_head_aq s) as" "sll (tb_next s) (tx_head_fq s) fs"
    "tx_head_aq s = hdo as" "tx_head_fq s = hdo fs" "tx_tail_aq s = lasto as" "tx_tail_fq s = lasto fs"
    "distinct as" "distinct fs" "set as \<inter> set fs = {}" "set (as @ fs) \<subseteq> {..< MAX_TX_QUEUE_SIZE}"
    "count_aq s = of_nat (length as)" "count_fq s = of_nat (length fs)"
    "\<forall>a \<in> set as. tb_status s a = FULL \<and> tb_prio s a = pkt_prio (tb_pkt s a)"
    "\<forall>f \<in> set fs. tb_status s f = EMPTY"
  using assms sll_hdo by (auto simp: tx_ok_def)

lemma find_lower_list:
  assumes "sll nx ptr as"
  shows "find_lower pr nx p prev ptr =
    Some (if takeWhile (\<lambda>a. \<not> sint (pr a) < sint p) as = [] then prev
          else Some (last (takeWhile (\<lambda>a. \<not> sint (pr a) < sint p) as)),
          hdo (dropWhile (\<lambda>a. \<not> sint (pr a) < sint p) as))"
  using assms
proof (induction as arbitrary: ptr prev)
  case Nil
  then show ?case by (simp add: find_lower.simps)
next
  case (Cons a as)
  then show ?case by (simp add: find_lower.simps [of _ _ _ _ "Some a"])
qed

lemma byte_count: "(of_nat (Suc n) :: i8) - 1 = of_nat n" "(of_nat n :: i8) + 1 = of_nat (Suc n)"
  by simp_all

lemma remove_tx_fq_ok:
  assumes "tx_ok s as (f # fs)"
  shows "\<exists>s'. remove_tx_fq s = (Some f, s') \<and> tx_ok s' as fs \<and> tb_pkt s' = tb_pkt s"
proof -
  note D = tx_okD [OF assms]
  have one: "tx_head_fq s = tx_tail_fq s \<longleftrightarrow> fs = []"
    using D(4,6,8) lasto_in [of fs f] by (auto simp: lasto_Cons)
  let ?s = "(if fs = [] then s\<lparr>tx_tail_fq := None\<rparr> else s)\<lparr>tx_head_fq := tb_next s f, count_fq := count_fq s - 1\<rparr>"
  have "remove_tx_fq s = (Some f, ?s)"
    using D(4) one by (simp add: remove_tx_fq_def Let_def)
  moreover have "tx_ok ?s as fs"
    using assms D(2,6) byte_count(1) [of "length fs"] by (auto simp: tx_ok_def lasto_Cons)
  ultimately show ?thesis by auto
qed

lemma remove_tx_fq_empty: "tx_ok s as [] \<Longrightarrow> remove_tx_fq s = (None, s)"
  using tx_okD(4) [of s as "[]"] by (simp add: remove_tx_fq_def)

lemma remove_tx_aq_ok:
  assumes "tx_ok s (a # as) fs"
  shows "\<exists>s'. remove_tx_aq s = (Some a, s') \<and> tx_ok s' as fs \<and> tb_pkt s' = tb_pkt s"
proof -
  note D = tx_okD [OF assms]
  have one: "tx_head_aq s = tx_tail_aq s \<longleftrightarrow> as = []"
    using D(3,5,7) lasto_in [of as a] by (auto simp: lasto_Cons)
  let ?s = "(if as = [] then s\<lparr>tx_tail_aq := None\<rparr> else s)\<lparr>tx_head_aq := tb_next s a, count_aq := count_aq s - 1\<rparr>"
  have "remove_tx_aq s = (Some a, ?s)"
    using D(3) one by (simp add: remove_tx_aq_def Let_def)
  moreover have "tx_ok ?s as fs"
    using assms D(1,5) byte_count(1) [of "length as"] by (auto simp: tx_ok_def lasto_Cons)
  ultimately show ?thesis by auto
qed

lemma insert_tx_fq_ok:
  assumes ok: "tx_ok s as fs" and b: "b < MAX_TX_QUEUE_SIZE" "b \<notin> set (as @ fs)"
  shows "\<exists>s'. insert_tx_fq b s = Some s' \<and> tx_ok s' as (fs @ [b]) \<and>
    (\<forall>a \<in> set as. tb_pkt s' a = tb_pkt s a)"
proof (cases "fs = []")
  case True
  with ok b tx_okD(4) [OF ok] show ?thesis
    by (auto simp: insert_tx_fq_def tx_ok_def)
next
  case False
  note D = tx_okD [OF ok]
  obtain h where h: "tx_head_fq s = Some h" using D(4) False by (cases fs) auto
  have t: "tx_tail_fq s = Some (last fs)" using D(6) False by (simp add: lasto_def)
  have l: "last fs \<in> set fs" "last fs \<notin> set as" "last fs \<noteq> b" using False D(9) b by (auto simp: disjoint_iff)
  have "sll ((tb_next s)(b := hdo [], last fs := Some b)) (tx_head_fq s) (fs @ [b])"
    using sll_splice [of "tb_next s" "tx_head_fq s" fs "[]" b] D(2,8) False b by simp
  then have f: "sll ((tb_next s)(last fs := Some b, b := None)) (tx_head_fq s) (fs @ [b])"
    using l(3) by (simp add: fun_upd_twist)
  have a: "sll ((tb_next s)(last fs := Some b, b := None)) (tx_head_aq s) as"
    using D(1) l b by simp
  let ?s = "s\<lparr>tb_next := (tb_next s)(last fs := Some b, b := None), tx_tail_fq := Some b,
      tb_status := (tb_status s)(b := EMPTY), tb_pkt := (tb_pkt s)(b := initialise_nw_packet (tb_pkt s b)),
      count_fq := count_fq s + 1\<rparr>"
  have "insert_tx_fq b s = Some ?s" using h t by (simp add: insert_tx_fq_def)
  moreover have "tx_ok ?s as (fs @ [b])"
    using ok b f a D by (auto simp: tx_ok_def)
  ultimately show ?thesis using b by auto
qed

lemma insert_tx_aq_ok:
  assumes ok: "tx_ok s as (f # fs)"
  shows "\<exists>s'. insert_tx_aq p s = Some (NRK_OK, s') \<and>
    tx_ok s' (pinsert (\<lambda>a. sint (tb_prio s a) < sint (pkt_prio p)) f as) fs \<and>
    tb_pkt s' = (tb_pkt s)(f := p)"
proof -
  let ?b = "\<lambda>a. sint (tb_prio s a) < sint (pkt_prio p)"
  obtain s1 where s1: "remove_tx_fq s = (Some f, s1)" "tx_ok s1 as fs" "tb_pkt s1 = tb_pkt s"
    using remove_tx_fq_ok [OF ok] by blast
  have pr: "tb_prio s1 = tb_prio s" "tb_next s1 = tb_next s" using s1(1)
    by (auto simp: remove_tx_fq_def Let_def split: option.splits if_splits)
  note D = tx_okD [OF s1(2)]
  have f: "f \<notin> set as" "f \<notin> set fs" "f < MAX_TX_QUEUE_SIZE" using ok by (auto simp: tx_ok_def)
  have ffs: "sll nx p fs = sll (nx(f := v)) p fs" for nx p v using f by simp
  define xs where "xs = takeWhile (\<lambda>a. \<not> ?b a) as"
  define ys where "ys = dropWhile (\<lambda>a. \<not> ?b a) as"
  have as: "as = xs @ ys" "pinsert ?b f as = xs @ f # ys"
    by (simp_all add: xs_def ys_def pinsert_def)
  show ?thesis
  proof (cases "as = []")
    case True
    with s1 f D(2,3) show ?thesis by (auto simp: insert_tx_aq_def tx_ok_def)
  next
    case False
    then have ne: "tx_head_aq s1 \<noteq> None" using D(3) by simp
    have find: "find_lower (tb_prio s1) (tb_next s1) (pkt_prio p) None (tx_head_aq s1) =
        Some (lasto xs, hdo ys)"
      using find_lower_list [OF D(1), of "tb_prio s" "pkt_prio p" None]
      by (simp add: pr xs_def ys_def lasto_def)
    show ?thesis
    proof (cases "xs = []")
      case True
      have "sll ((tb_next s1)(f := hdo as)) (hdo as) as" using D(1,3) f by simp
      with True False s1 ne find f as D(2) show ?thesis
        by (auto simp: insert_tx_aq_def tx_ok_def Let_def lasto_Cons)
    next
      case xs: False
      have l: "lasto xs = Some (last xs)" "last xs \<in> set as" "last xs \<notin> set fs" "last xs \<noteq> f"
        using xs as D(9) f by (auto simp: lasto_def disjoint_iff)
      have "sll ((tb_next s1)(f := hdo ys, last xs := Some f)) (tx_head_aq s1) (xs @ f # ys)"
        using sll_splice [of "tb_next s1" "tx_head_aq s1" xs ys f] D(1,7) xs f as(1) by simp
      moreover have "sll ((tb_next s1)(f := hdo ys, last xs := Some f)) (tx_head_fq s1) fs"
        using D(2) f l by simp
      moreover have "tx_tail_aq s1 = Some (last xs) \<longleftrightarrow> ys = []"
        "lasto (xs @ f # ys) = (if ys = [] then Some f else tx_tail_aq s1)"
        using lasto_splice [of xs ys] D(5,7) as(1) xs by auto
      ultimately show ?thesis using s1 ne find f as l xs pr
        by (auto simp: insert_tx_aq_def tx_ok_def Let_def)
    qed
  qed
qed

section \<open>The transmit queue as a queue of packets\<close>

text \<open>\<open>tx_holds s ps\<close>: the active queue carries the packets \<open>ps\<close>, every other buffer is free.\<close>

definition tx_holds :: "tx_state \<Rightarrow> NW_Packet list \<Rightarrow> bool" where
  "tx_holds s ps \<longleftrightarrow>
     (\<exists>as fs. tx_ok s as fs \<and> length as + length fs = MAX_TX_QUEUE_SIZE \<and> map (tb_pkt s) as = ps)"

lemma tx_holdsI:
  "\<lbrakk>tx_ok s as fs; length as + length fs = MAX_TX_QUEUE_SIZE; map (tb_pkt s) as = ps\<rbrakk> \<Longrightarrow> tx_holds s ps"
  by (auto simp: tx_holds_def)

definition tx_enq :: "NW_Packet \<Rightarrow> tx_state \<Rightarrow> tx_state option" where
  "tx_enq p s = do { (r, s) \<leftarrow> insert_tx_aq p s; if r = NRK_OK then Some s else None }"

definition tx_front :: "tx_state \<Rightarrow> NW_Packet option" where
  "tx_front s = map_option (tb_pkt s) (tx_head_aq s)"

definition tx_key :: "NW_Packet \<Rightarrow> int" where
  "tx_key p = sint (pkt_prio p)"

definition tx_room :: "NW_Packet list \<Rightarrow> NW_Packet \<Rightarrow> bool" where
  "tx_room ps p \<longleftrightarrow> length ps < MAX_TX_QUEUE_SIZE"

text \<open>
  What \<^verbatim>\<open>nl_tx_task\<close> does with a packet (\<^verbatim>\<open>NetworkLayer.c\<close>, lines 947-992): it takes
  the first buffer off the active queue, reads the packet, and gives the buffer back.
\<close>

definition tx_serve :: "tx_state \<Rightarrow> (NW_Packet \<times> tx_state) option" where
  "tx_serve s =
     (case remove_tx_aq s of
        (None, s) \<Rightarrow> None
      | (Some b, s) \<Rightarrow> do { let p = tb_pkt s b; s \<leftarrow> insert_tx_fq b s; Some (p, s) })"

lemma tx_enq_holds:
  assumes h: "tx_holds s ps" and room: "tx_room ps p"
  shows "\<exists>s'. insert_tx_aq p s = Some (NRK_OK, s') \<and> tx_holds s' (pinsert (\<lambda>q. tx_key q < tx_key p) p ps)"
proof -
  obtain as fs where ok: "tx_ok s as fs" and n: "length as + length fs = MAX_TX_QUEUE_SIZE"
    and ps: "map (tb_pkt s) as = ps" using h by (auto simp: tx_holds_def)
  obtain f fs' where fs: "fs = f # fs'" using room n ps by (cases fs) (auto simp: tx_room_def)
  let ?b = "\<lambda>a. sint (tb_prio s a) < sint (pkt_prio p)"
  obtain s' where s': "insert_tx_aq p s = Some (NRK_OK, s')" "tx_ok s' (pinsert ?b f as) fs'"
    "tb_pkt s' = (tb_pkt s)(f := p)"
    using insert_tx_aq_ok [OF ok [unfolded fs], of p] by blast
  have f: "f \<notin> set as" using ok fs by (auto simp: tx_ok_def)
  have "map (tb_pkt s') (pinsert ?b f as) = pinsert (\<lambda>q. tx_key q < tx_key p) p ps"
  proof -
    have "pinsert ?b f as = pinsert (\<lambda>a. tx_key ((tb_pkt s') a) < tx_key p) f as"
      using tx_okD(13) [OF ok] f by (intro pinsert_cong) (auto simp: s'(3) tx_key_def)
    then show ?thesis
      using map_pinsert [of "tb_pkt s'" "\<lambda>q. tx_key q < tx_key p" f as] ps f
      by (simp add: s'(3) map_fun_upd)
  qed
  moreover have "length (pinsert ?b f as) + length fs' = MAX_TX_QUEUE_SIZE" using n fs by simp
  ultimately show ?thesis using s'(1) tx_holdsI [OF s'(2)] by blast
qed

lemma tx_full:
  assumes "tx_holds s ps" "\<not> tx_room ps p"
  shows "insert_tx_aq p s = Some (NRK_ERROR, s)"
proof -
  obtain as fs where "tx_ok s as fs" "length as + length fs = MAX_TX_QUEUE_SIZE" "length ps = length as"
    using assms(1) by (auto simp: tx_holds_def)
  moreover then have "fs = []" using assms(2) by (cases fs) (simp_all add: tx_room_def)
  ultimately have "tx_ok s as []" by simp
  then show ?thesis by (simp add: insert_tx_aq_def remove_tx_fq_empty)
qed

lemma tx_front_holds: "tx_holds s ps \<Longrightarrow> tx_front s = (case ps of [] \<Rightarrow> None | p # _ \<Rightarrow> Some p)"
  by (auto simp: tx_holds_def tx_front_def tx_okD(3) hdo_def split: list.splits)

lemma tx_serve_holds:
  assumes "tx_holds s (p # ps)"
  shows "\<exists>s'. tx_serve s = Some (p, s') \<and> tx_holds s' ps"
proof -
  obtain a as fs where ok: "tx_ok s (a # as) fs" and n: "length (a # as) + length fs = MAX_TX_QUEUE_SIZE"
    and p: "tb_pkt s a = p" "map (tb_pkt s) as = ps"
    using assms by (auto simp: tx_holds_def map_eq_Cons_conv)
  obtain s1 where s1: "remove_tx_aq s = (Some a, s1)" "tx_ok s1 as fs" "tb_pkt s1 = tb_pkt s"
    using remove_tx_aq_ok [OF ok] by blast
  have a: "a < MAX_TX_QUEUE_SIZE" "a \<notin> set (as @ fs)" using ok by (auto simp: tx_ok_def)
  obtain s2 where s2: "insert_tx_fq a s1 = Some s2" "tx_ok s2 as (fs @ [a])"
    "\<forall>b \<in> set as. tb_pkt s2 b = tb_pkt s1 b"
    using insert_tx_fq_ok [OF s1(2) a] by blast
  have "map (tb_pkt s2) as = ps" using s2(3) p(2) s1(3) by auto
  moreover have "tx_serve s = Some (p, s2)" using s1 s2(1) p(1) by (simp add: tx_serve_def)
  ultimately show ?thesis using tx_holdsI [OF s2(2), of ps] n by auto
qed

interpretation tx: prio_queue_pop tx_holds tx_enq tx_front tx_key tx_room tx_serve
proof unfold_locales
  fix s ps p
  assume "tx_holds s ps" "tx_room ps p"
  from tx_enq_holds [OF this]
  show "\<exists>s'. tx_enq p s = Some s' \<and> tx_holds s' (pinsert (\<lambda>q. tx_key q < tx_key p) p ps)"
    by (auto simp: tx_enq_def)
qed (simp_all add: tx_front_holds tx_serve_holds)

lemma init_tx_bufs_ok:
  assumes "tx_ok s [] fs" "distinct (fs @ bs)" "set bs \<subseteq> {..< MAX_TX_QUEUE_SIZE}"
  shows "\<exists>s'. init_tx_bufs bs s = Some s' \<and> tx_ok s' [] (fs @ bs)"
  using assms
proof (induction bs arbitrary: s fs)
  case (Cons b bs)
  let ?s = "s\<lparr>tb_status := (tb_status s)(b := EMPTY), tb_next := (tb_next s)(b := None),
              tb_pkt := (tb_pkt s)(b := initialise_nw_packet (tb_pkt s b))\<rparr>"
  have "tx_ok ?s [] fs" using Cons.prems(1,2) by (auto simp: tx_ok_def)
  then obtain s1 where "insert_tx_fq b ?s = Some s1" "tx_ok s1 [] (fs @ [b])"
    using insert_tx_fq_ok [of ?s "[]" fs b] Cons.prems(2,3) by auto
  moreover then obtain s' where "init_tx_bufs bs s1 = Some s'" "tx_ok s' [] ((fs @ [b]) @ bs)"
    using Cons.IH [of s1 "fs @ [b]"] Cons.prems(2,3) by auto
  ultimately show ?case by simp
qed auto

lemma initialise_tx_holds: "\<exists>s'. initialise_tx s = Some s' \<and> tx_holds s' []"
proof -
  let ?s = "s\<lparr>tx_head_fq := None, tx_tail_fq := None, tx_head_aq := None, tx_tail_aq := None,
              count_fq := 0, count_aq := 0\<rparr>"
  have "tx_ok ?s [] []" by (simp add: tx_ok_def)
  then obtain s' where "initialise_tx s = Some s'" "tx_ok s' [] [0 ..< MAX_TX_QUEUE_SIZE]"
    using init_tx_bufs_ok [of ?s "[]" "[0 ..< MAX_TX_QUEUE_SIZE]"]
    by (auto simp: initialise_tx_def atLeast0LessThan)
  then show ?thesis by (auto simp: tx_holds_def)
qed

lemma legal_tx_room:
  "length ps + length qs \<le> MAX_TX_QUEUE_SIZE \<Longrightarrow> legal_ops tx_key tx_room may (map Enq ps) qs"
  by (induction ps arbitrary: qs) (auto simp: tx_room_def)

section \<open>Properties\<close>

text \<open>
  C15: Queueing a packet for transmission. While a buffer is free the packet goes in front of
  the first queued packet of a lower priority, behind those of its own, and the call returns
  \<^verbatim>\<open>NRK_OK\<close>; when all four buffers are in use it returns \<^verbatim>\<open>NRK_ERROR\<close> and changes
  nothing. The two queues stay disjoint chains whose tails and counts agree with them.
\<close>

theorem insert_tx_aq_functional:
  assumes "tx_holds s ps"
  shows "\<exists>r s'. insert_tx_aq p s = Some (r, s') \<and>
    (if length ps < MAX_TX_QUEUE_SIZE
     then r = NRK_OK \<and> tx_holds s' (pinsert (\<lambda>q. sint (pkt_prio q) < sint (pkt_prio p)) p ps)
     else r = NRK_ERROR \<and> s' = s)"
  using tx_enq_holds [OF assms, of p] tx_full [OF assms, of p]
  by (auto simp: tx_room_def tx_key_def)

theorem insert_tx_aq_functional_witness:
  "\<exists>s p r s'. tx_holds s [] \<and> insert_tx_aq p s = Some (r, s') \<and> r = NRK_OK \<and> tx_holds s' [p]"
proof -
  fix s0 :: tx_state
  obtain s where s: "tx_holds s []" using initialise_tx_holds [of s0] by blast
  from insert_tx_aq_functional [OF s, of p] s show ?thesis by (auto simp: MAX_TX_QUEUE_SIZE_def)
qed

text \<open>
  C14: The transmit queue as a whole. From the initialised state up to four packets can be
  queued, and serving the queue until it is empty sends exactly these packets, by descending
  priority and in order of arrival within a priority, and gives every buffer back.
\<close>

theorem tx_queue_service_order:
  assumes "length ps \<le> MAX_TX_QUEUE_SIZE"
  shows "\<exists>s1 s2 s3 qs. initialise_tx s = Some s1 \<and> enq_all tx_enq ps s1 = Some s2 \<and>
    drain tx_serve (length ps) s2 = Some (qs, s3) \<and> tx_holds s3 [] \<and>
    descending tx_key qs \<and> (\<forall>k. filter (\<lambda>q. tx_key q = k) qs = filter (\<lambda>q. tx_key q = k) ps)"
proof -
  obtain s1 where "initialise_tx s = Some s1" "tx_holds s1 []" using initialise_tx_holds by blast
  then show ?thesis using tx.service_order [OF _ legal_tx_room [of ps "[]"]] assms by simp
qed

theorem tx_queue_service_order_witness:
  "\<forall>s p q. \<exists>s1 s2 s3 qs. initialise_tx s = Some s1 \<and> enq_all tx_enq [p, q] s1 = Some s2 \<and>
    drain tx_serve 2 s2 = Some (qs, s3) \<and> tx_holds s3 [] \<and> descending tx_key qs"
proof (intro allI)
  fix s p q
  show "\<exists>s1 s2 s3 qs. initialise_tx s = Some s1 \<and> enq_all tx_enq [p, q] s1 = Some s2 \<and>
    drain tx_serve 2 s2 = Some (qs, s3) \<and> tx_holds s3 [] \<and> descending tx_key qs"
    using tx_queue_service_order [of "[p, q]" s] by (simp add: MAX_TX_QUEUE_SIZE_def numeral_2_eq_2) blast
qed

end
