(* ===== verification/Net_Rx.thy ===== *)
theory Net_Rx
  imports Net_Tx
begin

text \<open>
  The receive side of \<^verbatim>\<open>src/src/net/networkstack/BufferManager.c\<close>. A pool of eight
  buffers is shared out to the ports. A buffer of a port is on its port queue, in order of
  priority, while it carries a segment nobody has read; otherwise it is on the free queue,
  \<open>EMPTY\<close>, or \<open>FULL\<close> while the application works on its segment. A pointer to
  \<^verbatim>\<open>rx_buf_udp[i]\<close> is the index \<open>i\<close>. The debug output (\<^verbatim>\<open>DEBUG_BM\<close> is 0) is
  left out.
\<close>

section \<open>Data\<close>

definition OVERWRITE :: i8 where "OVERWRITE = 0"
definition DROP :: i8 where "DROP = 1"

record Port =
  pno :: u8
  data_arrived_signal :: i8
  send_done_signal :: i8

record ReceiveBufferManager =
  rbm_pid :: i8
  rbm_pindex :: i8
  head_fq :: "nat option"
  tail_fq :: "nat option"
  head_pq :: "nat option"
  tail_pq :: "nat option"
  countTotal :: i8
  countFree :: i8

text \<open>\<^verbatim>\<open>rx_buf_udp\<close> field by field, the other globals of the file, and the ports.\<close>

record rx_state =
  rb_seg :: "nat \<Rightarrow> Transport_Segment_UDP"
  rb_status :: "nat \<Rightarrow> i8"
  rb_prio :: "nat \<Rightarrow> i8"
  rb_rssi :: "nat \<Rightarrow> i8"
  rb_srcAddr :: "nat \<Rightarrow> u16"
  rb_next :: "nat \<Rightarrow> nat option"
  num_bufs_free :: i8
  rx_buf_mgr :: "ReceiveBufferManager list"
  ports :: "Port list"
  excessPolicySettings :: u32

definition upd_rbm :: "i8 \<Rightarrow> (ReceiveBufferManager \<Rightarrow> ReceiveBufferManager) \<Rightarrow> rx_state \<Rightarrow> rx_state" where
  "upd_rbm i f s = s\<lparr>rx_buf_mgr := (rx_buf_mgr s)[nat (sint i) := f (rx_buf_mgr s ! nat (sint i))]\<rparr>"

text \<open>The receive part of \<^verbatim>\<open>initialise_buffer_manager\<close> (lines 537-556 and 576).\<close>

definition initialise_rx :: "rx_state \<Rightarrow> rx_state" where
  "initialise_rx s =
     s\<lparr>rb_status := (\<lambda>i. if i < MAX_RX_QUEUE_SIZE then UNALLOCATED else rb_status s i),
       rb_next := (\<lambda>i. if i < MAX_RX_QUEUE_SIZE then None else rb_next s i),
       num_bufs_free := of_nat MAX_RX_QUEUE_SIZE,
       rx_buf_mgr := map (\<lambda>m. m\<lparr>rbm_pid := 0, rbm_pindex := - 1, head_fq := None, tail_fq := None,
                                 head_pq := None, tail_pq := None, countTotal := 0, countFree := 0\<rparr>)
                       (rx_buf_mgr s),
       excessPolicySettings := 0\<rparr>"

section \<open>Looking things up\<close>

definition is_excess_policy_valid :: "i8 \<Rightarrow> bool" where
  "is_excess_policy_valid pref \<longleftrightarrow> pref = OVERWRITE \<or> pref = DROP"

definition get_index_unallocated_rx_buf :: "rx_state \<Rightarrow> i8" where
  "get_index_unallocated_rx_buf s =
     (case scan (\<lambda>i. rb_status s i = UNALLOCATED) 0 MAX_RX_QUEUE_SIZE of
        Some i \<Rightarrow> of_nat i
      | None \<Rightarrow> NRK_ERROR)"

text \<open>\<^verbatim>\<open>ports[pindex]\<close> is read for every element with a port: \<open>None\<close> outside the array.\<close>

fun rbm_index_from :: "u8 \<Rightarrow> rx_state \<Rightarrow> nat list \<Rightarrow> i8 option" where
  "rbm_index_from port s [] = Some NRK_ERROR"
| "rbm_index_from port s (i # is) = do {
     m \<leftarrow> at (rx_buf_mgr s) (int i);
     if rbm_pindex m \<noteq> - 1 then do {
       p \<leftarrow> at (ports s) (sint (rbm_pindex m));
       if pno p = port then Some (of_nat i) else rbm_index_from port s is
     }
     else rbm_index_from port s is
   }"

definition port_to_rbm_index :: "u8 \<Rightarrow> rx_state \<Rightarrow> i8 option" where
  "port_to_rbm_index port s = rbm_index_from port s [0 ..< NUM_PORTS]"

definition port_to_port_index :: "u8 \<Rightarrow> rx_state \<Rightarrow> i8" where
  "port_to_port_index port s =
     (case scan (\<lambda>i. pno (ports s ! i) = port) 0 NUM_PORTS of
        Some i \<Rightarrow> of_nat i
      | None \<Rightarrow> NRK_ERROR)"

section \<open>The free queue of a port\<close>

definition insert_rx_fq :: "nat \<Rightarrow> i8 \<Rightarrow> i8 \<Rightarrow> rx_state \<Rightarrow> rx_state option" where
  "insert_rx_fq buf i status s = do {
     m \<leftarrow> at (rx_buf_mgr s) (sint i);
     s \<leftarrow> (if head_fq m = None then
             Some (upd_rbm i (\<lambda>m. m\<lparr>head_fq := Some buf, tail_fq := Some buf\<rparr>)
                     (s\<lparr>rb_next := (rb_next s)(buf := None)\<rparr>))
           else do {
             t \<leftarrow> tail_fq m;
             Some (upd_rbm i (\<lambda>m. m\<lparr>tail_fq := Some buf\<rparr>)
                     (s\<lparr>rb_next := ((rb_next s)(t := Some buf))(buf := None)\<rparr>))
           });
     Some (if status = EMPTY
           then upd_rbm i (\<lambda>m. m\<lparr>countFree := countFree m + 1\<rparr>)
                  (s\<lparr>rb_status := (rb_status s)(buf := EMPTY)\<rparr>)
           else s)
   }"

text \<open>
  The loop of \<^verbatim>\<open>remove_rx_fq\<close>: to the first buffer \<open>ptr\<close> with the status looked for,
  \<open>prev\<close> before it.
\<close>

partial_function (option) find_status ::
    "i8 \<Rightarrow> (nat \<Rightarrow> i8) \<Rightarrow> (nat \<Rightarrow> nat option) \<Rightarrow> nat option \<Rightarrow> nat option \<Rightarrow> (nat option \<times> nat option) option" where
  "find_status status st nx prev ptr =
     (case ptr of
        None \<Rightarrow> Some (prev, None)
      | Some a \<Rightarrow>
          if (if status = EMPTY then st a = EMPTY else st a = FULL) then Some (prev, Some a)
          else find_status status st nx (Some a) (nx a))"

declare find_status.simps [code]

definition remove_rx_fq :: "i8 \<Rightarrow> i8 \<Rightarrow> rx_state \<Rightarrow> (nat option \<times> rx_state) option" where
  "remove_rx_fq i status s = do {
     m \<leftarrow> at (rx_buf_mgr s) (sint i);
     (prev, ptr) \<leftarrow> find_status status (rb_status s) (rb_next s) None (head_fq m);
     case ptr of
       None \<Rightarrow> Some (None, s)
     | Some p \<Rightarrow>
         let count = (\<lambda>m. if status = EMPTY then m\<lparr>countFree := countFree m - 1\<rparr> else m)
         in (case prev of
               None \<Rightarrow>
                 Some (Some p, upd_rbm i (\<lambda>m. count
                   ((if head_fq m = tail_fq m then m\<lparr>tail_fq := None\<rparr> else m)\<lparr>head_fq := rb_next s p\<rparr>)) s)
             | Some q \<Rightarrow>
                 Some (Some p, upd_rbm i count (s\<lparr>rb_next := (rb_next s)(q := rb_next s p)\<rparr>)))
   }"

section \<open>The port queue\<close>

definition remove_rx_pq :: "i8 \<Rightarrow> rx_state \<Rightarrow> (nat option \<times> rx_state) option" where
  "remove_rx_pq i s = do {
     m \<leftarrow> at (rx_buf_mgr s) (sint i);
     case head_pq m of
       None \<Rightarrow> Some (None, s)
     | Some h \<Rightarrow>
         Some (Some h, upd_rbm i (\<lambda>m.
           (if head_pq m = tail_pq m then m\<lparr>tail_pq := None\<rparr> else m)\<lparr>head_pq := rb_next s h\<rparr>) s)
   }"

text \<open>The assignments that store a segment in a buffer.\<close>

definition store_seg :: "nat \<Rightarrow> Transport_Segment_UDP \<Rightarrow> i8 \<Rightarrow> u16 \<Rightarrow> i8 \<Rightarrow> rx_state \<Rightarrow> rx_state" where
  "store_seg b seg prio addr rssi s =
     s\<lparr>rb_seg := (rb_seg s)(b := seg), rb_prio := (rb_prio s)(b := prio),
       rb_srcAddr := (rb_srcAddr s)(b := addr), rb_rssi := (rb_rssi s)(b := rssi)\<rparr>"

text \<open>\<^verbatim>\<open>while(qtr -> next != tail) qtr = qtr -> next;\<close>\<close>

partial_function (option) find_before :: "(nat \<Rightarrow> nat option) \<Rightarrow> nat \<Rightarrow> nat option \<Rightarrow> nat option" where
  "find_before nx t qtr =
     (case qtr of
        None \<Rightarrow> None
      | Some a \<Rightarrow> if nx a = Some t then Some a else find_before nx t (nx a))"

declare find_before.simps [code]

text \<open>Lines 783-818: there is a buffer \<open>b\<close> for the segment.\<close>

definition enqueue_seg ::
    "i8 \<Rightarrow> nat \<Rightarrow> nat option \<Rightarrow> nat option \<Rightarrow> Transport_Segment_UDP \<Rightarrow> i8 \<Rightarrow> u16 \<Rightarrow> i8 \<Rightarrow> rx_state \<Rightarrow> rx_state" where
  "enqueue_seg i b prev ptr seg prio addr rssi s =
     (let s = store_seg b seg prio addr rssi s;
          s = s\<lparr>rb_status := (rb_status s)(b := FULL), rb_next := (rb_next s)(b := ptr)\<rparr>;
          m = rx_buf_mgr s ! nat (sint i)
      in if head_pq m = None then upd_rbm i (\<lambda>m. m\<lparr>head_pq := Some b, tail_pq := Some b\<rparr>) s
      else
        case prev of
          None \<Rightarrow> upd_rbm i (\<lambda>m. m\<lparr>head_pq := Some b\<rparr>) s
        | Some p \<Rightarrow>
            let s = s\<lparr>rb_next := (rb_next s)(p := Some b)\<rparr>
            in if prev = tail_pq m then upd_rbm i (\<lambda>m. m\<lparr>tail_pq := Some b\<rparr>) s else s)"

text \<open>Lines 889-921: the last of several queued segments is replaced.\<close>

definition replace_last ::
    "i8 \<Rightarrow> nat \<Rightarrow> nat option \<Rightarrow> nat option \<Rightarrow> Transport_Segment_UDP \<Rightarrow> i8 \<Rightarrow> u16 \<Rightarrow> i8 \<Rightarrow> rx_state \<Rightarrow> rx_state option" where
  "replace_last i t prev ptr seg prio addr rssi s = do {
     m \<leftarrow> at (rx_buf_mgr s) (sint i);
     qtr \<leftarrow> find_before (rb_next s) t (head_pq m);
     let s = store_seg t seg prio addr rssi s;
     let s = s\<lparr>rb_next := (rb_next s)(t := ptr)\<rparr>;
     let s = (case prev of
                None \<Rightarrow> upd_rbm i (\<lambda>m. m\<lparr>head_pq := Some t\<rparr>) s
              | Some p \<Rightarrow> s\<lparr>rb_next := (rb_next s)(p := Some t)\<rparr>);
     let s = s\<lparr>rb_next := (rb_next s)(qtr := None)\<rparr>;
     Some (upd_rbm i (\<lambda>m. m\<lparr>tail_pq := Some qtr\<rparr>) s)
   }"

text \<open>
  Line 931: the policy bit of a priority; shifting by a negative amount or by 32 and more is
  undefined.
\<close>

definition policy_bit :: "i8 \<Rightarrow> rx_state \<Rightarrow> bool option" where
  "policy_bit prio s =
     (if 0 \<le> sint prio \<and> sint prio < 32
      then Some (drop_bit (nat (sint prio)) (excessPolicySettings s) AND 1 \<noteq> 0) else None)"

text \<open>The endless loops at lines 838 and 845 are \<open>None\<close>.\<close>

definition insert_rx_pq ::
    "Transport_Segment_UDP \<Rightarrow> i8 \<Rightarrow> u16 \<Rightarrow> i8 \<Rightarrow> rx_state \<Rightarrow> rx_state option" where
  "insert_rx_pq seg prio addr rssi s = do {
     i \<leftarrow> port_to_rbm_index (seg_destPort seg) s;
     (buf, s) \<leftarrow> remove_rx_fq i EMPTY s;
     m \<leftarrow> at (rx_buf_mgr s) (sint i);
     (prev, ptr) \<leftarrow> find_lower (rb_prio s) (rb_next s) prio None (head_pq m);
     case buf of
       Some b \<Rightarrow> Some (enqueue_seg i b prev ptr seg prio addr rssi s)
     | None \<Rightarrow>
         if head_pq m = None then
           (if countFree m \<noteq> 0 then None else if tail_pq m \<noteq> None then None else Some s)
         else do {
           t \<leftarrow> tail_pq m;
           if sint (rb_prio s t) < sint prio then
             (if head_pq m = tail_pq m then Some (store_seg t seg prio addr rssi s)
              else replace_last i t prev ptr seg prio addr rssi s)
           else if rb_prio s t = prio then do {
             dropping \<leftarrow> policy_bit prio s;
             Some (if \<not> dropping then store_seg t seg prio addr rssi s else s)
           }
           else Some s
         }
   }"

section \<open>Counting and printing\<close>

partial_function (option) count_full ::
    "(nat \<Rightarrow> i8) \<Rightarrow> (nat \<Rightarrow> nat option) \<Rightarrow> nat option \<Rightarrow> i8 \<Rightarrow> i8 option" where
  "count_full st nx ptr count =
     (if ptr = None then Some count
      else count_full st nx (nx (the ptr)) (if st (the ptr) = FULL then count + 1 else count))"

declare count_full.simps [code]

definition get_in_process_buf_count :: "i8 \<Rightarrow> rx_state \<Rightarrow> i8 option" where
  "get_in_process_buf_count i s = do {
     m \<leftarrow> at (rx_buf_mgr s) (sint i);
     count_full (rb_status s) (rb_next s) (head_fq m) 0
   }"

definition get_num_bufs_free :: "rx_state \<Rightarrow> i8" where
  "get_num_bufs_free s = num_bufs_free s"

definition set_num_bufs_free :: "i8 \<Rightarrow> rx_state \<Rightarrow> rx_state" where
  "set_num_bufs_free n s = s\<lparr>num_bufs_free := n\<rparr>"

text \<open>
  \<^verbatim>\<open>print_rx_buffers\<close> returns the number it prints first. Its loop prints the first
  segment of the port queue again and again: \<open>buf\<close> never moves on.
\<close>

partial_function (option) print_loop :: "nat option \<Rightarrow> unit option" where
  "print_loop buf = (case buf of None \<Rightarrow> Some () | Some a \<Rightarrow> print_loop buf)"

declare print_loop.simps [code]

definition print_rx_buffers :: "u8 \<Rightarrow> rx_state \<Rightarrow> i8 option" where
  "print_rx_buffers port s = do {
     i \<leftarrow> port_to_rbm_index port s;
     m \<leftarrow> at (rx_buf_mgr s) (sint i);
     u \<leftarrow> print_loop (head_pq m);
     Some i
   }"

section \<open>Well-formed ports\<close>

text \<open>
  The port queue of port element \<open>i\<close> is the list \<open>ps\<close> of buffers, its free queue the
  list \<open>fs\<close>.
\<close>

definition port_ok :: "rx_state \<Rightarrow> i8 \<Rightarrow> nat list \<Rightarrow> nat list \<Rightarrow> bool" where
  "port_ok s i ps fs \<longleftrightarrow> (\<exists>m. at (rx_buf_mgr s) (sint i) = Some m \<and>
     sll (rb_next s) (head_pq m) ps \<and> sll (rb_next s) (head_fq m) fs \<and>
     tail_pq m = lasto ps \<and> tail_fq m = lasto fs \<and> distinct (ps @ fs) \<and>
     countFree m = of_nat (length (filter (\<lambda>b. rb_status s b = EMPTY) fs)) \<and>
     (\<forall>p \<in> set ps. rb_status s p = FULL))"

definition entry :: "rx_state \<Rightarrow> nat \<Rightarrow> Transport_Segment_UDP \<times> i8 \<times> u16 \<times> i8" where
  "entry s b = (rb_seg s b, rb_prio s b, rb_srcAddr s b, rb_rssi s b)"

lemma upd_rbm_simps [simp]:
  "rb_seg (upd_rbm i f s) = rb_seg s" "rb_status (upd_rbm i f s) = rb_status s"
  "rb_prio (upd_rbm i f s) = rb_prio s" "rb_rssi (upd_rbm i f s) = rb_rssi s"
  "rb_srcAddr (upd_rbm i f s) = rb_srcAddr s" "rb_next (upd_rbm i f s) = rb_next s"
  "ports (upd_rbm i f s) = ports s" "excessPolicySettings (upd_rbm i f s) = excessPolicySettings s"
  "entry (upd_rbm i f s) = entry s"
  by (simp_all add: upd_rbm_def entry_def fun_eq_iff)

lemma at_upd_rbm [simp]:
  "at (rx_buf_mgr s) (sint i) = Some m \<Longrightarrow> at (rx_buf_mgr (upd_rbm i f s)) (sint i) = Some (f m)"
  by (auto simp: upd_rbm_def at_Some_iff)

lemma store_seg_simps [simp]:
  "rb_status (store_seg b seg prio addr rssi s) = rb_status s"
  "rb_next (store_seg b seg prio addr rssi s) = rb_next s"
  "rx_buf_mgr (store_seg b seg prio addr rssi s) = rx_buf_mgr s"
  "rb_prio (store_seg b seg prio addr rssi s) = (rb_prio s)(b := prio)"
  "entry (store_seg b seg prio addr rssi s) = (entry s)(b := (seg, prio, addr, rssi))"
  by (simp_all add: store_seg_def entry_def fun_eq_iff)

lemma entry_next_status [simp]:
  "entry (s\<lparr>rb_next := n\<rparr>) = entry s" "entry (s\<lparr>rb_status := st\<rparr>) = entry s"
  by (simp_all add: entry_def fun_eq_iff)

lemma port_okI:
  "\<lbrakk>at (rx_buf_mgr s) (sint i) = Some m; sll (rb_next s) (head_pq m) ps; sll (rb_next s) (head_fq m) fs;
    tail_pq m = lasto ps; tail_fq m = lasto fs; distinct (ps @ fs);
    countFree m = of_nat (length (filter (\<lambda>b. rb_status s b = EMPTY) fs));
    \<forall>p \<in> set ps. rb_status s p = FULL\<rbrakk> \<Longrightarrow> port_ok s i ps fs"
  by (auto simp: port_ok_def)

lemma port_okE:
  assumes "port_ok s i ps fs"
  obtains m where "at (rx_buf_mgr s) (sint i) = Some m" "sll (rb_next s) (head_pq m) ps"
    "sll (rb_next s) (head_fq m) fs" "head_pq m = hdo ps" "head_fq m = hdo fs"
    "tail_pq m = lasto ps" "tail_fq m = lasto fs" "distinct ps" "distinct fs" "set ps \<inter> set fs = {}"
    "countFree m = of_nat (length (filter (\<lambda>b. rb_status s b = EMPTY) fs))"
    "\<forall>p \<in> set ps. rb_status s p = FULL"
proof -
  from assms obtain m where m: "at (rx_buf_mgr s) (sint i) = Some m" "sll (rb_next s) (head_pq m) ps"
    "sll (rb_next s) (head_fq m) fs" "tail_pq m = lasto ps" "tail_fq m = lasto fs" "distinct (ps @ fs)"
    "countFree m = of_nat (length (filter (\<lambda>b. rb_status s b = EMPTY) fs))"
    "\<forall>p \<in> set ps. rb_status s p = FULL" by (auto simp: port_ok_def)
  show thesis
    using m(6) by (intro that [OF m(1-3) sll_hdo [OF m(2)] sll_hdo [OF m(3)] m(4,5) _ _ _ m(7,8)]) auto
qed

section \<open>The operations on well-formed ports\<close>

lemma find_status_list:
  assumes "sll nx ptr (xs @ ys)" "\<forall>x \<in> set xs. \<not> (if status = EMPTY then st x = EMPTY else st x = FULL)"
    "ys = [] \<or> (if status = EMPTY then st (hd ys) = EMPTY else st (hd ys) = FULL)"
  shows "find_status status st nx prev ptr = Some (if xs = [] then prev else Some (last xs), hdo ys)"
  using assms
proof (induction xs arbitrary: ptr prev)
  case Nil
  then show ?case by (cases ys) (auto simp: find_status.simps)
next
  case (Cons x xs)
  then show ?case by (simp add: find_status.simps [of _ _ _ _ "Some x"])
qed

text \<open>
  The first empty buffer is taken off the free queue. Behind other buffers the tail pointer
  is not adjusted, which is right as long as the buffer is not the last.
\<close>

lemma remove_empty_ok:
  assumes ok: "port_ok s i ps (xs @ b # ys)" and xs: "\<forall>x \<in> set xs. rb_status s x \<noteq> EMPTY"
    and b: "rb_status s b = EMPTY" and last: "xs = [] \<or> ys \<noteq> []"
  shows "\<exists>s'. remove_rx_fq i EMPTY s = Some (Some b, s') \<and> port_ok s' i ps (xs @ ys) \<and>
    entry s' = entry s \<and> rb_prio s' = rb_prio s \<and> rb_status s' = rb_status s"
proof -
  from ok obtain m where m: "at (rx_buf_mgr s) (sint i) = Some m" "sll (rb_next s) (head_pq m) ps"
    "sll (rb_next s) (head_fq m) (xs @ b # ys)" "head_fq m = hdo (xs @ b # ys)"
    "tail_pq m = lasto ps" "tail_fq m = lasto (xs @ b # ys)" "distinct ps" "distinct (xs @ b # ys)"
    "set ps \<inter> set (xs @ b # ys) = {}"
    "countFree m = of_nat (length (filter (\<lambda>b. rb_status s b = EMPTY) (xs @ b # ys)))"
    "\<forall>p \<in> set ps. rb_status s p = FULL" by (rule port_okE)
  have find: "find_status EMPTY (rb_status s) (rb_next s) None (head_fq m) = Some (lasto xs, Some b)"
    using find_status_list [OF m(3), of EMPTY "rb_status s" None] xs b by (simp add: lasto_def)
  have count: "countFree m - 1 = of_nat (length (filter (\<lambda>b. rb_status s b = EMPTY) (xs @ ys)))"
    using m(10) b by simp
  have nb: "rb_next s b = hdo ys" "sll (rb_next s) (hdo ys) ys"
    using sll_append [OF m(3)] sll_hdo by fastforce+
  show ?thesis
  proof (cases "xs = []")
    case True
    have one: "head_fq m = tail_fq m \<longleftrightarrow> ys = []"
      using True m(4,6,8) lasto_in [of ys b] by (auto simp: lasto_Cons)
    let ?f = "\<lambda>m. ((if head_fq m = tail_fq m then m\<lparr>tail_fq := None\<rparr> else m)\<lparr>head_fq := rb_next s b\<rparr>)
                 \<lparr>countFree := countFree m - 1\<rparr>"
    have "remove_rx_fq i EMPTY s = Some (Some b, upd_rbm i ?f s)"
      using m(1) find True by (auto simp: remove_rx_fq_def Let_def upd_rbm_def)
    moreover have "port_ok (upd_rbm i ?f s) i ps (xs @ ys)"
      using m one nb count True by (intro port_okI [of _ _ "?f m"]) (auto simp: lasto_Cons)
    ultimately show ?thesis by auto
  next
    case False
    let ?s = "s\<lparr>rb_next := (rb_next s)(last xs := hdo ys)\<rparr>"
    let ?f = "\<lambda>m. m\<lparr>countFree := countFree m - 1\<rparr>"
    have "remove_rx_fq i EMPTY s = Some (Some b, upd_rbm i ?f ?s)"
      using m(1) find False nb by (simp add: remove_rx_fq_def Let_def lasto_def)
    moreover have "last xs \<notin> set ps" using m(9) False by (auto simp: disjoint_iff)
    moreover have "sll ((rb_next s)(last xs := hdo ys)) (head_fq m) (xs @ ys)"
      using sll_unlink [OF m(3) False] m(8) by simp
    moreover have "lasto (xs @ b # ys) = lasto (xs @ ys)" using last False by (simp add: lasto_def)
    ultimately show ?thesis using m count False
      by (intro exI [of _ "upd_rbm i ?f ?s"]) (auto intro!: port_okI [of _ _ "?f m"])
  qed
qed

text \<open>Storing a segment in a buffer that is on no queue, and linking it where it belongs.\<close>

lemma enqueue_seg_ok:
  assumes ok: "port_ok s i (xs @ ys) fs" and b: "b \<notin> set (xs @ ys @ fs)"
  shows "port_ok (enqueue_seg i b (lasto xs) (hdo ys) seg prio addr rssi s) i (xs @ b # ys) fs \<and>
    entry (enqueue_seg i b (lasto xs) (hdo ys) seg prio addr rssi s) = (entry s)(b := (seg, prio, addr, rssi)) \<and>
    rb_status (enqueue_seg i b (lasto xs) (hdo ys) seg prio addr rssi s) = (rb_status s)(b := FULL)"
    (is "port_ok ?s' i _ fs \<and> _")
proof -
  from ok obtain m where m: "at (rx_buf_mgr s) (sint i) = Some m" "sll (rb_next s) (head_pq m) (xs @ ys)"
    "sll (rb_next s) (head_fq m) fs" "head_pq m = hdo (xs @ ys)" "head_fq m = hdo fs"
    "tail_pq m = lasto (xs @ ys)" "tail_fq m = lasto fs" "distinct (xs @ ys)" "distinct fs"
    "set (xs @ ys) \<inter> set fs = {}"
    "countFree m = of_nat (length (filter (\<lambda>b. rb_status s b = EMPTY) fs))"
    "\<forall>p \<in> set (xs @ ys). rb_status s p = FULL" by (rule port_okE)
  have nth: "rx_buf_mgr s ! nat (sint i) = m" using m(1) by (simp add: at_Some_iff)
  let ?s = "(store_seg b seg prio addr rssi s)\<lparr>rb_status := (rb_status s)(b := FULL),
              rb_next := (rb_next s)(b := hdo ys)\<rparr>"
  have cf: "countFree m = of_nat (length (filter (\<lambda>c. ((rb_status s)(b := FULL)) c = EMPTY) fs))"
    using m(11) b by (auto intro!: arg_cong [where f = of_nat] arg_cong [where f = length] filter_cong)
  have fq: "sll ((rb_next s)(b := v)) (head_fq m) fs" for v using m(3) b by simp
  show ?thesis
  proof (cases "xs = []")
    case True
    show ?thesis
    proof (cases "ys = []")
      case empty: True
      let ?f = "\<lambda>m. m\<lparr>head_pq := Some b, tail_pq := Some b\<rparr>"
      have "?s' = upd_rbm i ?f ?s" using True empty m(4) nth by (simp add: enqueue_seg_def Let_def)
      moreover have "port_ok (upd_rbm i ?f ?s) i [b] fs"
        using m(1,7,9) b cf fq empty by (intro port_okI [of _ _ "?f m"]) auto
      ultimately show ?thesis using True empty by simp
    next
      case False
      let ?f = "\<lambda>m. m\<lparr>head_pq := Some b\<rparr>"
      have "?s' = upd_rbm i ?f ?s" using True False m(4) nth by (simp add: enqueue_seg_def Let_def)
      moreover have "sll ((rb_next s)(b := hdo ys)) (Some b) (b # ys)" using m(2,4) True b by simp
      then have "port_ok (upd_rbm i ?f ?s) i (b # ys) fs"
        using m(1,6-10,12) b cf fq True False
        by (intro port_okI [of _ _ "?f m"]) (auto simp: lasto_Cons)
      ultimately show ?thesis using True by simp
    qed
  next
    case False
    have l: "lasto xs = Some (last xs)" "last xs \<in> set xs" "last xs \<notin> set fs"
      using False m(10) by (auto simp: lasto_def disjoint_iff)
    let ?t = "?s\<lparr>rb_next := (rb_next s)(b := hdo ys, last xs := Some b)\<rparr>"
    let ?f = "\<lambda>m. if ys = [] then m\<lparr>tail_pq := Some b\<rparr> else m"
    have tail: "tail_pq m = Some (last xs) \<longleftrightarrow> ys = []"
      "lasto (xs @ b # ys) = (if ys = [] then Some b else tail_pq m)"
      using lasto_splice [of xs ys] m(6,8) False by auto
    have s': "?s' = (if ys = [] then upd_rbm i ?f ?t else ?t)"
      using False m(4) nth l(1) tail(1) by (auto simp: enqueue_seg_def Let_def)
    have chain: "sll ((rb_next s)(b := hdo ys, last xs := Some b)) (head_pq m) (xs @ b # ys)"
      using sll_splice [of "rb_next s" "head_pq m" xs ys b] m(2,8) False b by simp
    have "sll ((rb_next s)(b := hdo ys, last xs := Some b)) (head_fq m) fs" using m(3) b l by simp
    note facts = chain this m(1,7-10,12) b cf tail
    have "port_ok ?s' i (xs @ b # ys) fs"
    proof (cases "ys = []")
      case True
      show ?thesis unfolding s' using True facts
        by (intro port_okI [of _ _ "?f m"]) auto
    next
      case False
      then show ?thesis unfolding s' using facts by (intro port_okI [of _ _ m]) auto
    qed
    then show ?thesis by (simp add: s')
  qed
qed

lemma find_lower_split:
  assumes "sll nx ptr ps"
  obtains xs ys where "ps = xs @ ys" "pinsert (\<lambda>a. sint (pr a) < sint p) b ps = xs @ b # ys"
    "xs = takeWhile (\<lambda>a. \<not> sint (pr a) < sint p) ps"
    "find_lower pr nx p None ptr = Some (lasto xs, hdo ys)"
proof -
  let ?P = "\<lambda>a. \<not> sint (pr a) < sint p"
  have "find_lower pr nx p None ptr = Some (lasto (takeWhile ?P ps), hdo (dropWhile ?P ps))"
    using find_lower_list [OF assms, of pr p None] by (simp add: lasto_def)
  then show thesis using that [of "takeWhile ?P ps" "dropWhile ?P ps"] by (simp add: pinsert_def)
qed

text \<open>A segment that finds an empty buffer.\<close>

lemma insert_rx_pq_room:
  assumes ok: "port_ok s i ps (xs @ b # ys)" and xs: "\<forall>x \<in> set xs. rb_status s x \<noteq> EMPTY"
    and b: "rb_status s b = EMPTY" and last: "xs = [] \<or> ys \<noteq> []"
    and port: "port_to_rbm_index (seg_destPort seg) s = Some i"
  shows "\<exists>s'. insert_rx_pq seg prio addr rssi s = Some s' \<and>
    port_ok s' i (pinsert (\<lambda>a. sint (rb_prio s a) < sint prio) b ps) (xs @ ys) \<and>
    entry s' = (entry s)(b := (seg, prio, addr, rssi)) \<and> rb_status s' = (rb_status s)(b := FULL)"
proof -
  obtain s1 where s1: "remove_rx_fq i EMPTY s = Some (Some b, s1)" "port_ok s1 i ps (xs @ ys)"
    "entry s1 = entry s" "rb_prio s1 = rb_prio s" "rb_status s1 = rb_status s" using remove_empty_ok [OF ok xs b last] by blast
  obtain m where m: "at (rx_buf_mgr s1) (sint i) = Some m" "sll (rb_next s1) (head_pq m) ps"
    using s1(2) by (auto simp: port_ok_def)
  obtain us vs where split: "ps = us @ vs"
    "pinsert (\<lambda>a. sint (rb_prio s a) < sint prio) b ps = us @ b # vs"
    "find_lower (rb_prio s) (rb_next s1) prio None (head_pq m) = Some (lasto us, hdo vs)"
    using find_lower_split [OF m(2)] by metis
  have "b \<notin> set (us @ vs @ xs @ ys)" using ok split(1) by (auto simp: port_ok_def)
  note enq = enqueue_seg_ok [OF s1(2) [unfolded split(1)] this, of seg prio addr rssi]
  have "insert_rx_pq seg prio addr rssi s = Some (enqueue_seg i b (lasto us) (hdo vs) seg prio addr rssi s1)"
    using port s1(1,4) m(1) split(3) by (simp add: insert_rx_pq_def)
  then show ?thesis using enq s1(3,5) split(2) by auto
qed

lemma find_before_last:
  "sll nx p (qs @ [t]) \<Longrightarrow> qs \<noteq> [] \<Longrightarrow> distinct (qs @ [t]) \<Longrightarrow> find_before nx t p = Some (last qs)"
proof (induction qs arbitrary: p)
  case (Cons q qs)
  show ?case
  proof (cases "qs = []")
    case True
    then show ?thesis using Cons.prems by (auto simp: find_before.simps)
  next
    case False
    then have "nx q \<noteq> Some t" using Cons.prems by (cases qs) auto
    then show ?thesis using False Cons by (simp add: find_before.simps [of _ _ "Some q"])
  qed
qed simp

text \<open>
  The last of several segments makes room for a more urgent one, whose place is behind
  \<open>us\<close>. When that place is the very end (\<open>vs = []\<close>) the buffer is linked to itself and then
  cut off.
\<close>

lemma replace_last_ok:
  assumes ok: "port_ok s i (us @ vs @ [t]) fs" and ne: "us @ vs \<noteq> []"
  shows "\<exists>s'. replace_last i t (lasto us) (hdo (vs @ [t])) seg prio addr rssi s = Some s' \<and>
    port_ok s' i (if vs = [] then us else us @ t # vs) fs \<and>
    entry s' = (entry s)(t := (seg, prio, addr, rssi))"
proof -
  from ok obtain m where m: "at (rx_buf_mgr s) (sint i) = Some m" "sll (rb_next s) (head_pq m) (us @ vs @ [t])"
    "sll (rb_next s) (head_fq m) fs" "head_pq m = hdo (us @ vs @ [t])" "head_fq m = hdo fs"
    "tail_pq m = lasto (us @ vs @ [t])" "tail_fq m = lasto fs" "distinct (us @ vs @ [t])" "distinct fs"
    "set (us @ vs @ [t]) \<inter> set fs = {}"
    "countFree m = of_nat (length (filter (\<lambda>b. rb_status s b = EMPTY) fs))"
    "\<forall>p \<in> set (us @ vs @ [t]). rb_status s p = FULL" by (rule port_okE)
  let ?q = "last (us @ vs)"
  have before: "find_before (rb_next s) t (head_pq m) = Some ?q"
    using find_before_last [of "rb_next s" "head_pq m" "us @ vs" t] m(2,8) ne by simp
  have cut: "sll ((rb_next s)(?q := None)) (head_pq m) (us @ vs)"
    using sll_drop_last [of "rb_next s" "head_pq m" "us @ vs" "[t]"] m(2,8) ne by simp
  have q: "?q \<in> set (us @ vs)" using ne by (rule last_in_set)
  let ?s = "\<lambda>nx. (store_seg t seg prio addr rssi s)\<lparr>rb_next := nx\<rparr>"
  let ?h = "\<lambda>m. if us = [] then m\<lparr>head_pq := Some t\<rparr> else m"
  let ?nx = "if us = [] then (rb_next s)(t := hdo (vs @ [t]))
             else (rb_next s)(t := hdo (vs @ [t]), last us := Some t)"
  let ?f = "\<lambda>m. (?h m)\<lparr>tail_pq := Some ?q\<rparr>"
  let ?r = "upd_rbm i ?f (?s (?nx(?q := None)))"
  have run: "replace_last i t (lasto us) (hdo (vs @ [t])) seg prio addr rssi s = Some ?r"
    using m(1) before by (auto simp: replace_last_def lasto_def upd_rbm_def at_Some_iff)
  have fq: "sll (?nx(?q := None)) (head_fq m) fs"
  proof -
    have "t \<notin> set fs" "us \<noteq> [] \<Longrightarrow> last us \<notin> set fs" "?q \<notin> set fs"
      using m(10) q last_in_set [of us] by (auto simp: disjoint_iff)
    then show ?thesis using m(3) by auto
  qed
  have pq: "sll (?nx(?q := None)) (head_pq (?f m)) (if vs = [] then us else us @ t # vs)"
  proof (cases "vs = []")
    case True
    then have "us \<noteq> []" using ne by simp
    then have "?nx(?q := None) = (rb_next s)(?q := None, t := Some t)"
      using True m(8) by (auto simp: fun_eq_iff)
    then show ?thesis using cut m(8) True \<open>us \<noteq> []\<close> by simp
  next
    case False
    have vs: "?q = last vs" "last vs \<noteq> t" "last vs \<in> set vs" "hdo (vs @ [t]) = hdo vs"
      using False m(8) by (auto simp: hdo_def split: list.split)
    show ?thesis
    proof (cases "us = []")
      case True
      have "?nx(?q := None) = (rb_next s)(?q := None, t := hdo vs)"
        using True vs by (auto simp: fun_eq_iff)
      moreover have "sll ((rb_next s)(?q := None)) (hdo vs) vs"
        using cut True sll_hdo by fastforce
      ultimately show ?thesis using True False vs m(8) by simp
    next
      case us: False
      have "last us \<notin> set vs" using m(8) last_in_set [OF us] by auto
      then have "last us \<noteq> last vs" using vs(3) by metis
      then have "?nx(?q := None) = (rb_next s)(?q := None, t := hdo vs, last us := Some t)"
        using us vs by (auto simp: fun_eq_iff)
      then show ?thesis
        using sll_splice [OF cut us, of t] m(8) us False by simp
    qed
  qed
  have "port_ok ?r i (if vs = [] then us else us @ t # vs) fs"
  proof (rule port_okI [of _ _ "?f m"])
    show "tail_pq (?f m) = lasto (if vs = [] then us else us @ t # vs)"
      using ne by (auto simp: lasto_def last_append)
    show "distinct ((if vs = [] then us else us @ t # vs) @ fs)" using m(8,9,10) by auto
  qed (use m(1,7,11,12) pq fq in \<open>auto split: if_splits\<close>)
  then show ?thesis using run by simp
qed

text \<open>No empty buffer: the free queue is left alone.\<close>

lemma remove_none_ok:
  assumes "port_ok s i ps fs" "\<forall>f \<in> set fs. rb_status s f \<noteq> EMPTY"
  shows "remove_rx_fq i EMPTY s = Some (None, s)"
proof -
  obtain m where m: "at (rx_buf_mgr s) (sint i) = Some m" "sll (rb_next s) (head_fq m) fs"
    using assms(1) by (auto simp: port_ok_def)
  then show ?thesis
    using find_status_list [of "rb_next s" "head_fq m" fs "[]" EMPTY "rb_status s" None] assms(2)
    by (simp add: remove_rx_fq_def)
qed

lemma port_ok_store [simp]:
  "port_ok (store_seg t seg prio addr rssi s) i ps fs = port_ok s i ps fs"
  by (simp add: port_ok_def)

lemma insert_rx_pq_full:
  assumes ok: "port_ok s i (qs @ [t]) fs" and fs: "\<forall>f \<in> set fs. rb_status s f \<noteq> EMPTY"
    and port: "port_to_rbm_index (seg_destPort seg) s = Some i"
  shows "sint prio < sint (rb_prio s t) \<Longrightarrow> insert_rx_pq seg prio addr rssi s = Some s"
    and "rb_prio s t = prio \<Longrightarrow> insert_rx_pq seg prio addr rssi s =
      map_option (\<lambda>dropping. if dropping then s else store_seg t seg prio addr rssi s) (policy_bit prio s)"
    and "sint (rb_prio s t) < sint prio \<Longrightarrow> \<exists>s'. insert_rx_pq seg prio addr rssi s = Some s' \<and>
      port_ok s' i (if qs \<noteq> [] \<and> \<not> (\<exists>q \<in> set qs. sint (rb_prio s q) < sint prio) then qs
                    else pinsert (\<lambda>a. sint (rb_prio s a) < sint prio) t qs) fs \<and>
      entry s' = (entry s)(t := (seg, prio, addr, rssi))"
proof -
  obtain m where m: "at (rx_buf_mgr s) (sint i) = Some m" "sll (rb_next s) (head_pq m) (qs @ [t])"
    "head_pq m = hdo (qs @ [t])" "tail_pq m = Some t" "distinct (qs @ [t])"
    using ok sll_hdo by (fastforce simp: port_ok_def)
  obtain prev ptr where find: "find_lower (rb_prio s) (rb_next s) prio None (head_pq m) = Some (prev, ptr)"
    using find_lower_split [OF m(2)] by metis
  have ne: "hdo (qs @ [t]) \<noteq> None" by simp
  have one: "hdo (qs @ [t]) = Some t \<longleftrightarrow> qs = []" using m(5) by (cases qs) auto
  note [simp] = insert_rx_pq_def port remove_none_ok [OF ok fs] m(1,4) m(3) find [unfolded m(3)] ne one
  show "insert_rx_pq seg prio addr rssi s = Some s" if "sint prio < sint (rb_prio s t)"
    using that by auto
  show "insert_rx_pq seg prio addr rssi s =
      map_option (\<lambda>dropping. if dropping then s else store_seg t seg prio addr rssi s) (policy_bit prio s)"
    if "rb_prio s t = prio" using that by (cases "policy_bit prio s") auto
  assume lower: "sint (rb_prio s t) < sint prio"
  show "\<exists>s'. insert_rx_pq seg prio addr rssi s = Some s' \<and>
      port_ok s' i (if qs \<noteq> [] \<and> \<not> (\<exists>q \<in> set qs. sint (rb_prio s q) < sint prio) then qs
                    else pinsert (\<lambda>a. sint (rb_prio s a) < sint prio) t qs) fs \<and>
      entry s' = (entry s)(t := (seg, prio, addr, rssi))"
  proof (cases "qs = []")
    case True
    then have "insert_rx_pq seg prio addr rssi s = Some (store_seg t seg prio addr rssi s)"
      using lower find m(3) by simp
    with True ok show ?thesis by simp
  next
    case False
    let ?P = "\<lambda>a. \<not> sint (rb_prio s a) < sint prio"
    define us where "us = takeWhile ?P qs"
    define vs where "vs = dropWhile ?P qs"
    have qs: "qs = us @ vs" by (simp add: us_def vs_def)
    have walk: "takeWhile ?P (xs @ [t]) = takeWhile ?P xs" "dropWhile ?P (xs @ [t]) = dropWhile ?P xs @ [t]"
      for xs using lower by (induction xs) auto
    have "find_lower (rb_prio s) (rb_next s) prio None (head_pq m) = Some (lasto us, hdo (vs @ [t]))"
      using find_lower_list [OF m(2), of "rb_prio s" prio None]
      by (simp only: walk us_def vs_def lasto_def)
    then have pp: "prev = lasto us" "ptr = hdo (vs @ [t])" using find by auto
    have run: "insert_rx_pq seg prio addr rssi s = replace_last i t prev ptr seg prio addr rssi s"
      using False lower by simp
    have "vs = [] \<longleftrightarrow> \<not> (\<exists>q \<in> set qs. sint (rb_prio s q) < sint prio)"
      by (auto simp: vs_def)
    moreover have "pinsert (\<lambda>a. sint (rb_prio s a) < sint prio) t qs = us @ t # vs"
      by (simp add: pinsert_def us_def vs_def)
    ultimately have res: "(if qs \<noteq> [] \<and> \<not> (\<exists>q \<in> set qs. sint (rb_prio s q) < sint prio) then qs
        else pinsert (\<lambda>a. sint (rb_prio s a) < sint prio) t qs) = (if vs = [] then us else us @ t # vs)"
      using False qs by simp
    show ?thesis unfolding run pp res
      by (rule replace_last_ok) (use ok False qs in simp_all)
  qed
qed

section \<open>The ports are not touched\<close>

definition same_ports :: "rx_state \<Rightarrow> rx_state \<Rightarrow> bool" where
  "same_ports s s' \<longleftrightarrow> map rbm_pindex (rx_buf_mgr s') = map rbm_pindex (rx_buf_mgr s) \<and> ports s' = ports s \<and>
     num_bufs_free s' = num_bufs_free s"

lemma at_map: "at (map f xs) i = map_option f (at xs i)"
  by (auto simp: at_def nat_less_iff)

lemma rbm_index_from_same:
  assumes "same_ports s s'"
  shows "rbm_index_from port s' is = rbm_index_from port s is"
proof -
  have m: "map_option rbm_pindex (at (rx_buf_mgr s') j) = map_option rbm_pindex (at (rx_buf_mgr s) j)" for j
    using assms by (simp add: same_ports_def flip: at_map)
  have "ports s' = ports s" using assms by (simp add: same_ports_def)
  then show ?thesis
  proof (induction "is")
    case (Cons i "is")
    then have "rbm_index_from port s' is = rbm_index_from port s is" by blast
    with Cons.prems show ?case using m [of "int i"]
      by (cases "at (rx_buf_mgr s') (int i)"; cases "at (rx_buf_mgr s) (int i)") (simp_all cong: if_cong)
  qed simp
qed

lemma port_index_same: "same_ports s s' \<Longrightarrow> port_to_rbm_index port s' = port_to_rbm_index port s"
  by (simp add: port_to_rbm_index_def rbm_index_from_same)

lemma same_ports_upd:
  assumes "\<And>m. rbm_pindex (f m) = rbm_pindex m"
  shows "same_ports s (upd_rbm i f s') \<longleftrightarrow> same_ports s s'"
proof -
  let ?p = "map rbm_pindex (rx_buf_mgr s')" and ?j = "nat (sint i)"
  have "?p[?j := rbm_pindex (rx_buf_mgr s' ! ?j)] = ?p"
    by (cases "?j < length ?p") (metis length_map list_update_id nth_map, simp add: list_update_beyond)
  then show ?thesis by (simp add: same_ports_def upd_rbm_def map_update assms)
qed

lemma same_ports_simps [simp]:
  "same_ports s s" "same_ports s (store_seg b seg prio addr rssi s') = same_ports s s'"
  "same_ports s (s'\<lparr>rb_next := n\<rparr>) = same_ports s s'" "same_ports s (s'\<lparr>rb_status := st\<rparr>) = same_ports s s'"
  by (simp_all add: same_ports_def store_seg_def)

lemma enqueue_seg_ports [simp]: "same_ports s (enqueue_seg i b prev ptr seg prio addr rssi s') = same_ports s s'"
  by (simp add: enqueue_seg_def Let_def same_ports_upd split: option.split)

lemma remove_rx_fq_ports: "yields (remove_rx_fq i st s) (\<lambda>(r, s'). same_ports s s')"
  unfolding remove_rx_fq_def
  by (intro yields_bind_any) (auto simp: Let_def same_ports_upd split: option.split)

lemma replace_last_ports: "yields (replace_last i t prev ptr seg prio addr rssi s) (same_ports s)"
  unfolding replace_last_def
  by (intro yields_bind_any) (auto simp: Let_def same_ports_upd split: option.split)

lemma insert_rx_pq_ports: "yields (insert_rx_pq seg prio addr rssi s) (same_ports s)"
proof -
  have trans: "same_ports s s2" if "same_ports s s1" "same_ports s1 s2" for s1 s2
    using that by (simp add: same_ports_def)
  have replace: "yields (replace_last i t prev ptr seg prio addr rssi s1) (same_ports s)"
    if "same_ports s s1" for i t prev ptr s1
    using yields_mono [OF replace_last_ports trans [OF that]] .
  show ?thesis
    unfolding insert_rx_pq_def
    by (intro yields_bind_any)
       (auto dest!: yieldsD [OF remove_rx_fq_ports] split: option.split prod.split
          intro!: yields_bind_any replace)
qed

lemma remove_rx_pq_ports: "yields (remove_rx_pq i s) (\<lambda>(r, s'). same_ports s s')"
  unfolding remove_rx_pq_def
  by (intro yields_bind_any) (auto simp: same_ports_upd split: option.split)

lemma insert_rx_fq_ports: "yields (insert_rx_fq b i st s) (same_ports s)"
  unfolding insert_rx_fq_def
  by (intro yields_bind_any)
     (auto simp: same_ports_upd yields_def bind_eq_Some_conv split: if_splits)

section \<open>Receiving\<close>

lemma remove_rx_pq_ok:
  assumes "port_ok s i (p # ps) fs"
  shows "\<exists>s'. remove_rx_pq i s = Some (Some p, s') \<and> port_ok s' i ps fs \<and> entry s' = entry s \<and>
    rb_status s' = rb_status s"
proof -
  from assms obtain m where m: "at (rx_buf_mgr s) (sint i) = Some m" "sll (rb_next s) (head_pq m) (p # ps)"
    "sll (rb_next s) (head_fq m) fs" "head_pq m = hdo (p # ps)" "head_fq m = hdo fs"
    "tail_pq m = lasto (p # ps)" "tail_fq m = lasto fs" "distinct (p # ps)" "distinct fs"
    "set (p # ps) \<inter> set fs = {}"
    "countFree m = of_nat (length (filter (\<lambda>b. rb_status s b = EMPTY) fs))"
    "\<forall>p \<in> set (p # ps). rb_status s p = FULL" by (rule port_okE)
  have one: "head_pq m = tail_pq m \<longleftrightarrow> ps = []"
    using m(4,6,8) lasto_in [of ps p] by (auto simp: lasto_Cons)
  let ?f = "\<lambda>m. (if head_pq m = tail_pq m then m\<lparr>tail_pq := None\<rparr> else m)\<lparr>head_pq := rb_next s p\<rparr>"
  have "remove_rx_pq i s = Some (Some p, upd_rbm i ?f s)"
    using m(1,4) by (simp add: remove_rx_pq_def)
  moreover have "port_ok (upd_rbm i ?f s) i ps fs"
    using m one by (intro port_okI [of _ _ "?f m"]) (auto simp: lasto_Cons)
  ultimately show ?thesis by auto
qed

text \<open>A buffer goes to the end of the free queue; with \<open>FULL\<close> its status stays.\<close>

lemma insert_rx_fq_ok:
  assumes ok: "port_ok s i ps fs" and b: "b \<notin> set (ps @ fs)"
    and st: "st = EMPTY \<or> rb_status s b = FULL"
  shows "\<exists>s'. insert_rx_fq b i st s = Some s' \<and> port_ok s' i ps (fs @ [b]) \<and> entry s' = entry s \<and>
    rb_status s' = (if st = EMPTY then (rb_status s)(b := EMPTY) else rb_status s)"
proof -
  from ok obtain m where m: "at (rx_buf_mgr s) (sint i) = Some m" "sll (rb_next s) (head_pq m) ps"
    "sll (rb_next s) (head_fq m) fs" "head_pq m = hdo ps" "head_fq m = hdo fs"
    "tail_pq m = lasto ps" "tail_fq m = lasto fs" "distinct ps" "distinct fs"
    "set ps \<inter> set fs = {}"
    "countFree m = of_nat (length (filter (\<lambda>b. rb_status s b = EMPTY) fs))"
    "\<forall>p \<in> set ps. rb_status s p = FULL" by (rule port_okE)
  define st' where "st' = (if st = EMPTY then (rb_status s)(b := EMPTY) else rb_status s)"
  define nx where "nx = (if fs = [] then (rb_next s)(b := None) else (rb_next s)(last fs := Some b, b := None))"
  define f :: "ReceiveBufferManager \<Rightarrow> ReceiveBufferManager" where "f = (\<lambda>m. (if fs = [] then m\<lparr>head_fq := Some b\<rparr> else m)
    \<lparr>tail_fq := Some b, countFree := (if st = EMPTY then countFree m + 1 else countFree m)\<rparr>)"
  let ?s = "upd_rbm i f (s\<lparr>rb_next := nx, rb_status := st'\<rparr>)"
  have run: "insert_rx_fq b i st s = Some ?s"
    using m(1,5,7) by (auto simp: insert_rx_fq_def nx_def st'_def f_def upd_rbm_def lasto_def at_Some_iff)
  have l: "last fs \<notin> set ps" "last fs \<noteq> b" if "fs \<noteq> []"
    using that last_in_set [OF that] m(10) b by (auto simp: disjoint_iff)
  have "sll nx (head_pq m) ps" using m(2) b l by (simp add: nx_def)
  moreover have "sll nx (head_fq (f m)) (fs @ [b])"
  proof (cases "fs = []")
    case False
    have "sll ((rb_next s)(b := hdo [], last fs := Some b)) (head_fq m) (fs @ [b])"
      using sll_splice [of "rb_next s" "head_fq m" fs "[]" b] m(3,9) False b by simp
    then show ?thesis using False l by (simp add: nx_def f_def fun_upd_twist)
  qed (simp add: nx_def f_def)
  moreover have "countFree (f m) = of_nat (length (filter (\<lambda>c. st' c = EMPTY) (fs @ [b])))"
  proof -
    have "filter (\<lambda>c. st' c = EMPTY) fs = filter (\<lambda>c. rb_status s c = EMPTY) fs"
      using b by (intro filter_cong) (auto simp: st'_def)
    then show ?thesis using m(11) st by (auto simp: f_def st'_def)
  qed
  moreover have "\<forall>p \<in> set ps. st' p = FULL" using m(12) b by (auto simp: st'_def)
  ultimately have "port_ok ?s i ps (fs @ [b])"
    using m(1,6,8-10) b by (intro port_okI [of _ _ "f m"]) (auto simp: f_def)
  then show ?thesis using run by (simp add: st'_def)
qed

section \<open>A port as a queue of segments\<close>

text \<open>
  Port \<open>p\<close> has the element \<open>i\<close> and \<open>n\<close> buffers; its port queue carries the segments
  \<open>xs\<close>, and every other buffer is empty.
\<close>

definition rx_holds :: "i8 \<Rightarrow> u8 \<Rightarrow> nat \<Rightarrow> rx_state \<Rightarrow> (Transport_Segment_UDP \<times> i8 \<times> u16 \<times> i8) list \<Rightarrow> bool" where
  "rx_holds i p n s xs \<longleftrightarrow> port_to_rbm_index p s = Some i \<and>
     (\<exists>ps fs. port_ok s i ps fs \<and> (\<forall>f \<in> set fs. rb_status s f = EMPTY) \<and>
       length ps + length fs = n \<and> map (entry s) ps = xs)"

definition rx_enq :: "Transport_Segment_UDP \<times> i8 \<times> u16 \<times> i8 \<Rightarrow> rx_state \<Rightarrow> rx_state option" where
  "rx_enq e s = (case e of (seg, prio, addr, rssi) \<Rightarrow> insert_rx_pq seg prio addr rssi s)"

definition rx_front :: "i8 \<Rightarrow> rx_state \<Rightarrow> (Transport_Segment_UDP \<times> i8 \<times> u16 \<times> i8) option" where
  "rx_front i s = do { m \<leftarrow> at (rx_buf_mgr s) (sint i); h \<leftarrow> head_pq m; Some (entry s h) }"

definition rx_key :: "Transport_Segment_UDP \<times> i8 \<times> u16 \<times> i8 \<Rightarrow> int" where
  "rx_key e = sint (fst (snd e))"

definition rx_room :: "u8 \<Rightarrow> nat \<Rightarrow> (Transport_Segment_UDP \<times> i8 \<times> u16 \<times> i8) list \<Rightarrow>
    Transport_Segment_UDP \<times> i8 \<times> u16 \<times> i8 \<Rightarrow> bool" where
  "rx_room p n xs e \<longleftrightarrow> length xs < n \<and> seg_destPort (fst e) = p"

text \<open>
  What \<^verbatim>\<open>receive\<close> and then \<^verbatim>\<open>release_buffer\<close> do with a segment
  (\<^verbatim>\<open>TransportLayerUDP.c\<close>, lines 1324-1342 and 750-751).
\<close>

definition rx_serve :: "i8 \<Rightarrow> rx_state \<Rightarrow> ((Transport_Segment_UDP \<times> i8 \<times> u16 \<times> i8) \<times> rx_state) option" where
  "rx_serve i s = do {
     (buf, s) \<leftarrow> remove_rx_pq i s;
     b \<leftarrow> buf;
     s \<leftarrow> insert_rx_fq b i FULL s;
     let e = entry s b;
     let s = s\<lparr>rb_status := (rb_status s)(b := EMPTY)\<rparr>;
     Some (e, upd_rbm i (\<lambda>m. m\<lparr>countFree := countFree m + 1\<rparr>) s)
   }"

lemma rx_holdsI:
  "\<lbrakk>port_to_rbm_index p s = Some i; port_ok s i ps fs; \<forall>f \<in> set fs. rb_status s f = EMPTY;
    length ps + length fs = n; map (entry s) ps = xs\<rbrakk> \<Longrightarrow> rx_holds i p n s xs"
  by (auto simp: rx_holds_def)

lemma rx_enq_holds:
  assumes h: "rx_holds i p n s xs" and room: "rx_room p n xs e"
  shows "\<exists>s'. rx_enq e s = Some s' \<and> rx_holds i p n s' (pinsert (\<lambda>y. rx_key y < rx_key e) e xs)"
proof -
  obtain seg prio addr rssi where e: "e = (seg, prio, addr, rssi)" by (cases e)
  obtain ps fs where port: "port_to_rbm_index p s = Some i" and ok: "port_ok s i ps fs"
    and fs: "\<forall>f \<in> set fs. rb_status s f = EMPTY" and n: "length ps + length fs = n"
    and xs: "map (entry s) ps = xs" using h by (auto simp: rx_holds_def)
  have p: "seg_destPort seg = p" and lt: "length ps < n" using room e xs by (auto simp: rx_room_def)
  obtain b ys where b: "fs = b # ys" using lt n by (cases fs) auto
  let ?b = "\<lambda>a. sint (rb_prio s a) < sint prio"
  obtain s' where s': "insert_rx_pq seg prio addr rssi s = Some s'" "port_ok s' i (pinsert ?b b ps) ys"
    "entry s' = (entry s)(b := e)" "rb_status s' = (rb_status s)(b := FULL)"
    using insert_rx_pq_room [of s i ps "[]" b ys seg prio addr rssi] ok b fs port p by (auto simp: e)
  have nb: "b \<notin> set ps" "b \<notin> set ys" using ok b by (auto simp: port_ok_def)
  have "pinsert ?b b ps = pinsert (\<lambda>a. rx_key (entry s' a) < rx_key e) b ps"
    using nb by (intro pinsert_cong) (auto simp: s'(3) rx_key_def e, auto simp: entry_def)
  then have "map (entry s') (pinsert ?b b ps) = pinsert (\<lambda>y. rx_key y < rx_key e) e xs"
    using map_pinsert [of "entry s'" "\<lambda>y. rx_key y < rx_key e" b ps] xs nb
    by (simp add: s'(3) map_fun_upd)
  moreover have "port_to_rbm_index p s' = Some i"
    using port_index_same [OF yieldsD [OF insert_rx_pq_ports s'(1)]] port by simp
  moreover have "\<forall>f \<in> set ys. rb_status s' f = EMPTY" using fs b nb by (auto simp: s'(4))
  ultimately show ?thesis
    using s'(1,2) n b by (intro exI [of _ s']) (auto simp: rx_enq_def e intro!: rx_holdsI)
qed

lemma rx_front_holds: "rx_holds i p n s xs \<Longrightarrow> rx_front i s = (case xs of [] \<Rightarrow> None | x # _ \<Rightarrow> Some x)"
  by (auto simp: rx_holds_def rx_front_def hdo_def elim!: port_okE split: list.split)

lemma rx_serve_holds:
  assumes "rx_holds i p n s (x # xs)"
  shows "\<exists>s'. rx_serve i s = Some (x, s') \<and> rx_holds i p n s' xs"
proof -
  obtain b ps fs where port: "port_to_rbm_index p s = Some i" and ok: "port_ok s i (b # ps) fs"
    and fs: "\<forall>f \<in> set fs. rb_status s f = EMPTY" and n: "length (b # ps) + length fs = n"
    and x: "entry s b = x" "map (entry s) ps = xs"
    using assms by (auto simp: rx_holds_def map_eq_Cons_conv)
  obtain s1 where s1: "remove_rx_pq i s = Some (Some b, s1)" "port_ok s1 i ps fs" "entry s1 = entry s"
    "rb_status s1 = rb_status s" using remove_rx_pq_ok [OF ok] by blast
  have b: "b \<notin> set (ps @ fs)" "rb_status s b = FULL" using ok by (auto simp: port_ok_def)
  obtain s2 where s2: "insert_rx_fq b i FULL s1 = Some s2" "port_ok s2 i ps (fs @ [b])" "entry s2 = entry s1"
    "rb_status s2 = rb_status s1"
    using insert_rx_fq_ok [OF s1(2) b(1), of FULL] b(2) s1(4) by auto
  let ?f = "\<lambda>m. m\<lparr>countFree := countFree m + 1\<rparr>"
  let ?s = "upd_rbm i ?f (s2\<lparr>rb_status := (rb_status s2)(b := EMPTY)\<rparr>)"
  obtain m where m: "at (rx_buf_mgr s2) (sint i) = Some m" "sll (rb_next s2) (head_pq m) ps"
    "sll (rb_next s2) (head_fq m) (fs @ [b])" "tail_pq m = lasto ps" "tail_fq m = lasto (fs @ [b])"
    "distinct (ps @ fs @ [b])"
    "countFree m = of_nat (length (filter (\<lambda>b. rb_status s2 b = EMPTY) (fs @ [b])))"
    "\<forall>p \<in> set ps. rb_status s2 p = FULL" using s2(2) by (auto simp: port_ok_def)
  have "filter (\<lambda>c. ((rb_status s2)(b := EMPTY)) c = EMPTY) fs = filter (\<lambda>c. rb_status s2 c = EMPTY) fs"
    using b(1) by (intro filter_cong) auto
  then have "countFree (?f m) = of_nat (length (filter (\<lambda>c. ((rb_status s2)(b := EMPTY)) c = EMPTY) (fs @ [b])))"
    using m(7) b(2) s1(4) s2(4) by simp
  then have "port_ok ?s i ps (fs @ [b])"
    using m b(1) by (intro port_okI [of _ _ "?f m"]) auto
  moreover have "port_to_rbm_index p ?s = Some i"
    using yieldsD [OF remove_rx_pq_ports s1(1)] yieldsD [OF insert_rx_fq_ports s2(1)] port
    by (subst port_index_same [of s]) (simp_all add: same_ports_upd, simp add: same_ports_def)
  moreover have "\<forall>f \<in> set (fs @ [b]). rb_status ?s f = EMPTY" using fs s1(4) s2(4) by auto
  ultimately have "rx_holds i p n ?s xs"
    using n x(2) s1(3) s2(3) by (intro rx_holdsI [of _ _ _ ps "fs @ [b]"]) auto
  moreover have "rx_serve i s = Some (x, ?s)"
    using s1 s2 x(1) by (simp add: rx_serve_def)
  ultimately show ?thesis by blast
qed

interpretation rx: prio_queue_pop "rx_holds i p n" rx_enq "rx_front i" rx_key "rx_room p n" "rx_serve i"
  for i p n
  by unfold_locales (simp_all add: rx_enq_holds rx_front_holds rx_serve_holds)

section \<open>A port for examples\<close>

definition ex_seg :: Transport_Segment_UDP where
  "ex_seg = \<lparr>seg_srcPort = 7, seg_destPort = 5, seg_length = 1, seg_data = [42]\<rparr>"

text \<open>Port 5 with the port queue \<open>ps\<close> and the free queue \<open>fs\<close>.\<close>

definition ex_next :: "nat list \<Rightarrow> nat \<Rightarrow> nat option" where
  "ex_next xs a = hdo (tl (dropWhile (\<lambda>x. x \<noteq> a) xs))"

definition ex_rx :: "(nat \<Rightarrow> i8) \<Rightarrow> (nat \<Rightarrow> i8) \<Rightarrow> nat list \<Rightarrow> nat list \<Rightarrow> rx_state" where
  "ex_rx st pr ps fs =
     \<lparr>rb_seg = (\<lambda>b. ex_seg), rb_status = st, rb_prio = pr, rb_rssi = (\<lambda>b. 0), rb_srcAddr = (\<lambda>b. 1),
      rb_next = (\<lambda>a. if a \<in> set ps then ex_next ps a else ex_next fs a),
      num_bufs_free = 4,
      rx_buf_mgr = [\<lparr>rbm_pid = 1, rbm_pindex = 0, head_fq = hdo fs, tail_fq = lasto fs, head_pq = hdo ps,
                     tail_pq = lasto ps, countTotal = of_nat (length (ps @ fs)),
                     countFree = of_nat (length (filter (\<lambda>b. st b = EMPTY) fs))\<rparr>],
      ports = [\<lparr>pno = 5, data_arrived_signal = 1, send_done_signal = 2\<rparr>],
      excessPolicySettings = 0\<rparr>"

lemma ex_rx_port [simp]: "port_to_rbm_index 5 (ex_rx st pr ps fs) = Some 0"
proof -
  have "[0 ..< NUM_PORTS] = 0 # [1 ..< NUM_PORTS]" by (simp add: NUM_PORTS_def upt_rec)
  then show ?thesis by (simp add: port_to_rbm_index_def ex_rx_def at_def)
qed

lemma ex_rx_simps [simp]:
  "rb_status (ex_rx st pr ps fs) = st" "rb_prio (ex_rx st pr ps fs) = pr"
  by (simp_all add: ex_rx_def)

lemma sll_ex_next: "distinct xs \<Longrightarrow> \<forall>a \<in> set xs. nx a = ex_next xs a \<Longrightarrow> sll nx (hdo xs) xs"
proof (induction xs)
  case (Cons x xs)
  have "\<forall>a \<in> set xs. nx a = ex_next xs a" using Cons.prems by (auto simp: ex_next_def)
  with Cons show ?case by (cases xs) (auto simp: ex_next_def)
qed simp

lemma ex_rx_ok:
  assumes "distinct (ps @ fs)" "\<forall>p \<in> set ps. st p = FULL"
  shows "port_ok (ex_rx st pr ps fs) 0 ps fs"
  using assms by (intro port_okI) (auto simp: ex_rx_def at_def disjoint_iff intro!: sll_ex_next)

lemma ex_rx_holds:
  assumes "distinct fs" "\<forall>f \<in> set fs. st f = EMPTY"
  shows "rx_holds 0 5 (length fs) (ex_rx st pr [] fs) []"
  using ex_rx_ok [of "[]" fs st pr] assms by (intro rx_holdsI [of _ _ _ "[]" fs]) auto

section \<open>Properties\<close>







text \<open>
  A buffer can get lost on the free queue. When the only empty buffer is the last one,
  behind buffers the application still works on, \<^verbatim>\<open>remove_rx_fq\<close> returns it but leaves
  the tail pointer of the free queue on it. Giving the buffer back with
  \<^verbatim>\<open>insert_rx_fq\<close> then links it behind itself: the free queue still holds only the other
  buffers.
\<close>

theorem free_queue_loses_buffer:
  assumes ok: "port_ok s i ps (xs @ [b])" and xs: "xs \<noteq> []" "\<forall>x \<in> set xs. rb_status s x \<noteq> EMPTY"
    and b: "rb_status s b = EMPTY"
  shows "\<exists>s1 s2 m. remove_rx_fq i EMPTY s = Some (Some b, s1) \<and> insert_rx_fq b i FULL s1 = Some s2 \<and>
    at (rx_buf_mgr s2) (sint i) = Some m \<and> sll (rb_next s2) (head_fq m) xs \<and> b \<notin> set xs \<and>
    tail_fq m = Some b"
proof -
  from ok obtain m where m: "at (rx_buf_mgr s) (sint i) = Some m" "sll (rb_next s) (head_fq m) (xs @ [b])"
    "head_fq m = hdo (xs @ [b])" "tail_fq m = lasto (xs @ [b])" "distinct (xs @ [b])"
    by (rule port_okE) blast
  have find: "find_status EMPTY (rb_status s) (rb_next s) None (head_fq m) = Some (lasto xs, Some b)"
    using find_status_list [of "rb_next s" "head_fq m" xs "[b]" EMPTY "rb_status s" None] m(2) xs b
    by (simp add: lasto_def)
  have nb: "rb_next s b = None" using sll_append [OF m(2)] by simp
  let ?s1 = "upd_rbm i (\<lambda>m. m\<lparr>countFree := countFree m - 1\<rparr>) (s\<lparr>rb_next := (rb_next s)(last xs := None)\<rparr>)"
  let ?nx = "(rb_next s)(last xs := None, b := None)"
  let ?s2 = "upd_rbm i (\<lambda>m. m\<lparr>tail_fq := Some b\<rparr>) (?s1\<lparr>rb_next := ?nx\<rparr>)"
  have "remove_rx_fq i EMPTY s = Some (Some b, ?s1)"
    using m(1) find xs nb by (simp add: remove_rx_fq_def Let_def lasto_def)
  moreover have "insert_rx_fq b i FULL ?s1 = Some ?s2"
    using m(1,3,4) by (simp add: insert_rx_fq_def)
  moreover have "sll ?nx (head_fq m) xs"
    using sll_drop_last [OF m(2) xs(1)] m(5) by simp
  moreover have "at (rx_buf_mgr ?s2) (sint i) = Some (m\<lparr>countFree := countFree m - 1, tail_fq := Some b\<rparr>)"
    using m(1) by simp
  ultimately show ?thesis using m(5)
    by (intro exI [of _ ?s1] exI [of _ ?s2] exI [of _ "m\<lparr>countFree := countFree m - 1, tail_fq := Some b\<rparr>"]) simp
qed

theorem free_queue_loses_buffer_witness:
  "\<exists>s1 s2 m. remove_rx_fq 0 EMPTY (ex_rx (\<lambda>b. if b = 0 then FULL else EMPTY) (\<lambda>b. 0) [] [0, 1]) = Some (Some 1, s1) \<and>
    insert_rx_fq 1 0 FULL s1 = Some s2 \<and> at (rx_buf_mgr s2) 0 = Some m \<and> sll (rb_next s2) (head_fq m) [0]"
  using free_queue_loses_buffer [OF ex_rx_ok [of "[]" "[0] @ [1]" "\<lambda>b. if b = 0 then FULL else EMPTY"]]
  by (fastforce simp: ex_rx_def)

lemma print_loop_ends:
  assumes "print_loop buf = Some u"
  shows "buf = None"
proof (rule print_loop.raw_induct [of "\<lambda>b u. b = None", OF _ assms])
  fix loop :: "nat option \<Rightarrow> unit option" and b u
  assume "\<And>x u. loop x = Some u \<Longrightarrow> x = None" "(case b of None \<Rightarrow> Some () | Some a \<Rightarrow> loop b) = Some u"
  then show "b = None" by (cases b) auto
qed

text \<open>
  Printing the receive buffers hangs. \<^verbatim>\<open>print_rx_buffers\<close> returns for a port just when
  no segment is queued.
\<close>

lemma print_rx_buffers_returns:
  assumes "port_ok s i ps fs" "port_to_rbm_index port s = Some i"
  shows "print_rx_buffers port s = (if ps = [] then Some i else None)"
proof -
  from assms(1) obtain m where "at (rx_buf_mgr s) (sint i) = Some m" "head_pq m = hdo ps"
    by (rule port_okE)
  then show ?thesis using assms(2) print_loop_ends [of "hdo ps"]
    by (cases "print_loop (hdo ps)"; cases ps) (auto simp: print_rx_buffers_def print_loop.simps [of None])
qed

lemma print_rx_buffers_hangs:
  "print_rx_buffers 5 (ex_rx (\<lambda>b. FULL) (\<lambda>b. 0) [0] []) = None"
  using print_rx_buffers_returns [OF ex_rx_ok [of "[0]" "[]" "\<lambda>b. FULL" "\<lambda>b. 0"], of 5] by simp

end
