(* ===== verification/Net_BufMgr.thy ===== *)
theory Net_BufMgr
  imports Net_Rx Nrk_Events
begin

text \<open>
  The parts of \<^verbatim>\<open>src/src/net/networkstack/BufferManager.c\<close> that use the kernel: the
  critical sections around the buffers, the excess policy, and the initialisation. The
  semaphore \<^verbatim>\<open>bm_sem\<close> is an argument; a task that has to wait for it is \<open>Blocked\<close>,
  and what it does afterwards is a definition of its own, as in the kernel.
\<close>

section \<open>Critical sections\<close>

text \<open>The functions of the stack by number, from 1.\<close>

definition cr_names :: "string list" where
  "cr_names =
   [''initialise_transport_layer_udp'', ''get_next_available_socket'', ''create_socket'',
    ''get_next_available_port'', ''check_port_available'', ''assign_port'', ''release_port'',
    ''bind'', ''get_rx_queue_size'', ''set_rx_queue_size'', ''release_buffer'', ''close_socket'',
    ''is_port_associated'', ''send'', ''set_timeout'', ''receive'', ''check_receive_queue'',
    ''wait_until_send_done'', ''add_neighbor'', ''shouldIMultihop'', ''multihop'',
    ''route_addr'', ''route_packet'', ''sendToGateway'', ''pkt_type'', ''tl_type'',
    ''nw_ctrl_type'', ''process_app_pkt'', ''process_nw_ctrl_pkt'', ''process_other_pkt'',
    ''build_Msg_Hello'', ''build_Msg_NgbList'', ''nl_rx_task'', ''nl_tx_task'',
    ''create_network_layer_tasks'', ''initialise_network_layer'', ''initialise_buffer_manager'',
    ''is_excess_policy_valid'', ''set_excess_policy'', ''get_excess_policy'',
    ''get_index_unallocated_rx_buf'', ''insert_rx_pq'', ''remove_rx_pq'', ''insert_rx_fq'',
    ''remove_rx_fq'', ''insert_tx_aq'', ''remove_tx_aq'', ''insert_tx_fq'', ''remove_tx_fq'',
    ''get_in_process_buf_count'']"

text \<open>
  The \<^verbatim>\<open>switch\<close> of \<^verbatim>\<open>enter_cr\<close> and \<^verbatim>\<open>leave_cr\<close>; \<open>what\<close> is ''pending'' or
  ''posting''. Case 22 has no \<^verbatim>\<open>break\<close> and falls through to 23.
\<close>

definition cr_error :: "string \<Rightarrow> string \<Rightarrow> i8 \<Rightarrow> out_event list" where
  "cr_error what caller fno =
     (let msg = (\<lambda>n. Kprintf (''Error sem '' @ what @ '' on '' @ cr_names ! (n - 1) @ ''()'' @ CRLF))
      in if sint fno = 22 then [msg 22, msg 23]
      else if 1 \<le> sint fno \<and> sint fno \<le> 50 then [msg (nat (sint fno))]
      else [Kprintf (caller @ ''(): Unknown function number'' @ CRLF)])"

definition enter_cr :: "nat option \<Rightarrow> i8 \<Rightarrow> u8 \<Rightarrow> kernel \<Rightarrow> (unit outcome \<times> kernel) option" where
  "enter_cr sem fno timer k = do {
     (r, k) \<leftarrow> nrk_sem_pend sem timer k;
     case r of
       Blocked \<Rightarrow> Some (Blocked, k)
     | Returned c \<Rightarrow>
         Some (Returned (), if c = NRK_ERROR
           then k\<lparr>console := console k @ cr_error ''pending'' ''enter_cr'' fno\<rparr> else k)
   }"

text \<open>Case 15 of \<^verbatim>\<open>leave_cr\<close> is an endless loop.\<close>

definition leave_cr :: "nat option \<Rightarrow> i8 \<Rightarrow> kernel \<Rightarrow> kernel option" where
  "leave_cr sem fno k = do {
     (c, k) \<leftarrow> nrk_sem_post sem k;
     if c = NRK_ERROR then
       (if fno = 15 then None
        else Some (k\<lparr>console := console k @ cr_error ''posting'' ''leave_cr'' fno\<rparr>))
     else Some k
   }"

section \<open>The excess policy\<close>

definition INVALID_ARGUMENT :: u8 where "INVALID_ARGUMENT = 8"

text \<open>Lines 683-690 and 704-711: inside and at the end of the critical section.\<close>

definition set_excess_body :: "nat option \<Rightarrow> i8 \<Rightarrow> i8 \<Rightarrow> rx_state \<Rightarrow> kernel \<Rightarrow> (i8 outcome \<times> rx_state \<times> kernel) option" where
  "set_excess_body sem pr pref s k = do {
     let b = (push_bit (nat (sint pr)) 1 :: u32);
     let s = (if pref = DROP then s\<lparr>excessPolicySettings := excessPolicySettings s OR b\<rparr>
              else s\<lparr>excessPolicySettings := excessPolicySettings s AND NOT b\<rparr>);
     k \<leftarrow> leave_cr sem 39 k;
     Some (Returned NRK_OK, s, k)
   }"

definition set_excess_policy ::
    "nat option \<Rightarrow> i8 \<Rightarrow> i8 \<Rightarrow> u8 \<Rightarrow> rx_state \<Rightarrow> kernel \<Rightarrow> (i8 outcome \<times> rx_state \<times> kernel) option" where
  "set_excess_policy sem pr pref timer s k =
     (if sint pr \<le> 0 \<or> MAX_PRIORITY < sint pr \<or> \<not> is_excess_policy_valid pref then do {
        k \<leftarrow> nrk_errno_set INVALID_ARGUMENT k;
        Some (Returned NRK_ERROR, s, k)
      }
      else do {
        (r, k) \<leftarrow> enter_cr sem 39 timer k;
        case r of Blocked \<Rightarrow> Some (Blocked, s, k) | Returned u \<Rightarrow> set_excess_body sem pr pref s k
      })"

definition get_excess_body :: "nat option \<Rightarrow> i8 \<Rightarrow> rx_state \<Rightarrow> kernel \<Rightarrow> (i8 outcome \<times> kernel) option" where
  "get_excess_body sem pr s k = do {
     k \<leftarrow> leave_cr sem 40 k;
     Some (Returned (if drop_bit (nat (sint pr)) (excessPolicySettings s) AND 1 = 0 then OVERWRITE else DROP), k)
   }"

definition get_excess_policy :: "nat option \<Rightarrow> i8 \<Rightarrow> u8 \<Rightarrow> rx_state \<Rightarrow> kernel \<Rightarrow> (i8 outcome \<times> kernel) option" where
  "get_excess_policy sem pr timer s k =
     (if sint pr \<le> 0 \<or> MAX_PRIORITY < sint pr then do {
        k \<leftarrow> nrk_errno_set INVALID_ARGUMENT k;
        Some (Returned NRK_ERROR, k)
      }
      else do {
        (r, k) \<leftarrow> enter_cr sem 40 timer k;
        case r of Blocked \<Rightarrow> Some (Blocked, k) | Returned u \<Rightarrow> get_excess_body sem pr s k
      })"

section \<open>Initialisation\<close>

text \<open>
  The result is the new semaphore with the two halves of the state; without a semaphore the
  code loops for ever.
\<close>

definition initialise_buffer_manager ::
    "rx_state \<Rightarrow> tx_state \<Rightarrow> kernel \<Rightarrow> (nat option \<times> rx_state \<times> tx_state \<times> kernel) option" where
  "initialise_buffer_manager s t k = do {
     let s = initialise_rx s;
     t \<leftarrow> initialise_tx t;
     (sem, k) \<leftarrow> nrk_sem_create 1 19 k;
     if sem = None then None else Some (sem, s, t, k)
   }"

section \<open>A free semaphore\<close>

text \<open>
  Semaphore \<open>i\<close> is a mutex nobody holds; \<open>after_cr\<close> is what a critical section that did
  not have to wait leaves behind.
\<close>

definition mutex_free :: "nat \<Rightarrow> kernel \<Rightarrow> bool" where
  "mutex_free i k \<longleftrightarrow> i < NRK_MAX_RESOURCE_CNT k \<and> NRK_MAX_RESOURCE_CNT k \<le> 127 \<and>
     sem_count (nrk_sem_list k ! i) = 1 \<and> sem_value (nrk_sem_list k ! i) = 1"

lemma enter_cr_free:
  assumes "mutex_free i k" "running k c"
  shows "\<exists>k'. enter_cr (Some i) fno timer k = Some (Returned (), k') \<and> running k' c \<and>
    nrk_sem_list k' = (nrk_sem_list k)[i := (nrk_sem_list k ! i)\<lparr>sem_value := 0\<rparr>]"
proof -
  have i: "sint (of_nat i :: i8) = int i" "i < NRK_MAX_RESOURCE_CNT k" "NRK_MAX_RESOURCE_CNT k \<le> 127"
    "sem_value (nrk_sem_list k ! i) = 1" using assms(1) by (simp_all add: mutex_free_def)
  let ?k = "nrk_int_disable k\<lparr>nrk_sem_list := (nrk_sem_list k)[i := (nrk_sem_list k ! i)\<lparr>sem_value := 0\<rparr>]\<rparr>"
  have "running ?k c" using assms(2) by (simp add: running_def)
  then show ?thesis using i
    by (simp add: enter_cr_def nrk_sem_pend_def with_sem_valid nrk_sem_pend_resume_def upd_sem_def)
qed

lemma leave_cr_taken:
  assumes "i < NRK_MAX_RESOURCE_CNT k" "NRK_MAX_RESOURCE_CNT k \<le> 127" "running k c"
    "sem_count (nrk_sem_list k ! i) = 1" "sem_value (nrk_sem_list k ! i) = 0"
  shows "\<exists>k'. leave_cr (Some i) fno k = Some k' \<and> running k' c \<and>
    nrk_sem_list k' = (nrk_sem_list k)[i := (nrk_sem_list k ! i)\<lparr>sem_value := 1\<rparr>]"
proof -
  have i: "sint (of_nat i :: i8) = int i" using assms by simp
  let ?k = "nrk_int_disable k\<lparr>nrk_sem_list := (nrk_sem_list k)[i := (nrk_sem_list k ! i)\<lparr>sem_value := 1\<rparr>]\<rparr>"
  have "running ?k c" using assms(3) by (simp add: running_def)
  then show ?thesis using i assms
    by (simp add: leave_cr_def nrk_sem_post_def with_sem_valid upd_sem_def upd_cur_def running_def)
qed

lemma critical_section:
  assumes "mutex_free i k" "running k c"
  shows "\<exists>k1 k2. enter_cr (Some i) fno timer k = Some (Returned (), k1) \<and>
    leave_cr (Some i) fno' k1 = Some k2 \<and> mutex_free i k2 \<and> running k2 c"
proof -
  obtain k1 where k1: "enter_cr (Some i) fno timer k = Some (Returned (), k1)" "running k1 c"
    "nrk_sem_list k1 = (nrk_sem_list k)[i := (nrk_sem_list k ! i)\<lparr>sem_value := 0\<rparr>]"
    using enter_cr_free [OF assms] by blast
  moreover have "\<exists>k2. leave_cr (Some i) fno' k1 = Some k2 \<and> running k2 c \<and>
      nrk_sem_list k2 = (nrk_sem_list k1)[i := (nrk_sem_list k1 ! i)\<lparr>sem_value := 1\<rparr>]"
    using assms(1) k1(2,3) by (intro leave_cr_taken) (simp_all add: mutex_free_def)
  ultimately show ?thesis using assms(1) by (auto simp: mutex_free_def)
qed

lemma policy_bit_set:
  fixes w :: u32
  assumes "n < 32" "m < 32"
  shows "drop_bit m (w OR push_bit n 1) AND 1 = 0 \<longleftrightarrow> drop_bit m w AND 1 = 0 \<and> m \<noteq> n"
    "drop_bit m (w AND NOT (push_bit n 1)) AND 1 = 0 \<longleftrightarrow> drop_bit m w AND 1 = 0 \<or> m = n"
proof -
  have test: "drop_bit m v AND 1 = 0 \<longleftrightarrow> \<not> bit v m" for v :: u32
    using and_pow2_eq_0 [of "drop_bit m v" 0] by (simp add: bit_drop_bit_eq)
  show "drop_bit m (w OR push_bit n 1) AND 1 = 0 \<longleftrightarrow> drop_bit m w AND 1 = 0 \<and> m \<noteq> n"
    "drop_bit m (w AND NOT (push_bit n 1)) AND 1 = 0 \<longleftrightarrow> drop_bit m w AND 1 = 0 \<or> m = n"
    unfolding test push_bit_of_1 using assms bit_or_pow2 [of w n m] bit_and_not_pow2 [of w n m]
    by auto
qed

section \<open>Properties\<close>

text \<open>
  The excess policy of a priority can be set and read back. For a priority from 1 to 31
  and a valid policy, when the mutex of the buffer manager is free, setting returns
  \<^verbatim>\<open>NRK_OK\<close>; reading that priority afterwards gives the policy set, and reading any other
  gives what it gave before. Both calls leave the mutex free.
\<close>

theorem excess_policy_set_get:
  assumes "mutex_free i k" "running k c" "0 < sint p" "sint p \<le> 31" "0 < sint q" "sint q \<le> 31"
    "pref = OVERWRITE \<or> pref = DROP"
  shows "\<exists>s' k1 k2 k3 r. set_excess_policy (Some i) p pref t s k = Some (Returned NRK_OK, s', k1) \<and>
    get_excess_policy (Some i) q t' s' k1 = Some (Returned r, k2) \<and>
    (if q = p then r = pref else get_excess_policy (Some i) q t' s k = Some (Returned r, k3)) \<and>
    mutex_free i k2"
proof -
  let ?b = "push_bit (nat (sint p)) 1 :: u32"
  define s' where "s' = (if pref = DROP then s\<lparr>excessPolicySettings := excessPolicySettings s OR ?b\<rparr>
    else s\<lparr>excessPolicySettings := excessPolicySettings s AND NOT ?b\<rparr>)"
  define policy where "policy = (\<lambda>s :: rx_state. if drop_bit (nat (sint q)) (excessPolicySettings s) AND 1 = 0
    then OVERWRITE else DROP)"
  obtain ka k1 where set: "enter_cr (Some i) 39 t k = Some (Returned (), ka)" "leave_cr (Some i) 39 ka = Some k1"
    "mutex_free i k1" "running k1 c" using critical_section [OF assms(1,2)] by blast
  obtain kb k2 where get: "enter_cr (Some i) 40 t' k1 = Some (Returned (), kb)" "leave_cr (Some i) 40 kb = Some k2"
    "mutex_free i k2" using critical_section [OF set(3,4)] by blast
  obtain kc k3 where old: "enter_cr (Some i) 40 t' k = Some (Returned (), kc)" "leave_cr (Some i) 40 kc = Some k3"
    using critical_section [OF assms(1,2)] by blast
  have "set_excess_policy (Some i) p pref t s k = Some (Returned NRK_OK, s', k1)"
    using assms(3,4,7) set(1,2)
    by (auto simp: set_excess_policy_def set_excess_body_def is_excess_policy_valid_def MAX_PRIORITY_def s'_def)
  moreover have "get_excess_policy (Some i) q t' s' k1 = Some (Returned (policy s'), k2)"
    "get_excess_policy (Some i) q t' s k = Some (Returned (policy s), k3)"
    using assms(5,6) get(1,2) old by (auto simp: get_excess_policy_def get_excess_body_def MAX_PRIORITY_def policy_def)
  moreover have "policy s' = (if q = p then pref else policy s)"
  proof -
    have "nat (sint q) = nat (sint p) \<longleftrightarrow> q = p"
      using assms(3,5) sint_cancel [of q p] by (auto simp: nat_eq_iff)
    moreover have "nat (sint p) < 32" "nat (sint q) < 32" using assms(3-6) by auto
    note policy_bit_set [OF this, of "excessPolicySettings s"]
    ultimately show ?thesis
      using assms(7) by (auto simp: policy_def s'_def OVERWRITE_def DROP_def)
  qed
  ultimately show ?thesis using get(3) by (intro exI [of _ s'] exI [of _ k1] exI [of _ k2] exI [of _ k3]) auto
qed

lemma ex_mutex:
  "mutex_free 0 (ex_kernel c\<lparr>nrk_sem_list := [\<lparr>sem_count = 1, resource_ceiling = 19, sem_value = 1\<rparr>]\<rparr>)"
  "running (ex_kernel 1\<lparr>nrk_sem_list := l\<rparr>) 1"
  by (simp_all add: mutex_free_def running_def ex_tasks_def)

theorem excess_policy_set_get_witness:
  "\<exists>s' k k1 k2. set_excess_policy (Some 0) 3 DROP 5 (ex_rx (\<lambda>b. EMPTY) (\<lambda>b. 0) [] []) k = Some (Returned NRK_OK, s', k1) \<and>
    get_excess_policy (Some 0) 3 6 s' k1 = Some (Returned DROP, k2)"
  using excess_policy_set_get [OF ex_mutex, of 3 3 DROP 5 "ex_rx (\<lambda>b. EMPTY) (\<lambda>b. 0) [] []" 6] by auto

text \<open>
  A failing critical section hangs or lies. When \<^verbatim>\<open>bm_sem\<close> is not a semaphore of the
  kernel, entering a critical section prints a message and goes on without the lock; leaving
  it with function number 15 never returns, and with 22 two functions are named.
\<close>

theorem critical_section_without_semaphore:
  assumes "running k c"
  shows "\<exists>k1. enter_cr None fno timer k = Some (Returned (), k1) \<and> running k1 c \<and>
    console k1 = console k @ cr_error ''pending'' ''enter_cr'' fno \<and>
    (if fno = 15 then leave_cr None fno k1 = None
     else \<exists>k2. leave_cr None fno k1 = Some k2 \<and> console k2 = console k1 @ cr_error ''posting'' ''leave_cr'' fno) \<and>
    length (cr_error ''posting'' ''leave_cr'' fno) = (if fno = 22 then 2 else 1)"
proof -
  have none: "nrk_get_resource_index None k' = NRK_ERROR" for k'
    using scan_None_iff [of "\<lambda>i. False" 0 "NRK_MAX_RESOURCE_CNT k'"]
    by (simp add: nrk_get_resource_index_def)
  let ?k = "upd_tcb c (\<lambda>t. t\<lparr>errno := 1\<rparr>)"
  have err: "with_sem None k' body ret = Some (ret NRK_ERROR, ?k k')" if "running k' c"
    for k' and body :: "i8 \<Rightarrow> ('r \<times> kernel) option" and ret
    using that by (simp add: with_sem_def none NRK_ERROR_def nrk_errno_set_def)
  let ?k1 = "(?k k)\<lparr>console := console k @ cr_error ''pending'' ''enter_cr'' fno\<rparr>"
  have "enter_cr None fno timer k = Some (Returned (), ?k1)"
    using assms by (simp add: enter_cr_def nrk_sem_pend_def err)
  then obtain k1 where k1: "enter_cr None fno timer k = Some (Returned (), k1)" "running k1 c"
    "console k1 = console k @ cr_error ''pending'' ''enter_cr'' fno"
    using assms by (simp add: running_def)
  moreover have "nrk_sem_post None k1 = Some (NRK_ERROR, ?k k1)"
    using err [OF k1(2)] by (simp add: nrk_sem_post_def)
  moreover have "length (cr_error ''posting'' ''leave_cr'' fno) = (if fno = 22 then 2 else 1)"
    using sint_cancel [of fno 22] by (simp add: cr_error_def Let_def)
  ultimately show ?thesis
    by (intro exI [of _ k1]) (simp add: leave_cr_def)
qed

theorem critical_section_without_semaphore_witness:
  "\<exists>k1. enter_cr None 15 5 (ex_kernel 1) = Some (Returned (), k1) \<and> leave_cr None 15 k1 = None"
  using critical_section_without_semaphore [OF ex_running, of 1 15 5] by auto

end
