(* ===== verification/Net_Layer.thy ===== *)
theory Net_Layer
  imports Net_BufMgr Nrk_Init
begin

text \<open>
  The state of the whole network stack, and the functions of
  \<^verbatim>\<open>src/src/net/networkstack/NetworkLayer.c\<close> that keep the table of neighbours, the
  routing table, and pass packets on. The two tasks of the layer, which wait for the radio
  for ever, are not modelled; the functions they call are here and in \<open>Net_Dispatch\<close>.
\<close>

section \<open>State\<close>

definition BCAST_ADDR :: u16 where "BCAST_ADDR = 65535"
definition TIMEOUT_COUNTER :: i8 where "TIMEOUT_COUNTER = 5"
definition MAX_NETWORK_DIAMETER :: i8 where "MAX_NETWORK_DIAMETER = 20"
definition INFINITY :: u8 where "INFINITY = 100"

definition APPLICATION :: u8 where "APPLICATION = 0"
definition NW_CONTROL :: u8 where "NW_CONTROL = 0x80"
definition HELLO :: u8 where "HELLO = 0x80"
definition NGB_LIST :: u8 where "NGB_LIST = 0x88"
definition ROUTE_CONFIG :: u8 where "ROUTE_CONFIG = 0x90"
definition INVALID :: u8 where "INVALID = 0xFF"
definition UDP :: u8 where "UDP = 0"

lemmas packet_kinds = APPLICATION_def NW_CONTROL_def HELLO_def NGB_LIST_def ROUTE_CONFIG_def
  INVALID_def UDP_def

text \<open>The error codes of \<^verbatim>\<open>NWErrorCodes.h\<close>.\<close>

definition MAX_NEIGHBOR_LIMIT_REACHED :: u8 where "MAX_NEIGHBOR_LIMIT_REACHED = 1"
definition NO_SOCKET_DESC_AVAILABLE :: u8 where "NO_SOCKET_DESC_AVAILABLE = 2"
definition UNSUPPORTED_SOCK_TYPE :: u8 where "UNSUPPORTED_SOCK_TYPE = 3"
definition PORT_UNAVAILABLE :: u8 where "PORT_UNAVAILABLE = 4"
definition INVALID_SOCKET :: u8 where "INVALID_SOCKET = 5"
definition INVALID_CALL :: u8 where "INVALID_CALL = 6"
definition NO_PORTS_AVAILABLE :: u8 where "NO_PORTS_AVAILABLE = 7"
definition NO_RX_BUFFERS_AVAILABLE :: u8 where "NO_RX_BUFFERS_AVAILABLE = 10"
definition NO_TX_BUFFERS_AVAILABLE :: u8 where "NO_TX_BUFFERS_AVAILABLE = 11"
definition SOCKET_TIMEOUT :: u8 where "SOCKET_TIMEOUT = 12"
definition UNMAPPED_SOCKET :: u8 where "UNMAPPED_SOCKET = 13"
definition NO_PORT_ELEMENT_AVAILABLE :: u8 where "NO_PORT_ELEMENT_AVAILABLE = 14"
definition NO_RBM_ELEMENT_AVAILABLE :: u8 where "NO_RBM_ELEMENT_AVAILABLE = 15"

record Socket =
  sk_pindex :: i8
  sk_rbmindex :: i8
  sk_pid :: i8
  sk_type :: i8
  sk_timeout :: nrk_time_t

text \<open>
  The globals of the stack. \<open>n_rx\<close> and \<open>n_tx\<close> are those of the buffer manager,
  \<open>tl_udp_seg\<close> and \<open>tl_pkt\<close> the ones \<^verbatim>\<open>send\<close> fills, \<open>nl_udp_seg\<close>,
  \<open>pkt_rx\<close>, \<open>pkt_tx\<close> and \<open>ntg_pkt\<close> those of the network layer, \<open>gtn_pkt\<close> and
  \<open>nw_pkt\<close> those of \<^verbatim>\<open>Serial.c\<close>. Globals that are overwritten whole before each use
  (\<^verbatim>\<open>mh\<close>, \<^verbatim>\<open>mnlist\<close>, \<^verbatim>\<open>mrt\<close>, the byte buffers) have no field. The node address is a constant of the build; \<open>host_le\<close> is
  the byte order of the processor, \<open>endian\<close> what \<^verbatim>\<open>endianness\<close> found.
\<close>

record net =
  n_kernel :: kernel
  n_rx :: rx_state
  n_tx :: tx_state
  bm_sem :: "nat option"
  sock :: "Socket list"
  tlayer_init_done :: i8
  tl_udp_seg :: Transport_Segment_UDP
  tl_pkt :: NW_Packet
  tl_sem :: "nat option"
  ngb_list :: NeighborList
  route_table :: "RoutingTable list"
  DEFAULT_GATEWAY :: u16
  ROUTING_ALGORITHM :: i8
  FLOODING_TYPE :: i8
  P_DISTRIBUTION :: i8
  nl_udp_seg :: Transport_Segment_UDP
  pkt_rx :: NW_Packet
  pkt_tx :: NW_Packet
  ntg_pkt :: NodeToGatewaySerial_Packet
  gtn_pkt :: GatewayToNodeSerial_Packet
  nw_pkt :: NW_Packet
  nl_sem :: "nat option"
  NODE_ADDR :: u16
  host_le :: bool
  endian :: i8

section \<open>Steps\<close>

text \<open>
  A function of the stack is a step: undefined (\<open>None\<close>), or an outcome and the new state.
  \<open>and_then m f\<close> runs \<open>m\<close> and, unless the task had to wait, \<open>f\<close>. When the task has
  to wait inside \<open>m\<close> the rest \<open>f\<close> of the function runs after it has been woken. The timer
  is read at most once between two waits, so one reading serves a whole function.
\<close>

type_synonym 'r step = "('r outcome \<times> net) option"

definition and_then :: "'a step \<Rightarrow> ('a \<Rightarrow> net \<Rightarrow> 'r step) \<Rightarrow> 'r step" where
  "and_then m f = do {
     (r, s) \<leftarrow> m;
     case r of Blocked \<Rightarrow> Some (Blocked, s) | Returned x \<Rightarrow> f x s
   }"

definition enter :: "(net \<Rightarrow> nat option) \<Rightarrow> i8 \<Rightarrow> u8 \<Rightarrow> net \<Rightarrow> unit step" where
  "enter sem fno timer s = do {
     (r, k) \<leftarrow> enter_cr (sem s) fno timer (n_kernel s);
     Some (r, s\<lparr>n_kernel := k\<rparr>)
   }"

definition leave :: "(net \<Rightarrow> nat option) \<Rightarrow> i8 \<Rightarrow> net \<Rightarrow> net option" where
  "leave sem fno s = do { k \<leftarrow> leave_cr (sem s) fno (n_kernel s); Some (s\<lparr>n_kernel := k\<rparr>) }"

definition set_errno :: "u8 \<Rightarrow> net \<Rightarrow> net option" where
  "set_errno e s = do { k \<leftarrow> nrk_errno_set e (n_kernel s); Some (s\<lparr>n_kernel := k\<rparr>) }"

definition prints :: "out_event list \<Rightarrow> net \<Rightarrow> net" where
  "prints es s = s\<lparr>n_kernel := (n_kernel s)\<lparr>console := console (n_kernel s) @ es\<rparr>\<rparr>"

text \<open>The bytes of a list as a buffer, and back.\<close>

definition buf_of :: "u8 list \<Rightarrow> buffer" where
  "buf_of xs = (\<lambda>i. xs ! i)"

definition pack_into :: "(nat \<Rightarrow> buffer \<Rightarrow> buffer) \<Rightarrow> u8 list \<Rightarrow> u8 list" where
  "pack_into f xs = map (f 0 (buf_of xs)) [0 ..< length xs]"

section \<open>The neighbours\<close>

text \<open>
  The first loop of \<^verbatim>\<open>add_neighbor\<close>, with \<open>c\<close> for \<^verbatim>\<open>nl.count\<close>; the boolean is
  \<^verbatim>\<open>found\<close>.
\<close>

fun ngb_pass :: "Neighbor \<Rightarrow> Neighbor list \<Rightarrow> i8 \<Rightarrow> Neighbor list \<times> bool \<times> i8" where
  "ngb_pass n [] c = ([], False, c)"
| "ngb_pass n (e # es) c =
     (if nb_addr e = nb_addr n then
        let (es, found, c) = ngb_pass n es c
        in (e\<lparr>nb_lastReport := TIMEOUT_COUNTER, nb_isNew := 0, nb_rssi := nb_rssi n\<rparr> # es, True, c)
      else if nb_addr e \<noteq> BCAST_ADDR then
        let e = e\<lparr>nb_lastReport := nb_lastReport e - 1\<rparr>;
            (e, c) = (if nb_lastReport e = 0
                      then (e\<lparr>nb_addr := BCAST_ADDR, nb_rssi := 0, nb_isNew := 0\<rparr>, c - 1)
                      else (e, c));
            (es, found, c) = ngb_pass n es c
        in (e # es, found, c)
      else let (es, found, c) = ngb_pass n es c in (e # es, found, c))"

definition add_neighbor_body :: "Neighbor \<Rightarrow> net \<Rightarrow> i8 step" where
  "add_neighbor_body n s = do {
     let l = ngb_list s;
     let (es, found, c) = ngb_pass n (nl_ngbs l) (nl_count l);
     let s = s\<lparr>ngb_list := l\<lparr>nl_ngbs := es, nl_count := c\<rparr>\<rparr>;
     if found then do {
       s \<leftarrow> leave nl_sem 19 s;
       Some (Returned NRK_OK, s)
     }
     else if c = of_nat MAX_NGBS then do {
       s \<leftarrow> set_errno MAX_NEIGHBOR_LIMIT_REACHED s;
       s \<leftarrow> leave nl_sem 19 s;
       Some (Returned NRK_ERROR, s)
     }
     else do {
       i \<leftarrow> scan (\<lambda>i. nb_addr (es ! i) = BCAST_ADDR) 0 MAX_NGBS;
       let n = n\<lparr>nb_lastReport := TIMEOUT_COUNTER, nb_isNew := 1\<rparr>;
       s \<leftarrow> leave nl_sem 19 (s\<lparr>ngb_list := l\<lparr>nl_ngbs := es[i := n], nl_count := c + 1\<rparr>\<rparr>);
       Some (Returned NRK_OK, s)
     }
   }"

definition add_neighbor :: "Neighbor \<Rightarrow> u8 \<Rightarrow> net \<Rightarrow> i8 step" where
  "add_neighbor n timer s = and_then (enter nl_sem 19 timer s) (\<lambda>_. add_neighbor_body n)"

section \<open>Routes\<close>

definition initialise_routing_table :: "net \<Rightarrow> net" where
  "initialise_routing_table s =
     s\<lparr>route_table := map (\<lambda>e. e\<lparr>rt_dest := BCAST_ADDR, rt_nextHop := BCAST_ADDR, rt_cost := INFINITY\<rparr>)
                        (route_table s)\<rparr>"

definition set_RoutingTable :: "Msg_RoutingTable \<Rightarrow> u8 \<Rightarrow> net \<Rightarrow> unit step" where
  "set_RoutingTable m timer s =
     and_then (enter nl_sem 34 timer s) (\<lambda>_ s. do {
       let s = initialise_routing_table s;
       s \<leftarrow> leave nl_sem 34 (s\<lparr>DEFAULT_GATEWAY := mr_dg m, route_table := mr_rt m\<rparr>);
       Some (Returned (), s)
     })"

definition route_addr :: "u16 \<Rightarrow> u8 \<Rightarrow> net \<Rightarrow> u16 step" where
  "route_addr addr timer s =
     (if addr = BCAST_ADDR then Some (Returned BCAST_ADDR, s)
      else and_then (enter nl_sem 34 timer s) (\<lambda>_ s. do {
        let hit = scan (\<lambda>i. rt_dest (route_table s ! i) \<noteq> BCAST_ADDR \<and> rt_dest (route_table s ! i) = addr)
                    0 MAX_NODES;
        s \<leftarrow> leave nl_sem 34 s;
        Some (Returned (case hit of Some i \<Rightarrow> rt_nextHop (route_table s ! i) | None \<Rightarrow> BCAST_ADDR), s)
      }))"

section \<open>Passing packets on\<close>

text \<open>These return the packet, which they change through the pointer.\<close>

definition shouldIMultihop :: "NW_Packet \<Rightarrow> bool \<times> NW_Packet" where
  "shouldIMultihop p = (let p = p\<lparr>pkt_ttl := pkt_ttl p - 1\<rparr> in (pkt_ttl p \<noteq> 0, p))"

text \<open>A full transmit queue only calls \<^verbatim>\<open>record_tx_queue_full\<close>, which is empty.\<close>

definition queue_packet :: "i8 \<Rightarrow> NW_Packet \<Rightarrow> u8 \<Rightarrow> net \<Rightarrow> i8 step" where
  "queue_packet fno p timer s =
     and_then (enter bm_sem fno timer s) (\<lambda>_ s. do {
       (r, t) \<leftarrow> insert_tx_aq p (n_tx s);
       s \<leftarrow> leave bm_sem fno (s\<lparr>n_tx := t\<rparr>);
       Some (Returned r, s)
     })"

definition multihop :: "NW_Packet \<Rightarrow> u8 \<Rightarrow> net \<Rightarrow> NW_Packet step" where
  "multihop p timer s =
     (let (yes, p) = shouldIMultihop p
      in if yes then and_then (queue_packet 21 p timer s) (\<lambda>_ s. Some (Returned p, s))
      else Some (Returned p, s))"

definition route_packet :: "NW_Packet \<Rightarrow> u8 \<Rightarrow> net \<Rightarrow> NW_Packet step" where
  "route_packet p timer s =
     (let p = p\<lparr>pkt_ttl := pkt_ttl p - 1\<rparr>
      in if pkt_ttl p = 0 then Some (Returned p, s)
      else
        let p = p\<lparr>pkt_prevHop := NODE_ADDR s\<rparr>
        in and_then (route_addr (pkt_dest p) timer s) (\<lambda>hop s.
             let p = p\<lparr>pkt_nextHop := hop\<rparr>
             in and_then (queue_packet 23 p timer s) (\<lambda>_ s. Some (Returned p, s))))"

section \<open>Kinds of packets\<close>

definition get_pkt_type :: "NW_Packet \<Rightarrow> u8" where
  "get_pkt_type p =
     (if pkt_type p = UDP then APPLICATION
      else if pkt_type p = HELLO \<or> pkt_type p = NGB_LIST \<or> pkt_type p = ROUTE_CONFIG then NW_CONTROL
      else INVALID)"

definition tl_type :: "u8 \<Rightarrow> u8" where
  "tl_type t = (if t = UDP then UDP else INVALID)"

definition nw_ctrl_type :: "u8 \<Rightarrow> u8" where
  "nw_ctrl_type t =
     (if t = HELLO then HELLO else if t = NGB_LIST then NGB_LIST
      else if t = ROUTE_CONFIG then ROUTE_CONFIG else INVALID)"

section \<open>Control messages\<close>

definition NORMAL_PRIORITY :: i8 where "NORMAL_PRIORITY = 2"

text \<open>Both return the message with the packet built in \<^verbatim>\<open>pkt_tx\<close>.\<close>

definition build_Msg_Hello :: "Msg_Hello \<Rightarrow> net \<Rightarrow> Msg_Hello \<times> net" where
  "build_Msg_Hello m s =
     (let m = m\<lparr>mh_n := (mh_n m)\<lparr>nb_addr := NODE_ADDR s, nb_rssi := 0, nb_lastReport := 0, nb_isNew := 0\<rparr>\<rparr>;
          p = (pkt_tx s)\<lparr>pkt_src := NODE_ADDR s, pkt_dest := BCAST_ADDR, pkt_nextHop := BCAST_ADDR,
                pkt_prevHop := NODE_ADDR s, pkt_ttl := 1, pkt_type := HELLO, pkt_length := 5,
                pkt_prio := NORMAL_PRIORITY\<rparr>
      in (m, s\<lparr>pkt_tx := p\<lparr>pkt_data := pack_into (pack_Msg_Hello (host_le s) (endian s) m) (pkt_data p)\<rparr>\<rparr>))"

definition build_Msg_NgbList :: "Msg_NgbList \<Rightarrow> u8 \<Rightarrow> net \<Rightarrow> Msg_NgbList step" where
  "build_Msg_NgbList m timer s =
     and_then (enter nl_sem 32 timer s) (\<lambda>_ s. do {
       let m = m\<lparr>mn_nl := ngb_list s\<rparr>;
       s \<leftarrow> leave nl_sem 32 s;
       let s = s\<lparr>pkt_tx := (pkt_tx s)\<lparr>pkt_src := NODE_ADDR s\<rparr>\<rparr>;
       and_then (enter nl_sem 25 timer s) (\<lambda>_ s. do {
         let s = s\<lparr>pkt_tx := (pkt_tx s)\<lparr>pkt_dest := DEFAULT_GATEWAY s\<rparr>\<rparr>;
         s \<leftarrow> leave nl_sem 25 s;
         and_then (route_addr (pkt_dest (pkt_tx s)) timer s) (\<lambda>hop s. do {
           let p = (pkt_tx s)\<lparr>pkt_nextHop := hop, pkt_prevHop := NODE_ADDR s, pkt_ttl := MAX_NETWORK_DIAMETER,
                     pkt_type := NGB_LIST, pkt_length := 28, pkt_prio := NORMAL_PRIORITY\<rparr>;
           Some (Returned m,
             s\<lparr>pkt_tx := p\<lparr>pkt_data := pack_into (pack_Msg_NgbList (host_le s) (endian s) m) (pkt_data p)\<rparr>\<rparr>)
         })
       })
     })"

section \<open>Configuration\<close>

text \<open>\<^verbatim>\<open>LINK_STATE\<close> is 1, \<^verbatim>\<open>FLOODING\<close> 2; \<^verbatim>\<open>PROBABILISTIC\<close> 1, \<^verbatim>\<open>TTL_BASED\<close> 2;
  \<^verbatim>\<open>RANDOM\<close> 1, \<^verbatim>\<open>GAUSSIAN\<close> 2.\<close>

definition set_routing_algorithm :: "i8 \<Rightarrow> i8 \<Rightarrow> i8 \<Rightarrow> u8 \<Rightarrow> net \<Rightarrow> i8 step" where
  "set_routing_algorithm pref type pdist timer s =
     (if pref = 1 \<or> pref = 2 \<and> (type = 2 \<or> type = 1 \<and> (pdist = 1 \<or> pdist = 2)) then
        and_then (enter nl_sem 19 timer s) (\<lambda>_ s. do {
          let s = s\<lparr>ROUTING_ALGORITHM := pref\<rparr>;
          let s = (if pref = 2 then
                     let s = s\<lparr>FLOODING_TYPE := type\<rparr>
                     in if type = 1 then s\<lparr>P_DISTRIBUTION := pdist\<rparr> else s
                   else s);
          s \<leftarrow> leave nl_sem 19 s;
          Some (Returned NRK_OK, s)
        })
      else do {
        s \<leftarrow> set_errno INVALID_ARGUMENT s;
        Some (Returned NRK_ERROR, s)
      })"

text \<open>
  \<open>rxT\<close> and \<open>txT\<close> are the global task descriptors, with the address of the task and of its
  stack already stored. The offset is set last.
\<close>

definition nl_task :: "u8 \<Rightarrow> u32 \<Rightarrow> nrk_task_type \<Rightarrow> nrk_task_type" where
  "nl_task pr ms T =
     T\<lparr>prio := pr, FirstActivation := True, Type := BASIC_TASK, SchType := PREEMPTIVE,
       tt_cpu_reserve := \<lparr>secs = 0, nano_secs = ms * 1000000\<rparr>,
       tt_period := \<lparr>secs = 1, nano_secs = 0\<rparr>, offset := \<lparr>secs = 0, nano_secs = 0\<rparr>\<rparr>"

definition create_network_layer_tasks ::
    "nrk_cfg \<Rightarrow> nrk_task_type \<Rightarrow> nrk_task_type \<Rightarrow> net \<Rightarrow> (nrk_task_type \<times> nrk_task_type \<times> net) option" where
  "create_network_layer_tasks cfg rxT txT s = do {
     (r, rxT, k) \<leftarrow> nrk_activate_task cfg (nl_task 19 700 rxT) (n_kernel s);
     (r, txT, k) \<leftarrow> nrk_activate_task cfg (nl_task 18 500 txT) k;
     Some (rxT, txT, s\<lparr>n_kernel := k\<rparr>)
   }"

definition initialise_network_layer ::
    "nrk_cfg \<Rightarrow> nrk_task_type \<Rightarrow> nrk_task_type \<Rightarrow> net \<Rightarrow> (nrk_task_type \<times> nrk_task_type \<times> net) option" where
  "initialise_network_layer cfg rxT txT s = do {
     let l = (ngb_list s)\<lparr>nl_count := 0, nl_my_addr := NODE_ADDR s\<rparr>;
     let s = s\<lparr>ngb_list := l\<lparr>nl_ngbs := map (\<lambda>e. e\<lparr>nb_addr := BCAST_ADDR\<rparr>) (nl_ngbs l)\<rparr>,
               DEFAULT_GATEWAY := BCAST_ADDR, ROUTING_ALGORITHM := 1, FLOODING_TYPE := 2,
               P_DISTRIBUTION := 1\<rparr>;
     let s = initialise_routing_table s;
     (sem, k) \<leftarrow> nrk_sem_create 1 19 (n_kernel s);
     let s = s\<lparr>nl_sem := sem, n_kernel := k\<rparr>;
     if sem = None then None else create_network_layer_tasks cfg rxT txT s
   }"

end
