(* ===== verification/Net_Sock.thy ===== *)
theory Net_Sock
  imports Net_Layer
begin

text \<open>
  The transport layer, \<^verbatim>\<open>src/src/net/networkstack/TransportLayerUDP.c\<close>: sockets, ports
  and their signals, sending, receiving. A loop that only prints a "sanity check" message for
  ever is \<open>None\<close>.
\<close>

section \<open>Constants and access\<close>

definition SOCK_DGRAM :: i8 where "SOCK_DGRAM = 1"
definition SOCK_RAW :: i8 where "SOCK_RAW = 3"
definition SOCK_IPC :: i8 where "SOCK_IPC = 4"
definition EPHEMERAL_PORT_NUM_START :: nat where "EPHEMERAL_PORT_NUM_START = 11"
definition MAX_PORT_NUM :: nat where "MAX_PORT_NUM = 255"
definition MAX_APP_PAYLOAD :: nat where "MAX_APP_PAYLOAD = 40"
definition DEFAULT_RX_QUEUE_SIZE :: i8 where "DEFAULT_RX_QUEUE_SIZE = 1"
definition INVALID_PORT :: u8 where "INVALID_PORT = 0"
definition INVALID_PID :: i8 where "INVALID_PID = 0"
definition INVALID_RSSI :: i8 where "INVALID_RSSI = - 120"

lemmas sock_types = SOCK_DGRAM_def SOCK_RAW_def SOCK_IPC_def

definition no_time :: nrk_time_t where "no_time = \<lparr>secs = 0, nano_secs = 0\<rparr>"

definition upd_sock :: "i8 \<Rightarrow> (Socket \<Rightarrow> Socket) \<Rightarrow> net \<Rightarrow> net" where
  "upd_sock n f s = s\<lparr>sock := (sock s)[nat (sint n) := f (sock s ! nat (sint n))]\<rparr>"

definition upd_port :: "i8 \<Rightarrow> (Port \<Rightarrow> Port) \<Rightarrow> net \<Rightarrow> net option" where
  "upd_port i f s = do {
     p \<leftarrow> at (ports (n_rx s)) (sint i);
     Some (s\<lparr>n_rx := (n_rx s)\<lparr>ports := (ports (n_rx s))[nat (sint i) := f p]\<rparr>\<rparr>)
   }"

definition upd_rx :: "(rx_state \<Rightarrow> rx_state) \<Rightarrow> net \<Rightarrow> net" where
  "upd_rx f s = s\<lparr>n_rx := f (n_rx s)\<rparr>"

text \<open>\<^verbatim>\<open>sock[n].pid != nrk_get_pid()\<close>, for a number in range.\<close>

definition foreign_socket :: "i8 \<Rightarrow> net \<Rightarrow> bool option" where
  "foreign_socket n s = do {
     pid \<leftarrow> nrk_get_pid (n_kernel s);
     Some (sint (sk_pid (sock s ! nat (sint n))) \<noteq> uint pid)
   }"

definition bad_sock_num :: "i8 \<Rightarrow> bool" where
  "bad_sock_num n \<longleftrightarrow> sint n < 0 \<or> int NUM_PORTS \<le> sint n"

text \<open>Both critical sections, and the ways to end a call inside them.\<close>

definition enter_both :: "i8 \<Rightarrow> u8 \<Rightarrow> net \<Rightarrow> unit step" where
  "enter_both fno timer s = and_then (enter bm_sem fno timer s) (\<lambda>_. enter tl_sem fno timer)"

definition leave_both :: "i8 \<Rightarrow> net \<Rightarrow> net option" where
  "leave_both fno s = do { s \<leftarrow> leave tl_sem fno s; leave bm_sem fno s }"

definition finish :: "i8 \<Rightarrow> 'r \<Rightarrow> net \<Rightarrow> 'r step" where
  "finish fno r s = do { s \<leftarrow> leave_both fno s; Some (Returned r, s) }"

definition refuse :: "i8 \<Rightarrow> 'r \<Rightarrow> u8 \<Rightarrow> net \<Rightarrow> 'r step" where
  "refuse fno r e s = do { s \<leftarrow> set_errno e s; finish fno r s }"

section \<open>Sockets\<close>

definition initialise_transport_layer_udp :: "net \<Rightarrow> net option" where
  "initialise_transport_layer_udp s = do {
     let s = s\<lparr>sock := map (\<lambda>k. k\<lparr>sk_pindex := - 1, sk_rbmindex := - 1, sk_pid := INVALID_PID,
                                    sk_timeout := no_time\<rparr>) (sock s)\<rparr>;
     let s = upd_rx (\<lambda>r. r\<lparr>ports := map (\<lambda>p. p\<lparr>pno := INVALID_PORT\<rparr>) (ports r)\<rparr>) s;
     (sem, k) \<leftarrow> nrk_sem_create 1 19 (n_kernel s);
     let s = s\<lparr>tl_sem := sem, n_kernel := k\<rparr>;
     if sem = None then None else Some (s\<lparr>tlayer_init_done := 1\<rparr>)
   }"

definition get_next_available_socket :: "net \<Rightarrow> (i8 \<times> net) option" where
  "get_next_available_socket s =
     (case scan (\<lambda>i. sk_pid (sock s ! i) = INVALID_PID) 0 NUM_PORTS of
        Some i \<Rightarrow> Some (of_nat i, s)
      | None \<Rightarrow> do { s \<leftarrow> set_errno NO_SOCKET_DESC_AVAILABLE s; Some (NRK_ERROR, s) })"

definition create_socket_body :: "i8 \<Rightarrow> net \<Rightarrow> i8 step" where
  "create_socket_body type s =
     (if tlayer_init_done s \<noteq> 1 then None
      else do {
        (result, s) \<leftarrow>
          (if type = SOCK_DGRAM \<or> type = SOCK_IPC \<or> type = SOCK_RAW then do {
             (result, s) \<leftarrow> get_next_available_socket s;
             if result \<noteq> NRK_ERROR then do {
               pid \<leftarrow> nrk_get_pid (n_kernel s);
               Some (result, upd_sock result (\<lambda>k. k\<lparr>sk_pid := pid, sk_type := type\<rparr>) s)
             }
             else Some (result, s)
           }
           else do {
             s \<leftarrow> set_errno UNSUPPORTED_SOCK_TYPE s;
             Some (NRK_ERROR, s)
           });
        s \<leftarrow> leave tl_sem 3 s;
        Some (Returned result, s)
      })"

definition create_socket :: "i8 \<Rightarrow> u8 \<Rightarrow> net \<Rightarrow> i8 step" where
  "create_socket type timer s = and_then (enter tl_sem 3 timer s) (\<lambda>_. create_socket_body type)"

section \<open>Ports\<close>

definition port_taken :: "nat \<Rightarrow> net \<Rightarrow> bool" where
  "port_taken p s \<longleftrightarrow> scan (\<lambda>j. unat (pno (ports (n_rx s) ! j)) = p) 0 NUM_PORTS \<noteq> None"

definition get_next_available_port :: "net \<Rightarrow> (u8 \<times> net) option" where
  "get_next_available_port s =
     (case scan (\<lambda>p. \<not> port_taken p s) EPHEMERAL_PORT_NUM_START (Suc MAX_PORT_NUM) of
        Some p \<Rightarrow> Some (of_nat p, s)
      | None \<Rightarrow> do { s \<leftarrow> set_errno NO_PORTS_AVAILABLE s; Some (INVALID_PORT, s) })"

definition check_port_available :: "u8 \<Rightarrow> net \<Rightarrow> (i8 \<times> net) option" where
  "check_port_available pt s =
     (if \<not> port_taken (unat pt) s then Some (NRK_OK, s)
      else do { s \<leftarrow> set_errno PORT_UNAVAILABLE s; Some (NRK_ERROR, s) })"

definition assign_port :: "i8 \<Rightarrow> u8 \<Rightarrow> net \<Rightarrow> net option" where
  "assign_port pindex pt s = do {
     let (a, k) = nrk_signal_create (n_kernel s);
     let (d, k) = nrk_signal_create k;
     s \<leftarrow> upd_port pindex (\<lambda>p. p\<lparr>pno := pt, send_done_signal := a, data_arrived_signal := d\<rparr>)
            (s\<lparr>n_kernel := k\<rparr>);
     if a = NRK_ERROR \<or> d = NRK_ERROR then None
     else do {
       (ret1, k) \<leftarrow> nrk_signal_register a (n_kernel s);
       (ret2, k) \<leftarrow> nrk_signal_register d k;
       if ret1 = NRK_ERROR \<or> ret2 = NRK_ERROR then None else Some (s\<lparr>n_kernel := k\<rparr>)
     }
   }"

definition release_port :: "i8 \<Rightarrow> net \<Rightarrow> net option" where
  "release_port pindex s = do {
     s \<leftarrow> upd_port pindex (\<lambda>p. p\<lparr>pno := INVALID_PORT\<rparr>) s;
     p \<leftarrow> at (ports (n_rx s)) (sint pindex);
     (ret1, k) \<leftarrow> nrk_signal_delete (send_done_signal p) (n_kernel s);
     (ret2, k) \<leftarrow> nrk_signal_delete (data_arrived_signal p) k;
     if ret1 = NRK_ERROR \<or> ret2 = NRK_ERROR then None else Some (s\<lparr>n_kernel := k\<rparr>)
   }"

definition get_index_unassigned_port_element :: "net \<Rightarrow> (i8 \<times> net) option" where
  "get_index_unassigned_port_element s =
     (case scan (\<lambda>i. pno (ports (n_rx s) ! i) = INVALID_PORT) 0 NUM_PORTS of
        Some i \<Rightarrow> Some (of_nat i, s)
      | None \<Rightarrow> do { s \<leftarrow> set_errno NO_PORT_ELEMENT_AVAILABLE s; Some (NRK_ERROR, s) })"

definition get_index_unassigned_rbm_element :: "net \<Rightarrow> (i8 \<times> net) option" where
  "get_index_unassigned_rbm_element s =
     (case scan (\<lambda>i. rbm_pindex (rx_buf_mgr (n_rx s) ! i) = - 1) 0 NUM_PORTS of
        Some i \<Rightarrow> Some (of_nat i, s)
      | None \<Rightarrow> do { s \<leftarrow> set_errno NO_RBM_ELEMENT_AVAILABLE s; Some (NRK_ERROR, s) })"

definition get_port_num :: "i8 \<Rightarrow> net \<Rightarrow> (u8 \<times> net) option" where
  "get_port_num n s =
     (if bad_sock_num n then do { s \<leftarrow> set_errno INVALID_ARGUMENT s; Some (INVALID_PORT, s) }
      else do {
        k \<leftarrow> at (sock s) (sint n);
        foreign \<leftarrow> foreign_socket n s;
        if foreign \<or> sk_type k = SOCK_RAW then do { s \<leftarrow> set_errno INVALID_SOCKET s; Some (INVALID_PORT, s) }
        else if sk_pindex k = - 1 then do { s \<leftarrow> set_errno UNMAPPED_SOCKET s; Some (INVALID_PORT, s) }
        else do {
          p \<leftarrow> at (ports (n_rx s)) (sint (sk_pindex k));
          Some (pno p, s)
        }
      })"

definition is_port_associated_body :: "u8 \<Rightarrow> net \<Rightarrow> i8 step" where
  "is_port_associated_body p s = do {
     (r, s) \<leftarrow> check_port_available p s;
     s \<leftarrow> leave tl_sem 13 s;
     Some (Returned (if r = NRK_OK then 0 else 1), s)
   }"

definition is_port_associated :: "i16 \<Rightarrow> u8 \<Rightarrow> net \<Rightarrow> i8 step" where
  "is_port_associated port timer s =
     (if sint port \<le> 0 \<or> int MAX_PORT_NUM < sint port then do {
        s \<leftarrow> set_errno INVALID_ARGUMENT s;
        Some (Returned NRK_ERROR, s)
      }
      else and_then (enter tl_sem 13 timer s) (\<lambda>_. is_port_associated_body (ucast port)))"

section \<open>Giving a socket a port and buffers\<close>

text \<open>The loop that allocates \<open>size\<close> buffers to \<^verbatim>\<open>rx_buf_mgr[ri]\<close>.\<close>

fun alloc_bufs :: "nat \<Rightarrow> i8 \<Rightarrow> rx_state \<Rightarrow> rx_state option" where
  "alloc_bufs 0 ri r = Some r"
| "alloc_bufs (Suc n) ri r = do {
     let b = get_index_unallocated_rx_buf r;
     if b = NRK_ERROR then None
     else do {
       r \<leftarrow> insert_rx_fq (nat (sint b)) ri EMPTY r;
       let r = upd_rbm ri (\<lambda>m. m\<lparr>countTotal := countTotal m + 1\<rparr>) r;
       alloc_bufs n ri (r\<lparr>num_bufs_free := num_bufs_free r - 1\<rparr>)
     }
   }"

text \<open>
  What \<^verbatim>\<open>bind\<close>, \<^verbatim>\<open>set_rx_queue_size\<close> and \<^verbatim>\<open>send\<close> all do with a socket that
  has no port: find the elements, assign the port, fill the members. The result holds the
  index of the receive buffer manager.
\<close>

definition map_socket :: "i8 \<Rightarrow> i8 \<Rightarrow> i8 \<Rightarrow> u8 \<Rightarrow> net \<Rightarrow> net option" where
  "map_socket n pi ri port s = do {
     s \<leftarrow> assign_port pi port s;
     let s = upd_sock n (\<lambda>k. k\<lparr>sk_pindex := pi, sk_rbmindex := ri\<rparr>) s;
     pid \<leftarrow> nrk_get_pid (n_kernel s);
     m \<leftarrow> at (rx_buf_mgr (n_rx s)) (sint ri);
     Some (upd_rx (upd_rbm ri (\<lambda>m. m\<lparr>rbm_pindex := pi, rbm_pid := pid\<rparr>)) s)
   }"

definition bind_body :: "i8 \<Rightarrow> i16 \<Rightarrow> net \<Rightarrow> i8 step" where
  "bind_body n port s =
     (if tlayer_init_done s \<noteq> 1 then None
      else if bad_sock_num n then refuse 8 NRK_ERROR INVALID_ARGUMENT s
      else if sint port \<le> 0 \<or> int MAX_PORT_NUM < sint port then refuse 8 NRK_ERROR INVALID_ARGUMENT s
      else do {
        k \<leftarrow> at (sock s) (sint n);
        foreign \<leftarrow> foreign_socket n s;
        if foreign \<or> sk_type k = SOCK_RAW then refuse 8 NRK_ERROR INVALID_SOCKET s
        else if sk_rbmindex k \<noteq> - 1 then refuse 8 NRK_ERROR INVALID_CALL s
        else do {
          (avail, s) \<leftarrow> check_port_available (ucast port) s;
          if avail = 0 then finish 8 NRK_ERROR s
          else if sint (get_num_bufs_free (n_rx s)) < sint DEFAULT_RX_QUEUE_SIZE
          then refuse 8 NRK_ERROR NO_RX_BUFFERS_AVAILABLE s
          else if sk_pindex k \<noteq> - 1 then None
          else do {
            (pi, s) \<leftarrow> get_index_unassigned_port_element s;
            (ri, s) \<leftarrow> get_index_unassigned_rbm_element s;
            if pi = NRK_ERROR \<or> ri = NRK_ERROR then None
            else do {
              s \<leftarrow> map_socket n pi ri (ucast port) s;
              r \<leftarrow> alloc_bufs (nat (sint DEFAULT_RX_QUEUE_SIZE)) ri (n_rx s);
              finish 8 NRK_OK (s\<lparr>n_rx := r\<rparr>)
            }
          }
        }
      })"

definition bind_socket :: "i8 \<Rightarrow> i16 \<Rightarrow> u8 \<Rightarrow> net \<Rightarrow> i8 step" where
  "bind_socket n port timer s = and_then (enter_both 8 timer s) (\<lambda>_. bind_body n port)"

definition get_rx_queue_size_body :: "i8 \<Rightarrow> net \<Rightarrow> i8 step" where
  "get_rx_queue_size_body n s =
     (if bad_sock_num n then refuse 9 NRK_ERROR INVALID_ARGUMENT s
      else do {
        k \<leftarrow> at (sock s) (sint n);
        foreign \<leftarrow> foreign_socket n s;
        if foreign \<or> sk_type k = SOCK_RAW then refuse 9 NRK_ERROR INVALID_SOCKET s
        else if sk_pindex k = - 1 then finish 9 0 s
        else if sk_rbmindex k = - 1 then None
        else do {
          m \<leftarrow> at (rx_buf_mgr (n_rx s)) (sint (sk_rbmindex k));
          finish 9 (countTotal m) s
        }
      })"

definition get_rx_queue_size :: "i8 \<Rightarrow> u8 \<Rightarrow> net \<Rightarrow> i8 step" where
  "get_rx_queue_size n timer s = and_then (enter_both 9 timer s) (\<lambda>_. get_rx_queue_size_body n)"

text \<open>
  The last part of \<^verbatim>\<open>set_rx_queue_size\<close> (lines 651-679). \<open>ri\<close> is the local variable
  \<^verbatim>\<open>rbm_index\<close>, \<open>flag\<close> says that the socket had no port before this call.
\<close>

definition grow_queue :: "bool \<Rightarrow> i8 \<Rightarrow> i8 \<Rightarrow> net \<Rightarrow> i8 step" where
  "grow_queue flag ri want s = do {
     let want = (if sint (get_num_bufs_free (n_rx s)) < sint want then get_num_bufs_free (n_rx s) else want);
     r \<leftarrow> alloc_bufs (nat (sint want)) ri (n_rx s);
     finish 10 (if flag then want else want + DEFAULT_RX_QUEUE_SIZE) (s\<lparr>n_rx := r\<rparr>)
   }"

text \<open>
  When the socket has a port already, \<^verbatim>\<open>rbm_index\<close> is read without having been assigned;
  \<open>garbage\<close> is the value that happens to be there.
\<close>

definition set_rx_queue_size_body :: "i8 \<Rightarrow> i8 \<Rightarrow> i8 \<Rightarrow> net \<Rightarrow> i8 step" where
  "set_rx_queue_size_body garbage n want s =
     (if tlayer_init_done s \<noteq> 1 then None
      else if bad_sock_num n \<or> sint want \<le> 0 then refuse 10 NRK_ERROR INVALID_ARGUMENT s
      else do {
        k \<leftarrow> at (sock s) (sint n);
        foreign \<leftarrow> foreign_socket n s;
        if foreign \<or> sk_type k = SOCK_RAW then refuse 10 NRK_ERROR INVALID_SOCKET s
        else if sk_pindex k = - 1 then do {
          (port, s) \<leftarrow> get_next_available_port s;
          if port = INVALID_PORT then finish 10 NRK_ERROR s
          else if sint (get_num_bufs_free (n_rx s)) < sint DEFAULT_RX_QUEUE_SIZE
          then refuse 10 NRK_ERROR NO_RX_BUFFERS_AVAILABLE s
          else do {
            (pi, s) \<leftarrow> get_index_unassigned_port_element s;
            (ri, s) \<leftarrow> get_index_unassigned_rbm_element s;
            if pi = NRK_ERROR \<or> ri = NRK_ERROR then None
            else do {
              s \<leftarrow> map_socket n pi ri port s;
              grow_queue True ri want s
            }
          }
        }
        else if want = DEFAULT_RX_QUEUE_SIZE then finish 10 want s
        else grow_queue False garbage (want - DEFAULT_RX_QUEUE_SIZE) s
      })"

definition set_rx_queue_size :: "i8 \<Rightarrow> i8 \<Rightarrow> i8 \<Rightarrow> u8 \<Rightarrow> net \<Rightarrow> i8 step" where
  "set_rx_queue_size garbage n want timer s =
     and_then (enter_both 10 timer s) (\<lambda>_. set_rx_queue_size_body garbage n want)"

section \<open>Giving things back\<close>

text \<open>
  The loop of \<^verbatim>\<open>release_buffer\<close>: the pointer the user passes is the data of buffer \<open>b\<close>.
\<close>

partial_function (option) find_full :: "(nat \<Rightarrow> i8) \<Rightarrow> (nat \<Rightarrow> nat option) \<Rightarrow> nat \<Rightarrow> nat option \<Rightarrow> nat option option" where
  "find_full st nx b buf =
     (if buf = None then Some None
      else if the buf = b \<and> st (the buf) = FULL then Some buf
      else find_full st nx b (nx (the buf)))"

declare find_full.simps [code]

text \<open>\<open>ptr\<close> is \<open>None\<close> for \<^verbatim>\<open>NULL\<close>.\<close>

definition release_buffer_body :: "i8 \<Rightarrow> nat option \<Rightarrow> net \<Rightarrow> i8 step" where
  "release_buffer_body n ptr s =
     (if bad_sock_num n \<or> ptr = None then refuse 11 NRK_ERROR INVALID_ARGUMENT s
      else do {
        k \<leftarrow> at (sock s) (sint n);
        foreign \<leftarrow> foreign_socket n s;
        if foreign \<or> sk_type k = SOCK_RAW \<or> sk_pindex k = - 1 then refuse 11 NRK_ERROR INVALID_SOCKET s
        else if sk_rbmindex k = - 1 then None
        else do {
          m \<leftarrow> at (rx_buf_mgr (n_rx s)) (sint (sk_rbmindex k));
          found \<leftarrow> find_full (rb_status (n_rx s)) (rb_next (n_rx s)) (the ptr) (head_fq m);
          case found of
            None \<Rightarrow> refuse 11 NRK_ERROR INVALID_ARGUMENT s
          | Some b \<Rightarrow>
              finish 11 NRK_OK (upd_rx (\<lambda>r. upd_rbm (sk_rbmindex k) (\<lambda>m. m\<lparr>countFree := countFree m + 1\<rparr>)
                (r\<lparr>rb_status := (rb_status r)(b := EMPTY)\<rparr>)) s)
        }
      })"

definition release_buffer :: "i8 \<Rightarrow> nat option \<Rightarrow> u8 \<Rightarrow> net \<Rightarrow> i8 step" where
  "release_buffer n ptr timer s = and_then (enter_both 11 timer s) (\<lambda>_. release_buffer_body n ptr)"

text \<open>\<^verbatim>\<open>while((ptr = remove(...)) != NULL) ptr -> status = UNALLOCATED;\<close>\<close>

partial_function (option) drain_queue :: "(rx_state \<Rightarrow> (nat option \<times> rx_state) option) \<Rightarrow> rx_state \<Rightarrow> rx_state option" where
  "drain_queue f r = do {
     (b, r) \<leftarrow> f r;
     if b = None then Some r else drain_queue f (r\<lparr>rb_status := (rb_status r)(the b := UNALLOCATED)\<rparr>)
   }"

declare drain_queue.simps [code]

definition close_socket_body :: "i8 \<Rightarrow> net \<Rightarrow> i8 step" where
  "close_socket_body n s =
     (if bad_sock_num n then refuse 12 NRK_ERROR INVALID_ARGUMENT s
      else do {
        k \<leftarrow> at (sock s) (sint n);
        foreign \<leftarrow> foreign_socket n s;
        if foreign then refuse 12 NRK_ERROR INVALID_SOCKET s
        else if sk_type k = SOCK_RAW then
          finish 12 NRK_OK (upd_sock n (\<lambda>k. k\<lparr>sk_pid := INVALID_PID, sk_timeout := no_time\<rparr>) s)
        else do {
          s \<leftarrow> (if sk_pindex k \<noteq> - 1 then
                  if sk_rbmindex k = - 1 then None
                  else do {
                    let ri = sk_rbmindex k;
                    r \<leftarrow> drain_queue (remove_rx_pq ri) (n_rx s);
                    r \<leftarrow> drain_queue (remove_rx_fq ri EMPTY) r;
                    r \<leftarrow> drain_queue (remove_rx_fq ri FULL) r;
                    let r = upd_rbm ri (\<lambda>m. m\<lparr>rbm_pid := INVALID_PID, rbm_pindex := - 1, countTotal := 0,
                                            countFree := 0\<rparr>) r;
                    release_port (sk_pindex k) (s\<lparr>n_rx := r\<rparr>)
                  }
                else Some s);
          finish 12 NRK_OK (upd_sock n (\<lambda>k. k\<lparr>sk_pindex := - 1, sk_rbmindex := - 1, sk_pid := INVALID_PID,
                                           sk_timeout := no_time\<rparr>) s)
        }
      })"

definition close_socket :: "i8 \<Rightarrow> u8 \<Rightarrow> net \<Rightarrow> i8 step" where
  "close_socket n timer s = and_then (enter_both 12 timer s) (\<lambda>_. close_socket_body n)"

section \<open>Sending\<close>

text \<open>
  A raw packet goes to the link layer, whose transmit function \<open>bmac_tx\<close> and \<open>tx_done\<close>
  signal are parameters. The loop tries again when the wait failed at once; a task that
  waits runs the loop again after it has been woken.
\<close>

partial_function (option) send_raw_loop :: "(kernel \<Rightarrow> i8 \<times> kernel) \<Rightarrow> u32 \<Rightarrow> u8 \<Rightarrow> net \<Rightarrow> i8 step" where
  "send_raw_loop bmac_tx sig timer s =
     (if fst (bmac_tx (n_kernel s)) \<noteq> - 1 then finish 14 NRK_OK (s\<lparr>n_kernel := snd (bmac_tx (n_kernel s))\<rparr>)
      else do {
        (r, k) \<leftarrow> nrk_event_wait sig timer (snd (bmac_tx (n_kernel s)));
        if r = Blocked then Some (Blocked, s\<lparr>n_kernel := k\<rparr>)
        else send_raw_loop bmac_tx sig timer (s\<lparr>n_kernel := k\<rparr>)
      })"

declare send_raw_loop.simps [code]

definition send_raw :: "(kernel \<Rightarrow> i8 \<times> kernel) \<Rightarrow> i8 \<Rightarrow> u8 \<Rightarrow> net \<Rightarrow> i8 step" where
  "send_raw bmac_tx tx_done timer s = do {
     (r, k) \<leftarrow> nrk_signal_register tx_done (n_kernel s);
     if r = NRK_ERROR then None
     else do {
       sig \<leftarrow> SIG tx_done;
       send_raw_loop bmac_tx sig timer (s\<lparr>n_kernel := k\<rparr>)
     }
   }"

text \<open>Lines 986-1023: a socket without a port gets one, and one buffer.\<close>

definition ensure_port :: "i8 \<Rightarrow> net \<Rightarrow> net option" where
  "ensure_port n s = do {
     (pi, s) \<leftarrow> get_index_unassigned_port_element s;
     (ri, s) \<leftarrow> get_index_unassigned_rbm_element s;
     let bi = get_index_unallocated_rx_buf (n_rx s);
     if pi = NRK_ERROR \<or> ri = NRK_ERROR \<or> bi = NRK_ERROR then None
     else do {
       (port, s) \<leftarrow> get_next_available_port s;
       s \<leftarrow> map_socket n pi ri port s;
       r \<leftarrow> insert_rx_fq (nat (sint bi)) ri EMPTY (n_rx s);
       let r = upd_rbm ri (\<lambda>m. m\<lparr>countTotal := countTotal m + 1\<rparr>) r;
       Some (s\<lparr>n_rx := r\<lparr>num_bufs_free := num_bufs_free r - 1\<rparr>\<rparr>)
     }
   }"

text \<open>\<^verbatim>\<open>memcpy(udp_seg.data, ptr, len)\<close> and the header fields; \<open>dat\<close> is what \<open>ptr\<close> points to.\<close>

definition fill_segment :: "u8 \<Rightarrow> u8 \<Rightarrow> i8 \<Rightarrow> u8 list \<Rightarrow> Transport_Segment_UDP \<Rightarrow> Transport_Segment_UDP" where
  "fill_segment src dst len dat seg =
     seg\<lparr>seg_srcPort := src, seg_destPort := dst, seg_length := len,
         seg_data := take (nat (sint len)) dat @ drop (nat (sint len)) (seg_data seg)\<rparr>"

text \<open>Lines 1045-1077, after the next hop has been found.\<close>

definition send_dgram :: "i8 \<Rightarrow> i8 \<Rightarrow> u16 \<Rightarrow> net \<Rightarrow> i8 step" where
  "send_dgram len pr hop s = do {
     let p = (tl_pkt s)\<lparr>pkt_nextHop := hop, pkt_prevHop := NODE_ADDR s, pkt_ttl := MAX_NETWORK_DIAMETER,
               pkt_type := UDP, pkt_length := 3 + len, pkt_prio := pr\<rparr>;
     let p = p\<lparr>pkt_data := pack_into (pack_TL_UDP_header (tl_udp_seg s)) (pkt_data p)\<rparr>;
     let p = p\<lparr>pkt_data := take 3 (pkt_data p) @ seg_data (tl_udp_seg s)\<rparr>;
     (result, t) \<leftarrow> insert_tx_aq p (n_tx s);
     let s = s\<lparr>tl_pkt := p, n_tx := t\<rparr>;
     if result = NRK_ERROR then refuse 14 result NO_TX_BUFFERS_AVAILABLE s else finish 14 result s
   }"

definition send_mapped :: "i8 \<Rightarrow> u8 list \<Rightarrow> i8 \<Rightarrow> 32 word \<Rightarrow> i16 \<Rightarrow> i8 \<Rightarrow> u8 \<Rightarrow> net \<Rightarrow> i8 step" where
  "send_mapped n dat len dest_addr dest_port pr timer s = do {
     k \<leftarrow> at (sock s) (sint n);
     p \<leftarrow> at (ports (n_rx s)) (sint (sk_pindex k));
     let seg = fill_segment (pno p) (ucast dest_port) len dat (tl_udp_seg s);
     let s = s\<lparr>tl_udp_seg := seg\<rparr>;
     if sk_type k = SOCK_DGRAM then
       and_then (route_addr (ucast dest_addr) timer
           (s\<lparr>tl_pkt := (tl_pkt s)\<lparr>pkt_src := NODE_ADDR s, pkt_dest := ucast dest_addr\<rparr>\<rparr>))
         (send_dgram len pr)
     else if sk_type k = SOCK_IPC then do {
       r \<leftarrow> insert_rx_pq seg pr (NODE_ADDR s) INVALID_RSSI (n_rx s);
       finish 14 NRK_OK (s\<lparr>n_rx := r\<rparr>)
     }
     else None
   }"

text \<open>
  \<open>dat\<close> is \<open>None\<close> for \<^verbatim>\<open>NULL\<close>; fewer bytes than \<open>len\<close> are undefined behaviour. When no
  receive buffer is left the error number is set after leaving.
\<close>

definition send_body ::
    "(kernel \<Rightarrow> i8 \<times> kernel) \<Rightarrow> i8 \<Rightarrow> i8 \<Rightarrow> u8 list option \<Rightarrow> i8 \<Rightarrow> 32 word \<Rightarrow> i16 \<Rightarrow> i8 \<Rightarrow> u8 \<Rightarrow> net \<Rightarrow> i8 step" where
  "send_body bmac_tx tx_done n ptr len dest_addr dest_port pr timer s =
     (if bad_sock_num n then refuse 14 NRK_ERROR INVALID_ARGUMENT s
      else if ptr = None \<or> sint len \<le> 0 \<or> int MAX_APP_PAYLOAD < sint len
      then refuse 14 NRK_ERROR INVALID_ARGUMENT s
      else do {
        k \<leftarrow> at (sock s) (sint n);
        foreign \<leftarrow> foreign_socket n s;
        if foreign then refuse 14 NRK_ERROR INVALID_SOCKET s
        else if sk_type k = SOCK_RAW then send_raw bmac_tx tx_done timer s
        else if sint dest_addr < 0 \<or> sint dest_port \<le> 0 \<or> int MAX_PORT_NUM \<le> sint dest_port
        then refuse 14 NRK_ERROR INVALID_ARGUMENT s
        else if sint pr \<le> 0 \<or> MAX_PRIORITY < sint pr then refuse 14 NRK_ERROR INVALID_ARGUMENT s
        else if sk_pindex k = - 1 \<and> sint (get_num_bufs_free (n_rx s)) < sint DEFAULT_RX_QUEUE_SIZE then do {
          s \<leftarrow> leave_both 14 s;
          s \<leftarrow> set_errno NO_RX_BUFFERS_AVAILABLE s;
          Some (Returned NRK_ERROR, s)
        }
        else do {
          s \<leftarrow> (if sk_pindex k = - 1 then ensure_port n s else Some s);
          if length (the ptr) < nat (sint len) then None
          else send_mapped n (the ptr) len dest_addr dest_port pr timer s
        }
      })"

definition send ::
    "(kernel \<Rightarrow> i8 \<times> kernel) \<Rightarrow> i8 \<Rightarrow> i8 \<Rightarrow> u8 list option \<Rightarrow> i8 \<Rightarrow> 32 word \<Rightarrow> i16 \<Rightarrow> i8 \<Rightarrow> u8 \<Rightarrow> net \<Rightarrow> i8 step" where
  "send bmac_tx tx_done n ptr len dest_addr dest_port pr timer s =
     and_then (enter_both 14 timer s)
       (\<lambda>_. send_body bmac_tx tx_done n ptr len dest_addr dest_port pr timer)"

section \<open>Receiving\<close>

definition set_timeout_body :: "i8 \<Rightarrow> i8 \<Rightarrow> i8 \<Rightarrow> net \<Rightarrow> i8 step" where
  "set_timeout_body n sc ns s =
     (let refuse_tl = (\<lambda>e. do { s \<leftarrow> set_errno e s; s \<leftarrow> leave tl_sem 15 s; Some (Returned NRK_ERROR, s) })
      in if bad_sock_num n \<or> sint sc < 0 \<or> sint ns < 0 \<or> sc = 0 \<and> ns = 0 then refuse_tl INVALID_ARGUMENT
      else do {
        k \<leftarrow> at (sock s) (sint n);
        foreign \<leftarrow> foreign_socket n s;
        if foreign then refuse_tl INVALID_SOCKET
        else do {
          s \<leftarrow> leave tl_sem 15 (upd_sock n (\<lambda>k. k\<lparr>sk_timeout := \<lparr>secs = ucast sc, nano_secs = ucast ns\<rparr>\<rparr>) s);
          Some (Returned NRK_OK, s)
        }
      })"

definition set_timeout :: "i8 \<Rightarrow> i8 \<Rightarrow> i8 \<Rightarrow> u8 \<Rightarrow> net \<Rightarrow> i8 step" where
  "set_timeout n sc ns timer s = and_then (enter tl_sem 15 timer s) (\<lambda>_. set_timeout_body n sc ns)"

text \<open>
  The two halves of a wait that \<^verbatim>\<open>receive\<close> and \<^verbatim>\<open>wait_until_send_done\<close> share: setting the
  wake-up time, and, outside the critical sections, waiting for a signal of the port, and for
  the wake-up signal when \<open>timed\<close>. A wait that fails at once ends in an endless loop.
\<close>

definition arm_timeout :: "nrk_time_t \<Rightarrow> u8 \<Rightarrow> net \<Rightarrow> net option" where
  "arm_timeout tm timer s = do {
     (r, k) \<leftarrow> nrk_signal_register (nrk_wakeup_signal (n_kernel s)) (n_kernel s);
     if r = NRK_ERROR then None
     else do {
       (r, k) \<leftarrow> nrk_set_next_wakeup tm timer k;
       if r = NRK_ERROR then None else Some (s\<lparr>n_kernel := k\<rparr>)
     }
   }"

definition wait_for :: "(Port \<Rightarrow> i8) \<Rightarrow> i8 \<Rightarrow> bool \<Rightarrow> i8 \<Rightarrow> u8 \<Rightarrow> net \<Rightarrow> 'r step" where
  "wait_for signal fno timed pindex timer s = do {
     s \<leftarrow> leave_both fno s;
     p \<leftarrow> at (ports (n_rx s)) (sint pindex);
     sig \<leftarrow> SIG (signal p);
     wakeup \<leftarrow> (if timed then SIG (nrk_wakeup_signal (n_kernel s)) else Some 0);
     (r, k) \<leftarrow> nrk_event_wait (if timed then sig OR wakeup else sig) timer (n_kernel s);
     if r = Blocked then Some (Blocked, s\<lparr>n_kernel := k\<rparr>) else None
   }"

text \<open>
  What \<^verbatim>\<open>receive\<close> returns: the buffer whose data it points to, and the values it stores
  through the pointers it was given (those that are not \<^verbatim>\<open>NULL\<close>).
\<close>

record received =
  rc_buf :: nat
  rc_len :: i8
  rc_srcAddr :: u16
  rc_srcPort :: u8
  rc_rssi :: i8

text \<open>Lines 1319-1346: there should be a segment now.\<close>

definition receive_take :: "i8 \<Rightarrow> net \<Rightarrow> received option step" where
  "receive_take ri s = do {
     (buf, r) \<leftarrow> remove_rx_pq ri (n_rx s);
     b \<leftarrow> buf;
     r \<leftarrow> insert_rx_fq b ri FULL r;
     finish 16 (Some \<lparr>rc_buf = b, rc_len = seg_length (rb_seg r b), rc_srcAddr = rb_srcAddr r b,
                      rc_srcPort = seg_srcPort (rb_seg r b), rc_rssi = rb_rssi r b\<rparr>) (s\<lparr>n_rx := r\<rparr>)
   }"

text \<open>
  Back from the wait, with the signals \<open>sigs\<close>, and in both critical sections again
  (lines 1219-1238 and 1280-1316). \<open>timed\<close> says that a timeout was set.
\<close>

definition receive_woken :: "bool \<Rightarrow> i8 \<Rightarrow> u32 \<Rightarrow> net \<Rightarrow> received option step" where
  "receive_woken timed n sigs s = do {
     k \<leftarrow> at (sock s) (sint n);
     p \<leftarrow> at (ports (n_rx s)) (sint (sk_pindex k));
     arrived \<leftarrow> SIG (data_arrived_signal p);
     wakeup \<leftarrow> (if timed then SIG (nrk_wakeup_signal (n_kernel s)) else Some 0);
     if sigs AND arrived \<noteq> 0 then
       receive_take (sk_rbmindex k) (if timed then upd_sock n (\<lambda>k. k\<lparr>sk_timeout := no_time\<rparr>) s else s)
     else if timed \<and> sigs AND wakeup \<noteq> 0 then
       refuse 16 None SOCKET_TIMEOUT (upd_sock n (\<lambda>k. k\<lparr>sk_timeout := no_time\<rparr>) s)
     else None
   }"

text \<open>\<open>len_ok\<close> says that the pointer for the length is not \<^verbatim>\<open>NULL\<close>.\<close>

definition receive_body :: "i8 \<Rightarrow> bool \<Rightarrow> u8 \<Rightarrow> u8 \<Rightarrow> net \<Rightarrow> received option step" where
  "receive_body n len_ok timer timer' s =
     (if bad_sock_num n \<or> \<not> len_ok then refuse 16 None INVALID_ARGUMENT s
      else do {
        k \<leftarrow> at (sock s) (sint n);
        foreign \<leftarrow> foreign_socket n s;
        if foreign \<or> sk_pindex k = - 1 then refuse 16 None INVALID_SOCKET s
        else if sk_rbmindex k = - 1 then None
        else do {
          let timed = (sk_timeout k \<noteq> no_time);
          s \<leftarrow> (if timed then arm_timeout (sk_timeout k) timer s else Some s);
          m \<leftarrow> at (rx_buf_mgr (n_rx s)) (sint (sk_rbmindex k));
          if countFree m \<noteq> countTotal m then receive_take (sk_rbmindex k) s
          else wait_for data_arrived_signal 16 timed (sk_pindex k) timer' s
        }
      })"

definition receive :: "i8 \<Rightarrow> bool \<Rightarrow> u8 \<Rightarrow> u8 \<Rightarrow> net \<Rightarrow> received option step" where
  "receive n len_ok timer timer' s =
     and_then (enter_both 16 timer s) (\<lambda>_. receive_body n len_ok timer timer')"

text \<open>What a task that waited in \<^verbatim>\<open>receive\<close> does when it runs again.\<close>

definition receive_resume :: "bool \<Rightarrow> i8 \<Rightarrow> u8 \<Rightarrow> net \<Rightarrow> received option step" where
  "receive_resume timed n timer s = do {
     r \<leftarrow> nrk_event_wait_resume (n_kernel s);
     case r of
       Blocked \<Rightarrow> Some (Blocked, s)
     | Returned sigs \<Rightarrow> and_then (enter_both 16 timer s) (\<lambda>_. receive_woken timed n sigs)
   }"

definition check_receive_queue_body :: "i8 \<Rightarrow> net \<Rightarrow> i8 step" where
  "check_receive_queue_body n s =
     (if bad_sock_num n then refuse 17 NRK_ERROR INVALID_ARGUMENT s
      else do {
        k \<leftarrow> at (sock s) (sint n);
        foreign \<leftarrow> foreign_socket n s;
        if foreign \<or> sk_pindex k = - 1 then refuse 17 NRK_ERROR INVALID_SOCKET s
        else do {
          m \<leftarrow> at (rx_buf_mgr (n_rx s)) (sint (sk_rbmindex k));
          c \<leftarrow> get_in_process_buf_count (sk_rbmindex k) (n_rx s);
          finish 17 (countTotal m - countFree m - c) s
        }
      })"

definition check_receive_queue :: "i8 \<Rightarrow> u8 \<Rightarrow> net \<Rightarrow> i8 step" where
  "check_receive_queue n timer s = and_then (enter_both 17 timer s) (\<lambda>_. check_receive_queue_body n)"

section \<open>Waiting for a packet to be sent\<close>

definition send_done_woken :: "bool \<Rightarrow> i8 \<Rightarrow> u32 \<Rightarrow> net \<Rightarrow> i8 step" where
  "send_done_woken timed n sigs s = do {
     k \<leftarrow> at (sock s) (sint n);
     p \<leftarrow> at (ports (n_rx s)) (sint (sk_pindex k));
     sent \<leftarrow> SIG (send_done_signal p);
     wakeup \<leftarrow> (if timed then SIG (nrk_wakeup_signal (n_kernel s)) else Some 0);
     if sigs AND sent \<noteq> 0 then
       finish 18 NRK_OK (if timed then upd_sock n (\<lambda>k. k\<lparr>sk_timeout := no_time\<rparr>) s else s)
     else if timed \<and> sigs AND wakeup \<noteq> 0 then
       refuse 18 NRK_ERROR SOCKET_TIMEOUT (upd_sock n (\<lambda>k. k\<lparr>sk_timeout := no_time\<rparr>) s)
     else None
   }"

definition wait_until_send_done_body :: "i8 \<Rightarrow> u8 \<Rightarrow> u8 \<Rightarrow> net \<Rightarrow> i8 step" where
  "wait_until_send_done_body n timer timer' s =
     (if bad_sock_num n then refuse 18 NRK_ERROR INVALID_ARGUMENT s
      else do {
        k \<leftarrow> at (sock s) (sint n);
        foreign \<leftarrow> foreign_socket n s;
        if foreign \<or> sk_pindex k = - 1 then refuse 18 NRK_ERROR INVALID_SOCKET s
        else do {
          let timed = (sk_timeout k \<noteq> no_time);
          s \<leftarrow> (if timed then arm_timeout (sk_timeout k) timer s else Some s);
          wait_for send_done_signal 18 timed (sk_pindex k) timer' s
        }
      })"

definition wait_until_send_done :: "i8 \<Rightarrow> u8 \<Rightarrow> u8 \<Rightarrow> net \<Rightarrow> i8 step" where
  "wait_until_send_done n timer timer' s =
     and_then (enter_both 18 timer s) (\<lambda>_. wait_until_send_done_body n timer timer')"

definition wait_until_send_done_resume :: "bool \<Rightarrow> i8 \<Rightarrow> u8 \<Rightarrow> net \<Rightarrow> i8 step" where
  "wait_until_send_done_resume timed n timer s = do {
     r \<leftarrow> nrk_event_wait_resume (n_kernel s);
     case r of
       Blocked \<Rightarrow> Some (Blocked, s)
     | Returned sigs \<Rightarrow> and_then (enter_both 18 timer s) (\<lambda>_. send_done_woken timed n sigs)
   }"

end
