(* ===== verification/Net_Dispatch.thy ===== *)
theory Net_Dispatch
  imports Net_Sock
begin

text \<open>
  What the tasks of the network stack do with one packet: the parts of
  \<^verbatim>\<open>nl_rx_task\<close> and \<^verbatim>\<open>nl_tx_task\<close> (\<^verbatim>\<open>NetworkLayer.c\<close>) and of \<^verbatim>\<open>serial_task\<close>
  (\<^verbatim>\<open>Serial.c\<close>) between the calls of the radio and SLIP drivers. Those drivers are
  parameters. The debug levels are the ones of the sources (\<^verbatim>\<open>DEBUG_NL\<close> and
  \<^verbatim>\<open>DEBUG_SR\<close> 0), LEDs are left out.
\<close>

section \<open>The serial line\<close>

definition MAX_SERIAL_PAYLOAD :: nat where "MAX_SERIAL_PAYLOAD = 32"
definition MAX_GATEWAY_PAYLOAD :: nat where "MAX_GATEWAY_PAYLOAD = 40"
definition SERIAL_APPLICATION :: u8 where "SERIAL_APPLICATION = 0"
definition SERIAL_NW_CONTROL :: u8 where "SERIAL_NW_CONTROL = 0x80"
definition SERIAL_NGB_LIST :: u8 where "SERIAL_NGB_LIST = 0x80"
definition SERIAL_ROUTE_CONFIG :: u8 where "SERIAL_ROUTE_CONFIG = 0x80"

text \<open>The SLIP driver, and the kernel configuration (for the stack check of a wait).\<close>

record drivers =
  slip_started :: "kernel \<Rightarrow> i8"
  slip_tx :: "u8 list \<Rightarrow> i8 \<Rightarrow> kernel \<Rightarrow> i8 \<times> kernel"
  drv_cfg :: nrk_cfg

text \<open>\<open>Blocked\<close>: it waits a period and starts again.\<close>

definition sendToSerial :: "drivers \<Rightarrow> u8 list \<Rightarrow> i8 \<Rightarrow> u8 \<Rightarrow> net \<Rightarrow> unit step" where
  "sendToSerial d buf len timer s =
     (if slip_started d (n_kernel s) = NRK_ERROR then do {
        (r, k) \<leftarrow> nrk_wait_until_next_period (drv_cfg d) timer (n_kernel s);
        Some (Blocked, s\<lparr>n_kernel := k\<rparr>)
      }
      else
        let (r, k) = slip_tx d buf len (n_kernel s)
        in if r = NRK_ERROR then None else Some (Returned (), s\<lparr>n_kernel := k\<rparr>))"

definition sendToGateway :: "drivers \<Rightarrow> u8 list option \<Rightarrow> i8 \<Rightarrow> u8 \<Rightarrow> net \<Rightarrow> i8 step" where
  "sendToGateway d ptr len timer s =
     (if sint len \<le> 0 \<or> int MAX_SERIAL_PAYLOAD < sint len \<or> ptr = None then do {
        s \<leftarrow> set_errno INVALID_ARGUMENT s;
        Some (Returned NRK_ERROR, s)
      }
      else if length (the ptr) < nat (sint len) then None
      else
        let gw_buf = [SERIAL_APPLICATION, len] @ take (nat (sint len)) (the ptr) @
                     replicate (MAX_SERIAL_PAYLOAD - nat (sint len)) 0
        in and_then (sendToSerial d gw_buf 34 timer s) (\<lambda>_ s. Some (Returned NRK_OK, s)))"

section \<open>Application packets\<close>

text \<open>Lines 390-430: the segment goes to the port, and the receiver is signalled.\<close>

definition deliver_segment :: "NW_Packet \<Rightarrow> i8 \<Rightarrow> net \<Rightarrow> unit step" where
  "deliver_segment p rssi s = do {
     let seg = nl_udp_seg s;
     r \<leftarrow> insert_rx_pq seg (pkt_prio p) (pkt_src p) rssi (n_rx s);
     let pi = port_to_port_index (seg_destPort seg) r;
     if pi = NRK_ERROR then None
     else do {
       q \<leftarrow> at (ports r) (sint pi);
       (ret, k) \<leftarrow> nrk_event_signal (data_arrived_signal q) (n_kernel s);
       e \<leftarrow> (if ret = NRK_ERROR then nrk_errno_get k else Some 0);
       if e = 1 then None
       else finish 28 () (s\<lparr>n_rx := r, n_kernel := k\<rparr>)
     }
   }"

text \<open>The branch for a port nobody uses leaves two critical sections it never entered.\<close>

definition process_app_pkt :: "NW_Packet \<Rightarrow> i8 \<Rightarrow> u8 \<Rightarrow> net \<Rightarrow> unit step" where
  "process_app_pkt p rssi timer s =
     (if tl_type (pkt_type p) \<noteq> UDP then
        Some (Returned (), prints
          [Kprintf ''NL: process_app_pkt(): Unsupported transport layer type detected = '',
           Printf (''%d'' @ CRLF) [uint (pkt_type p)]] s)
      else
        let seg = unpack_TL_UDP_header (nl_udp_seg s) (buf_of (pkt_data p)) 0;
            seg = seg\<lparr>seg_data := take MAX_APP_PAYLOAD (drop 3 (pkt_data p))\<rparr>;
            s = s\<lparr>nl_udp_seg := seg\<rparr>
        in and_then (is_port_associated (ucast (seg_destPort seg)) timer s) (\<lambda>r s.
             if r = 1 then and_then (enter_both 28 timer s) (\<lambda>_. deliver_segment p rssi)
             else finish 28 () (prints
               [Kprintf ''Unassociated port found: '',
                Printf ''%u\<newline>'' [uint (seg_destPort (nl_udp_seg s))]] s)))"

section \<open>Control packets\<close>

text \<open>Lines 495-515: a neighbour list goes on to the gateway.\<close>

definition forward_ngb_list :: "drivers \<Rightarrow> Msg_NgbList \<Rightarrow> u8 \<Rightarrow> net \<Rightarrow> unit step" where
  "forward_ngb_list d m timer s =
     (let g = (ntg_pkt s)\<lparr>ng_type := SERIAL_NGB_LIST, ng_length := 28\<rparr>;
          g = g\<lparr>ng_data := pack_into (pack_Msg_NgbList (host_le s) (endian s) m) (ng_data g)\<rparr>;
          buf = map (pack_NodeToGatewaySerial_Packet_header g 0 (\<lambda>_. 0)) [0 ..< 2] @ ng_data g
      in sendToSerial d buf 34 timer (s\<lparr>ntg_pkt := g\<rparr>))"

definition route_lines :: "Msg_RoutingTable \<Rightarrow> out_event list" where
  "route_lines m =
     map (\<lambda>e. Printf (''%d -> %d [%d, %d]'' @ CRLF)
                [uint (mr_node m), uint (rt_dest e), uint (rt_nextHop e), uint (rt_cost e)]) (mr_rt m)"

definition process_nw_ctrl_pkt :: "drivers \<Rightarrow> NW_Packet \<Rightarrow> i8 \<Rightarrow> u8 \<Rightarrow> net \<Rightarrow> unit step" where
  "process_nw_ctrl_pkt d p rssi timer s =
     (let kind = nw_ctrl_type (pkt_type p); buf = buf_of (pkt_data p)
      in if kind = HELLO then
        and_then (add_neighbor ((mh_n (unpack_Msg_Hello (host_le s) (endian s) buf 0))\<lparr>nb_rssi := rssi\<rparr>) timer s)
          (\<lambda>_ s. Some (Returned (), s))
      else if kind = NGB_LIST then
        if pkt_src p = NODE_ADDR s then Some (Returned (), s)
        else and_then (route_packet p timer s)
               (\<lambda>_. forward_ngb_list d (unpack_Msg_NgbList (host_le s) (endian s) buf 0) timer)
      else if kind = ROUTE_CONFIG then
        let m = unpack_Msg_RoutingTable (host_le s) (endian s) buf 0
        in and_then (enter nl_sem 34 timer s) (\<lambda>_ s. do {
             s \<leftarrow> leave nl_sem 34 (s\<lparr>DEFAULT_GATEWAY := mr_dg m\<rparr>);
             let s = prints (Kprintf (''Received a ROUTE_CONFIG message'' @ CRLF) # route_lines m) s;
             if mr_node m = NODE_ADDR s then set_RoutingTable m timer s
             else and_then (route_packet p timer s) (\<lambda>_ s. Some (Returned (), s))
           })
      else Some (Returned (), prints
        [Kprintf ''NL: process_nw_ctrl_pkt(): Unsupported network control message received = '',
         Printf (''%u'' @ CRLF) [uint (pkt_type p)]] s))"

section \<open>A packet from the radio\<close>

text \<open>Lines 761-786: who has to deal with the packet. A node enroute that sent the packet
  itself stops the node.\<close>

definition dispatch :: "(net \<Rightarrow> unit step) \<Rightarrow> NW_Packet \<Rightarrow> u8 \<Rightarrow> net \<Rightarrow> unit step" where
  "dispatch here p timer s =
     (if pkt_dest p = NODE_ADDR s \<or> pkt_dest p = BCAST_ADDR then here s
      else if pkt_nextHop p = NODE_ADDR s then
        if pkt_src p = NODE_ADDR s then None
        else and_then (route_packet p timer s) (\<lambda>_ s. Some (Returned (), s))
      else if pkt_nextHop p = BCAST_ADDR then
        and_then (route_packet p timer s) (\<lambda>_ s. Some (Returned (), s))
      else Some (Returned (), s))"

definition handle_packet :: "drivers \<Rightarrow> NW_Packet \<Rightarrow> i8 \<Rightarrow> u8 \<Rightarrow> net \<Rightarrow> unit step" where
  "handle_packet d p rssi timer s =
     (if get_pkt_type p = APPLICATION then dispatch (process_app_pkt p rssi timer) p timer s
      else if get_pkt_type p = NW_CONTROL then dispatch (process_nw_ctrl_pkt d p rssi timer) p timer s
      else Some (Returned (), prints
        [Kprintf ''NL: Unknown pkt type received = '', Printf (''%d'' @ CRLF) [uint (get_pkt_type p)]] s))"

definition SIZE_NW_PACKET :: nat where "SIZE_NW_PACKET = 55"

text \<open>Lines 714-822: from the bytes in the buffer of the link layer.\<close>

definition unpack_packet :: "bool \<Rightarrow> i8 \<Rightarrow> NW_Packet \<Rightarrow> u8 list \<Rightarrow> NW_Packet" where
  "unpack_packet le en p bytes =
     (unpack_NW_Packet_header le en p (buf_of bytes) 0)\<lparr>pkt_data := take MAX_NETWORK_PAYLOAD (drop 12 bytes)\<rparr>"

definition nl_receive :: "drivers \<Rightarrow> u8 list \<Rightarrow> i8 \<Rightarrow> u8 \<Rightarrow> net \<Rightarrow> unit step" where
  "nl_receive d bytes rssi timer s =
     (if length bytes \<noteq> SIZE_NW_PACKET then Some (Returned (), s)
      else
        let p = unpack_packet (host_le s) (endian s) (pkt_rx s) bytes
        in handle_packet d p rssi timer (s\<lparr>pkt_rx := p\<rparr>))"

section \<open>A packet for the radio\<close>

text \<open>Lines 987-989.\<close>

definition pack_packet :: "bool \<Rightarrow> i8 \<Rightarrow> NW_Packet \<Rightarrow> u8 list" where
  "pack_packet le en p = map (pack_NW_Packet_header le en p 0 (\<lambda>_. 0)) [0 ..< 12] @ pkt_data p"

text \<open>
  Lines 946-993: the next packet of the transmit queue, as bytes, with the port to be told
  when it has been sent. The buffer goes back to the free queue before the bytes are sent.
\<close>

definition nl_take_packet :: "u8 \<Rightarrow> net \<Rightarrow> (u8 list \<times> u8 option) option step" where
  "nl_take_packet timer s =
     and_then (enter bm_sem 34 timer s) (\<lambda>_ s. do {
       let (ptr, t) = remove_tx_aq (n_tx s);
       s \<leftarrow> leave bm_sem 34 (s\<lparr>n_tx := t\<rparr>);
       case ptr of
         None \<Rightarrow> Some (Returned None, s)
       | Some b \<Rightarrow> do {
           let p = tb_pkt (n_tx s) b;
           let port = (if get_pkt_type p = APPLICATION \<and> pkt_src p = NODE_ADDR s
                       then Some (buf_of (pkt_data p) 0) else None);
           let bytes = pack_packet (host_le s) (endian s) p;
           and_then (enter bm_sem 34 timer s) (\<lambda>_ s. do {
             t \<leftarrow> insert_tx_fq b (n_tx s);
             s \<leftarrow> leave bm_sem 34 (s\<lparr>n_tx := t\<rparr>);
             Some (Returned (Some (bytes, port)), s)
           })
         }
     })"

text \<open>Lines 1041-1066: the link layer has sent it.\<close>

definition nl_sent :: "u8 option \<Rightarrow> u8 \<Rightarrow> net \<Rightarrow> unit step" where
  "nl_sent port timer s =
     (case port of
        None \<Rightarrow> Some (Returned (), s)
      | Some q \<Rightarrow>
          and_then (enter tl_sem 34 timer s) (\<lambda>_ s. do {
            let pi = port_to_port_index q (n_rx s);
            if pi = NRK_ERROR then None
            else do {
              e \<leftarrow> at (ports (n_rx s)) (sint pi);
              (ret, k) \<leftarrow> nrk_event_signal (send_done_signal e) (n_kernel s);
              err \<leftarrow> (if ret = NRK_ERROR then nrk_errno_get k else Some 0);
              if err = 1 then None
              else do {
                s \<leftarrow> leave tl_sem 34 (s\<lparr>n_kernel := k\<rparr>);
                Some (Returned (), s)
              }
            }
          }))"

section \<open>A message from the gateway\<close>

definition serial_pkt_type :: "GatewayToNodeSerial_Packet \<Rightarrow> u8" where
  "serial_pkt_type p =
     (if gn_type p = SERIAL_APPLICATION then SERIAL_APPLICATION
      else if gn_type p = SERIAL_ROUTE_CONFIG then SERIAL_NW_CONTROL else INVALID)"

text \<open>An endless loop for any other type.\<close>

definition serial_nw_ctrl_type :: "GatewayToNodeSerial_Packet \<Rightarrow> u8 option" where
  "serial_nw_ctrl_type p = (if gn_type p = SERIAL_ROUTE_CONFIG then Some SERIAL_ROUTE_CONFIG else None)"

text \<open>Reading \<open>n\<close> bytes of an array; \<open>None\<close> past its end.\<close>

definition read_bytes :: "u8 list \<Rightarrow> i8 \<Rightarrow> u8 list option" where
  "read_bytes xs n = (if sint n \<le> int (length xs) then Some (take (nat (sint n)) xs) else None)"

definition process_serial_app_pkt :: "GatewayToNodeSerial_Packet \<Rightarrow> net \<Rightarrow> net option" where
  "process_serial_app_pkt p s = do {
     xs \<leftarrow> read_bytes (gn_data p) (gn_length p);
     Some (prints ([Printf ''Received an application layer packet\<newline>'' []] @
       map (\<lambda>x. Printf ''%c'' [uint x]) xs @ [Printf CRLF []]) s)
   }"

definition print_RoutingTable :: "Msg_RoutingTable \<Rightarrow> out_event list" where
  "print_RoutingTable m =
     [Kprintf ''Routing table for '', Printf (''%d'' @ CRLF) [uint (mr_node m)]] @
     concat (map (\<lambda>e.
       if rt_dest e = BCAST_ADDR then []
       else [Printf ''%d -> %d [nh = '' [uint (mr_node m), uint (rt_dest e)],
             if rt_nextHop e = BCAST_ADDR then Printf ''INV, '' [] else Printf ''%d, '' [uint (rt_nextHop e)],
             if rt_cost e \<noteq> INFINITY then Printf (''dist = %d]'' @ CRLF) [uint (rt_cost e)]
             else Printf (''dist = INF]'' @ CRLF) []]) (mr_rt m))"

text \<open>Lines 235-249: a full queue means another try in the next period.\<close>

definition queue_route_config :: "drivers \<Rightarrow> u8 \<Rightarrow> net \<Rightarrow> unit step" where
  "queue_route_config d timer s =
     and_then (queue_packet 34 (nw_pkt s) timer s) (\<lambda>r s.
       if r = NRK_ERROR then do {
         (w, k) \<leftarrow> nrk_wait_until_next_period (drv_cfg d) timer (n_kernel s);
         Some (Blocked, s\<lparr>n_kernel := k\<rparr>)
       }
       else Some (Returned (), s))"

definition process_serial_nw_ctrl_pkt :: "drivers \<Rightarrow> GatewayToNodeSerial_Packet \<Rightarrow> u8 \<Rightarrow> net \<Rightarrow> unit step" where
  "process_serial_nw_ctrl_pkt d g timer s = do {
     let s = prints [Printf (''Inside process_serial_nw_ctrl_pkt()'' @ CRLF) []] s;
     t \<leftarrow> serial_nw_ctrl_type g;
     let m = unpack_Msg_RoutingTable (host_le s) (endian s) (buf_of (gn_data g)) 0;
     let m = m\<lparr>mr_dg := NODE_ADDR s\<rparr>;
     let s = prints (print_RoutingTable m) s;
     if mr_node m = NODE_ADDR s then set_RoutingTable m timer s
     else
       and_then (route_addr (mr_node m) timer
           (s\<lparr>nw_pkt := (nw_pkt s)\<lparr>pkt_src := NODE_ADDR s, pkt_dest := mr_node m\<rparr>\<rparr>))
         (\<lambda>hop s.
            let p = (nw_pkt s)\<lparr>pkt_nextHop := hop, pkt_prevHop := NODE_ADDR s,
                      pkt_ttl := MAX_NETWORK_DIAMETER, pkt_type := ROUTE_CONFIG, pkt_length := 29,
                      pkt_prio := NORMAL_PRIORITY\<rparr>;
                p = p\<lparr>pkt_data := pack_into (pack_Msg_RoutingTable (host_le s) (endian s) m) (pkt_data p)\<rparr>
            in queue_route_config d timer (s\<lparr>nw_pkt := p\<rparr>))
   }"

definition print_gtn_pkt :: "GatewayToNodeSerial_Packet \<Rightarrow> out_event list option" where
  "print_gtn_pkt p = do {
     xs \<leftarrow> read_bytes (gn_data p) (gn_length p);
     Some ([Kprintf ''['', Printf ''%d %d]'' [uint (gn_type p), sint (gn_length p)]] @
       map (\<lambda>x. Printf ''%d '' [uint x]) xs @ [Printf CRLF []])
   }"

text \<open>
  Lines 281-316: \<open>bytes\<close> are the 42 bytes \<^verbatim>\<open>slip_rx\<close> stored, \<open>ok\<close> its verdict.
\<close>

definition serial_message :: "drivers \<Rightarrow> bool \<Rightarrow> u8 list \<Rightarrow> u8 \<Rightarrow> net \<Rightarrow> unit step" where
  "serial_message d ok bytes timer s =
     (if \<not> ok then
        Some (Returned (), prints [Kprintf (''Failed to receive a SLIP message from gateway'' @ CRLF)] s)
      else do {
        let s = prints ([Kprintf (''Received a message from the gateway'' @ CRLF)] @
                        map (\<lambda>x. Printf ''%d '' [uint x]) bytes @ [Printf ''\<newline>\<newline>'' []]) s;
        let g = (unpack_GatewayToNodeSerial_Packet_header (gtn_pkt s) (buf_of bytes) 0)
                  \<lparr>gn_data := take MAX_GATEWAY_PAYLOAD (drop 2 bytes)\<rparr>;
        let s = s\<lparr>gtn_pkt := g\<rparr>;
        es \<leftarrow> print_gtn_pkt g;
        let s = prints (Kprintf ''Unpacked gatewaytonode packet = '' # es) s;
        if serial_pkt_type g = SERIAL_APPLICATION then do {
          s \<leftarrow> process_serial_app_pkt g s;
          Some (Returned (), s)
        }
        else if serial_pkt_type g = SERIAL_NW_CONTROL then process_serial_nw_ctrl_pkt d g timer s
        else Some (Returned (), prints
          [Printf ''serial_task(): Invalid packet type received = %d\<newline>'' [uint (gn_type g)]] s)
      })"

end
