(* ===== verification/Net_Locks.thy ===== *)
theory Net_Locks
  imports Net_Dispatch
begin

text \<open>
  What the critical sections of the network stack leave alone, so that the proofs about its
  operations can step over them: a call of a task that finds the mutexes free only changes
  their values and the priority fields of control blocks.
\<close>

section \<open>Kernel states\<close>

definition tcb_view :: "NRK_TCB \<Rightarrow> i8 \<times> u32 \<times> u8" where
  "tcb_view t = (task_ID t, registered_signal_mask t, errno t)"

definition calm :: "kernel \<Rightarrow> kernel \<Rightarrow> bool" where
  "calm k k' \<longleftrightarrow> nrk_signal_list k' = nrk_signal_list k \<and> nrk_wakeup_signal k' = nrk_wakeup_signal k \<and>
     nrk_cur_task_TCB k' = nrk_cur_task_TCB k \<and> map tcb_view (nrk_task_TCB k') = map tcb_view (nrk_task_TCB k)"

lemma calm_refl [simp]: "calm k k"
  by (simp add: calm_def)

lemma calm_trans [trans]: "calm k k' \<Longrightarrow> calm k' k'' \<Longrightarrow> calm k k''"
  by (simp add: calm_def)

lemma calm_signals: "calm k k' \<Longrightarrow> nrk_signal_list k' = nrk_signal_list k"
  by (simp add: calm_def)

lemma calm_running: "calm k k' \<Longrightarrow> running k c \<Longrightarrow> running k' c"
  by (auto simp: calm_def running_def dest: map_eq_imp_length_eq)

lemma calm_tcb:
  assumes "calm k k'" "running k c"
  shows "tcb_view (nrk_task_TCB k' ! c) = tcb_view (nrk_task_TCB k ! c)"
proof -
  have "map tcb_view (nrk_task_TCB k') ! c = map tcb_view (nrk_task_TCB k) ! c"
    using assms(1) by (simp add: calm_def)
  then show ?thesis using assms(2) calm_running [OF assms] by (simp add: running_def)
qed

lemma calm_pid: "calm k k' \<Longrightarrow> running k c \<Longrightarrow> nrk_get_pid k' = nrk_get_pid k"
  using calm_tcb [of k k' c] calm_running [of k k' c] by (simp add: nrk_get_pid_def tcb_view_def)

lemma calm_upd_tcb: "(\<And>t. tcb_view (f t) = tcb_view t) \<Longrightarrow> calm k (upd_tcb c f k)"
  by (cases "c < length (nrk_task_TCB k)")
     (simp_all add: calm_def upd_tcb_def map_update list_update_beyond list_update_same_conv)

lemma calm_int [simp]:
  "calm k (nrk_int_disable k') = calm k k'" "calm k (nrk_int_enable k') = calm k k'"
  "calm (nrk_int_disable k) k' = calm k k'" "calm (nrk_int_enable k) k' = calm k k'"
  by (simp_all add: calm_def nrk_int_disable_def nrk_int_enable_def)

lemma sem_pend_calm:
  assumes "mutex_free i k" "running k c"
  shows "\<exists>k'. nrk_sem_pend (Some i) timer k = Some (Returned NRK_OK, k') \<and> calm k k' \<and>
    nrk_sem_list k' = (nrk_sem_list k)[i := (nrk_sem_list k ! i)\<lparr>sem_value := 0\<rparr>]"
proof -
  have i: "sint (of_nat i :: i8) = int i" "i < NRK_MAX_RESOURCE_CNT k" "NRK_MAX_RESOURCE_CNT k \<le> 127"
    "sem_value (nrk_sem_list k ! i) = 1" using assms(1) by (simp_all add: mutex_free_def)
  let ?k = "nrk_int_disable k\<lparr>nrk_sem_list := (nrk_sem_list k)[i := (nrk_sem_list k ! i)\<lparr>sem_value := 0\<rparr>]\<rparr>"
  have "running ?k c" using assms(2) by (simp add: running_def)
  moreover have "calm k (upd_tcb c (\<lambda>t. t\<lparr>task_prio_ceil := q, elevated_prio_flag := True\<rparr>) ?k)" for q
  proof -
    have "calm k ?k" by (simp add: calm_def nrk_int_disable_def)
    also have "calm ?k (upd_tcb c (\<lambda>t. t\<lparr>task_prio_ceil := q, elevated_prio_flag := True\<rparr>) ?k)"
      by (rule calm_upd_tcb) (simp add: tcb_view_def)
    finally show ?thesis .
  qed
  ultimately show ?thesis using i
    by (simp add: nrk_sem_pend_def with_sem_valid nrk_sem_pend_resume_def upd_sem_def)
qed

lemma enter_cr_calm:
  assumes "mutex_free i k" "running k c"
  shows "\<exists>k'. enter_cr (Some i) fno timer k = Some (Returned (), k') \<and> calm k k' \<and>
    nrk_sem_list k' = (nrk_sem_list k)[i := (nrk_sem_list k ! i)\<lparr>sem_value := 0\<rparr>]"
  using sem_pend_calm [OF assms, of timer] by (auto simp: enter_cr_def)

lemma view_release_waiter [simp]: "tcb_view (release_waiter i t) = tcb_view t"
  by (simp add: release_waiter_def tcb_view_def)

lemma sem_post_calm:
  assumes "i < NRK_MAX_RESOURCE_CNT k" "NRK_MAX_RESOURCE_CNT k \<le> 127" "running k c"
    "sem_count (nrk_sem_list k ! i) = 1" "sem_value (nrk_sem_list k ! i) = 0"
  shows "\<exists>k'. nrk_sem_post (Some i) k = Some (NRK_OK, k') \<and> calm k k' \<and>
    nrk_sem_list k' = (nrk_sem_list k)[i := (nrk_sem_list k ! i)\<lparr>sem_value := 1\<rparr>]"
proof -
  have i: "sint (of_nat i :: i8) = int i" using assms by simp
  let ?k = "nrk_int_disable k\<lparr>nrk_sem_list := (nrk_sem_list k)[i := (nrk_sem_list k ! i)\<lparr>sem_value := 1\<rparr>]\<rparr>"
  let ?k' = "upd_tcb c (\<lambda>t. t\<lparr>elevated_prio_flag := False\<rparr>) ?k"
  have "running ?k c" using assms(3) by (simp add: running_def)
  moreover have "calm k (?k'\<lparr>nrk_task_TCB := map (release_waiter (of_nat i)) (nrk_task_TCB ?k')\<rparr>)"
  proof -
    have "calm k ?k" by (simp add: calm_def nrk_int_disable_def)
    also have "calm ?k ?k'" by (rule calm_upd_tcb) (simp add: tcb_view_def)
    also have "calm ?k' (?k'\<lparr>nrk_task_TCB := map (release_waiter (of_nat i)) (nrk_task_TCB ?k')\<rparr>)"
      unfolding calm_def by (simp add: o_def)
    finally show ?thesis .
  qed
  ultimately show ?thesis using i assms
    by (simp add: nrk_sem_post_def with_sem_valid upd_sem_def)
qed

lemma leave_cr_calm:
  assumes "i < NRK_MAX_RESOURCE_CNT k" "NRK_MAX_RESOURCE_CNT k \<le> 127" "running k c"
    "sem_count (nrk_sem_list k ! i) = 1" "sem_value (nrk_sem_list k ! i) = 0"
  shows "\<exists>k'. leave_cr (Some i) fno k = Some k' \<and> calm k k' \<and>
    nrk_sem_list k' = (nrk_sem_list k)[i := (nrk_sem_list k ! i)\<lparr>sem_value := 1\<rparr>]"
  using sem_post_calm [OF assms] by (auto simp: leave_cr_def)

text \<open>Leaving a critical section nobody is in does nothing.\<close>

lemma leave_cr_free:
  assumes "mutex_free i k"
  shows "leave_cr (Some i) fno k = Some k"
proof -
  have i: "sint (of_nat i :: i8) = int i" "i < NRK_MAX_RESOURCE_CNT k" "NRK_MAX_RESOURCE_CNT k \<le> 127"
    "sem_value (nrk_sem_list k ! i) = 1" "sem_count (nrk_sem_list k ! i) = 1"
    using assms by (simp_all add: mutex_free_def)
  then show ?thesis by (simp add: leave_cr_def nrk_sem_post_def with_sem_valid)
qed

section \<open>The three mutexes\<close>

definition lock_is :: "nat option \<Rightarrow> i8 \<Rightarrow> kernel \<Rightarrow> bool" where
  "lock_is sem v k \<longleftrightarrow> (\<exists>i. sem = Some i \<and> i < NRK_MAX_RESOURCE_CNT k \<and> NRK_MAX_RESOURCE_CNT k \<le> 127 \<and>
     sem_count (nrk_sem_list k ! i) = 1 \<and> sem_value (nrk_sem_list k ! i) = v)"

definition locks :: "i8 \<Rightarrow> i8 \<Rightarrow> i8 \<Rightarrow> net \<Rightarrow> bool" where
  "locks b t n s \<longleftrightarrow> lock_is (bm_sem s) b (n_kernel s) \<and> lock_is (tl_sem s) t (n_kernel s) \<and>
     lock_is (nl_sem s) n (n_kernel s) \<and> distinct [bm_sem s, tl_sem s, nl_sem s]"

text \<open>A step that only changed the kernel, and there nothing of interest.\<close>

definition only_kernel :: "net \<Rightarrow> net \<Rightarrow> bool" where
  "only_kernel s s' \<longleftrightarrow> (\<exists>k. s' = s\<lparr>n_kernel := k\<rparr> \<and> calm (n_kernel s) k)"

lemma only_kernelE:
  assumes "only_kernel s s'"
  obtains k where "s' = s\<lparr>n_kernel := k\<rparr>" "calm (n_kernel s) k"
  using assms by (auto simp: only_kernel_def)

lemma only_kernel_fields:
  assumes "only_kernel s s'"
  shows "n_rx s' = n_rx s" "n_tx s' = n_tx s" "sock s' = sock s" "NODE_ADDR s' = NODE_ADDR s"
    "ngb_list s' = ngb_list s" "route_table s' = route_table s" "tl_udp_seg s' = tl_udp_seg s"
    "tl_pkt s' = tl_pkt s" "tlayer_init_done s' = tlayer_init_done s" "nl_udp_seg s' = nl_udp_seg s"
    "bm_sem s' = bm_sem s" "tl_sem s' = tl_sem s" "nl_sem s' = nl_sem s" "host_le s' = host_le s"
    "endian s' = endian s" "DEFAULT_GATEWAY s' = DEFAULT_GATEWAY s" "calm (n_kernel s) (n_kernel s')"
    "nrk_signal_list (n_kernel s') = nrk_signal_list (n_kernel s)" "pkt_rx s' = pkt_rx s"
  using assms by (auto elim!: only_kernelE simp: calm_signals)

lemma only_kernel_trans [trans]: "only_kernel s s' \<Longrightarrow> only_kernel s' s'' \<Longrightarrow> only_kernel s s''"
  by (fastforce elim!: only_kernelE simp: only_kernel_def intro: calm_trans)

lemma only_kernel_refl [simp]: "only_kernel s s"
  by (auto simp: only_kernel_def intro: exI [of _ "n_kernel s"])

lemma only_kernel_running: "only_kernel s s' \<Longrightarrow> running (n_kernel s) c \<Longrightarrow> running (n_kernel s') c"
  by (auto simp: only_kernel_def intro: calm_running)

lemma lock_is_frame:
  "nrk_sem_list k' = (nrk_sem_list k)[i := x] \<Longrightarrow> sem \<noteq> Some i \<Longrightarrow> lock_is sem v k' = lock_is sem v k"
  by (auto simp: lock_is_def)

lemma lock_is_upd:
  "nrk_sem_list k' = (nrk_sem_list k)[i := (nrk_sem_list k ! i)\<lparr>sem_value := v'\<rparr>] \<Longrightarrow>
    lock_is (Some i) v k \<Longrightarrow> lock_is (Some i) v' k'"
  by (auto simp: lock_is_def)

text \<open>The mutex of one layer is taken or given back; \<open>sem\<close> is one of \<open>bm_sem\<close>, \<open>tl_sem\<close>, \<open>nl_sem\<close>.\<close>

lemma enter_free:
  assumes "lock_is (sem s) 1 (n_kernel s)" "running (n_kernel s) c" "\<And>k. sem (s\<lparr>n_kernel := k\<rparr>) = sem s"
  shows "\<exists>s'. enter sem fno timer s = Some (Returned (), s') \<and> only_kernel s s' \<and>
    lock_is (sem s) 0 (n_kernel s') \<and>
    (\<forall>m v. m \<noteq> sem s \<longrightarrow> lock_is m v (n_kernel s') = lock_is m v (n_kernel s))"
proof -
  obtain i where i: "sem s = Some i" "mutex_free i (n_kernel s)"
    using assms(1) by (auto simp: lock_is_def mutex_free_def)
  from enter_cr_calm [OF i(2) assms(2), of fno timer]
  obtain k where k: "enter_cr (Some i) fno timer (n_kernel s) = Some (Returned (), k)" "calm (n_kernel s) k"
    "nrk_sem_list k = (nrk_sem_list (n_kernel s))[i := (nrk_sem_list (n_kernel s) ! i)\<lparr>sem_value := 0\<rparr>]" by blast
  then show ?thesis using i assms(1) lock_is_frame [OF k(3)] lock_is_upd [OF k(3), of 1]
    by (intro exI [of _ "s\<lparr>n_kernel := k\<rparr>"]) (auto simp: enter_def only_kernel_def)
qed

lemma leave_taken:
  assumes "lock_is (sem s) 0 (n_kernel s)" "running (n_kernel s) c" "\<And>k. sem (s\<lparr>n_kernel := k\<rparr>) = sem s"
  shows "\<exists>s'. leave sem fno s = Some s' \<and> only_kernel s s' \<and> lock_is (sem s) 1 (n_kernel s') \<and>
    (\<forall>m v. m \<noteq> sem s \<longrightarrow> lock_is m v (n_kernel s') = lock_is m v (n_kernel s))"
proof -
  obtain i where i: "sem s = Some i" "i < NRK_MAX_RESOURCE_CNT (n_kernel s)"
    "NRK_MAX_RESOURCE_CNT (n_kernel s) \<le> 127" "sem_count (nrk_sem_list (n_kernel s) ! i) = 1"
    "sem_value (nrk_sem_list (n_kernel s) ! i) = 0"
    using assms(1) by (auto simp: lock_is_def)
  from leave_cr_calm [OF i(2,3) assms(2) i(4,5), of fno]
  obtain k where k: "leave_cr (Some i) fno (n_kernel s) = Some k" "calm (n_kernel s) k"
    "nrk_sem_list k = (nrk_sem_list (n_kernel s))[i := (nrk_sem_list (n_kernel s) ! i)\<lparr>sem_value := 1\<rparr>]" by blast
  then show ?thesis using i assms(1) lock_is_frame [OF k(3)] lock_is_upd [OF k(3), of 0]
    by (intro exI [of _ "s\<lparr>n_kernel := k\<rparr>"]) (auto simp: leave_def only_kernel_def)
qed

lemma enter_bm:
  assumes "locks 1 t n s" "running (n_kernel s) c"
  shows "\<exists>s'. enter bm_sem fno timer s = Some (Returned (), s') \<and> only_kernel s s' \<and> locks 0 t n s'"
  using enter_free [of bm_sem s c fno timer] assms by (fastforce simp: locks_def only_kernel_fields)

lemma enter_tl:
  assumes "locks b 1 n s" "running (n_kernel s) c"
  shows "\<exists>s'. enter tl_sem fno timer s = Some (Returned (), s') \<and> only_kernel s s' \<and> locks b 0 n s'"
  using enter_free [of tl_sem s c fno timer] assms by (fastforce simp: locks_def only_kernel_fields)

lemma enter_nl:
  assumes "locks b t 1 s" "running (n_kernel s) c"
  shows "\<exists>s'. enter nl_sem fno timer s = Some (Returned (), s') \<and> only_kernel s s' \<and> locks b t 0 s'"
  using enter_free [of nl_sem s c fno timer] assms by (fastforce simp: locks_def only_kernel_fields)

lemma leave_bm:
  assumes "locks 0 t n s" "running (n_kernel s) c"
  shows "\<exists>s'. leave bm_sem fno s = Some s' \<and> only_kernel s s' \<and> locks 1 t n s'"
  using leave_taken [of bm_sem s c fno] assms by (fastforce simp: locks_def only_kernel_fields)

lemma leave_tl:
  assumes "locks b 0 n s" "running (n_kernel s) c"
  shows "\<exists>s'. leave tl_sem fno s = Some s' \<and> only_kernel s s' \<and> locks b 1 n s'"
  using leave_taken [of tl_sem s c fno] assms by (fastforce simp: locks_def only_kernel_fields)

lemma leave_nl:
  assumes "locks b t 0 s" "running (n_kernel s) c"
  shows "\<exists>s'. leave nl_sem fno s = Some s' \<and> only_kernel s s' \<and> locks b t 1 s'"
  using leave_taken [of nl_sem s c fno] assms by (fastforce simp: locks_def only_kernel_fields)

lemma enter_both_free:
  assumes "locks 1 1 n s" "running (n_kernel s) c"
  shows "\<exists>s'. enter_both fno timer s = Some (Returned (), s') \<and> only_kernel s s' \<and> locks 0 0 n s'"
proof -
  obtain s1 where 1: "enter bm_sem fno timer s = Some (Returned (), s1)" "only_kernel s s1" "locks 0 1 n s1"
    using enter_bm [OF assms] by blast
  obtain s2 where "enter tl_sem fno timer s1 = Some (Returned (), s2)" "only_kernel s1 s2" "locks 0 0 n s2"
    using enter_tl [OF 1(3) only_kernel_running [OF 1(2) assms(2)]] by blast
  then show ?thesis using 1 only_kernel_trans by (auto simp: enter_both_def and_then_def)
qed

lemma leave_both_taken:
  assumes "locks 0 0 n s" "running (n_kernel s) c"
  shows "\<exists>s'. leave_both fno s = Some s' \<and> only_kernel s s' \<and> locks 1 1 n s'"
proof -
  obtain s1 where 1: "leave tl_sem fno s = Some s1" "only_kernel s s1" "locks 0 1 n s1"
    using leave_tl [OF assms] by blast
  obtain s2 where "leave bm_sem fno s1 = Some s2" "only_kernel s1 s2" "locks 1 1 n s2"
    using leave_bm [OF 1(3) only_kernel_running [OF 1(2) assms(2)]] by blast
  then show ?thesis using 1 only_kernel_trans by (auto simp: leave_both_def)
qed

lemma finish_taken:
  assumes "locks 0 0 n s" "running (n_kernel s) c"
  shows "\<exists>s'. finish fno r s = Some (Returned r, s') \<and> only_kernel s s' \<and> locks 1 1 n s'"
  using leave_both_taken [OF assms, of fno] by (auto simp: finish_def)

lemma locks_cong:
  "\<lbrakk>bm_sem s' = bm_sem s; tl_sem s' = tl_sem s; nl_sem s' = nl_sem s;
    nrk_sem_list (n_kernel s') = nrk_sem_list (n_kernel s)\<rbrakk> \<Longrightarrow> locks b t n s' = locks b t n s"
  by (simp add: locks_def lock_is_def)

lemma set_errno_running:
  "running (n_kernel s) c \<Longrightarrow>
    set_errno e s = Some (s\<lparr>n_kernel := upd_tcb c (\<lambda>t. t\<lparr>errno := e\<rparr>) (n_kernel s)\<rparr>)"
  by (simp add: set_errno_def nrk_errno_set_def)

text \<open>What a refused call leaves: only the error number of the task, \<open>e\<close>.\<close>

definition failed :: "nat \<Rightarrow> u8 \<Rightarrow> net \<Rightarrow> net \<Rightarrow> bool" where
  "failed c e s s' \<longleftrightarrow>
     (\<exists>k. s' = s\<lparr>n_kernel := k\<rparr> \<and> calm (upd_tcb c (\<lambda>t. t\<lparr>errno := e\<rparr>) (n_kernel s)) k)"

lemma refuse_taken:
  assumes "locks 0 0 n s" "running (n_kernel s) c"
  shows "\<exists>s'. refuse fno r e s = Some (Returned r, s') \<and> failed c e s s' \<and> locks 1 1 n s'"
proof -
  let ?s = "s\<lparr>n_kernel := upd_tcb c (\<lambda>t. t\<lparr>errno := e\<rparr>) (n_kernel s)\<rparr>"
  have l: "locks 0 0 n ?s" unfolding locks_cong [of ?s s 0 0 n, simplified] by (rule assms(1))
  have "running (n_kernel ?s) c" using assms(2) by simp
  from finish_taken [OF l this, of fno r]
  obtain s' where s': "finish fno r ?s = Some (Returned r, s')" "only_kernel ?s s'" "locks 1 1 n s'"
    by (elim exE conjE)
  obtain k where "s' = ?s\<lparr>n_kernel := k\<rparr>" "calm (n_kernel ?s) k" using s'(2) by (rule only_kernelE)
  then have "failed c e s s'" unfolding failed_def by (intro exI [of _ k]) simp
  moreover have "refuse fno r e s = Some (Returned r, s')"
    using s'(1) assms(2) by (simp add: refuse_def set_errno_running)
  ultimately show ?thesis using s'(3) by blast
qed

lemma calm_errno:
  assumes "calm (upd_tcb c (\<lambda>t. t\<lparr>errno := e\<rparr>) k) k'" "running k c"
  shows "nrk_errno_get k' = Some e"
proof -
  have r: "running (upd_tcb c (\<lambda>t. t\<lparr>errno := e\<rparr>) k) c" using assms(2) by simp
  from calm_tcb [OF assms(1) r] cur_tcb_running [OF calm_running [OF assms(1) r]] show ?thesis
    using assms(2) by (simp add: nrk_errno_get_def tcb_view_def running_def)
qed

lemma failed_errno:
  assumes "failed c e s s'" "running (n_kernel s) c"
  shows "nrk_errno_get (n_kernel s') = Some e"
  using assms calm_errno by (auto simp: failed_def)

text \<open>Signalling a signal in use, whoever waits for it.\<close>

lemma event_signal_in_use:
  assumes "running k c" "0 \<le> sint sig" "sint sig < 32" "bit (nrk_signal_list k) (nat (sint sig))"
  shows "\<exists>r k'. nrk_event_signal sig k = Some (r, k') \<and> running k' c \<and> nrk_sem_list k' = nrk_sem_list k \<and>
    (if r = NRK_ERROR then nrk_errno_get k' = Some 2 else True)"
proof -
  let ?m = "2 ^ nat (sint sig) :: u32"
  let ?T = "map (\<lambda>t. fst (deliver ?m t)) (nrk_task_TCB k)"
  let ?k = "nrk_int_enable (nrk_int_disable k\<lparr>nrk_task_TCB := ?T\<rparr>)"
  have run: "running ?k c" using assms(1) by (simp add: running_def)
  have set: "?m AND nrk_signal_list k \<noteq> 0" using assms(4) by (simp add: and_pow2)
  have "nrk_event_signal sig k =
      (if \<exists>t \<in> set (nrk_task_TCB k). snd (deliver ?m t) then Some (NRK_OK, ?k)
       else Some (NRK_ERROR, upd_tcb c (\<lambda>t. t\<lparr>errno := 2\<rparr>) ?k))"
    using SIG_bit [OF assms(2,3)] set run by (simp add: nrk_event_signal_def nrk_errno_set_def comp_def)
  moreover have "nrk_errno_get (upd_tcb c (\<lambda>t. t\<lparr>errno := 2\<rparr>) ?k) = Some 2"
    by (rule calm_errno [OF calm_refl run])
  moreover have "running (upd_tcb c (\<lambda>t. t\<lparr>errno := 2\<rparr>) ?k) c" "nrk_sem_list (upd_tcb c (\<lambda>t. t\<lparr>errno := 2\<rparr>) ?k) = nrk_sem_list k"
    "nrk_sem_list ?k = nrk_sem_list k" using run by simp_all
  ultimately show ?thesis using run by (cases "\<exists>t \<in> set (nrk_task_TCB k). snd (deliver ?m t)") auto
qed

section \<open>A state for examples\<close>

text \<open>
  The receive state \<open>r\<close> and the sockets \<open>ks\<close> on a node with address 1; task 1 runs, all
  mutexes are free, no signal but the wake-up signal is in use.
\<close>

definition ex_packet :: NW_Packet where
  "ex_packet = \<lparr>pkt_src = 0, pkt_dest = 0, pkt_prevHop = 0, pkt_nextHop = 0, pkt_ttl = 0, pkt_type = 0,
     pkt_length = 0, pkt_prio = 0, pkt_data = replicate 43 0\<rparr>"

definition ex_tx :: tx_state where
  "ex_tx = \<lparr>tb_pkt = (\<lambda>_. ex_packet), tb_status = (\<lambda>_. EMPTY), tb_prio = (\<lambda>_. 0), tb_next = (\<lambda>_. None),
     tx_head_fq = Some 0, tx_tail_fq = Some 0, tx_head_aq = None, tx_tail_aq = None,
     count_aq = 0, count_fq = 1\<rparr>"

definition ex_mutexes :: "nrk_sem_t list" where
  "ex_mutexes = replicate 3 \<lparr>sem_count = 1, resource_ceiling = 19, sem_value = 1\<rparr>"

definition ex_net :: "rx_state \<Rightarrow> Socket list \<Rightarrow> net" where
  "ex_net r ks =
     \<lparr>n_kernel = ex_kernel 1\<lparr>nrk_sem_list := ex_mutexes\<rparr>, n_rx = r, n_tx = ex_tx, bm_sem = Some 0,
      sock = ks, tlayer_init_done = 1, tl_udp_seg = ex_seg\<lparr>seg_data := replicate 40 0\<rparr>,
      tl_pkt = ex_packet, tl_sem = Some 1,
      ngb_list = \<lparr>nl_my_addr = 1, nl_ngbs = replicate 5 \<lparr>nb_addr = BCAST_ADDR, nb_rssi = 0,
        nb_lastReport = 0, nb_isNew = 0\<rparr>, nl_count = 0\<rparr>,
      route_table = replicate 5 \<lparr>rt_dest = BCAST_ADDR, rt_nextHop = BCAST_ADDR, rt_cost = 100\<rparr>,
      DEFAULT_GATEWAY = BCAST_ADDR, ROUTING_ALGORITHM = 1, FLOODING_TYPE = 2, P_DISTRIBUTION = 1,
      nl_udp_seg = ex_seg, pkt_rx = ex_packet, pkt_tx = ex_packet,
      ntg_pkt = \<lparr>ng_type = 0, ng_length = 0, ng_data = replicate 32 0\<rparr>,
      gtn_pkt = \<lparr>gn_type = 0, gn_length = 0, gn_data = replicate 40 0\<rparr>, nw_pkt = ex_packet,
      nl_sem = Some 2, NODE_ADDR = 1, host_le = True, endian = LITTLE_ENDIAN\<rparr>"

lemma ex_net_locks: "locks 1 1 1 (ex_net r ks)"
  by (simp add: locks_def lock_is_def ex_net_def ex_mutexes_def)

lemma ex_net_running: "running (n_kernel (ex_net r ks)) 1"
  by (simp add: ex_net_def running_def ex_tasks_def)

end
