(* ===== verification/Net_Table.thy ===== *)
theory Net_Table
  imports Net_Locks
begin

text \<open>
  The neighbour table and the routing table of the network layer: what they hold after the
  operations on them, seen from outside as maps from addresses.
\<close>

section \<open>Neighbours\<close>

definition valid_ngb :: "Neighbor \<Rightarrow> bool" where
  "valid_ngb e \<longleftrightarrow> nb_addr e \<noteq> BCAST_ADDR"

definition ngbs_ok :: "NeighborList \<Rightarrow> bool" where
  "ngbs_ok l \<longleftrightarrow> length (nl_ngbs l) = MAX_NGBS \<and> distinct (map nb_addr (filter valid_ngb (nl_ngbs l))) \<and>
     nl_count l = of_nat (length (filter valid_ngb (nl_ngbs l)))"

text \<open>What the table says of an address: signal strength, time left, whether it is new.\<close>

definition heard :: "NeighborList \<Rightarrow> u16 \<Rightarrow> (i8 \<times> i8 \<times> i8) option" where
  "heard l a = (if a = BCAST_ADDR then None
     else map_option (\<lambda>e. (nb_rssi e, nb_lastReport e, nb_isNew e)) (find (\<lambda>e. nb_addr e = a) (nl_ngbs l)))"

definition aged :: "(i8 \<times> i8 \<times> i8) option \<Rightarrow> (i8 \<times> i8 \<times> i8) option" where
  "aged v = (case v of None \<Rightarrow> None | Some (r, l, w) \<Rightarrow> if l = 1 then None else Some (r, l - 1, w))"

text \<open>The first pass, entry by entry.\<close>

definition dies :: "Neighbor \<Rightarrow> Neighbor \<Rightarrow> bool" where
  "dies n e \<longleftrightarrow> nb_addr e \<noteq> nb_addr n \<and> valid_ngb e \<and> nb_lastReport e = 1"

definition ngb_step :: "Neighbor \<Rightarrow> Neighbor \<Rightarrow> Neighbor" where
  "ngb_step n e =
     (if nb_addr e = nb_addr n then e\<lparr>nb_lastReport := TIMEOUT_COUNTER, nb_isNew := 0, nb_rssi := nb_rssi n\<rparr>
      else if dies n e then e\<lparr>nb_lastReport := 0, nb_addr := BCAST_ADDR, nb_rssi := 0, nb_isNew := 0\<rparr>
      else if valid_ngb e then e\<lparr>nb_lastReport := nb_lastReport e - 1\<rparr> else e)"

lemma ngb_pass_eq:
  "ngb_pass n es c = (map (ngb_step n) es, \<exists>e \<in> set es. nb_addr e = nb_addr n,
     c - of_nat (length (filter (dies n) es)))"
proof (induction es arbitrary: c)
  case (Cons e es)
  then show ?case by (auto simp: ngb_step_def dies_def valid_ngb_def Let_def algebra_simps)
qed simp

lemma step_addr: "nb_addr (ngb_step n e) = (if dies n e then BCAST_ADDR else nb_addr e)"
  by (simp add: ngb_step_def dies_def)

lemma valid_step: "valid_ngb (ngb_step n e) \<longleftrightarrow> valid_ngb e \<and> \<not> dies n e"
  by (auto simp: valid_ngb_def step_addr)

lemma count_step:
  "length (filter valid_ngb (map (ngb_step n) es)) + length (filter (dies n) es) = length (filter valid_ngb es)"
  by (induction es) (auto simp: valid_step, auto simp: dies_def)

lemma distinct_step:
  "distinct (map nb_addr (filter valid_ngb es)) \<Longrightarrow> distinct (map nb_addr (filter valid_ngb (map (ngb_step n) es)))"
proof (induction es)
  case (Cons e es)
  have "set (map nb_addr (filter valid_ngb (map (ngb_step n) es))) \<subseteq> set (map nb_addr (filter valid_ngb es))"
    by (auto simp: valid_step step_addr)
  moreover have "distinct (map nb_addr (filter valid_ngb es))" using Cons.prems by (auto split: if_splits)
  note Cons.IH [OF this]
  ultimately show ?case using Cons.prems by (auto simp: valid_step step_addr)
qed simp

lemma find_step:
  assumes "a \<noteq> BCAST_ADDR" "distinct (map nb_addr (filter valid_ngb es))"
  shows "find (\<lambda>e. nb_addr e = a) (map (ngb_step n) es) =
    (case find (\<lambda>e. nb_addr e = a) es of None \<Rightarrow> None
     | Some e \<Rightarrow> if dies n e then None else Some (ngb_step n e))"
  using assms(2)
proof (induction es)
  case (Cons e es)
  have none: "find (\<lambda>e. nb_addr e = a) es = None" if "nb_addr e = a"
  proof -
    have "valid_ngb e" using that assms(1) by (simp add: valid_ngb_def)
    then have "a \<notin> nb_addr ` (set es \<inter> Collect valid_ngb)" using Cons.prems that by auto
    then show ?thesis using assms(1) by (auto simp: find_None_iff valid_ngb_def)
  qed
  have "distinct (map nb_addr (filter valid_ngb es))" using Cons.prems by (auto split: if_splits)
  note IH = Cons.IH [OF this]
  show ?case using IH none assms(1) by (auto simp: step_addr)
qed simp

lemma find_update:
  assumes "i < length es" "nb_addr (es ! i) = BCAST_ADDR" "a \<noteq> BCAST_ADDR"
    "\<forall>e \<in> set es. nb_addr e \<noteq> nb_addr n"
  shows "find (\<lambda>e. nb_addr e = a) (es[i := n]) = (if a = nb_addr n then Some n else find (\<lambda>e. nb_addr e = a) es)"
  using assms
proof (induction es arbitrary: i)
  case (Cons e es)
  then show ?case by (cases i) (auto simp: find_None_iff)
qed simp

lemma filter_update:
  assumes "i < length es" "\<not> P (es ! i)" "P x"
  shows "length (filter P (es[i := x])) = Suc (length (filter P es))"
    "set (filter P (es[i := x])) = insert x (set (filter P es))"
    "distinct (map f (filter P es)) \<Longrightarrow> f x \<notin> f ` set (filter P es) \<Longrightarrow> distinct (map f (filter P (es[i := x])))"
  using assms
proof (induction es arbitrary: i)
  case (Cons e es)
  { case 1 with Cons.IH(1) show ?case by (cases i) auto }
  { case 2 with Cons.IH(2) show ?case by (cases i) auto }
  { case 3
    show ?case
    proof (cases i)
      case 0
      then show ?thesis using 3 by auto
    next
      case (Suc j)
      then have "set (filter P (es[j := x])) = insert x (set (filter P es))"
        using 3 by (intro Cons.IH(2)) auto
      then show ?thesis using 3 Suc Cons.IH(3) [of j] by auto
    qed }
qed simp_all

lemma heard_step:
  assumes "ngbs_ok l" "es = map (ngb_step n) (nl_ngbs l)"
  shows "heard (l\<lparr>nl_ngbs := es, nl_count := c\<rparr>) a =
    (if a = nb_addr n then map_option (\<lambda>_. (nb_rssi n, TIMEOUT_COUNTER, 0)) (heard l a) else aged (heard l a))"
proof (cases "a = BCAST_ADDR")
  case False
  have "distinct (map nb_addr (filter valid_ngb (nl_ngbs l)))" using assms(1) by (simp add: ngbs_ok_def)
  note f = find_step [OF False this, of n]
  show ?thesis
  proof (cases "find (\<lambda>e. nb_addr e = a) (nl_ngbs l)")
    case None
    then show ?thesis using f False assms(2) by (auto simp: heard_def aged_def)
  next
    case (Some e)
    then have "nb_addr e = a" by (auto simp: find_Some_iff)
    then show ?thesis using f False assms(2) Some
      by (auto simp: heard_def aged_def ngb_step_def dies_def valid_ngb_def)
  qed
qed (simp add: heard_def aged_def)

lemma heard_known:
  "nb_addr n \<noteq> BCAST_ADDR \<Longrightarrow> heard l (nb_addr n) \<noteq> None \<longleftrightarrow> (\<exists>e \<in> set (nl_ngbs l). nb_addr e = nb_addr n)"
  by (auto simp: heard_def find_None_iff)

text \<open>The table after the first pass is sane, and full when it holds \<^verbatim>\<open>MAX_NGBS\<close> neighbours.\<close>

lemma ngbs_ok_step:
  fixes n :: Neighbor
  assumes "ngbs_ok l"
  defines "es \<equiv> map (ngb_step n) (nl_ngbs l)" and "c \<equiv> nl_count l - of_nat (length (filter (dies n) (nl_ngbs l)))"
  shows "ngbs_ok (l\<lparr>nl_ngbs := es, nl_count := c\<rparr>)" "c = of_nat (length (filter valid_ngb es))"
    "c = of_nat MAX_NGBS \<longleftrightarrow> (\<forall>e \<in> set es. valid_ngb e)"
proof -
  have len: "length (filter valid_ngb es) + length (filter (dies n) (nl_ngbs l)) =
      length (filter valid_ngb (nl_ngbs l))"
    unfolding es_def by (rule count_step)
  have "nl_count l = of_nat (length (filter valid_ngb (nl_ngbs l)))" using assms(1) by (simp add: ngbs_ok_def)
  then show c: "c = of_nat (length (filter valid_ngb es))"
    unfolding c_def len [symmetric] by simp
  have le: "length es = 5" using assms(1) by (simp add: es_def ngbs_ok_def MAX_NGBS_def)
  then have "length (filter valid_ngb es) \<le> 5" using length_filter_le [of valid_ngb es] by simp
  moreover have "(of_nat m :: i8) = 5 \<longleftrightarrow> m = 5" if "m \<le> 5" for m :: nat
  proof -
    have "m \<in> {0, 1, 2, 3, 4, 5}" using that by auto
    then show ?thesis by auto
  qed
  ultimately have "c = of_nat MAX_NGBS \<longleftrightarrow> length (filter valid_ngb es) = length es"
    using c le by (simp add: MAX_NGBS_def)
  also have "\<dots> \<longleftrightarrow> (\<forall>e \<in> set es. valid_ngb e)"
    by (induction es) (auto, metis Suc_n_not_le_n length_filter_le)
  finally show "c = of_nat MAX_NGBS \<longleftrightarrow> (\<forall>e \<in> set es. valid_ngb e)" .
  show "ngbs_ok (l\<lparr>nl_ngbs := es, nl_count := c\<rparr>)"
    using assms(1) c distinct_step [of "nl_ngbs l" n] by (simp add: ngbs_ok_def es_def)
qed

text \<open>The second pass.\<close>

lemma ngbs_ok_insert:
  assumes "ngbs_ok l" "i < length (nl_ngbs l)" "nb_addr (nl_ngbs l ! i) = BCAST_ADDR" "nb_addr n \<noteq> BCAST_ADDR"
    "heard l (nb_addr n) = None"
  defines "l' \<equiv> l\<lparr>nl_ngbs := (nl_ngbs l)[i := n], nl_count := nl_count l + 1\<rparr>"
  shows "ngbs_ok l'"
    "heard l' a = (if a = nb_addr n then Some (nb_rssi n, nb_lastReport n, nb_isNew n) else heard l a)"
proof -
  have v: "\<not> valid_ngb (nl_ngbs l ! i)" "valid_ngb n" using assms(3,4) by (simp_all add: valid_ngb_def)
  have new: "\<forall>e \<in> set (nl_ngbs l). nb_addr e \<noteq> nb_addr n"
    using heard_known [OF assms(4), of l] assms(5) by simp
  then have "nb_addr n \<notin> nb_addr ` set (filter valid_ngb (nl_ngbs l))" by auto
  then have "distinct (map nb_addr (filter valid_ngb ((nl_ngbs l)[i := n])))"
    using assms(1) by (intro filter_update(3) [OF assms(2) v]) (simp_all add: ngbs_ok_def)
  then show "ngbs_ok l'"
    using assms(1) filter_update(1) [OF assms(2) v] by (simp add: ngbs_ok_def l'_def)
  show "heard l' a = (if a = nb_addr n then Some (nb_rssi n, nb_lastReport n, nb_isNew n) else heard l a)"
    using find_update [OF assms(2,3) _ new, of a] assms(4) by (auto simp: heard_def l'_def)
qed

text \<open>
  C17: The neighbour table is a map from addresses that ages. In a sane table, with the mutex
  of the layer free, \<^verbatim>\<open>add_neighbor\<close> returns. A known neighbour is refreshed, an unknown one
  is recorded as new if an entry is free once the others have aged, and otherwise refused with
  \<^verbatim>\<open>MAX_NEIGHBOR_LIMIT_REACHED\<close>; every other neighbour loses one unit of time and is forgotten
  when none is left, also in the call that refuses. The table stays sane.
\<close>

theorem add_neighbor_refines:
  assumes "ngbs_ok (ngb_list s)" "nb_addr n \<noteq> BCAST_ADDR" "locks b t 1 s" "running (n_kernel s) c"
  defines "known \<equiv> heard (ngb_list s) (nb_addr n) \<noteq> None"
    and "full \<equiv> \<forall>e \<in> set (nl_ngbs (ngb_list s)). valid_ngb e \<and> \<not> dies n e"
  shows "\<exists>r s'. add_neighbor n timer s = Some (Returned r, s') \<and> ngbs_ok (ngb_list s') \<and> locks b t 1 s' \<and>
    r = (if known \<or> \<not> full then NRK_OK else NRK_ERROR) \<and>
    (r = NRK_ERROR \<longrightarrow> nrk_errno_get (n_kernel s') = Some MAX_NEIGHBOR_LIMIT_REACHED) \<and>
    (\<forall>a. heard (ngb_list s') a =
      (if a = nb_addr n then
         (if known then Some (nb_rssi n, TIMEOUT_COUNTER, 0)
          else if full then None else Some (nb_rssi n, TIMEOUT_COUNTER, 1))
       else aged (heard (ngb_list s) a)))"
proof -
  obtain s1 where s1: "enter nl_sem 19 timer s = Some (Returned (), s1)" "only_kernel s s1" "locks b t 0 s1"
    using enter_nl [OF assms(3,4)] by blast
  have run: "running (n_kernel s1) c" using only_kernel_running [OF s1(2) assms(4)] .
  define l es k where "l = ngb_list s" and "es = map (ngb_step n) (nl_ngbs l)"
    and "k = nl_count l - of_nat (length (filter (dies n) (nl_ngbs l)))"
  define l1 where "l1 = l\<lparr>nl_ngbs := es, nl_count := k\<rparr>"
  have ok: "ngbs_ok l" using assms(1) by (simp add: l_def)
  note step = ngbs_ok_step [OF ok, of n, folded es_def k_def, folded l1_def]
  have l: "ngb_list s1 = l" using s1(2) by (simp add: only_kernel_fields l_def)
  have pass: "ngb_pass n (nl_ngbs l) (nl_count l) = (es, known, k)"
    using heard_known [OF assms(2), of l] by (simp add: ngb_pass_eq es_def k_def known_def l_def)
  have full: "full \<longleftrightarrow> k = of_nat MAX_NGBS"
    unfolding step(3) full_def es_def l_def by (auto simp: valid_step)
  have heard1: "heard l1 a = (if a = nb_addr n then map_option (\<lambda>_. (nb_rssi n, TIMEOUT_COUNTER, 0)) (heard l a)
      else aged (heard l a))" for a
    unfolding l1_def using ok es_def by (rule heard_step)
  have unknown: "heard (ngb_list s) (nb_addr n) = None" if "\<not> known" using that unfolding known_def by blast
  have body: "add_neighbor n timer s = add_neighbor_body n s1"
    using s1(1) by (simp add: add_neighbor_def and_then_def)
  have leave: "\<exists>s'. leave nl_sem 19 (s1\<lparr>ngb_list := m\<rparr>) = Some s' \<and> ngb_list s' = m \<and> locks b t 1 s'" for m
    using leave_nl [of b t "s1\<lparr>ngb_list := m\<rparr>" c 19] s1(3) run locks_cong [of "s1\<lparr>ngb_list := m\<rparr>" s1 b t 0]
    by (fastforce simp: only_kernel_fields)
  consider (known) "known" | (full) "\<not> known" "full" | (room) "\<not> known" "\<not> full" by blast
  then show ?thesis
  proof cases
    case known
    obtain s' where "leave nl_sem 19 (s1\<lparr>ngb_list := l1\<rparr>) = Some s'" "ngb_list s' = l1" "locks b t 1 s'"
      using leave by blast
    moreover from this have "add_neighbor n timer s = Some (Returned NRK_OK, s')"
      using known by (simp add: body add_neighbor_body_def l pass l1_def)
    ultimately show ?thesis
      using step(1) known heard1 by (auto simp: known_def l_def)
  next
    case full
    let ?s = "s1\<lparr>ngb_list := l1\<rparr>"
    let ?e = "?s\<lparr>n_kernel := upd_tcb c (\<lambda>t. t\<lparr>errno := MAX_NEIGHBOR_LIMIT_REACHED\<rparr>) (n_kernel s1)\<rparr>"
    have le: "locks b t 0 ?e" using s1(3) locks_cong [of ?e s1 b t 0] by simp
    have re: "running (n_kernel ?e) c" using run by simp
    from leave_nl [OF le re, of 19]
    obtain s' where s': "leave nl_sem 19 ?e = Some s'" "only_kernel ?e s'" "locks b t 1 s'"
      by (elim exE conjE)
    have "add_neighbor n timer s = Some (Returned NRK_ERROR, s')"
      using full s'(1) run \<open>full \<longleftrightarrow> k = of_nat MAX_NGBS\<close>
      by (simp add: body add_neighbor_body_def l pass l1_def set_errno_running)
    moreover have "ngb_list s' = l1" using only_kernel_fields(5) [OF s'(2)] by simp
    moreover have "nrk_errno_get (n_kernel s') = Some MAX_NEIGHBOR_LIMIT_REACHED"
      using calm_errno [of c MAX_NEIGHBOR_LIMIT_REACHED "n_kernel s1" "n_kernel s'"] only_kernel_fields(17) [OF s'(2)] run
      by simp
    ultimately show ?thesis
      using step(1) full heard1 s'(3) unknown [OF full(1)] by (simp add: l_def)
  next
    case room
    obtain i where i: "scan (\<lambda>i. nb_addr (es ! i) = BCAST_ADDR) 0 MAX_NGBS = Some i"
      using room(2) full ok step(3)
      by (cases "scan (\<lambda>i. nb_addr (es ! i) = BCAST_ADDR) 0 MAX_NGBS")
         (auto simp: scan_None_iff in_set_conv_nth es_def ngbs_ok_def valid_ngb_def)
    define n' where "n' = n\<lparr>nb_lastReport := TIMEOUT_COUNTER, nb_isNew := 1\<rparr>"
    define l2 where "l2 = l1\<lparr>nl_ngbs := (nl_ngbs l1)[i := n'], nl_count := nl_count l1 + 1\<rparr>"
    have n': "nb_addr n' = nb_addr n" "nb_rssi n' = nb_rssi n" "nb_lastReport n' = TIMEOUT_COUNTER" "nb_isNew n' = 1"
      by (simp_all add: n'_def)
    have "i < length (nl_ngbs l1)" "nb_addr (nl_ngbs l1 ! i) = BCAST_ADDR"
      using i ok by (auto simp: scan_Some_iff l1_def es_def ngbs_ok_def)
    moreover have "nb_addr n' \<noteq> BCAST_ADDR" "heard l1 (nb_addr n') = None"
      using assms(2) heard1 unknown [OF room(1)] by (simp_all add: n' l_def)
    ultimately have ins: "ngbs_ok l2"
        "heard l2 a = (if a = nb_addr n then Some (nb_rssi n, TIMEOUT_COUNTER, 1) else heard l1 a)" for a
      using ngbs_ok_insert [OF step(1), of i n'] unfolding l2_def n' by blast+
    obtain s' where s': "leave nl_sem 19 (s1\<lparr>ngb_list := l2\<rparr>) = Some s'" "ngb_list s' = l2" "locks b t 1 s'"
      using leave by blast
    moreover from this have "add_neighbor n timer s = Some (Returned NRK_OK, s')"
      using room i full
      by (simp add: body add_neighbor_body_def l pass l1_def l2_def n'_def)
    ultimately show ?thesis
      using ins room heard1 unknown [OF room(1)] by (simp add: l_def)
  qed
qed

lemma ex_ngbs_ok: "ngbs_ok (ngb_list (ex_net r ks))"
  by (simp add: ngbs_ok_def ex_net_def valid_ngb_def MAX_NGBS_def)

theorem add_neighbor_refines_witness:
  "\<exists>s'. add_neighbor \<lparr>nb_addr = 7, nb_rssi = 40, nb_lastReport = 0, nb_isNew = 0\<rparr> 5
      (ex_net (ex_rx (\<lambda>b. EMPTY) (\<lambda>b. 0) [] []) []) = Some (Returned NRK_OK, s') \<and>
    heard (ngb_list s') 7 = Some (40, 5, 1)"
proof -
  define s where "s = ex_net (ex_rx (\<lambda>b. EMPTY) (\<lambda>b. 0) [] []) []"
  define n where "n = \<lparr>nb_addr = 7, nb_rssi = 40, nb_lastReport = 0, nb_isNew = (0 :: i8)\<rparr>"
  have n: "nb_addr n = 7" "nb_rssi n = 40" by (simp_all add: n_def)
  have a: "nb_addr n \<noteq> BCAST_ADDR" by (simp add: n BCAST_ADDR_def)
  have full: "(\<forall>e \<in> set (nl_ngbs (ngb_list s)). valid_ngb e \<and> \<not> dies n e) = False"
    by (simp add: s_def ex_net_def valid_ngb_def)
  have new: "heard (ngb_list s) 7 = None"
    by (simp add: s_def ex_net_def heard_def find_None_iff BCAST_ADDR_def)
  have "ngbs_ok (ngb_list s)" "locks 1 1 1 s" "running (n_kernel s) 1"
    unfolding s_def by (rule ex_ngbs_ok ex_net_locks ex_net_running)+
  note add_neighbor_refines [OF this(1) a this(2,3), of 5, unfolded full n new]
  then obtain s' where "add_neighbor n 5 s = Some (Returned NRK_OK, s')"
    "heard (ngb_list s') 7 = Some (40, TIMEOUT_COUNTER, 1)" by auto
  then show ?thesis unfolding s_def n_def TIMEOUT_COUNTER_def by blast
qed

section \<open>Routes\<close>

text \<open>The route a table gives for an address.\<close>

definition next_hop :: "RoutingTable list \<Rightarrow> u16 \<Rightarrow> u16" where
  "next_hop es a = (if a = BCAST_ADDR then BCAST_ADDR else
     case find (\<lambda>e. rt_dest e = a) es of Some e \<Rightarrow> rt_nextHop e | None \<Rightarrow> BCAST_ADDR)"

lemma find_scan: "find P xs = map_option ((!) xs) (scan (\<lambda>i. P (xs ! i)) 0 (length xs))"
proof (cases "scan (\<lambda>i. P (xs ! i)) 0 (length xs)")
  case None
  then have "find P xs = None" by (auto simp: scan_None_iff find_None_iff in_set_conv_nth)
  then show ?thesis using None by simp
next
  case (Some i)
  then have "find P xs = Some (xs ! i)" by (auto simp: scan_Some_iff find_Some_iff)
  then show ?thesis using Some by simp
qed

lemma route_addr_next_hop:
  assumes "length (route_table s) = MAX_NODES" "locks b t 1 s" "running (n_kernel s) c"
  shows "\<exists>s'. route_addr a timer s = Some (Returned (next_hop (route_table s) a), s') \<and> only_kernel s s' \<and> locks b t 1 s'"
proof (cases "a = BCAST_ADDR")
  case True
  then show ?thesis using assms(2) by (auto simp: route_addr_def next_hop_def)
next
  case False
  obtain s1 where s1: "enter nl_sem 34 timer s = Some (Returned (), s1)" "only_kernel s s1" "locks b t 0 s1"
    using enter_nl [OF assms(2,3)] by blast
  obtain s2 where s2: "leave nl_sem 34 s1 = Some s2" "only_kernel s1 s2" "locks b t 1 s2"
    using leave_nl [OF s1(3) only_kernel_running [OF s1(2) assms(3)]] by blast
  let ?hit = "scan (\<lambda>i. rt_dest (route_table s ! i) = a) 0 MAX_NODES"
  have "(\<lambda>i. rt_dest (route_table s ! i) \<noteq> BCAST_ADDR \<and> rt_dest (route_table s ! i) = a) =
      (\<lambda>i. rt_dest (route_table s ! i) = a)"
    using False by auto
  moreover have "next_hop (route_table s) a =
      (case ?hit of Some i \<Rightarrow> rt_nextHop (route_table s ! i) | None \<Rightarrow> BCAST_ADDR)"
    using False assms(1) by (simp add: next_hop_def find_scan split: option.split)
  ultimately have "route_addr a timer s = Some (Returned (next_hop (route_table s) a), s2)"
    using False s1 s2 only_kernel_fields(6) [OF s1(2)] only_kernel_fields(6) [OF s2(2)]
    by (simp add: route_addr_def and_then_def cong: option.case_cong)
  then show ?thesis using s1(2) s2(2,3) only_kernel_trans by blast
qed

section \<open>Packets on the air\<close>

lemma packet_wire:
  assumes "native le en" "native le' en'" "length (pkt_data p) = MAX_NETWORK_PAYLOAD"
  shows "unpack_packet le' en' q (pack_packet le en p) = p" "length (pack_packet le en p) = SIZE_NW_PACKET"
proof -
  let ?b = "pack_NW_Packet_header True LITTLE_ENDIAN p 0 (\<lambda>_. 0)"
  let ?p = "p\<lparr>pkt_data := pkt_data q\<rparr>"
  have "buf_of (pack_packet le en p) i = ?b i" if "i < 12" for i
    using that by (simp add: buf_of_def pack_packet_def nth_append native_pack [OF assms(1)])
  then have "unpack_NW_Packet_header True LITTLE_ENDIAN q (buf_of (pack_packet le en p)) 0 =
      unpack_NW_Packet_header True LITTLE_ENDIAN q ?b 0"
    by (intro nw_header.dec_local) auto
  also have "\<dots> = ?p"
    using nw_header.dec_enc [of ?p q True LITTLE_ENDIAN 0 "\<lambda>_. 0"] by simp
  finally show "unpack_packet le' en' q (pack_packet le en p) = p"
    using assms(3) unfolding unpack_packet_def native_unpack [OF assms(2)]
    by (simp add: pack_packet_def)
  show "length (pack_packet le en p) = SIZE_NW_PACKET"
    using assms(3) by (simp add: pack_packet_def SIZE_NW_PACKET_def MAX_NETWORK_PAYLOAD_def)
qed

lemma nl_receive_packet:
  assumes "native le en" "native (host_le s) (endian s)" "length (pkt_data p) = MAX_NETWORK_PAYLOAD"
  shows "nl_receive d (pack_packet le en p) rssi timer s = handle_packet d p rssi timer (s\<lparr>pkt_rx := p\<rparr>)"
  using packet_wire [OF assms] by (simp add: nl_receive_def)

lemma buf_pack_into [simp]: "i < length xs \<Longrightarrow> buf_of (pack_into f xs) i = f 0 (buf_of xs) i"
  by (simp add: buf_of_def pack_into_def)

lemma length_pack_into [simp]: "length (pack_into f xs) = length xs"
  by (simp add: pack_into_def)

lemma routing_msg_wire:
  assumes "native le en" "native le' en'" "length (mr_rt m) = MAX_NODES" "29 \<le> length xs"
  shows "unpack_Msg_RoutingTable le' en' (buf_of (pack_into (pack_Msg_RoutingTable le en m) xs)) 0 = m"
proof -
  have "unpack_Msg_RoutingTable True LITTLE_ENDIAN (buf_of (pack_into (pack_Msg_RoutingTable le en m) xs)) 0 =
      unpack_Msg_RoutingTable True LITTLE_ENDIAN (pack_Msg_RoutingTable True LITTLE_ENDIAN m 0 (buf_of xs)) 0"
    using assms(4) by (intro routing_msg.dec_local) (simp add: native_pack [OF assms(1)])
  then show ?thesis using routing_msg.dec_enc [of m] assms(3) by (simp add: native_unpack [OF assms(2)])
qed

lemma prints_frame: "only_kernel s (prints es s)" "locks b t n (prints es s) = locks b t n s"
proof -
  show "only_kernel s (prints es s)" by (auto simp: only_kernel_def prints_def calm_def)
  show "locks b t n (prints es s) = locks b t n s" by (rule locks_cong) (simp_all add: prints_def)
qed

text \<open>
  C16: A routing table sent to a node takes effect. When a node of any byte order packs a
  table of five routes into a \<^verbatim>\<open>ROUTE_CONFIG\<close> packet for another node, and that node, with
  the mutex of its network layer free, gets the bytes from the radio, it takes over the default
  gateway and the table, and from then on \<^verbatim>\<open>route_addr\<close> returns the next hop of the first
  route for an address, and the broadcast address when there is none.
\<close>

theorem route_config_applied:
  assumes "native le en" "native (host_le s) (endian s)" "length (mr_rt m) = MAX_NODES"
    "mr_node m = NODE_ADDR s" "pkt_dest p = NODE_ADDR s" "pkt_type p = ROUTE_CONFIG"
    "pkt_data p = pack_into (pack_Msg_RoutingTable le en m) xs" "length xs = MAX_NETWORK_PAYLOAD"
    "locks b t 1 s" "running (n_kernel s) c"
  shows "\<exists>s'. nl_receive d (pack_packet le en p) rssi timer s = Some (Returned (), s') \<and>
    DEFAULT_GATEWAY s' = mr_dg m \<and> route_table s' = mr_rt m \<and>
    (\<forall>a. \<exists>s''. route_addr a timer s' = Some (Returned (next_hop (mr_rt m) a), s''))"
proof -
  let ?s = "s\<lparr>pkt_rx := p\<rparr>"
  have 0: "locks b t 1 ?s" "running (n_kernel ?s) c" using assms(9,10) locks_cong [of ?s s b t 1] by simp_all
  obtain s1 where s1: "enter nl_sem 34 timer ?s = Some (Returned (), s1)" "only_kernel ?s s1" "locks b t 0 s1"
    using enter_nl [OF 0] by blast
  define s1' where "s1' = s1\<lparr>DEFAULT_GATEWAY := mr_dg m\<rparr>"
  have r1: "locks b t 0 s1'" "running (n_kernel s1') c"
    using s1(3) only_kernel_running [OF s1(2) 0(2)] locks_cong [of s1' s1 b t 0] by (simp_all add: s1'_def)
  obtain s2 where s2: "leave nl_sem 34 s1' = Some s2" "only_kernel s1' s2" "locks b t 1 s2"
    using leave_nl [OF r1] by blast
  define s3 where "s3 = prints (Kprintf (''Received a ROUTE_CONFIG message'' @ CRLF) # route_lines m) s2"
  have s3: "only_kernel s2 s3" "locks b t 1 s3" using s2(3) by (simp_all add: s3_def prints_frame)
  have r3: "running (n_kernel s3) c"
    using only_kernel_running [OF s3(1) only_kernel_running [OF s2(2) r1(2)]] .
  obtain s4 where s4: "enter nl_sem 34 timer s3 = Some (Returned (), s4)" "only_kernel s3 s4" "locks b t 0 s4"
    using enter_nl [OF s3(2) r3] by blast
  define s4' where "s4' = (initialise_routing_table s4)\<lparr>DEFAULT_GATEWAY := mr_dg m, route_table := mr_rt m\<rparr>"
  have r4: "locks b t 0 s4'" "running (n_kernel s4') c"
    using s4(3) only_kernel_running [OF s4(2) r3] locks_cong [of s4' s4 b t 0]
    by (simp_all add: s4'_def initialise_routing_table_def)
  obtain s5 where s5: "leave nl_sem 34 s4' = Some s5" "only_kernel s4' s5" "locks b t 1 s5"
    using leave_nl [OF r4] by blast
  have node: "NODE_ADDR s3 = NODE_ADDR s"
    using only_kernel_fields(4) [OF s1(2)] only_kernel_fields(4) [OF s2(2)] only_kernel_fields(4) [OF s3(1)]
    by (simp add: s1'_def)
  have len: "length (pkt_data p) = MAX_NETWORK_PAYLOAD" using assms(7,8) by simp
  have "unpack_Msg_RoutingTable (host_le s) (endian s) (buf_of (pkt_data p)) 0 = m"
    unfolding assms(7) by (rule routing_msg_wire) (use assms in \<open>simp_all add: MAX_NETWORK_PAYLOAD_def\<close>)
  then have "process_nw_ctrl_pkt d p rssi timer ?s = set_RoutingTable m timer s3"
    using s1(1) s2(1) node assms(4,6)
    by (simp add: process_nw_ctrl_pkt_def nw_ctrl_type_def packet_kinds Let_def and_then_def s1'_def s3_def)
  moreover have "nl_receive d (pack_packet le en p) rssi timer s = process_nw_ctrl_pkt d p rssi timer ?s"
    using assms(5,6) unfolding nl_receive_packet [OF assms(1,2) len]
    by (simp add: handle_packet_def dispatch_def get_pkt_type_def packet_kinds)
  moreover have "set_RoutingTable m timer s3 = Some (Returned (), s5)"
    using s4(1) s5(1) by (simp add: set_RoutingTable_def and_then_def s4'_def)
  moreover have f: "DEFAULT_GATEWAY s5 = mr_dg m" "route_table s5 = mr_rt m"
    using only_kernel_fields(6,16) [OF s5(2)] by (simp_all add: s4'_def)
  moreover have "\<exists>s''. route_addr a timer s5 = Some (Returned (next_hop (mr_rt m) a), s'')" for a
    using route_addr_next_hop [of s5 b t c] s5(3) only_kernel_running [OF s5(2) r4(2)] f(2) assms(3) by metis
  ultimately show ?thesis by auto
qed

definition ex_table :: Msg_RoutingTable where
  "ex_table = \<lparr>mr_dg = 9, mr_node = 1, mr_rt = \<lparr>rt_dest = 4, rt_nextHop = 3, rt_cost = 1\<rparr> #
     replicate 4 \<lparr>rt_dest = BCAST_ADDR, rt_nextHop = BCAST_ADDR, rt_cost = 100\<rparr>\<rparr>"

theorem route_config_applied_witness:
  "\<forall>d. \<exists>bytes s' s''. nl_receive d bytes 0 5 (ex_net (ex_rx (\<lambda>b. EMPTY) (\<lambda>b. 0) [] []) []) = Some (Returned (), s') \<and>
    DEFAULT_GATEWAY s' = 9 \<and> route_addr 4 5 s' = Some (Returned 3, s'')"
proof
  fix d
  let ?s = "ex_net (ex_rx (\<lambda>b. EMPTY) (\<lambda>b. 0) [] []) []"
  let ?p = "ex_packet\<lparr>pkt_dest := 1, pkt_type := ROUTE_CONFIG,
    pkt_data := pack_into (pack_Msg_RoutingTable False BIG_ENDIAN ex_table) (replicate 43 0)\<rparr>"
  have "native (host_le ?s) (endian ?s)" by (simp add: ex_net_def native_both)
  moreover have "length (mr_rt ex_table) = MAX_NODES" "mr_node ex_table = NODE_ADDR ?s" "pkt_dest ?p = NODE_ADDR ?s"
      "pkt_type ?p = ROUTE_CONFIG" "length (replicate 43 (0 :: u8)) = MAX_NETWORK_PAYLOAD"
    by (simp_all add: ex_table_def ex_net_def MAX_NODES_def MAX_NETWORK_PAYLOAD_def)
  moreover have "pkt_data ?p = pack_into (pack_Msg_RoutingTable False BIG_ENDIAN ex_table) (replicate 43 0)" by simp
  ultimately obtain s' where s': "nl_receive d (pack_packet False BIG_ENDIAN ?p) 0 5 ?s = Some (Returned (), s')"
    "DEFAULT_GATEWAY s' = mr_dg ex_table"
    "\<forall>a. \<exists>s''. route_addr a 5 s' = Some (Returned (next_hop (mr_rt ex_table) a), s'')"
    using route_config_applied [OF native_both(2), of ?s ex_table ?p "replicate 43 0" 1 1 1 d 0 5]
      ex_net_locks ex_net_running by blast
  moreover have "next_hop (mr_rt ex_table) 4 = 3" "mr_dg ex_table = 9"
    by (simp_all add: next_hop_def ex_table_def BCAST_ADDR_def)
  ultimately show "\<exists>bytes s' s''. nl_receive d bytes 0 5 ?s = Some (Returned (), s') \<and>
    DEFAULT_GATEWAY s' = 9 \<and> route_addr 4 5 s' = Some (Returned 3, s'')" by metis
qed

end
