(* ===== verification/Net_SockMap.thy ===== *)
theory Net_SockMap
  imports Net_Locks
begin

text \<open>
  Which socket owns which port element and which receive buffer manager. The arrays of the
  transport layer represent an abstract assignment; each critical section of the stack changes
  it by giving a socket a free pair of elements, by taking a pair back, or not at all. This
  holds for any interleaving of critical sections with other activity of the kernel.
\<close>

section \<open>The assignment\<close>

text \<open>
  \<open>L\<close> holds the pair of elements of each socket, \<open>P\<close> the port numbers, \<open>R\<close> the port
  element of each receive buffer manager.
\<close>

definition assignment :: "(nat \<times> nat) option list \<Rightarrow> u8 list \<Rightarrow> nat option list \<Rightarrow> bool" where
  "assignment L P R \<longleftrightarrow> length L = NUM_PORTS \<and> length P = NUM_PORTS \<and> length R = NUM_PORTS \<and>
     (\<forall>n < NUM_PORTS. \<forall>p r. L ! n = Some (p, r) \<longrightarrow> p < NUM_PORTS \<and> r < NUM_PORTS \<and> P ! p \<noteq> 0 \<and> R ! r = Some p) \<and>
     (\<forall>m < NUM_PORTS. \<forall>n < NUM_PORTS. \<forall>p r p' r'. L ! m = Some (p, r) \<longrightarrow> L ! n = Some (p', r') \<longrightarrow>
        p = p' \<or> r = r' \<longrightarrow> m = n) \<and>
     (\<forall>p < NUM_PORTS. P ! p \<noteq> 0 \<longrightarrow> (\<exists>n < NUM_PORTS. \<exists>r. L ! n = Some (p, r))) \<and>
     (\<forall>r < NUM_PORTS. R ! r \<noteq> None \<longrightarrow> (\<exists>n < NUM_PORTS. \<exists>p. L ! n = Some (p, r)))"

lemma assignmentI:
  assumes "length L = NUM_PORTS" "length P = NUM_PORTS" "length R = NUM_PORTS"
    "\<And>n p r. n < NUM_PORTS \<Longrightarrow> L ! n = Some (p, r) \<Longrightarrow> p < NUM_PORTS \<and> r < NUM_PORTS \<and> P ! p \<noteq> 0 \<and> R ! r = Some p"
    "\<And>m n p r p' r'. m < NUM_PORTS \<Longrightarrow> n < NUM_PORTS \<Longrightarrow> L ! m = Some (p, r) \<Longrightarrow> L ! n = Some (p', r') \<Longrightarrow>
       p = p' \<or> r = r' \<Longrightarrow> m = n"
    "\<And>p. p < NUM_PORTS \<Longrightarrow> P ! p \<noteq> 0 \<Longrightarrow> \<exists>n < NUM_PORTS. \<exists>r. L ! n = Some (p, r)"
    "\<And>r. r < NUM_PORTS \<Longrightarrow> R ! r \<noteq> None \<Longrightarrow> \<exists>n < NUM_PORTS. \<exists>p. L ! n = Some (p, r)"
  shows "assignment L P R"
  unfolding assignment_def by (intro conjI allI impI assms(1-3)) (use assms(4-7) in blast)+

lemma assignmentD:
  assumes "assignment L P R"
  shows "length L = NUM_PORTS" "length P = NUM_PORTS" "length R = NUM_PORTS"
    "n < NUM_PORTS \<Longrightarrow> L ! n = Some (p, r) \<Longrightarrow> p < NUM_PORTS \<and> r < NUM_PORTS \<and> P ! p \<noteq> 0 \<and> R ! r = Some p"
    "m < NUM_PORTS \<Longrightarrow> n < NUM_PORTS \<Longrightarrow> L ! m = Some (p, r) \<Longrightarrow> L ! n = Some (p', r') \<Longrightarrow>
       p = p' \<or> r = r' \<Longrightarrow> m = n"
    "p < NUM_PORTS \<Longrightarrow> P ! p \<noteq> 0 \<Longrightarrow> \<exists>n < NUM_PORTS. \<exists>r. L ! n = Some (p, r)"
    "r < NUM_PORTS \<Longrightarrow> R ! r \<noteq> None \<Longrightarrow> \<exists>n < NUM_PORTS. \<exists>p. L ! n = Some (p, r)"
proof -
  note a = assms [unfolded assignment_def]
  show "length L = NUM_PORTS" "length P = NUM_PORTS" "length R = NUM_PORTS" using a by blast+
  show "n < NUM_PORTS \<Longrightarrow> L ! n = Some (p, r) \<Longrightarrow> p < NUM_PORTS \<and> r < NUM_PORTS \<and> P ! p \<noteq> 0 \<and> R ! r = Some p"
    using a [THEN conjunct2, THEN conjunct2, THEN conjunct2, THEN conjunct1] by blast
  show "m < NUM_PORTS \<Longrightarrow> n < NUM_PORTS \<Longrightarrow> L ! m = Some (p, r) \<Longrightarrow> L ! n = Some (p', r') \<Longrightarrow>
      p = p' \<or> r = r' \<Longrightarrow> m = n"
    using a [THEN conjunct2, THEN conjunct2, THEN conjunct2, THEN conjunct2, THEN conjunct1] by blast
  show "p < NUM_PORTS \<Longrightarrow> P ! p \<noteq> 0 \<Longrightarrow> \<exists>n < NUM_PORTS. \<exists>r. L ! n = Some (p, r)"
    using a [THEN conjunct2, THEN conjunct2, THEN conjunct2, THEN conjunct2, THEN conjunct2, THEN conjunct1] by blast
  show "r < NUM_PORTS \<Longrightarrow> R ! r \<noteq> None \<Longrightarrow> \<exists>n < NUM_PORTS. \<exists>p. L ! n = Some (p, r)"
    using a [THEN conjunct2, THEN conjunct2, THEN conjunct2, THEN conjunct2, THEN conjunct2, THEN conjunct2] by blast
qed

lemma assignment_link:
  assumes a: "assignment L P R" and n: "n < NUM_PORTS" "L ! n = None" and p: "p < NUM_PORTS" "P ! p = 0"
    and r: "r < NUM_PORTS" "R ! r = None" and port: "port \<noteq> 0"
  shows "assignment (L[n := Some (p, r)]) (P[p := port]) (R[r := Some p])"
proof (rule assignmentI)
  note d = assignmentD [OF a]
  have L: "L[n := Some (p, r)] ! m = (if m = n then Some (p, r) else L ! m)" if "m < NUM_PORTS" for m
    using that d(1) by (simp add: nth_list_update)
  have P: "P[p := port] ! q = (if q = p then port else P ! q)" if "q < NUM_PORTS" for q
    using that d(2) by (simp add: nth_list_update)
  have R: "R[r := Some p] ! q = (if q = r then Some p else R ! q)" if "q < NUM_PORTS" for q
    using that d(3) by (simp add: nth_list_update)
  have new: "q \<noteq> p \<and> q' \<noteq> r" if "m < NUM_PORTS" "L ! m = Some (q, q')" for m q q'
    using d(4) [OF that] p(2) r(2) by auto
  show "q < NUM_PORTS \<and> q' < NUM_PORTS \<and> P[p := port] ! q \<noteq> 0 \<and> R[r := Some p] ! q' = Some q"
    if "m < NUM_PORTS" "L[n := Some (p, r)] ! m = Some (q, q')" for m q q'
  proof (cases "m = n")
    case True
    then have "q = p" "q' = r" using that by (simp_all add: L)
    then show ?thesis using p(1) r(1) port P [OF p(1)] R [OF r(1)] by simp
  next
    case False
    then have m: "L ! m = Some (q, q')" using that by (simp add: L)
    show ?thesis using d(4) [OF that(1) m] new [OF that(1) m] by (simp add: P R)
  qed
  show "m = m'" if "m < NUM_PORTS" "m' < NUM_PORTS" "L[n := Some (p, r)] ! m = Some (q, q')"
      "L[n := Some (p, r)] ! m' = Some (u, u')" "q = u \<or> q' = u'" for m m' q q' u u'
    using that new d(5) by (cases "m = n"; cases "m' = n") (auto simp: L)
  show "\<exists>m < NUM_PORTS. \<exists>r'. L[n := Some (p, r)] ! m = Some (q, r')" if "q < NUM_PORTS" "P[p := port] ! q \<noteq> 0" for q
  proof (cases "q = p")
    case True
    then show ?thesis using n(1) L by auto
  next
    case False
    then have "P ! q \<noteq> 0" using that by (simp add: P)
    then obtain m r' where "m < NUM_PORTS" "L ! m = Some (q, r')" using d(6) \<open>q < NUM_PORTS\<close> by blast
    moreover from this n(2) have "m \<noteq> n" by auto
    ultimately show ?thesis using L by auto
  qed
  show "\<exists>m < NUM_PORTS. \<exists>p'. L[n := Some (p, r)] ! m = Some (p', q)" if "q < NUM_PORTS" "R[r := Some p] ! q \<noteq> None" for q
  proof (cases "q = r")
    case True
    then show ?thesis using n(1) L by auto
  next
    case False
    then have "R ! q \<noteq> None" using that by (simp add: R)
    then obtain m p' where "m < NUM_PORTS" "L ! m = Some (p', q)" using d(7) \<open>q < NUM_PORTS\<close> by blast
    moreover from this n(2) have "m \<noteq> n" by auto
    ultimately show ?thesis using L by auto
  qed
qed (simp_all add: assignmentD [OF a])

lemma assignment_unlink:
  assumes a: "assignment L P R" and n: "n < NUM_PORTS" "L ! n = Some (p, r)"
  shows "assignment (L[n := None]) (P[p := 0]) (R[r := None])"
proof (rule assignmentI)
  note d = assignmentD [OF a]
  have L: "L[n := None] ! m = (if m = n then None else L ! m)" if "m < NUM_PORTS" for m
    using that d(1) by (simp add: nth_list_update)
  have P: "P[p := 0] ! q = (if q = p then 0 else P ! q)" if "q < NUM_PORTS" for q
    using that d(2) by (simp add: nth_list_update)
  have R: "R[r := None] ! q = (if q = r then None else R ! q)" if "q < NUM_PORTS" for q
    using that d(3) by (simp add: nth_list_update)
  have other: "q \<noteq> p \<and> q' \<noteq> r" if "m < NUM_PORTS" "m \<noteq> n" "L ! m = Some (q, q')" for m q q'
    using d(5) [OF that(1) n(1) that(3) n(2)] that(2) by auto
  show "q < NUM_PORTS \<and> q' < NUM_PORTS \<and> P[p := 0] ! q \<noteq> 0 \<and> R[r := None] ! q' = Some q"
    if "m < NUM_PORTS" "L[n := None] ! m = Some (q, q')" for m q q'
  proof -
    have m: "m \<noteq> n" "L ! m = Some (q, q')" using that by (auto simp: L split: if_splits)
    show ?thesis using d(4) [OF that(1) m(2)] other [OF that(1) m] by (simp add: P R)
  qed
  show "m = m'" if "m < NUM_PORTS" "m' < NUM_PORTS" "L[n := None] ! m = Some (q, q')"
      "L[n := None] ! m' = Some (u, u')" "q = u \<or> q' = u'" for m m' q q' u u'
  proof -
    have "L ! m = Some (q, q')" "L ! m' = Some (u, u')" using that by (auto simp: L split: if_splits)
    then show ?thesis using d(5) that by blast
  qed
  show "\<exists>m < NUM_PORTS. \<exists>r'. L[n := None] ! m = Some (q, r')" if "q < NUM_PORTS" "P[p := 0] ! q \<noteq> 0" for q
  proof -
    have q: "q \<noteq> p" "P ! q \<noteq> 0" using that by (auto simp: P split: if_splits)
    then obtain m r' where m: "m < NUM_PORTS" "L ! m = Some (q, r')" using d(6) \<open>q < NUM_PORTS\<close> by blast
    have "m \<noteq> n" using m(2) q(1) n(2) by auto
    then show ?thesis using m L by auto
  qed
  show "\<exists>m < NUM_PORTS. \<exists>p'. L[n := None] ! m = Some (p', q)" if "q < NUM_PORTS" "R[r := None] ! q \<noteq> None" for q
  proof -
    have q: "q \<noteq> r" "R ! q \<noteq> None" using that by (auto simp: R split: if_splits)
    then obtain m p' where m: "m < NUM_PORTS" "L ! m = Some (p', q)" using d(7) \<open>q < NUM_PORTS\<close> by blast
    have "m \<noteq> n" using m(2) q(1) n(2) by auto
    then show ?thesis using m L by auto
  qed
qed (simp_all add: assignmentD [OF a])

text \<open>While a socket has no elements, there are some that no socket has.\<close>

lemma assignment_free:
  assumes "assignment L P R" "n < NUM_PORTS" "L ! n = None"
  shows "\<exists>p < NUM_PORTS. P ! p = 0" "\<exists>r < NUM_PORTS. R ! r = None"
proof -
  let ?used = "{m. m < NUM_PORTS \<and> L ! m \<noteq> None}"
  have "?used \<subseteq> {..< NUM_PORTS} - {n}" using assms(3) by auto
  then have "card ?used \<le> card ({..< NUM_PORTS} - {n})" by (intro card_mono) auto
  then have small: "card ?used < NUM_PORTS" using assms(2) by simp
  have not_all: "\<not> {..< NUM_PORTS} \<subseteq> (\<lambda>m. f (the (L ! m))) ` ?used" for f :: "nat \<times> nat \<Rightarrow> nat"
  proof
    assume "{..< NUM_PORTS} \<subseteq> (\<lambda>m. f (the (L ! m))) ` ?used"
    then have "NUM_PORTS \<le> card ((\<lambda>m. f (the (L ! m))) ` ?used)"
      using card_mono [of "(\<lambda>m. f (the (L ! m))) ` ?used" "{..< NUM_PORTS}"] by simp
    also have "\<dots> \<le> card ?used" by (intro card_image_le) simp
    finally show False using small by simp
  qed
  show "\<exists>p < NUM_PORTS. P ! p = 0"
  proof (rule ccontr)
    assume no: "\<not> (\<exists>p < NUM_PORTS. P ! p = 0)"
    have "p \<in> (\<lambda>m. fst (the (L ! m))) ` ?used" if "p < NUM_PORTS" for p
    proof -
      obtain m r where "m < NUM_PORTS" "L ! m = Some (p, r)"
        using assignmentD(6) [OF assms(1)] no \<open>p < NUM_PORTS\<close> by blast
      then show ?thesis by (intro image_eqI [of _ _ m]) auto
    qed
    then show False using not_all [of fst] by blast
  qed
  show "\<exists>r < NUM_PORTS. R ! r = None"
  proof (rule ccontr)
    assume no: "\<not> (\<exists>r < NUM_PORTS. R ! r = None)"
    have "r \<in> (\<lambda>m. snd (the (L ! m))) ` ?used" if "r < NUM_PORTS" for r
    proof -
      obtain m p where "m < NUM_PORTS" "L ! m = Some (p, r)"
        using assignmentD(7) [OF assms(1)] no \<open>r < NUM_PORTS\<close> by blast
      then show ?thesis by (intro image_eqI [of _ _ m]) auto
    qed
    then show False using not_all [of snd] by blast
  qed
qed

section \<open>The arrays\<close>

definition index_of :: "nat option \<Rightarrow> i8" where
  "index_of x = (case x of None \<Rightarrow> - 1 | Some i \<Rightarrow> of_nat i)"

definition represents :: "net \<Rightarrow> (nat \<times> nat) option list \<Rightarrow> u8 list \<Rightarrow> nat option list \<Rightarrow> bool" where
  "represents s L P R \<longleftrightarrow> map sk_pindex (sock s) = map (index_of \<circ> map_option fst) L \<and>
     map sk_rbmindex (sock s) = map (index_of \<circ> map_option snd) L \<and>
     map pno (ports (n_rx s)) = P \<and> map rbm_pindex (rx_buf_mgr (n_rx s)) = map index_of R"

definition mapping_ok :: "net \<Rightarrow> bool" where
  "mapping_ok s \<longleftrightarrow> 0 \<le> sint (num_bufs_free (n_rx s)) \<and> (\<exists>L P R. assignment L P R \<and> represents s L P R)"

lemma mapping_ok_cong:
  "\<lbrakk>map sk_pindex (sock s') = map sk_pindex (sock s); map sk_rbmindex (sock s') = map sk_rbmindex (sock s);
    same_ports (n_rx s) (n_rx s')\<rbrakk> \<Longrightarrow> mapping_ok s' = mapping_ok s"
  by (simp add: mapping_ok_def represents_def same_ports_def)

lemma sint_index: "i < NUM_PORTS \<Longrightarrow> sint (of_nat i :: i8) = int i"
  by (simp add: NUM_PORTS_def sint_of_nat_i8)

lemma index_of_eq:
  "i < NUM_PORTS \<Longrightarrow> index_of (Some i) \<noteq> - 1"
  "i < NUM_PORTS \<Longrightarrow> nat (sint (index_of (Some i))) = i"
  "i < NUM_PORTS \<Longrightarrow> sint (index_of (Some i)) = int i"
  using sint_index [of i] by (auto simp: index_of_def)

lemma representsD:
  assumes "represents s L P R" "length L = NUM_PORTS" "length R = NUM_PORTS"
  shows "length (sock s) = NUM_PORTS" "length (rx_buf_mgr (n_rx s)) = NUM_PORTS" "map pno (ports (n_rx s)) = P"
    "n < NUM_PORTS \<Longrightarrow> sk_pindex (sock s ! n) = index_of (map_option fst (L ! n))"
    "n < NUM_PORTS \<Longrightarrow> sk_rbmindex (sock s ! n) = index_of (map_option snd (L ! n))"
    "r < NUM_PORTS \<Longrightarrow> rbm_pindex (rx_buf_mgr (n_rx s) ! r) = index_of (R ! r)"
proof -
  note r = assms(1) [unfolded represents_def]
  have eqs: "map sk_pindex (sock s) = map (index_of \<circ> map_option fst) L"
    "map sk_rbmindex (sock s) = map (index_of \<circ> map_option snd) L"
    "map rbm_pindex (rx_buf_mgr (n_rx s)) = map index_of R" using r by blast+
  show len: "length (sock s) = NUM_PORTS" "length (rx_buf_mgr (n_rx s)) = NUM_PORTS"
    using map_eq_imp_length_eq [OF eqs(1)] map_eq_imp_length_eq [OF eqs(3)] assms(2,3) by simp_all
  show "map pno (ports (n_rx s)) = P" using r by blast
  show "sk_pindex (sock s ! n) = index_of (map_option fst (L ! n))" if "n < NUM_PORTS"
    using arg_cong [OF eqs(1), of "\<lambda>xs. xs ! n"] that assms(2) len by simp
  show "sk_rbmindex (sock s ! n) = index_of (map_option snd (L ! n))" if "n < NUM_PORTS"
    using arg_cong [OF eqs(2), of "\<lambda>xs. xs ! n"] that assms(2) len by simp
  show "rbm_pindex (rx_buf_mgr (n_rx s) ! r) = index_of (R ! r)" if "r < NUM_PORTS"
    using arg_cong [OF eqs(3), of "\<lambda>xs. xs ! r"] that assms(3) len by simp
qed

text \<open>What a step of the arrays does to the assignment.\<close>

lemma represents_link:
  assumes "represents s L P R" "n < NUM_PORTS" "p < NUM_PORTS" "r < NUM_PORTS"
    "map sk_pindex (sock s') = (map sk_pindex (sock s))[n := of_nat p]"
    "map sk_rbmindex (sock s') = (map sk_rbmindex (sock s))[n := of_nat r]"
    "map pno (ports (n_rx s')) = (map pno (ports (n_rx s)))[p := port]"
    "map rbm_pindex (rx_buf_mgr (n_rx s')) = (map rbm_pindex (rx_buf_mgr (n_rx s)))[r := of_nat p]"
  shows "represents s' (L[n := Some (p, r)]) (P[p := port]) (R[r := Some p])"
  using assms by (simp add: represents_def map_update index_of_def)

lemma represents_unlink:
  assumes "represents s L P R"
    "map sk_pindex (sock s') = (map sk_pindex (sock s))[n := - 1]"
    "map sk_rbmindex (sock s') = (map sk_rbmindex (sock s))[n := - 1]"
    "map pno (ports (n_rx s')) = (map pno (ports (n_rx s)))[p := 0]"
    "map rbm_pindex (rx_buf_mgr (n_rx s')) = (map rbm_pindex (rx_buf_mgr (n_rx s)))[r := - 1]"
  shows "represents s' (L[n := None]) (P[p := 0]) (R[r := None])"
  using assms by (simp add: represents_def map_update index_of_def)

section \<open>Steps that change the kernel only\<close>

lemma mapping_ok_kernel [simp]: "mapping_ok (s\<lparr>n_kernel := k\<rparr>) = mapping_ok s"
  by (rule mapping_ok_cong) simp_all

text \<open>
  \<open>within s s'\<close>: nothing the assignment is about differs, and no buffer has been given back.
\<close>

definition within :: "net \<Rightarrow> net \<Rightarrow> bool" where
  "within s s' \<longleftrightarrow> map sk_pindex (sock s') = map sk_pindex (sock s) \<and>
     map sk_rbmindex (sock s') = map sk_rbmindex (sock s) \<and> same_ports (n_rx s) (n_rx s')"

lemma within_refl [simp]: "within s s"
  by (simp add: within_def)

lemma within_kernel [simp]: "within s (s'\<lparr>n_kernel := k\<rparr>) = within s s'"
  by (simp add: within_def)

lemma within_trans: "within s s' \<Longrightarrow> within s' s'' \<Longrightarrow> within s s''"
  by (simp add: within_def same_ports_def)

lemma within_mapping: "within s s' \<Longrightarrow> mapping_ok s \<Longrightarrow> mapping_ok s'"
  using mapping_ok_cong [of s' s] by (simp add: within_def)

lemma within_free: "within s s' \<Longrightarrow> num_bufs_free (n_rx s') = num_bufs_free (n_rx s)"
  by (simp add: within_def same_ports_def)

lemma leave_within: "yields (leave sem fno s) (\<lambda>s'. \<exists>k. s' = s\<lparr>n_kernel := k\<rparr>)"
  by (auto simp: leave_def yields_def bind_eq_Some_conv)

lemma set_errno_within: "yields (set_errno e s) (\<lambda>s'. \<exists>k. s' = s\<lparr>n_kernel := k\<rparr>)"
  by (auto simp: set_errno_def yields_def bind_eq_Some_conv)

lemma leave_both_within: "yields (leave_both fno s) (\<lambda>s'. \<exists>k. s' = s\<lparr>n_kernel := k\<rparr>)"
  unfolding leave_both_def
  by (rule yields_bind [OF leave_within], rule yields_mono [OF leave_within]) auto

lemma finish_within: "yields (finish fno r s) (\<lambda>(x, s'). x = Returned r \<and> (\<exists>k. s' = s\<lparr>n_kernel := k\<rparr>))"
  unfolding finish_def by (rule yields_bind [OF leave_both_within]) auto

lemma refuse_within: "yields (refuse fno r e s) (\<lambda>(x, s'). x = Returned r \<and> (\<exists>k. s' = s\<lparr>n_kernel := k\<rparr>))"
  unfolding refuse_def
  by (rule yields_bind [OF set_errno_within], rule yields_mono [OF finish_within]) auto

text \<open>Ending a critical section keeps any \<open>Q\<close> that does not look at the kernel.\<close>

lemma finish_keeps: "(\<And>k. Q (Returned r, s\<lparr>n_kernel := k\<rparr>)) \<Longrightarrow> yields (finish fno r s) Q"
  by (rule yields_mono [OF finish_within]) auto

lemma refuse_keeps: "(\<And>k. Q (Returned r, s\<lparr>n_kernel := k\<rparr>)) \<Longrightarrow> yields (refuse fno r e s) Q"
  by (rule yields_mono [OF refuse_within]) auto

section \<open>Critical sections that keep the assignment\<close>

lemma within_upd_sock [simp]:
  assumes "\<And>k. sk_pindex (f k) = sk_pindex k" "\<And>k. sk_rbmindex (f k) = sk_rbmindex k"
  shows "within s (upd_sock n f s') = within s s'"
proof -
  have "(map g (sock s'))[nat (sint n) := g (sock s' ! nat (sint n))] = map g (sock s')" for g :: "Socket \<Rightarrow> i8"
    by (cases "nat (sint n) < length (sock s')") (metis length_map list_update_id nth_map, simp add: list_update_beyond)
  then show ?thesis by (simp add: within_def upd_sock_def map_update assms)
qed

lemma within_rx: "within s (s'\<lparr>n_rx := r\<rparr>) \<longleftrightarrow>
    map sk_pindex (sock s') = map sk_pindex (sock s) \<and> map sk_rbmindex (sock s') = map sk_rbmindex (sock s) \<and>
    same_ports (n_rx s) r"
  by (simp add: within_def)

lemma within_upd_rx: "within s (upd_rx f s') \<longleftrightarrow> within s (s'\<lparr>n_rx := f (n_rx s')\<rparr>)"
  by (simp add: upd_rx_def)

text \<open>A section of this kind, and the steps such a section is made of.\<close>

definition stays :: "net \<Rightarrow> 'r step \<Rightarrow> bool" where
  "stays s m \<longleftrightarrow> yields m (\<lambda>(r, s'). within s s')"

lemma stays_simps [simp]: "stays s (Some (r, s')) = within s s'" "stays s None"
  by (simp_all add: stays_def)

lemma stays_bind: "(\<And>x. m = Some x \<Longrightarrow> stays s (f x)) \<Longrightarrow> stays s (m \<bind> f)"
  unfolding stays_def by (rule yields_bind_any)

lemma stays_leave: "(\<And>k. stays s (f (s'\<lparr>n_kernel := k\<rparr>))) \<Longrightarrow> stays s (leave sem fno s' \<bind> f)"
  unfolding stays_def by (rule yields_bind [OF leave_within]) auto

lemma stays_leave_both: "(\<And>k. stays s (f (s'\<lparr>n_kernel := k\<rparr>))) \<Longrightarrow> stays s (leave_both fno s' \<bind> f)"
  unfolding stays_def by (rule yields_bind [OF leave_both_within]) auto

lemma stays_errno: "(\<And>k. stays s (f (s'\<lparr>n_kernel := k\<rparr>))) \<Longrightarrow> stays s (set_errno e s' \<bind> f)"
  unfolding stays_def by (rule yields_bind [OF set_errno_within]) auto

lemma stays_finish: "within s s' \<Longrightarrow> stays s (finish fno r s')"
  unfolding stays_def by (rule finish_keeps) simp

lemma stays_refuse: "within s s' \<Longrightarrow> stays s (refuse fno r e s')"
  unfolding stays_def by (rule refuse_keeps) simp

lemma stays_if: "(b \<Longrightarrow> stays s m) \<Longrightarrow> (\<not> b \<Longrightarrow> stays s n) \<Longrightarrow> stays s (if b then m else n)"
  by simp

lemmas stays_rules = stays_leave stays_leave_both stays_errno stays_finish stays_refuse stays_if

lemma same_ports_trans: "same_ports r r' \<Longrightarrow> same_ports r' r'' \<Longrightarrow> same_ports r r''"
  by (simp add: same_ports_def)

lemma stays_rx:
  assumes "yields m (same_ports (n_rx s'))" "within s s'" "\<And>r. same_ports (n_rx s') r \<Longrightarrow> stays s (f r)"
  shows "stays s (m \<bind> f)"
  using assms unfolding stays_def by (intro yields_bind [OF assms(1)]) auto

lemma check_port_available_within: "yields (check_port_available p s) (\<lambda>(r, s'). \<exists>k. s' = s\<lparr>n_kernel := k\<rparr>)"
proof (cases "port_taken (unat p) s")
  case True
  show ?thesis unfolding check_port_available_def using True
    by (auto intro!: yields_bind [OF set_errno_within])
next
  case False
  then have "check_port_available p s = Some (NRK_OK, s\<lparr>n_kernel := n_kernel s\<rparr>)"
    by (simp add: check_port_available_def)
  then show ?thesis by (auto intro: exI [of _ "n_kernel s"])
qed

lemma create_socket_stays: "stays s (create_socket_body type s)"
proof -
  have step: "yields (get_next_available_socket s) (\<lambda>(r, s'). \<exists>k. s' = s\<lparr>n_kernel := k\<rparr>)"
  proof (cases "scan (\<lambda>i. sk_pid (sock s ! i) = INVALID_PID) 0 NUM_PORTS")
    case None
    then show ?thesis unfolding get_next_available_socket_def
      by (auto intro!: yields_bind [OF set_errno_within])
  next
    case (Some i)
    then have "get_next_available_socket s = Some (of_nat i, s\<lparr>n_kernel := n_kernel s\<rparr>)"
      by (simp add: get_next_available_socket_def)
    then show ?thesis by (auto intro: exI [of _ "n_kernel s"])
  qed
  have "yields (if type = SOCK_DGRAM \<or> type = SOCK_IPC \<or> type = SOCK_RAW then do {
             (result, s) \<leftarrow> get_next_available_socket s;
             if result \<noteq> NRK_ERROR then do {
               pid \<leftarrow> nrk_get_pid (n_kernel s);
               Some (result, upd_sock result (\<lambda>k. k\<lparr>sk_pid := pid, sk_type := type\<rparr>) s)
             }
             else Some (result, s)
           }
           else do {
             s \<leftarrow> set_errno UNSUPPORTED_SOCK_TYPE s;
             Some (NRK_ERROR, s)
           }) (\<lambda>(r, s'). within s s')"
    by (intro yields_if yields_bind [OF step] yields_bind [OF set_errno_within])
       (auto intro!: yields_bind_any)
  note inner = yields_bind [OF this]
  show ?thesis
    unfolding create_socket_body_def stays_def
    by (rule yields_if, simp, rule inner) (auto intro!: yields_bind [OF leave_within])
qed

lemma is_port_associated_stays: "stays s (is_port_associated_body p s)"
  unfolding is_port_associated_body_def stays_def
  by (rule yields_bind [OF check_port_available_within]) (auto intro!: yields_bind [OF leave_within])

lemma get_rx_queue_size_stays: "stays s (get_rx_queue_size_body n s)"
  unfolding get_rx_queue_size_body_def
  by (intro stays_rules stays_bind) simp_all

lemma release_buffer_stays: "stays s (release_buffer_body n ptr s)"
  unfolding release_buffer_body_def
  by (intro stays_rules stays_bind) (auto split: option.split intro!: stays_rules simp: within_upd_rx within_rx same_ports_upd)

lemma set_timeout_stays: "stays s (set_timeout_body n sc ns s)"
  unfolding set_timeout_body_def Let_def by (intro stays_rules stays_bind) simp_all

lemma check_receive_queue_stays: "stays s (check_receive_queue_body n s)"
  unfolding check_receive_queue_body_def by (intro stays_rules stays_bind) simp_all

lemma receive_take_stays:
  assumes "within s s'"
  shows "stays s (receive_take ri s')"
  unfolding receive_take_def stays_def
proof (rule yields_bind [OF remove_rx_pq_ports], clarify)
  fix buf r assume r: "same_ports (n_rx s') r"
  show "yields (buf \<bind> (\<lambda>b. insert_rx_fq b ri FULL r \<bind> (\<lambda>r.
      finish 16 (Some \<lparr>rc_buf = b, rc_len = seg_length (rb_seg r b), rc_srcAddr = rb_srcAddr r b,
        rc_srcPort = seg_srcPort (rb_seg r b), rc_rssi = rb_rssi r b\<rparr>) (s'\<lparr>n_rx := r\<rparr>)))) (\<lambda>(r, s'). within s s')"
    by (rule yields_bind_any, rule yields_bind [OF insert_rx_fq_ports], rule finish_keeps)
       (use assms r in \<open>auto simp: within_def same_ports_def\<close>)
qed

lemma receive_woken_stays: "stays s (receive_woken timed n sigs s)"
  unfolding receive_woken_def
  by (intro stays_bind stays_rules receive_take_stays) simp_all

lemma arm_timeout_within: "yields (arm_timeout tm timer s) (\<lambda>s'. \<exists>k. s' = s\<lparr>n_kernel := k\<rparr>)"
  unfolding arm_timeout_def by (auto intro!: yields_bind_any, rule exI, rule refl)

lemma wait_for_stays: "within s s' \<Longrightarrow> stays s (wait_for signal fno timed pindex timer s')"
  unfolding wait_for_def by (intro stays_leave_both stays_bind) (auto split: prod.split)

lemma armed_within: "yields (if timed then arm_timeout tm timer s else Some s) (\<lambda>s'. within s s')"
  by (auto intro: yields_mono [OF arm_timeout_within])

lemma receive_stays: "stays s (receive_body n len_ok timer timer' s)"
  unfolding receive_body_def Let_def
  by (intro stays_if stays_refuse stays_bind receive_take_stays wait_for_stays)
     (auto dest!: yieldsD [OF armed_within])

lemma wait_until_send_done_stays: "stays s (wait_until_send_done_body n timer timer' s)"
  unfolding wait_until_send_done_body_def Let_def
  by (intro stays_if stays_refuse stays_bind wait_for_stays) (auto dest!: yieldsD [OF armed_within])

lemma send_done_woken_stays: "stays s (send_done_woken timed n sigs s)"
  unfolding send_done_woken_def by (intro stays_bind stays_rules) simp_all

lemma deliver_segment_stays: "stays s (deliver_segment p rssi s)"
  unfolding deliver_segment_def Let_def stays_def
  by (rule yields_bind [OF insert_rx_pq_ports])
     (auto intro!: yields_bind_any finish_keeps simp: within_rx)

section \<open>Giving a socket a port\<close>

lemma port_element_search:
  "yields (get_index_unassigned_port_element s) (\<lambda>(i, s'). (\<exists>k. s' = s\<lparr>n_kernel := k\<rparr>) \<and>
     (i = NRK_ERROR \<or> (\<exists>p < NUM_PORTS. i = of_nat p \<and> pno (ports (n_rx s) ! p) = 0)))"
proof (cases "scan (\<lambda>i. pno (ports (n_rx s) ! i) = INVALID_PORT) 0 NUM_PORTS")
  case None
  then show ?thesis unfolding get_index_unassigned_port_element_def
    by (auto intro!: yields_bind [OF set_errno_within])
next
  case (Some i)
  then have "get_index_unassigned_port_element s = Some (of_nat i, s\<lparr>n_kernel := n_kernel s\<rparr>)"
    by (simp add: get_index_unassigned_port_element_def)
  then show ?thesis using Some by (auto simp: scan_Some_iff INVALID_PORT_def intro: exI [of _ "n_kernel s"])
qed

lemma rbm_element_search:
  "yields (get_index_unassigned_rbm_element s) (\<lambda>(i, s'). (\<exists>k. s' = s\<lparr>n_kernel := k\<rparr>) \<and>
     (i = NRK_ERROR \<or> (\<exists>r < NUM_PORTS. i = of_nat r \<and> rbm_pindex (rx_buf_mgr (n_rx s) ! r) = - 1)))"
proof (cases "scan (\<lambda>i. rbm_pindex (rx_buf_mgr (n_rx s) ! i) = - 1) 0 NUM_PORTS")
  case None
  then show ?thesis unfolding get_index_unassigned_rbm_element_def
    by (auto intro!: yields_bind [OF set_errno_within])
next
  case (Some i)
  then have "get_index_unassigned_rbm_element s = Some (of_nat i, s\<lparr>n_kernel := n_kernel s\<rparr>)"
    by (simp add: get_index_unassigned_rbm_element_def)
  then show ?thesis using Some by (auto simp: scan_Some_iff intro: exI [of _ "n_kernel s"])
qed

text \<open>The arrays of \<open>s'\<close> are those of \<open>s\<close> with \<open>n\<close>, \<open>p\<close> and \<open>r\<close> linked through port number
  \<open>port\<close>.\<close>

definition linked :: "net \<Rightarrow> nat \<Rightarrow> nat \<Rightarrow> nat \<Rightarrow> u8 \<Rightarrow> net \<Rightarrow> bool" where
  "linked s n p r port s' \<longleftrightarrow>
     map sk_pindex (sock s') = (map sk_pindex (sock s))[n := of_nat p] \<and>
     map sk_rbmindex (sock s') = (map sk_rbmindex (sock s))[n := of_nat r] \<and>
     map pno (ports (n_rx s')) = (map pno (ports (n_rx s)))[p := port] \<and>
     map rbm_pindex (rx_buf_mgr (n_rx s')) = (map rbm_pindex (rx_buf_mgr (n_rx s)))[r := of_nat p]"

lemma assign_port_arrays:
  "yields (assign_port i port s) (\<lambda>s'. sock s' = sock s \<and> rx_buf_mgr (n_rx s') = rx_buf_mgr (n_rx s) \<and>
     num_bufs_free (n_rx s') = num_bufs_free (n_rx s) \<and>
     map pno (ports (n_rx s')) = (map pno (ports (n_rx s)))[nat (sint i) := port])"
proof (cases "assign_port i port s")
  case (Some s')
  then obtain a d k k' p where "at (ports (n_rx s)) (sint i) = Some p"
    "s' = s\<lparr>n_rx := (n_rx s)\<lparr>ports := (ports (n_rx s))[nat (sint i) :=
        p\<lparr>pno := port, send_done_signal := a, data_arrived_signal := d\<rparr>]\<rparr>, n_kernel := k\<rparr>"
    by (auto simp: assign_port_def upd_port_def bind_eq_Some_conv split: prod.splits if_splits)
  then show ?thesis using Some by (simp add: map_update)
qed simp

lemma map_socket_linked:
  assumes "\<not> bad_sock_num n" "p < NUM_PORTS" "r < NUM_PORTS"
  shows "yields (map_socket n (of_nat p) (of_nat r) port s) (\<lambda>s'.
    linked s (nat (sint n)) p r port s' \<and> num_bufs_free (n_rx s') = num_bufs_free (n_rx s))"
proof -
  have i: "nat (sint (of_nat p :: i8)) = p" "nat (sint (of_nat r :: i8)) = r"
    using assms(2,3) by (simp_all add: sint_index)
  show ?thesis
    unfolding map_socket_def Let_def
    by (rule yields_bind [OF assign_port_arrays], intro yields_bind_any)
       (auto simp: linked_def upd_sock_def upd_rx_def upd_rbm_def map_update Let_def i intro!: yields_bind_any)
qed

lemma insert_rx_fq_free: "yields (insert_rx_fq b ri st r) (\<lambda>r'. num_bufs_free r' = num_bufs_free r)"
  using insert_rx_fq_ports by (rule yields_mono) (simp add: same_ports_def)

lemma same_ports_count:
  assumes "same_ports r r'"
  shows "map rbm_pindex (rx_buf_mgr (upd_rbm ri (\<lambda>m. m\<lparr>countTotal := countTotal m + 1\<rparr>) r')) =
      map rbm_pindex (rx_buf_mgr r) \<and>
    ports (upd_rbm ri (\<lambda>m. m\<lparr>countTotal := countTotal m + 1\<rparr>) r') = ports r \<and>
    num_bufs_free (upd_rbm ri (\<lambda>m. m\<lparr>countTotal := countTotal m + 1\<rparr>) r') = num_bufs_free r"
proof -
  have "same_ports r (upd_rbm ri (\<lambda>m. m\<lparr>countTotal := countTotal m + 1\<rparr>) r')"
    using assms by (simp add: same_ports_upd)
  then show ?thesis by (simp add: same_ports_def)
qed

text \<open>\<open>c\<close> buffers have been allocated.\<close>

definition took :: "nat \<Rightarrow> rx_state \<Rightarrow> rx_state \<Rightarrow> bool" where
  "took c r r' \<longleftrightarrow> map rbm_pindex (rx_buf_mgr r') = map rbm_pindex (rx_buf_mgr r) \<and>
     ports r' = ports r \<and> num_bufs_free r' = num_bufs_free r - of_nat c"

lemma alloc_bufs_took: "yields (alloc_bufs c ri r) (took c r)"
  unfolding took_def
proof (induction c arbitrary: r)
  case (Suc c)
  have step: "yields (alloc_bufs c ri (r''\<lparr>num_bufs_free := num_bufs_free r'' - 1\<rparr>)) (\<lambda>r'.
      map rbm_pindex (rx_buf_mgr r') = map rbm_pindex (rx_buf_mgr r) \<and> ports r' = ports r \<and>
      num_bufs_free r' = num_bufs_free r - of_nat (Suc c))"
    if "map rbm_pindex (rx_buf_mgr r'') = map rbm_pindex (rx_buf_mgr r) \<and> ports r'' = ports r \<and>
      num_bufs_free r'' = num_bufs_free r" for r''
    by (rule yields_mono [OF Suc.IH]) (use that in simp)
  show ?case
    unfolding alloc_bufs.simps Let_def
    by (rule yields_if, simp, rule yields_bind [OF insert_rx_fq_ports], rule step, rule same_ports_count)
qed simp

text \<open>Linking a socket without elements keeps the assignment.\<close>

lemma linked_mapping:
  assumes "mapping_ok s" "linked s n p r port s'" "n < NUM_PORTS" "sk_pindex (sock s ! n) = - 1"
    "p < NUM_PORTS" "pno (ports (n_rx s) ! p) = 0" "r < NUM_PORTS" "rbm_pindex (rx_buf_mgr (n_rx s) ! r) = - 1"
    "port \<noteq> 0" "0 \<le> sint (num_bufs_free (n_rx s'))"
  shows "mapping_ok s'"
proof -
  obtain L P R where a: "assignment L P R" "represents s L P R" using assms(1) by (auto simp: mapping_ok_def)
  note len = assignmentD(1-3) [OF a(1)]
  note rep = representsD [OF a(2) len(1,3)]
  have "L ! n = None"
  proof (cases "L ! n")
    case (Some x)
    obtain q q' where x: "x = (q, q')" by (cases x)
    then have "q < NUM_PORTS" using assignmentD(4) [OF a(1) assms(3)] Some by blast
    from index_of_eq(1) [OF this] show ?thesis using rep(4) [OF assms(3)] assms(4) Some x
      by (metis fst_conv option.map(2))
  qed
  moreover have "P ! p = 0"
    using rep(3) assms(5,6) len(2) by (metis length_map nth_map)
  moreover have "R ! r = None"
  proof (cases "R ! r")
    case (Some q)
    then have "R ! r \<noteq> None" by simp
    then obtain m q' where m: "m < NUM_PORTS" "L ! m = Some (q', r)"
      using assignmentD(7) [OF a(1) assms(7)] by blast
    then have "q < NUM_PORTS" using assignmentD(4) [OF a(1) m] Some by simp
    from index_of_eq(1) [OF this] show ?thesis using rep(6) [OF assms(7)] assms(8) Some by metis
  qed
  ultimately have "assignment (L[n := Some (p, r)]) (P[p := port]) (R[r := Some p])"
    using assignment_link [OF a(1) assms(3) _ assms(5) _ assms(7) _ assms(9)] by blast
  moreover have "represents s' (L[n := Some (p, r)]) (P[p := port]) (R[r := Some p])"
    using represents_link [OF a(2) assms(3,5,7)] assms(2) by (simp add: linked_def)
  ultimately show ?thesis using assms(10) by (auto simp: mapping_ok_def)
qed

end
