(* ===== verification/Net_SockRun.thy ===== *)
theory Net_SockRun
  imports Net_SockMap
begin

text \<open>
  Runs of the socket interface: which critical sections link and unlink elements, the stack as
  a transition system, and what holds in all its reachable states.
\<close>

section \<open>Free ports\<close>

lemma get_next_available_port_within:
  "yields (get_next_available_port s) (\<lambda>(p, s'). \<exists>k. s' = s\<lparr>n_kernel := k\<rparr>)"
proof (cases "scan (\<lambda>p. \<not> port_taken p s) EPHEMERAL_PORT_NUM_START (Suc MAX_PORT_NUM)")
  case None
  then show ?thesis unfolding get_next_available_port_def
    by (auto intro!: yields_bind [OF set_errno_within])
next
  case (Some p)
  then have "get_next_available_port s = Some (of_nat p, s\<lparr>n_kernel := n_kernel s\<rparr>)"
    by (simp add: get_next_available_port_def)
  then show ?thesis by (auto intro: exI [of _ "n_kernel s"])
qed

lemma port_taken_iff:
  assumes "length (ports (n_rx s)) = NUM_PORTS"
  shows "port_taken p s \<longleftrightarrow> p \<in> (\<lambda>q. unat (pno q)) ` set (ports (n_rx s))"
  using assms by (auto simp: port_taken_def scan_None_iff set_conv_nth)

lemma some_port_free:
  assumes "length (ports (n_rx s)) = NUM_PORTS"
  shows "\<exists>p. EPHEMERAL_PORT_NUM_START \<le> p \<and> p \<le> MAX_PORT_NUM \<and> \<not> port_taken p s"
proof (rule ccontr)
  assume "\<not> ?thesis"
  then have "{EPHEMERAL_PORT_NUM_START .. MAX_PORT_NUM} \<subseteq> (\<lambda>q. unat (pno q)) ` set (ports (n_rx s))"
    by (auto simp: port_taken_iff [OF assms])
  then have "card {EPHEMERAL_PORT_NUM_START .. MAX_PORT_NUM} \<le> card ((\<lambda>q. unat (pno q)) ` set (ports (n_rx s)))"
    by (intro card_mono) simp_all
  also have "\<dots> \<le> length (ports (n_rx s))" using card_image_le card_length le_trans by blast
  finally show False using assms by (simp add: EPHEMERAL_PORT_NUM_START_def MAX_PORT_NUM_def NUM_PORTS_def)
qed

lemma get_next_available_port_least:
  assumes "length (ports (n_rx s)) = NUM_PORTS"
  shows "\<exists>p. get_next_available_port s = Some (of_nat p, s) \<and> EPHEMERAL_PORT_NUM_START \<le> p \<and>
    p \<le> MAX_PORT_NUM \<and> \<not> port_taken p s \<and>
    (\<forall>q. EPHEMERAL_PORT_NUM_START \<le> q \<longrightarrow> q < p \<longrightarrow> port_taken q s)"
proof (cases "scan (\<lambda>p. \<not> port_taken p s) EPHEMERAL_PORT_NUM_START (Suc MAX_PORT_NUM)")
  case None
  then show ?thesis using some_port_free [OF assms] by (force simp: scan_None_iff)
next
  case (Some p)
  then have "EPHEMERAL_PORT_NUM_START \<le> p" "p < Suc MAX_PORT_NUM" "\<not> port_taken p s"
    "\<forall>q. EPHEMERAL_PORT_NUM_START \<le> q \<longrightarrow> q < p \<longrightarrow> \<not> \<not> port_taken q s"
    unfolding scan_Some_iff by blast+
  then show ?thesis using Some by (intro exI [of _ p]) (simp add: get_next_available_port_def)
qed

section \<open>Closing a socket\<close>

lemma drain_queue_ports:
  assumes "\<And>r. yields (f r) (\<lambda>(b, r'). same_ports r r')"
  shows "yields (drain_queue f r) (same_ports r)"
proof -
  have "same_ports r r'" if "drain_queue f r = Some r'" for r'
  proof (rule drain_queue.raw_induct [of "\<lambda>f r r'. (\<forall>r. yields (f r) (\<lambda>(b, r'). same_ports r r')) \<longrightarrow> same_ports r r'",
        OF _ that, THEN mp])
    fix g f r r'
    assume IH: "\<And>f r r'. g f r = Some r' \<Longrightarrow> (\<forall>r. yields (f r) (\<lambda>(b, r'). same_ports r r')) \<longrightarrow> same_ports r r'"
      and step: "(do { (b, r) \<leftarrow> f r;
           if b = None then Some r else g f (r\<lparr>rb_status := (rb_status r)(the b := UNALLOCATED)\<rparr>) }) = Some r'"
    show "(\<forall>r. yields (f r) (\<lambda>(b, r'). same_ports r r')) \<longrightarrow> same_ports r r'"
    proof
      assume f: "\<forall>r. yields (f r) (\<lambda>(b, r'). same_ports r r')"
      obtain b r1 where r1: "f r = Some (b, r1)" using step by (cases "f r") auto
      have s1: "same_ports r r1" using f r1 by (metis case_prodD yieldsD)
      show "same_ports r r'"
      proof (cases b)
        case None
        then show ?thesis using step r1 s1 by simp
      next
        case (Some i)
        then have "g f (r1\<lparr>rb_status := (rb_status r1)(i := UNALLOCATED)\<rparr>) = Some r'" using step r1 by simp
        from IH [OF this] f have "same_ports (r1\<lparr>rb_status := (rb_status r1)(i := UNALLOCATED)\<rparr>) r'" by blast
        then show ?thesis using s1 by (simp add: same_ports_def)
      qed
    qed
  qed (use assms in blast)
  then show ?thesis by (simp add: yields_def)
qed

text \<open>Clearing the elements of the socket \<open>n\<close>.\<close>

definition unlinked :: "net \<Rightarrow> nat \<Rightarrow> i8 \<Rightarrow> i8 \<Rightarrow> net \<Rightarrow> bool" where
  "unlinked s n pi ri s' \<longleftrightarrow>
     map sk_pindex (sock s') = (map sk_pindex (sock s))[n := - 1] \<and>
     map sk_rbmindex (sock s') = (map sk_rbmindex (sock s))[n := - 1] \<and>
     map pno (ports (n_rx s')) = (map pno (ports (n_rx s)))[nat (sint pi) := 0] \<and>
     map rbm_pindex (rx_buf_mgr (n_rx s')) = (map rbm_pindex (rx_buf_mgr (n_rx s)))[nat (sint ri) := - 1] \<and>
     num_bufs_free (n_rx s') = num_bufs_free (n_rx s)"

lemma release_port_arrays:
  "yields (release_port i s) (\<lambda>s'. sock s' = sock s \<and> rx_buf_mgr (n_rx s') = rx_buf_mgr (n_rx s) \<and>
     num_bufs_free (n_rx s') = num_bufs_free (n_rx s) \<and>
     map pno (ports (n_rx s')) = (map pno (ports (n_rx s)))[nat (sint i) := 0])"
  unfolding release_port_def upd_port_def
  by (auto simp: yields_def bind_eq_Some_conv map_update INVALID_PORT_def split: prod.splits if_splits)

lemma unlinked_mapping:
  assumes "mapping_ok s" "n < NUM_PORTS" "sk_pindex (sock s ! n) \<noteq> - 1"
    "unlinked s n (sk_pindex (sock s ! n)) (sk_rbmindex (sock s ! n)) s'"
  shows "mapping_ok s'"
proof -
  obtain L P R where a: "assignment L P R" "represents s L P R" using assms(1) by (auto simp: mapping_ok_def)
  note rep = representsD [OF a(2) assignmentD(1,3) [OF a(1)]]
  obtain p r where L: "L ! n = Some (p, r)"
    using assms(3) rep(4) [OF assms(2)] by (cases "L ! n") (auto simp: index_of_def)
  then have lt: "p < NUM_PORTS" "r < NUM_PORTS" using assignmentD(4) [OF a(1) assms(2)] by blast+
  have "nat (sint (sk_pindex (sock s ! n))) = p" "nat (sint (sk_rbmindex (sock s ! n))) = r"
    using rep(4,5) [OF assms(2)] L index_of_eq(2) lt by simp_all
  then have "represents s' (L[n := None]) (P[p := 0]) (R[r := None])"
    using represents_unlink [OF a(2)] assms(4) by (simp add: unlinked_def)
  then show ?thesis using assignment_unlink [OF a(1) assms(2) L] assms(1,4)
    by (auto simp: mapping_ok_def unlinked_def)
qed

text \<open>What every section keeps; \<open>c\<close> buffers at least have been allocated.\<close>

definition kept :: "nat \<Rightarrow> net \<Rightarrow> net \<Rightarrow> bool" where
  "kept c s s' \<longleftrightarrow> (mapping_ok s \<longrightarrow>
     mapping_ok s' \<and> sint (num_bufs_free (n_rx s')) + int c \<le> sint (num_bufs_free (n_rx s)))"

lemma within_kept: "within s s' \<Longrightarrow> kept 0 s s'"
  using within_mapping within_free by (auto simp: kept_def)

lemma stays_kept: "stays s m \<Longrightarrow> yields m (\<lambda>(r, s'). kept 0 s s')"
  unfolding stays_def by (erule yields_mono) (auto intro: within_kept)

lemma kept_kernel [simp]: "kept c s (s'\<lparr>n_kernel := k\<rparr>) = kept c s s'"
  by (simp add: kept_def)

lemma kept_trans: "kept c s s' \<Longrightarrow> kept d s' s'' \<Longrightarrow> kept (c + d) s s''"
  by (auto simp: kept_def)

lemma kept_less: "kept c s s' \<Longrightarrow> kept 0 s s'"
  by (auto simp: kept_def)

lemma sock_num_range: "\<not> bad_sock_num n \<Longrightarrow> nat (sint n) < NUM_PORTS"
  by (auto simp: bad_sock_num_def)

text \<open>The part of \<^verbatim>\<open>close_socket\<close> for a socket with elements.\<close>

lemma close_elements:
  "yields (do {
       r \<leftarrow> drain_queue (remove_rx_pq ri) (n_rx s);
       r \<leftarrow> drain_queue (remove_rx_fq ri EMPTY) r;
       r \<leftarrow> drain_queue (remove_rx_fq ri FULL) r;
       release_port pi (s\<lparr>n_rx := upd_rbm ri (\<lambda>m. m\<lparr>rbm_pid := INVALID_PID, rbm_pindex := - 1,
         countTotal := 0, countFree := 0\<rparr>) r\<rparr>)
     })
   (\<lambda>s'. sock s' = sock s \<and>
     map pno (ports (n_rx s')) = (map pno (ports (n_rx s)))[nat (sint pi) := 0] \<and>
     map rbm_pindex (rx_buf_mgr (n_rx s')) = (map rbm_pindex (rx_buf_mgr (n_rx s)))[nat (sint ri) := - 1] \<and>
     num_bufs_free (n_rx s') = num_bufs_free (n_rx s))"
proof (rule yields_bind [OF drain_queue_ports [OF remove_rx_pq_ports]],
    rule yields_bind [OF drain_queue_ports [OF remove_rx_fq_ports]],
    rule yields_bind [OF drain_queue_ports [OF remove_rx_fq_ports]],
    rule yields_mono [OF release_port_arrays])
qed (auto simp: same_ports_def upd_rbm_def map_update)

lemma close_step_kept:
  assumes n: "\<not> bad_sock_num n" and at_k: "at (sock s) (sint n) = Some k"
    and s1: "(if sk_pindex k \<noteq> - 1 then if sk_rbmindex k = - 1 then None
        else do {
          r \<leftarrow> drain_queue (remove_rx_pq (sk_rbmindex k)) (n_rx s);
          r \<leftarrow> drain_queue (remove_rx_fq (sk_rbmindex k) EMPTY) r;
          r \<leftarrow> drain_queue (remove_rx_fq (sk_rbmindex k) FULL) r;
          release_port (sk_pindex k) (s\<lparr>n_rx := upd_rbm (sk_rbmindex k) (\<lambda>m. m\<lparr>rbm_pid := INVALID_PID,
            rbm_pindex := - 1, countTotal := 0, countFree := 0\<rparr>) r\<rparr>)
        } else Some s) = Some s1"
  shows "kept 0 s (upd_sock n (\<lambda>k. k\<lparr>sk_pindex := - 1, sk_rbmindex := - 1, sk_pid := INVALID_PID,
    sk_timeout := no_time\<rparr>) s1)" (is "kept 0 s ?s")
proof -
  from at_k have sk: "sock s ! nat (sint n) = k" by (simp add: at_Some_iff)
  show ?thesis
  proof (cases "sk_pindex k = - 1")
    case True
    then have s1: "s1 = s" using s1 by simp
    have "within s ?s" if "mapping_ok s"
    proof -
      obtain L P R where a: "assignment L P R" "represents s L P R" using \<open>mapping_ok s\<close> by (auto simp: mapping_ok_def)
      note rep = representsD [OF a(2) assignmentD(1,3) [OF a(1)]] 
      note nn = sock_num_range [OF n]
      have "index_of (map_option fst (L ! nat (sint n))) = - 1" using rep(4) [OF nn] True sk by simp
      then have "L ! nat (sint n) = None"
        using assignmentD(4) [OF a(1) nn] index_of_eq(1) by (cases "L ! nat (sint n)") force+
      then have rb: "sk_rbmindex k = - 1" using rep(5) [OF nn] sk by (simp add: index_of_def)
      have "(map g (sock s))[nat (sint n) := - 1] = map g (sock s)" if "g k = - 1" for g :: "Socket \<Rightarrow> i8"
        using that sk nn rep(1) by (metis list_update_id nth_map)
      then show ?thesis using True rb s1 by (simp add: within_def upd_sock_def map_update)
    qed
    then show ?thesis using within_kept by (auto simp: kept_def)
  next
    case False
    then have "unlinked s (nat (sint n)) (sk_pindex k) (sk_rbmindex k) ?s"
      using s1 yieldsD [OF close_elements [of "sk_rbmindex k" s "sk_pindex k"], of s1]
      by (simp add: unlinked_def upd_sock_def map_update split: if_splits)
    then show ?thesis using unlinked_mapping [OF _ sock_num_range [OF n]] False sk
      by (auto simp: kept_def unlinked_def)
  qed
qed

lemma close_socket_kept: "yields (close_socket_body n s) (\<lambda>(r, s'). kept 0 s s')"
  unfolding close_socket_body_def Let_def
  by (intro yields_if yields_bind_any refuse_keeps finish_keeps) (auto simp: within_kept intro: close_step_kept)

section \<open>Binding a socket\<close>

lemma elements_found:
  assumes "\<And>k pi ri. (pi \<noteq> NRK_ERROR \<Longrightarrow> \<exists>p < NUM_PORTS. pi = of_nat p \<and> pno (ports (n_rx s) ! p) = 0) \<Longrightarrow>
      (ri \<noteq> NRK_ERROR \<Longrightarrow> \<exists>r < NUM_PORTS. ri = of_nat r \<and> rbm_pindex (rx_buf_mgr (n_rx s) ! r) = - 1) \<Longrightarrow>
      yields (g pi ri (s\<lparr>n_kernel := k\<rparr>)) Q"
  shows "yields (do {
      (pi, s) \<leftarrow> get_index_unassigned_port_element s;
      (ri, s) \<leftarrow> get_index_unassigned_rbm_element s;
      g pi ri s
    }) Q"
  by (rule yields_bind [OF port_element_search], clarify,
      rule yields_bind [OF rbm_element_search], clarify, simp, rule assms) auto

lemma linked_kernel [simp]: "linked (s\<lparr>n_kernel := k\<rparr>) n p r port s' = linked s n p r port s'"
  by (simp add: linked_def)

lemma sint_sub_of_nat:
  assumes "int c \<le> sint (w :: i8)"
  shows "sint (w - of_nat c) = sint w - int c"
proof -
  have w: "w - of_nat c = word_of_int (sint w - int c)" by simp
  have "- 128 \<le> sint w - int c" "sint w - int c < 128"
    using assms sint_lt [of w] by simp_all
  then show ?thesis unfolding w by (simp add: sint_sbintrunc' signed_take_bit_int_eq_self del: of_int_diff)
qed

lemma fill_kept:
  assumes "linked s n p r port s1" "num_bufs_free (n_rx s1) = num_bufs_free (n_rx s)"
    "n < NUM_PORTS" "sk_pindex (sock s ! n) = - 1" "p < NUM_PORTS" "pno (ports (n_rx s) ! p) = 0"
    "r < NUM_PORTS" "rbm_pindex (rx_buf_mgr (n_rx s) ! r) = - 1" "port \<noteq> 0"
    "int c \<le> sint (num_bufs_free (n_rx s))"
    and r': "took c (n_rx s1) r'"
  shows "kept c s (s1\<lparr>n_rx := r'\<rparr>)"
proof -
  have l: "linked s n p r port (s1\<lparr>n_rx := r'\<rparr>)" using assms(1) r' by (simp add: linked_def took_def)
  have "sint (num_bufs_free r') = sint (num_bufs_free (n_rx s)) - int c"
    using r' assms(2) sint_sub_of_nat [OF assms(10)] by (simp add: took_def)
  then show ?thesis
    using linked_mapping [OF _ l assms(3-9)] assms(10) by (simp add: kept_def)
qed

text \<open>From the elements to the end of the call, for \<^verbatim>\<open>bind\<close> and \<^verbatim>\<open>set_rx_queue_size\<close>.\<close>

lemma map_and_fill:
  assumes n: "\<not> bad_sock_num n" "at (sock s) (sint n) = Some k" "sk_pindex k = - 1"
    and pi: "\<exists>p < NUM_PORTS. pi = of_nat p \<and> pno (ports (n_rx s) ! p) = 0"
    and ri: "\<exists>r < NUM_PORTS. ri = of_nat r \<and> rbm_pindex (rx_buf_mgr (n_rx s) ! r) = - 1"
    and port: "port \<noteq> 0"
    and f: "\<And>s1. num_bufs_free (n_rx s1) = num_bufs_free (n_rx s) \<Longrightarrow>
      (\<And>c r'. int c \<le> sint (num_bufs_free (n_rx s)) \<Longrightarrow> took c (n_rx s1) r' \<Longrightarrow>
        kept c s (s1\<lparr>n_rx := r'\<rparr>)) \<Longrightarrow> yields (f s1) Q"
  shows "yields (map_socket n pi ri port (s\<lparr>n_kernel := k'\<rparr>) \<bind> f) Q"
proof -
  obtain p where p: "p < NUM_PORTS" "pi = of_nat p" "pno (ports (n_rx s) ! p) = 0" using pi by blast
  obtain r where r: "r < NUM_PORTS" "ri = of_nat r" "rbm_pindex (rx_buf_mgr (n_rx s) ! r) = - 1" using ri by blast
  have k: "sk_pindex (sock s ! nat (sint n)) = - 1" using n(2,3) by (simp add: at_Some_iff)
  show ?thesis
    unfolding p(2) r(2)
  proof (rule yields_bind [OF map_socket_linked [OF n(1) p(1) r(1)]], elim conjE)
    fix s1
    assume "linked (s\<lparr>n_kernel := k'\<rparr>) (nat (sint n)) p r port s1"
      and free: "num_bufs_free (n_rx s1) = num_bufs_free (n_rx (s\<lparr>n_kernel := k'\<rparr>))"
    then have l: "linked s (nat (sint n)) p r port s1" "num_bufs_free (n_rx s1) = num_bufs_free (n_rx s)"
      by simp_all
    show "yields (f s1) Q"
      by (rule f [OF l(2)], rule fill_kept [OF l sock_num_range [OF n(1)] k p(1,3) r(1,3) port])
  qed
qed

lemma refuse_kept: "within s s1 \<Longrightarrow> r \<noteq> NRK_OK \<Longrightarrow>
    yields (refuse fno r e s1) (\<lambda>(x, s'). kept (if x = Returned NRK_OK then 1 else 0) s s')"
  by (rule refuse_keeps) (simp add: within_kept)

lemma finish_kept: "within s s1 \<Longrightarrow> r \<noteq> NRK_OK \<Longrightarrow>
    yields (finish fno r s1) (\<lambda>(x, s'). kept (if x = Returned NRK_OK then 1 else 0) s s')"
  by (rule finish_keeps) (simp add: within_kept)

lemma ucast_port:
  assumes "0 < sint (port :: i16)" "sint port \<le> int MAX_PORT_NUM"
  shows "(ucast port :: u8) \<noteq> 0"
proof
  assume "(ucast port :: u8) = 0"
  then have "uint (ucast port :: u8) = 0" by simp
  then have "take_bit 8 (uint port) = 0" by (simp add: unsigned_ucast_eq)
  moreover have "uint port = sint port" using assms by (simp add: uint_sint take_bit_int_eq_self MAX_PORT_NUM_def)
  ultimately show False using assms by (simp add: MAX_PORT_NUM_def take_bit_int_eq_self)
qed

text \<open>The part of \<^verbatim>\<open>bind\<close> after the checks.\<close>

lemma bind_tail_kept:
  assumes n: "\<not> bad_sock_num n" "at (sock s) (sint n) = Some k" "sk_pindex k = - 1" and port: "port \<noteq> 0"
    and free: "1 \<le> sint (num_bufs_free (n_rx s))"
  shows "yields (do {
      (pi, s) \<leftarrow> get_index_unassigned_port_element (s\<lparr>n_kernel := k'\<rparr>);
      (ri, s) \<leftarrow> get_index_unassigned_rbm_element s;
      if pi = NRK_ERROR \<or> ri = NRK_ERROR then None
      else do {
        s \<leftarrow> map_socket n pi ri port s;
        r \<leftarrow> alloc_bufs (nat (sint DEFAULT_RX_QUEUE_SIZE)) ri (n_rx s);
        finish 8 NRK_OK (s\<lparr>n_rx := r\<rparr>)
      }
    }) (\<lambda>(x, s'). kept (if x = Returned NRK_OK then 1 else 0) s s')"
proof (rule elements_found, rule yields_if)
  fix k'' pi ri
  assume pi: "pi \<noteq> NRK_ERROR \<Longrightarrow> \<exists>p < NUM_PORTS. pi = of_nat p \<and> pno (ports (n_rx (s\<lparr>n_kernel := k'\<rparr>)) ! p) = 0"
    and ri: "ri \<noteq> NRK_ERROR \<Longrightarrow> \<exists>r < NUM_PORTS. ri = of_nat r \<and> rbm_pindex (rx_buf_mgr (n_rx (s\<lparr>n_kernel := k'\<rparr>)) ! r) = - 1"
    and ok: "\<not> (pi = NRK_ERROR \<or> ri = NRK_ERROR)"
  have "yields (map_socket n pi ri port (s\<lparr>n_kernel := k''\<rparr>) \<bind> (\<lambda>s.
      alloc_bufs (nat (sint DEFAULT_RX_QUEUE_SIZE)) ri (n_rx s) \<bind> (\<lambda>r. finish 8 NRK_OK (s\<lparr>n_rx := r\<rparr>))))
    (\<lambda>(x, s'). kept (if x = Returned NRK_OK then 1 else 0) s s')"
  proof (rule map_and_fill [OF n _ _ port])
    fix s1
    assume fill: "\<And>c r'. int c \<le> sint (num_bufs_free (n_rx s)) \<Longrightarrow> took c (n_rx s1) r' \<Longrightarrow>
        kept c s (s1\<lparr>n_rx := r'\<rparr>)"
    have one: "nat (sint DEFAULT_RX_QUEUE_SIZE) = 1" by (simp add: DEFAULT_RX_QUEUE_SIZE_def)
    show "yields (alloc_bufs (nat (sint DEFAULT_RX_QUEUE_SIZE)) ri (n_rx s1) \<bind> (\<lambda>r. finish 8 NRK_OK (s1\<lparr>n_rx := r\<rparr>)))
        (\<lambda>(x, s'). kept (if x = Returned NRK_OK then 1 else 0) s s')"
      unfolding one by (rule yields_bind [OF alloc_bufs_took]) (use free fill [of 1] in \<open>auto intro!: finish_keeps\<close>)
  qed (use pi ri ok in simp_all)
  then show "yields (map_socket n pi ri port (s\<lparr>n_kernel := k', n_kernel := k''\<rparr>) \<bind> (\<lambda>s.
      alloc_bufs (nat (sint DEFAULT_RX_QUEUE_SIZE)) ri (n_rx s) \<bind> (\<lambda>r. finish 8 NRK_OK (s\<lparr>n_rx := r\<rparr>))))
    (\<lambda>(x, s'). kept (if x = Returned NRK_OK then 1 else 0) s s')" by simp
qed simp_all

lemma after_check_port:
  "(\<And>r k. yields (f r (s\<lparr>n_kernel := k\<rparr>)) Q) \<Longrightarrow> yields (check_port_available p s \<bind> (\<lambda>(r, s). f r s)) Q"
  by (rule yields_bind [OF check_port_available_within]) auto

lemma bind_body_kept:
  "yields (bind_body n port s) (\<lambda>(x, s'). kept (if x = Returned NRK_OK then 1 else 0) s s')"
  unfolding bind_body_def
  by (rule yields_if, simp, rule yields_if, rule refuse_kept, simp, simp,
      rule yields_if, rule refuse_kept, simp, simp, rule yields_bind_any, rule yields_bind_any,
      rule yields_if, rule refuse_kept, simp, simp, rule yields_if, rule refuse_kept, simp, simp,
      rule after_check_port,
      rule yields_if, rule finish_kept, simp, simp, rule yields_if, rule refuse_kept, simp, simp,
      rule yields_if, simp, rule bind_tail_kept)
     (auto simp: ucast_port get_num_bufs_free_def DEFAULT_RX_QUEUE_SIZE_def)

section \<open>Asking for more buffers\<close>

lemma after_next_port:
  "(\<And>p k. yields (f p (s\<lparr>n_kernel := k\<rparr>)) Q) \<Longrightarrow> yields (get_next_available_port s \<bind> (\<lambda>(p, s). f p s)) Q"
  by (rule yields_bind [OF get_next_available_port_within]) auto

lemma grow_queue_kept:
  assumes want: "0 < sint want" and free: "0 \<le> sint (num_bufs_free (n_rx s))"
    and same: "num_bufs_free (n_rx s1) = num_bufs_free (n_rx s)"
    and fill: "\<And>c r'. int c \<le> sint (num_bufs_free (n_rx s)) \<Longrightarrow> took c (n_rx s1) r' \<Longrightarrow>
      kept c s (s1\<lparr>n_rx := r'\<rparr>)"
  shows "yields (grow_queue flag ri want s1) (\<lambda>(x, s'). kept 0 s s')"
proof -
  define w where "w = (if sint (get_num_bufs_free (n_rx s1)) < sint want then get_num_bufs_free (n_rx s1) else want)"
  then have "int (nat (sint w)) \<le> sint (num_bufs_free (n_rx s))"
    using want free same by (auto simp: get_num_bufs_free_def)
  from kept_less [OF fill [OF this]] show ?thesis
    unfolding grow_queue_def Let_def w_def [symmetric]
    by (intro yields_bind [OF alloc_bufs_took]) (auto intro!: finish_keeps)
qed

lemma took_kept:
  assumes "int c \<le> sint (num_bufs_free (n_rx s))" "took c (n_rx s) r'"
  shows "kept c s (s\<lparr>n_rx := r'\<rparr>)"
proof -
  have "sint (num_bufs_free r') = sint (num_bufs_free (n_rx s)) - int c"
    using sint_sub_of_nat [OF assms(1)] assms(2) by (simp add: took_def)
  then show ?thesis using assms by (auto simp: kept_def mapping_ok_def represents_def took_def)
qed

lemma refuse_keeps_kept: "within s s1 \<Longrightarrow> yields (refuse fno r e s1) (\<lambda>(x, s'). kept 0 s s')"
  by (rule refuse_keeps) (simp add: within_kept)

lemma finish_keeps_kept: "within s s1 \<Longrightarrow> yields (finish fno r s1) (\<lambda>(x, s'). kept 0 s s')"
  by (rule finish_keeps) (simp add: within_kept)

lemma kept_from: "(mapping_ok s \<Longrightarrow> yields m (\<lambda>(x, s'). kept c s s')) \<Longrightarrow> yields m (\<lambda>(x, s'). kept c s s')"
  by (cases "mapping_ok s") (auto simp: kept_def yields_def)

lemma set_rx_queue_tail_kept:
  assumes n: "\<not> bad_sock_num n" "at (sock s) (sint n) = Some k" "sk_pindex k = - 1" and port: "port \<noteq> 0"
    and free: "0 \<le> sint (num_bufs_free (n_rx s))" and want: "0 < sint want"
  shows "yields (do {
      (pi, s) \<leftarrow> get_index_unassigned_port_element (s\<lparr>n_kernel := k'\<rparr>);
      (ri, s) \<leftarrow> get_index_unassigned_rbm_element s;
      if pi = NRK_ERROR \<or> ri = NRK_ERROR then None
      else do {
        s \<leftarrow> map_socket n pi ri port s;
        grow_queue True ri want s
      }
    }) (\<lambda>(x, s'). kept 0 s s')"
proof (rule elements_found, rule yields_if)
  fix k'' pi ri
  assume pi: "pi \<noteq> NRK_ERROR \<Longrightarrow> \<exists>p < NUM_PORTS. pi = of_nat p \<and> pno (ports (n_rx (s\<lparr>n_kernel := k'\<rparr>)) ! p) = 0"
    and ri: "ri \<noteq> NRK_ERROR \<Longrightarrow> \<exists>r < NUM_PORTS. ri = of_nat r \<and> rbm_pindex (rx_buf_mgr (n_rx (s\<lparr>n_kernel := k'\<rparr>)) ! r) = - 1"
    and ok: "\<not> (pi = NRK_ERROR \<or> ri = NRK_ERROR)"
  have "yields (map_socket n pi ri port (s\<lparr>n_kernel := k''\<rparr>) \<bind> grow_queue True ri want) (\<lambda>(x, s'). kept 0 s s')"
    by (rule map_and_fill [OF n _ _ port]) (use pi ri ok grow_queue_kept [OF want free] in simp_all)
  then show "yields (map_socket n pi ri port (s\<lparr>n_kernel := k', n_kernel := k''\<rparr>) \<bind> grow_queue True ri want)
    (\<lambda>(x, s'). kept 0 s s')" by simp
qed simp_all

lemma set_rx_queue_size_kept: "yields (set_rx_queue_size_body garbage n want s) (\<lambda>(x, s'). kept 0 s s')"
proof (rule kept_from)
  assume "mapping_ok s"
  then have free: "0 \<le> sint (num_bufs_free (n_rx s))" by (simp add: mapping_ok_def)
  have less: "0 < sint (want - DEFAULT_RX_QUEUE_SIZE)" if "0 < sint want" "want \<noteq> DEFAULT_RX_QUEUE_SIZE"
  proof -
    have "sint want \<noteq> 1" using that(2) sint_cancel [of want 1] by (simp add: DEFAULT_RX_QUEUE_SIZE_def)
    then show ?thesis using that(1) sint_sub_of_nat [of 1 want] by (simp add: DEFAULT_RX_QUEUE_SIZE_def)
  qed
  show "yields (set_rx_queue_size_body garbage n want s) (\<lambda>(x, s'). kept 0 s s')"
    unfolding set_rx_queue_size_body_def
    by (rule yields_if, simp, rule yields_if, rule refuse_keeps_kept, simp, rule yields_bind_any, rule yields_bind_any,
        rule yields_if, rule refuse_keeps_kept, simp, rule yields_if, rule after_next_port,
        rule yields_if, rule finish_keeps_kept, simp, rule yields_if, rule refuse_keeps_kept, simp,
        rule set_rx_queue_tail_kept)
       (use free in \<open>auto simp: INVALID_PORT_def intro!: grow_queue_kept less took_kept finish_keeps_kept\<close>)
qed

section \<open>Sending\<close>

lemma within_send_fields [simp]:
  "within s (s'\<lparr>tl_udp_seg := a\<rparr>) = within s s'" "within s (s'\<lparr>tl_pkt := b\<rparr>) = within s s'"
  "within s (s'\<lparr>n_tx := c\<rparr>) = within s s'"
  by (simp_all add: within_def)

lemma send_raw_loop_stays: "stays s (send_raw_loop tx sig timer s)"
proof -
  have "within s s'" if "send_raw_loop tx sig timer s = Some (x, s')" for x s'
  proof (rule send_raw_loop.raw_induct [of "\<lambda>tx sig timer s (x, s'). within s s'", OF _ that, unfolded prod.case])
    fix loop tx sig timer s y
    assume IH: "\<And>tx sig timer s y. loop tx sig timer s = Some y \<Longrightarrow> (case y of (x, s') \<Rightarrow> within s s')"
      and step: "(if fst (tx (n_kernel s)) \<noteq> - 1 then finish 14 NRK_OK (s\<lparr>n_kernel := snd (tx (n_kernel s))\<rparr>)
        else do {
          (r, k) \<leftarrow> nrk_event_wait sig timer (snd (tx (n_kernel s)));
          if r = Blocked then Some (Blocked, s\<lparr>n_kernel := k\<rparr>)
          else loop tx sig timer (s\<lparr>n_kernel := k\<rparr>)
        }) = Some y"
    obtain x s' where y: "y = (x, s')" by (cases y)
    have again: "within s s'" if "loop tx sig timer (s\<lparr>n_kernel := k\<rparr>) = Some (x, s')" for k
      using IH [OF that] by (simp add: within_def)
    have "stays s (finish 14 NRK_OK (s\<lparr>n_kernel := snd (tx (n_kernel s))\<rparr>))" by (rule stays_finish) simp
    from this [unfolded stays_def] show "case y of (x, s') \<Rightarrow> within s s'"
      using step again unfolding y by (auto simp: bind_eq_Some_conv dest: yieldsD split: if_splits)
  qed
  then show ?thesis by (auto simp: stays_def yields_def)
qed

lemma send_raw_stays: "stays s (send_raw tx tx_done timer s)"
  unfolding send_raw_def
proof (rule stays_bind, clarify, intro stays_bind stays_if stays_simps)
  fix r k sig
  show "stays s (send_raw_loop tx sig timer (s\<lparr>n_kernel := k\<rparr>))"
    using send_raw_loop_stays [of "s\<lparr>n_kernel := k\<rparr>" tx sig timer] by (simp add: stays_def within_def)
qed

lemma enter_within: "yields (enter sem fno timer s) (\<lambda>(r, s'). \<exists>k. s' = s\<lparr>n_kernel := k\<rparr>)"
  by (auto simp: enter_def yields_def bind_eq_Some_conv)

lemma stays_and_then:
  assumes "yields m (\<lambda>(r, s'). \<exists>k. s' = s1\<lparr>n_kernel := k\<rparr>)" "within s s1" "\<And>x k. stays s (f x (s1\<lparr>n_kernel := k\<rparr>))"
  shows "stays s (and_then m f)"
  unfolding and_then_def stays_def
  by (rule yields_bind [OF assms(1)]) (use assms(2,3) in \<open>auto simp: stays_def split: outcome.split\<close>)

lemma route_addr_within: "yields (route_addr a timer s) (\<lambda>(r, s'). \<exists>k. s' = s\<lparr>n_kernel := k\<rparr>)"
proof (cases "a = BCAST_ADDR")
  case True
  then show ?thesis by (auto simp: route_addr_def intro: exI [of _ "n_kernel s"])
next
  case False
  then show ?thesis unfolding route_addr_def and_then_def Let_def
    by (auto intro!: yields_bind [OF enter_within] yields_bind [OF leave_within] split: outcome.split)
       (rule exI, rule refl)+
qed

lemma send_dgram_stays: "within s s1 \<Longrightarrow> stays s (send_dgram len pr hop s1)"
  unfolding send_dgram_def Let_def by (intro stays_bind) (auto intro!: stays_rules)

lemma send_mapped_stays: "within s s1 \<Longrightarrow> stays s (send_mapped n dat len addr port pr timer s1)"
  unfolding send_mapped_def Let_def
  by (intro stays_bind stays_if stays_and_then [OF route_addr_within] stays_simps send_dgram_stays stays_rx [OF insert_rx_pq_ports])
     (auto intro!: stays_finish simp: within_rx within_def same_ports_def)

lemma ensure_port_kept:
  assumes n: "\<not> bad_sock_num n" "at (sock s) (sint n) = Some k" "sk_pindex k = - 1"
    and free: "1 \<le> sint (num_bufs_free (n_rx s))" and len: "length (ports (n_rx s)) = NUM_PORTS"
  shows "yields (ensure_port n s) (kept 0 s)"
  unfolding ensure_port_def Let_def
proof (rule elements_found, rule yields_if)
  fix k' pi ri
  assume pi: "pi \<noteq> NRK_ERROR \<Longrightarrow> \<exists>p < NUM_PORTS. pi = of_nat p \<and> pno (ports (n_rx s) ! p) = 0"
    and ri: "ri \<noteq> NRK_ERROR \<Longrightarrow> \<exists>r < NUM_PORTS. ri = of_nat r \<and> rbm_pindex (rx_buf_mgr (n_rx s) ! r) = - 1"
    and ok: "\<not> (pi = NRK_ERROR \<or> ri = NRK_ERROR \<or> get_index_unallocated_rx_buf (n_rx (s\<lparr>n_kernel := k'\<rparr>)) = NRK_ERROR)"
  let ?s = "s\<lparr>n_kernel := k'\<rparr>" and ?b = "nat (sint (get_index_unallocated_rx_buf (n_rx (s\<lparr>n_kernel := k'\<rparr>))))"
  obtain p where p: "get_next_available_port ?s = Some (of_nat p, ?s)" "EPHEMERAL_PORT_NUM_START \<le> p" "p \<le> MAX_PORT_NUM"
    using get_next_available_port_least [of ?s] len by auto
  then have port: "(of_nat p :: u8) \<noteq> 0"
    by (simp add: EPHEMERAL_PORT_NUM_START_def MAX_PORT_NUM_def word_of_nat_eq_0_iff nat_dvd_not_less)
  have "yields (map_socket n pi ri (of_nat p) ?s \<bind> (\<lambda>s1. insert_rx_fq ?b ri EMPTY (n_rx s1) \<bind>
      (\<lambda>r. Some (s1\<lparr>n_rx := (upd_rbm ri (\<lambda>m. m\<lparr>countTotal := countTotal m + 1\<rparr>) r)
        \<lparr>num_bufs_free := num_bufs_free (upd_rbm ri (\<lambda>m. m\<lparr>countTotal := countTotal m + 1\<rparr>) r) - 1\<rparr>\<rparr>))))
    (kept 0 s)"
  proof (rule map_and_fill [OF n _ _ port], goal_cases)
    case (3 s1)
    show ?case
    proof (rule yields_bind [OF insert_rx_fq_ports], simp, rule kept_less [OF 3(2) [of 1]])
      fix r assume "same_ports (n_rx s1) r"
      then show "took 1 (n_rx s1) ((upd_rbm ri (\<lambda>m. m\<lparr>countTotal := countTotal m + 1\<rparr>) r)
          \<lparr>num_bufs_free := num_bufs_free (upd_rbm ri (\<lambda>m. m\<lparr>countTotal := countTotal m + 1\<rparr>) r) - 1\<rparr>)"
        using same_ports_count [of "n_rx s1" r ri] by (simp add: took_def)
    qed (use free in simp)
  qed (use pi ri ok in simp_all)
  then show "yields (get_next_available_port ?s \<bind> (\<lambda>(port, s). map_socket n pi ri port s \<bind>
      (\<lambda>s1. insert_rx_fq ?b ri EMPTY (n_rx s1) \<bind>
      (\<lambda>r. Some (s1\<lparr>n_rx := (upd_rbm ri (\<lambda>m. m\<lparr>countTotal := countTotal m + 1\<rparr>) r)
        \<lparr>num_bufs_free := num_bufs_free (upd_rbm ri (\<lambda>m. m\<lparr>countTotal := countTotal m + 1\<rparr>) r) - 1\<rparr>\<rparr>)))))
    (kept 0 s)" using p(1) by simp
qed simp_all

lemma mapping_lengths:
  assumes "mapping_ok s"
  shows "length (sock s) = NUM_PORTS" "length (ports (n_rx s)) = NUM_PORTS" "length (rx_buf_mgr (n_rx s)) = NUM_PORTS"
proof -
  obtain L P R where a: "assignment L P R" "represents s L P R" using assms by (auto simp: mapping_ok_def)
  show "length (sock s) = NUM_PORTS" "length (ports (n_rx s)) = NUM_PORTS" "length (rx_buf_mgr (n_rx s)) = NUM_PORTS"
    using representsD(1-3) [OF a(2) assignmentD(1,3) [OF a(1)]] assignmentD(2) [OF a(1)] by (auto dest: map_eq_imp_length_eq)
qed

lemma send_tail_kept:
  assumes n: "\<not> bad_sock_num n" "at (sock s) (sint n) = Some k"
    and free: "\<not> (sk_pindex k = - 1 \<and> sint (get_num_bufs_free (n_rx s)) < sint DEFAULT_RX_QUEUE_SIZE)"
    and len: "length (ports (n_rx s)) = NUM_PORTS"
  shows "yields (do {
      s \<leftarrow> (if sk_pindex k = - 1 then ensure_port n s else Some s);
      if length (the ptr) < nat (sint l) then None
      else send_mapped n (the ptr) l addr port pr timer s
    }) (\<lambda>(x, s'). kept 0 s s')"
proof (rule yields_bind)
  show "yields (if sk_pindex k = - 1 then ensure_port n s else Some s) (kept 0 s)"
    using ensure_port_kept [OF n] free len
    by (auto simp: within_kept get_num_bufs_free_def DEFAULT_RX_QUEUE_SIZE_def)
next
  fix s1 assume s1: "kept 0 s s1"
  have "yields (send_mapped n (the ptr) l addr port pr timer s1) (\<lambda>(x, s'). kept 0 s s')"
    by (rule yields_mono [OF stays_kept [OF send_mapped_stays [OF within_refl]]]) (use kept_trans [OF s1] in auto)
  then show "yields (if length (the ptr) < nat (sint l) then None
      else send_mapped n (the ptr) l addr port pr timer s1) (\<lambda>(x, s'). kept 0 s s')" by simp
qed

lemma send_body_kept: "yields (send_body tx tx_done n ptr len addr port pr timer s) (\<lambda>(x, s'). kept 0 s s')"
proof (rule kept_from)
  assume "mapping_ok s"
  note len = mapping_lengths(2) [OF this]
  have bad: "yields (leave_both 14 s \<bind> (\<lambda>s. set_errno NO_RX_BUFFERS_AVAILABLE s \<bind> (\<lambda>s. Some (Returned NRK_ERROR, s))))
      (\<lambda>(x, s'). kept 0 s s')"
    by (rule stays_kept, intro stays_leave_both stays_errno) simp
  show "yields (send_body tx tx_done n ptr len addr port pr timer s) (\<lambda>(x, s'). kept 0 s s')"
    unfolding send_body_def
    by (rule yields_if, rule refuse_keeps_kept, simp, rule yields_if, rule refuse_keeps_kept, simp,
        rule yields_bind_any, rule yields_bind_any, rule yields_if, rule refuse_keeps_kept, simp,
        rule yields_if, rule stays_kept, rule send_raw_stays, rule yields_if, rule refuse_keeps_kept, simp,
        rule yields_if, rule refuse_keeps_kept, simp, rule yields_if, rule bad, rule send_tail_kept)
       (use len in simp_all)
qed

section \<open>The stack as a transition system\<close>

text \<open>
  One step: a critical section of the socket interface, of a call or of what follows a wait;
  the delivery of a segment; or anything that leaves sockets and receive buffers alone
  (taking and giving back mutexes, the network layer, the scheduler, other tasks). The number
  counts successful calls of \<^verbatim>\<open>bind\<close>.
\<close>

inductive stack_step :: "net \<Rightarrow> nat \<Rightarrow> net \<Rightarrow> bool" where
  other: "n_rx s' = n_rx s \<Longrightarrow> sock s' = sock s \<Longrightarrow> stack_step s 0 s'"
| policy: "stack_step s 0 (s\<lparr>n_rx := (n_rx s)\<lparr>excessPolicySettings := e\<rparr>\<rparr>)"
| create: "create_socket_body type s = Some (x, s') \<Longrightarrow> stack_step s 0 s'"
| associated: "is_port_associated_body p s = Some (x, s') \<Longrightarrow> stack_step s 0 s'"
| bound: "bind_body n port s = Some (x, s') \<Longrightarrow> stack_step s (if x = Returned NRK_OK then 1 else 0) s'"
| size_read: "get_rx_queue_size_body n s = Some (x, s') \<Longrightarrow> stack_step s 0 s'"
| size_set: "set_rx_queue_size_body garbage n want s = Some (x, s') \<Longrightarrow> stack_step s 0 s'"
| released: "release_buffer_body n ptr s = Some (x, s') \<Longrightarrow> stack_step s 0 s'"
| closed: "close_socket_body n s = Some (x, s') \<Longrightarrow> stack_step s 0 s'"
| sent: "send_body tx tx_done n ptr len addr port pr timer s = Some (x, s') \<Longrightarrow> stack_step s 0 s'"
| sent_on: "send_dgram len pr hop s = Some (x, s') \<Longrightarrow> stack_step s 0 s'"
| sent_raw: "send_raw_loop tx sig timer s = Some (x, s') \<Longrightarrow> stack_step s 0 s'"
| timeout: "set_timeout_body n sc ns s = Some (x, s') \<Longrightarrow> stack_step s 0 s'"
| received: "receive_body n ok timer timer' s = Some (y, s') \<Longrightarrow> stack_step s 0 s'"
| received_on: "receive_woken timed n sigs s = Some (y, s') \<Longrightarrow> stack_step s 0 s'"
| checked: "check_receive_queue_body n s = Some (x, s') \<Longrightarrow> stack_step s 0 s'"
| waited: "wait_until_send_done_body n timer timer' s = Some (x, s') \<Longrightarrow> stack_step s 0 s'"
| waited_on: "send_done_woken timed n sigs s = Some (x, s') \<Longrightarrow> stack_step s 0 s'"
| delivered: "deliver_segment p rssi s = Some (z, s') \<Longrightarrow> stack_step s 0 s'"

inductive stack_run :: "net \<Rightarrow> nat \<Rightarrow> net \<Rightarrow> bool" where
  start: "stack_run s 0 s"
| more: "stack_run s m s' \<Longrightarrow> stack_step s' n s'' \<Longrightarrow> stack_run s (m + n) s''"

lemma stays_done: "stays s m \<Longrightarrow> m = Some (x, s') \<Longrightarrow> kept 0 s s'"
  using stays_kept [of s m] by (auto dest: yieldsD)

lemma yields_done: "yields m (\<lambda>(x, s'). kept (c x) s s') \<Longrightarrow> m = Some (x, s') \<Longrightarrow> kept (c x) s s'"
  by (simp add: yields_def)

lemma stack_step_kept: "stack_step s c s' \<Longrightarrow> kept c s s'"
proof (induction rule: stack_step.induct)
  case (other s' s)
  then show ?case by (intro within_kept) (simp add: within_def)
next
  case (policy s e)
  then show ?case by (intro within_kept) (simp add: within_def same_ports_def)
next
  case (bound n port s x s')
  then show ?case by (rule yields_done [OF bind_body_kept])
qed (erule yields_done [OF set_rx_queue_size_kept] yields_done [OF close_socket_kept] yields_done [OF send_body_kept]
      stays_done [OF create_socket_stays] stays_done [OF is_port_associated_stays]
      stays_done [OF get_rx_queue_size_stays] stays_done [OF release_buffer_stays] stays_done [OF set_timeout_stays]
      stays_done [OF send_dgram_stays [OF within_refl]] stays_done [OF send_raw_loop_stays]
      stays_done [OF receive_stays] stays_done [OF receive_woken_stays] stays_done [OF check_receive_queue_stays]
      stays_done [OF wait_until_send_done_stays] stays_done [OF send_done_woken_stays]
      stays_done [OF deliver_segment_stays])+

lemma stack_run_kept: "stack_run s n s' \<Longrightarrow> kept n s s'"
  by (induction rule: stack_run.induct) (auto simp: within_kept intro: kept_trans stack_step_kept)

text \<open>The assignment read off the arrays.\<close>

definition sockets_ok :: "net \<Rightarrow> bool" where
  "sockets_ok s \<longleftrightarrow>
     (\<forall>n < NUM_PORTS. let k = sock s ! n in
        if sk_pindex k = - 1 then sk_rbmindex k = - 1
        else sint (sk_pindex k) \<in> {0 ..< int NUM_PORTS} \<and> sint (sk_rbmindex k) \<in> {0 ..< int NUM_PORTS} \<and>
          pno (ports (n_rx s) ! nat (sint (sk_pindex k))) \<noteq> INVALID_PORT \<and>
          rbm_pindex (rx_buf_mgr (n_rx s) ! nat (sint (sk_rbmindex k))) = sk_pindex k) \<and>
     (\<forall>m < NUM_PORTS. \<forall>n < NUM_PORTS. m \<noteq> n \<longrightarrow> sk_pindex (sock s ! m) \<noteq> - 1 \<longrightarrow>
        sk_pindex (sock s ! m) \<noteq> sk_pindex (sock s ! n) \<and> sk_rbmindex (sock s ! m) \<noteq> sk_rbmindex (sock s ! n)) \<and>
     (\<forall>p < NUM_PORTS. pno (ports (n_rx s) ! p) \<noteq> INVALID_PORT \<longrightarrow> (\<exists>n < NUM_PORTS. sk_pindex (sock s ! n) = of_nat p)) \<and>
     (\<forall>r < NUM_PORTS. rbm_pindex (rx_buf_mgr (n_rx s) ! r) \<noteq> - 1 \<longrightarrow>
        (\<exists>n < NUM_PORTS. sk_rbmindex (sock s ! n) = of_nat r))"

lemma mapping_sockets_ok:
  assumes "mapping_ok s"
  shows "sockets_ok s"
proof -
  obtain L P R where a: "assignment L P R" "represents s L P R" using assms by (auto simp: mapping_ok_def)
  note d = assignmentD [OF a(1)]
  note rep = representsD [OF a(2) d(1,3)]
  have P: "pno (ports (n_rx s) ! p) = P ! p" if "p < NUM_PORTS" for p
    using rep(3) d(2) that by (metis length_map nth_map)
  have free: "sk_pindex (sock s ! n) = - 1 \<longleftrightarrow> L ! n = None" if "n < NUM_PORTS" for n
    using rep(4) [OF that] d(4) [OF that] index_of_eq(1) by (cases "L ! n") (auto simp: index_of_def)
  have own: "sint (sk_pindex (sock s ! n)) = int p \<and> sint (sk_rbmindex (sock s ! n)) = int r \<and> p < NUM_PORTS \<and>
      r < NUM_PORTS \<and> P ! p \<noteq> 0 \<and> R ! r = Some p" if "n < NUM_PORTS" "L ! n = Some (p, r)" for n p r
    using rep(4,5) [OF that(1)] that(2) d(4) [OF that] index_of_eq(3) by simp
  have "let k = sock s ! n in
      if sk_pindex k = - 1 then sk_rbmindex k = - 1
      else sint (sk_pindex k) \<in> {0 ..< int NUM_PORTS} \<and> sint (sk_rbmindex k) \<in> {0 ..< int NUM_PORTS} \<and>
        pno (ports (n_rx s) ! nat (sint (sk_pindex k))) \<noteq> INVALID_PORT \<and>
        rbm_pindex (rx_buf_mgr (n_rx s) ! nat (sint (sk_rbmindex k))) = sk_pindex k" if n: "n < NUM_PORTS" for n
  proof (cases "L ! n")
    case None
    then show ?thesis using free [OF n] rep(5) [OF n] by (simp add: index_of_def)
  next
    case (Some x)
    obtain p r where L: "L ! n = Some (p, r)" using Some by (cases x) auto
    note o = own [OF n L]
    then show ?thesis using free [OF n] L P [of p] rep(4) [OF n] rep(6) [of r]
      by (simp add: INVALID_PORT_def)
  qed
  moreover have "sk_pindex (sock s ! m) \<noteq> sk_pindex (sock s ! n) \<and> sk_rbmindex (sock s ! m) \<noteq> sk_rbmindex (sock s ! n)"
    if mn: "m < NUM_PORTS" "n < NUM_PORTS" "m \<noteq> n" "sk_pindex (sock s ! m) \<noteq> - 1" for m n
  proof -
    obtain p r where L: "L ! m = Some (p, r)" using free [OF mn(1)] mn(4) by (cases "L ! m") auto
    note o = own [OF mn(1) L]
    show ?thesis
    proof (cases "L ! n")
      case None
      then show ?thesis using free [OF mn(2)] mn(4) rep(5) [OF mn(2)] o by (auto simp: index_of_def)
    next
      case (Some x)
      obtain p' r' where L': "L ! n = Some (p', r')" using Some by (cases x) auto
      have "p \<noteq> p' \<and> r \<noteq> r'" using d(5) [OF mn(1,2) L L'] mn(3) by blast
      then show ?thesis using o own [OF mn(2) L'] by auto
    qed
  qed
  moreover have "\<exists>n < NUM_PORTS. sk_pindex (sock s ! n) = of_nat p"
    if p: "p < NUM_PORTS" "pno (ports (n_rx s) ! p) \<noteq> INVALID_PORT" for p
  proof -
    obtain n r where "n < NUM_PORTS" "L ! n = Some (p, r)"
      using d(6) [OF p(1)] p(2) P [OF p(1)] by (auto simp: INVALID_PORT_def)
    then show ?thesis using rep(4) by (auto simp: index_of_def)
  qed
  moreover have "\<exists>n < NUM_PORTS. sk_rbmindex (sock s ! n) = of_nat r"
    if r: "r < NUM_PORTS" "rbm_pindex (rx_buf_mgr (n_rx s) ! r) \<noteq> - 1" for r
  proof -
    have "R ! r \<noteq> None" using r(2) rep(6) [OF r(1)] by (cases "R ! r") (simp_all add: index_of_def)
    then obtain n p where "n < NUM_PORTS" "L ! n = Some (p, r)" using d(7) [OF r(1)] by blast
    then show ?thesis using rep(5) by (auto simp: index_of_def)
  qed
  ultimately show ?thesis by (simp add: sockets_ok_def)
qed

lemma mapping_init:
  assumes "initialise_transport_layer_udp s0 = Some s" "n_rx s0 = initialise_rx r"
    "length (sock s0) = NUM_PORTS" "length (ports r) = NUM_PORTS" "length (rx_buf_mgr r) = NUM_PORTS"
  shows "mapping_ok s \<and> sint (num_bufs_free (n_rx s)) = 8"
proof -
  let ?L = "replicate NUM_PORTS None" and ?P = "replicate NUM_PORTS (0 :: u8)" and ?R = "replicate NUM_PORTS None"
  have s: "sock s = map (\<lambda>k. k\<lparr>sk_pindex := - 1, sk_rbmindex := - 1, sk_pid := INVALID_PID, sk_timeout := no_time\<rparr>) (sock s0)"
    "n_rx s = (n_rx s0)\<lparr>ports := map (\<lambda>p. p\<lparr>pno := INVALID_PORT\<rparr>) (ports (n_rx s0))\<rparr>"
    using assms(1) by (auto simp: initialise_transport_layer_udp_def upd_rx_def Let_def bind_eq_Some_conv
        split: if_splits prod.splits)
  have const: "map (\<lambda>_. c) xs = replicate NUM_PORTS c" if "length xs = NUM_PORTS" for c xs
    using that by (simp add: map_replicate_const)
  have "assignment ?L ?P ?R" by (rule assignmentI) simp_all
  moreover have "represents s ?L ?P ?R"
    using assms(2-5) by (simp add: represents_def s initialise_rx_def const o_def index_of_def INVALID_PORT_def)
  moreover have "sint (num_bufs_free (n_rx s)) = 8"
    using assms(2) by (simp add: s initialise_rx_def MAX_RX_QUEUE_SIZE_def)
  ultimately show ?thesis by (auto simp: mapping_ok_def)
qed

section \<open>A run for examples\<close>

text \<open>Initialisation, then a socket is created, bound to port 5 and closed again.\<close>

definition ex_stack_start :: net where
  "ex_stack_start =
     (ex_net (initialise_rx ((ex_rx (\<lambda>b. EMPTY) (\<lambda>b. 0) [] [])
          \<lparr>rx_buf_mgr := replicate 4 \<lparr>rbm_pid = 0, rbm_pindex = 0, head_fq = None, tail_fq = None,
             head_pq = None, tail_pq = None, countTotal = 0, countFree = 0\<rparr>,
           ports := replicate 4 \<lparr>pno = 0, data_arrived_signal = 0, send_done_signal = 0\<rparr>\<rparr>))
        (replicate 4 \<lparr>sk_pindex = 0, sk_rbmindex = 0, sk_pid = 0, sk_type = 0, sk_timeout = no_time\<rparr>))
     \<lparr>n_kernel := ex_kernel 1\<lparr>nrk_sem_list := \<lparr>sem_count = 1, resource_ceiling = 19, sem_value = 1\<rparr> #
        replicate 2 free_sem, nrk_resource_cnt := 1\<rparr>\<rparr>"

definition ex_close :: "(net \<times> net \<times> net) option" where
  "ex_close = do {
     s \<leftarrow> initialise_transport_layer_udp ex_stack_start;
     (x, s1) \<leftarrow> create_socket_body SOCK_DGRAM s;
     (y, s2) \<leftarrow> bind_body 0 5 s1;
     (z, s3) \<leftarrow> close_socket_body 0 s2;
     if y = Returned NRK_OK \<and> map sk_pindex (sock s2) = [0, - 1, - 1, - 1] \<and>
       map sk_pindex (sock s3) = [- 1, - 1, - 1, - 1] \<and> num_bufs_free (n_rx s3) = 7
     then Some (s, s2, s3) else None
   }"

lemma ex_close_runs:
  "\<exists>s s2 s3. initialise_transport_layer_udp ex_stack_start = Some s \<and> stack_run s 1 s2 \<and> stack_run s 1 s3 \<and>
     map sk_pindex (sock s2) = [0, - 1, - 1, - 1] \<and> map sk_pindex (sock s3) = [- 1, - 1, - 1, - 1] \<and>
     num_bufs_free (n_rx s3) = 7"
proof -
  have "ex_close \<noteq> None" by code_simp
  then obtain s s1 s2 s3 x y z where r: "initialise_transport_layer_udp ex_stack_start = Some s"
    "create_socket_body SOCK_DGRAM s = Some (x, s1)" "bind_body 0 5 s1 = Some (y, s2)"
    "close_socket_body 0 s2 = Some (z, s3)" "y = Returned NRK_OK" "map sk_pindex (sock s2) = [0, - 1, - 1, - 1]"
    "map sk_pindex (sock s3) = [- 1, - 1, - 1, - 1]" "num_bufs_free (n_rx s3) = 7"
    by (auto simp: ex_close_def bind_eq_Some_conv split: if_splits)
  have "stack_run s 1 s2"
    using stack_run.more [OF stack_run.more [OF stack_run.start stack_step.create [OF r(2)]] stack_step.bound [OF r(3)]] r(5)
    by simp
  moreover from stack_run.more [OF this stack_step.closed [OF r(4)]] have "stack_run s 1 s3" by simp
  ultimately show ?thesis by (intro exI conjI) (rule r, assumption+, rule r(6), rule r(7), rule r(8))
qed

lemma ex_stack_shape: "n_rx ex_stack_start = initialise_rx ((ex_rx (\<lambda>b. EMPTY) (\<lambda>b. 0) [] [])
          \<lparr>rx_buf_mgr := replicate 4 \<lparr>rbm_pid = 0, rbm_pindex = 0, head_fq = None, tail_fq = None,
             head_pq = None, tail_pq = None, countTotal = 0, countFree = 0\<rparr>,
           ports := replicate 4 \<lparr>pno = 0, data_arrived_signal = 0, send_done_signal = 0\<rparr>\<rparr>)"
  "length (sock ex_stack_start) = NUM_PORTS"
  by (simp_all add: ex_stack_start_def ex_net_def NUM_PORTS_def)

section \<open>Properties\<close>

text \<open>
  C10: In every state the stack reaches after its initialisation, by any interleaving of socket
  calls, deliveries and other activity, each socket owns both a port element and a receive
  buffer manager or neither, the two refer to each other, no two sockets share an element, and
  every element in use has a socket.
\<close>

theorem sockets_stay_consistent:
  assumes "initialise_transport_layer_udp s0 = Some s" "n_rx s0 = initialise_rx r"
    "length (sock s0) = NUM_PORTS" "length (ports r) = NUM_PORTS" "length (rx_buf_mgr r) = NUM_PORTS"
    "stack_run s n s'"
  shows "sockets_ok s'"
  using stack_run_kept [OF assms(6)] mapping_init [OF assms(1-5)] mapping_sockets_ok [of s'] by (simp add: kept_def)

theorem sockets_stay_consistent_witness:
  "\<exists>s s'. initialise_transport_layer_udp ex_stack_start = Some s \<and> stack_run s 1 s' \<and>
    map sk_pindex (sock s') = [0, - 1, - 1, - 1] \<and> sockets_ok s'"
proof -
  from ex_close_runs obtain s s' s3 where r: "initialise_transport_layer_udp ex_stack_start = Some s"
    "stack_run s 1 s'" "stack_run s 1 s3" "map sk_pindex (sock s') = [0, - 1, - 1, - 1]" by (elim exE conjE)
  have "sockets_ok s'"
    by (rule sockets_stay_consistent [OF r(1) ex_stack_shape _ _ r(2)]) (simp_all add: NUM_PORTS_def)
  then show ?thesis by (intro exI conjI) (rule r(1), rule r(2), rule r(4), assumption)
qed

text \<open>
  C18: Buffers a closed socket had are lost: however often sockets are closed, at most eight
  calls of \<^verbatim>\<open>bind\<close> succeed after the initialisation, and each success leaves one buffer less.
\<close>

theorem at_most_eight_binds:
  assumes "initialise_transport_layer_udp s0 = Some s" "n_rx s0 = initialise_rx r"
    "length (sock s0) = NUM_PORTS" "length (ports r) = NUM_PORTS" "length (rx_buf_mgr r) = NUM_PORTS"
    "stack_run s n s'"
  shows "n \<le> 8 \<and> 0 \<le> sint (num_bufs_free (n_rx s')) \<and> sint (num_bufs_free (n_rx s')) \<le> 8 - int n"
  using stack_run_kept [OF assms(6)] mapping_init [OF assms(1-5)] by (auto simp: kept_def mapping_ok_def)

theorem at_most_eight_binds_witness:
  "\<exists>s s'. initialise_transport_layer_udp ex_stack_start = Some s \<and> stack_run s 1 s' \<and>
    map sk_pindex (sock s') = [- 1, - 1, - 1, - 1] \<and> sint (num_bufs_free (n_rx s')) \<le> 7"
proof -
  from ex_close_runs obtain s s2 s' where r: "initialise_transport_layer_udp ex_stack_start = Some s"
    "stack_run s 1 s2" "stack_run s 1 s'" "map sk_pindex (sock s2) = [0, - 1, - 1, - 1]"
    "map sk_pindex (sock s') = [- 1, - 1, - 1, - 1]" by (elim exE conjE)
  have "sint (num_bufs_free (n_rx s')) \<le> 8 - int 1"
    using at_most_eight_binds [OF r(1) ex_stack_shape _ _ r(3)] by (simp add: NUM_PORTS_def)
  then have "sint (num_bufs_free (n_rx s')) \<le> 7" by simp
  then show ?thesis by (intro exI conjI) (rule r(1), rule r(3), rule r(5), assumption)
qed

end
