(* ===== verification/Net_Delivery.thy ===== *)
theory Net_Delivery
  imports Net_Table Net_SockRun
begin

text \<open>
  A datagram from one node to another: \<^verbatim>\<open>send\<close> queues a packet, the network layer of the
  sender turns it into bytes, the network layer of the receiver puts the segment on the queue
  of its port, and \<^verbatim>\<open>receive\<close> returns it.
\<close>

section \<open>Sockets of the running task\<close>

definition owns :: "nat \<Rightarrow> i8 \<Rightarrow> net \<Rightarrow> bool" where
  "owns c n s \<longleftrightarrow> \<not> bad_sock_num n \<and> nat (sint n) < length (sock s) \<and> running (n_kernel s) c \<and>
     (\<exists>pid. nrk_get_pid (n_kernel s) = Some pid \<and> sint (sk_pid (sock s ! nat (sint n))) = uint pid)"

lemma owns_socket:
  assumes "owns c n s"
  shows "at (sock s) (sint n) = Some (sock s ! nat (sint n))" "foreign_socket n s = Some False"
    "running (n_kernel s) c" "\<not> bad_sock_num n"
  using assms by (auto simp: owns_def foreign_socket_def at_Some_iff bad_sock_num_def)

lemma owns_only_kernel:
  assumes "only_kernel s s'" "owns c n s"
  shows "owns c n s'"
  using assms only_kernel_fields(3) [OF assms(1)] only_kernel_running [OF assms(1)]
    calm_pid [OF only_kernel_fields(17) [OF assms(1)]] by (auto simp: owns_def)

text \<open>A call that enters both critical sections and finds them free.\<close>

lemma both_sections:
  assumes "locks 1 1 n s" "running (n_kernel s) c"
  obtains s' where "enter_both fno timer s = Some (Returned (), s')" "only_kernel s s'" "locks 0 0 n s'"
    "running (n_kernel s') c"
  using enter_both_free [OF assms, of fno timer] only_kernel_running assms(2) by blast

section \<open>Sending\<close>

text \<open>The packet \<^verbatim>\<open>send\<close> makes of \<open>len\<close> bytes of \<open>dat\<close>.\<close>

definition is_datagram :: "u16 \<Rightarrow> u16 \<Rightarrow> u8 \<Rightarrow> u8 \<Rightarrow> i8 \<Rightarrow> u8 list \<Rightarrow> i8 \<Rightarrow> NW_Packet \<Rightarrow> bool" where
  "is_datagram src dst sport dport len dat pr p \<longleftrightarrow>
     pkt_src p = src \<and> pkt_dest p = dst \<and> pkt_type p = UDP \<and> pkt_prio p = pr \<and>
     length (pkt_data p) = MAX_NETWORK_PAYLOAD \<and> take 3 (pkt_data p) = [sport, dport, len] \<and>
     take (nat (sint len)) (drop 3 (pkt_data p)) = take (nat (sint len)) dat"

text \<open>
  The socket \<open>n\<close> is a datagram socket of task \<open>c\<close> that has the port \<open>sport\<close>; the buffers of
  the transport layer have their sizes.
\<close>

definition can_send :: "nat \<Rightarrow> i8 \<Rightarrow> u8 \<Rightarrow> net \<Rightarrow> bool" where
  "can_send c n sport s \<longleftrightarrow> owns c n s \<and> (let k = sock s ! nat (sint n) in
     sk_type k = SOCK_DGRAM \<and> sk_pindex k \<noteq> - 1 \<and>
     (\<exists>q. at (ports (n_rx s)) (sint (sk_pindex k)) = Some q \<and> pno q = sport)) \<and>
     length (seg_data (tl_udp_seg s)) = MAX_APP_PAYLOAD \<and> length (pkt_data (tl_pkt s)) = MAX_NETWORK_PAYLOAD \<and>
     length (route_table s) = MAX_NODES"

lemma udp_header_bytes:
  assumes "3 \<le> length xs"
  shows "take 3 (pack_into (pack_TL_UDP_header seg) xs) = [seg_srcPort seg, seg_destPort seg, seg_length seg]"
proof -
  have "take 3 [0 ..< length xs] = [0, 1, 2]" using assms by (auto simp: take_upt upt_rec numeral_3_eq_3)
  then show ?thesis by (simp add: pack_into_def take_map pack_TL_UDP_header_def)
qed

lemma send_queues_datagram:
  assumes can: "can_send c n sport s" and l: "locks 1 1 1 s"
    and len: "0 < sint len" "sint len \<le> int MAX_APP_PAYLOAD" "nat (sint len) \<le> length dat"
    and dest: "0 \<le> sint addr" "0 < sint dport" "sint dport < int MAX_PORT_NUM"
    and pr: "0 < sint pr" "sint pr \<le> MAX_PRIORITY"
    and tx: "tx_holds (n_tx s) ps" "length ps < MAX_TX_QUEUE_SIZE"
  shows "\<exists>s' p. send bmac_tx tx_done n (Some dat) len addr dport pr timer s = Some (Returned NRK_OK, s') \<and>
    is_datagram (NODE_ADDR s) (ucast addr) sport (ucast dport) len dat pr p \<and>
    tx_holds (n_tx s') (pinsert (\<lambda>q. sint (pkt_prio q) < sint pr) p ps) \<and>
    locks 1 1 1 s' \<and> running (n_kernel s') c \<and> NODE_ADDR s' = NODE_ADDR s \<and> host_le s' = host_le s \<and> endian s' = endian s"
proof -
  let ?k = "sock s ! nat (sint n)"
  have own: "owns c n s" using can by (simp add: can_send_def)
  obtain s1 where s1: "enter_both 14 timer s = Some (Returned (), s1)" "only_kernel s s1" "locks 0 0 1 s1"
    "running (n_kernel s1) c" using both_sections [OF l owns_socket(3) [OF own]] by blast
  note f1 = only_kernel_fields [OF s1(2)]
  note own1 = owns_socket [OF owns_only_kernel [OF s1(2) own]]
  have k: "sk_type ?k = SOCK_DGRAM" "sk_pindex ?k \<noteq> - 1" using can by (auto simp: can_send_def Let_def)
  obtain q where q: "at (ports (n_rx s)) (sint (sk_pindex ?k)) = Some q" "pno q = sport"
    using can by (auto simp: can_send_def Let_def)
  define seg where "seg = fill_segment sport (ucast dport) len dat (tl_udp_seg s)"
  define s2 where "s2 = s1\<lparr>tl_udp_seg := seg, tl_pkt := (tl_pkt s)\<lparr>pkt_src := NODE_ADDR s, pkt_dest := ucast addr\<rparr>\<rparr>"
  have l2: "locks 0 0 1 s2" "running (n_kernel s2) c"
    using s1(3,4) locks_cong [of s2 s1 0 0 1] by (simp_all add: s2_def)
  have "length (route_table s2) = MAX_NODES" using can f1 by (simp add: s2_def can_send_def)
  from route_addr_next_hop [OF this l2, of "ucast addr" timer]
  obtain hop s3 where s3: "route_addr (ucast addr) timer s2 = Some (Returned hop, s3)" "only_kernel s2 s3" "locks 0 0 1 s3"
    by blast
  note f3 = only_kernel_fields [OF s3(2)]
  have body: "send_body bmac_tx tx_done n (Some dat) len addr dport pr timer s1 = send_dgram len pr hop s3"
    using own1 k q len dest pr f1 s3(1)
    by (simp add: send_body_def send_mapped_def sock_types and_then_def s2_def seg_def Let_def)
  have seg3: "tl_udp_seg s3 = seg" "tl_pkt s3 = (tl_pkt s)\<lparr>pkt_src := NODE_ADDR s, pkt_dest := ucast addr\<rparr>"
    "NODE_ADDR s3 = NODE_ADDR s" "n_tx s3 = n_tx s" using f1 f3 by (simp_all add: s2_def)
  define p where "p = (tl_pkt s)\<lparr>pkt_src := NODE_ADDR s, pkt_dest := ucast addr, pkt_nextHop := hop,
    pkt_prevHop := NODE_ADDR s, pkt_ttl := MAX_NETWORK_DIAMETER, pkt_type := UDP, pkt_length := 3 + len, pkt_prio := pr,
    pkt_data := take 3 (pack_into (pack_TL_UDP_header seg) (pkt_data (tl_pkt s))) @ seg_data seg\<rparr>"
  have sizes: "length (seg_data (tl_udp_seg s)) = 40" "length (pkt_data (tl_pkt s)) = 43"
    using can by (simp_all add: can_send_def MAX_APP_PAYLOAD_def MAX_NETWORK_PAYLOAD_def)
  have data: "pkt_data p = [sport, ucast dport, len] @ seg_data seg"
    using udp_header_bytes [of "pkt_data (tl_pkt s)" seg] sizes(2) by (simp add: p_def seg_def fill_segment_def)
  have dgram: "is_datagram (NODE_ADDR s) (ucast addr) sport (ucast dport) len dat pr p"
    unfolding is_datagram_def data using sizes(1) len
    by (simp add: p_def seg_def fill_segment_def MAX_NETWORK_PAYLOAD_def MAX_APP_PAYLOAD_def)
  obtain t where t: "insert_tx_aq p (n_tx s) = Some (NRK_OK, t)" "tx_holds t (pinsert (\<lambda>q. tx_key q < tx_key p) p ps)"
    using tx_enq_holds [OF tx(1), of p] tx(2) by (auto simp: tx_room_def)
  have key: "(\<lambda>q. tx_key q < tx_key p) = (\<lambda>q. sint (pkt_prio q) < sint pr)" by (simp add: tx_key_def p_def fun_eq_iff)
  define s4 where "s4 = s3\<lparr>tl_pkt := p, n_tx := t\<rparr>"
  have l4: "locks 0 0 1 s4" "running (n_kernel s4) c"
    using s3(3) only_kernel_running [OF s3(2) l2(2)] locks_cong [of s4 s3 0 0 1] by (simp_all add: s4_def)
  from finish_taken [OF l4, of 14 NRK_OK] obtain s5 where s5: "finish 14 NRK_OK s4 = Some (Returned NRK_OK, s5)"
    "only_kernel s4 s5" "locks 1 1 1 s5" by (elim exE conjE)
  note f5 = only_kernel_fields [OF s5(2)]
  have "send_dgram len pr hop s3 = finish 14 NRK_OK s4"
    using t(1) seg3 by (simp add: send_dgram_def Let_def p_def s4_def)
  then have "send bmac_tx tx_done n (Some dat) len addr dport pr timer s = Some (Returned NRK_OK, s5)"
    using body s1(1) s5(1) by (simp add: send_def and_then_def)
  moreover have "tx_holds (n_tx s5) (pinsert (\<lambda>q. sint (pkt_prio q) < sint pr) p ps)"
    using t(2) f5 by (simp add: s4_def key)
  moreover have "NODE_ADDR s5 = NODE_ADDR s \<and> host_le s5 = host_le s \<and> endian s5 = endian s"
    using f1 f3 f5 by (simp add: s4_def s2_def)
  ultimately show ?thesis using dgram s5(3) only_kernel_running [OF s5(2) l4(2)] by blast
qed

section \<open>On the air\<close>

lemma nl_take_first:
  assumes l: "locks 1 b t s" "running (n_kernel s) c" and tx: "tx_holds (n_tx s) (p # ps)"
  shows "\<exists>s' port. nl_take_packet timer s = Some (Returned (Some (pack_packet (host_le s) (endian s) p, port)), s') \<and>
    tx_holds (n_tx s') ps \<and> locks 1 b t s' \<and> running (n_kernel s') c"
proof -
  obtain a as fs where ok: "tx_ok (n_tx s) (a # as) fs" and n: "length (a # as) + length fs = MAX_TX_QUEUE_SIZE"
    and p: "tb_pkt (n_tx s) a = p" "map (tb_pkt (n_tx s)) as = ps"
    using tx by (auto simp: tx_holds_def map_eq_Cons_conv)
  obtain t1 where t1: "remove_tx_aq (n_tx s) = (Some a, t1)" "tx_ok t1 as fs" "tb_pkt t1 = tb_pkt (n_tx s)"
    using remove_tx_aq_ok [OF ok] by blast
  have a: "a < MAX_TX_QUEUE_SIZE" "a \<notin> set (as @ fs)" using ok by (auto simp: tx_ok_def)
  obtain t2 where t2: "insert_tx_fq a t1 = Some t2" "tx_ok t2 as (fs @ [a])" "\<forall>b \<in> set as. tb_pkt t2 b = tb_pkt t1 b"
    using insert_tx_fq_ok [OF t1(2) a] by blast
  have hold: "tx_holds t2 ps" using t1(3) t2(2,3) p(2) n by (intro tx_holdsI) auto
  obtain s1 where s1: "enter bm_sem 34 timer s = Some (Returned (), s1)" "only_kernel s s1" "locks 0 b t s1"
    using enter_bm [OF l] by blast
  define s1' where "s1' = s1\<lparr>n_tx := t1\<rparr>"
  have r1: "locks 0 b t s1'" "running (n_kernel s1') c"
    using s1(3) only_kernel_running [OF s1(2) l(2)] locks_cong [of s1' s1 0 b t] by (simp_all add: s1'_def)
  obtain s2 where s2: "leave bm_sem 34 s1' = Some s2" "only_kernel s1' s2" "locks 1 b t s2" using leave_bm [OF r1] by blast
  note r2 = only_kernel_running [OF s2(2) r1(2)]
  obtain s3 where s3: "enter bm_sem 34 timer s2 = Some (Returned (), s3)" "only_kernel s2 s3" "locks 0 b t s3"
    using enter_bm [OF s2(3) r2] by blast
  define s3' where "s3' = s3\<lparr>n_tx := t2\<rparr>"
  have r3: "locks 0 b t s3'" "running (n_kernel s3') c"
    using s3(3) only_kernel_running [OF s3(2) r2] locks_cong [of s3' s3 0 b t] by (simp_all add: s3'_def)
  obtain s4 where s4: "leave bm_sem 34 s3' = Some s4" "only_kernel s3' s4" "locks 1 b t s4" using leave_bm [OF r3] by blast
  note f = only_kernel_fields [OF s1(2)] only_kernel_fields [OF s2(2)] only_kernel_fields [OF s3(2)] only_kernel_fields [OF s4(2)]
  have "n_tx s2 = t1" "n_tx s3 = t1" "n_tx s4 = t2" "host_le s2 = host_le s" "endian s2 = endian s" "n_tx s1 = n_tx s"
    using f by (simp_all add: s1'_def s3'_def)
  then have "\<exists>port. nl_take_packet timer s = Some (Returned (Some (pack_packet (host_le s) (endian s) p, port)), s4)"
    using s1(1) s2(1) s3(1) s4(1) t1(1,3) t2(1) p(1)
    by (simp add: nl_take_packet_def and_then_def s1'_def s3'_def)
  then show ?thesis using hold \<open>n_tx s4 = t2\<close> s4(3) only_kernel_running [OF s4(2) r3(2)] by auto
qed

section \<open>Delivering a segment\<close>

text \<open>A port in use has an element whose signal is registered.\<close>

definition listening :: "u8 \<Rightarrow> net \<Rightarrow> bool" where
  "listening p s \<longleftrightarrow> p \<noteq> 0 \<and> length (ports (n_rx s)) = NUM_PORTS \<and>
     (\<exists>j < NUM_PORTS. pno (ports (n_rx s) ! j) = p) \<and>
     (\<forall>j < NUM_PORTS. pno (ports (n_rx s) ! j) = p \<longrightarrow>
        (let sig = data_arrived_signal (ports (n_rx s) ! j) in
           0 \<le> sint sig \<and> sint sig < 32 \<and> bit (nrk_signal_list (n_kernel s)) (nat (sint sig))))"

lemma listening_port:
  assumes "listening p s"
  obtains j where "port_to_port_index p (n_rx s) = of_nat j" "of_nat j \<noteq> NRK_ERROR" "j < NUM_PORTS" "port_taken (unat p) s"
    "at (ports (n_rx s)) (sint (of_nat j :: i8)) = Some (ports (n_rx s) ! j)"
    "0 \<le> sint (data_arrived_signal (ports (n_rx s) ! j))" "sint (data_arrived_signal (ports (n_rx s) ! j)) < 32"
    "bit (nrk_signal_list (n_kernel s)) (nat (sint (data_arrived_signal (ports (n_rx s) ! j))))"
proof -
  have "scan (\<lambda>i. pno (ports (n_rx s) ! i) = p) 0 NUM_PORTS \<noteq> None"
    using assms by (auto simp: listening_def scan_None_iff)
  then obtain j where j: "scan (\<lambda>i. pno (ports (n_rx s) ! i) = p) 0 NUM_PORTS = Some j" by blast
  then have lt: "j < NUM_PORTS" "pno (ports (n_rx s) ! j) = p" by (simp_all add: scan_Some_iff)
  show thesis
  proof (rule that [of j])
    show "port_to_port_index p (n_rx s) = of_nat j" using j by (simp add: port_to_port_index_def)
    show "(of_nat j :: i8) \<noteq> NRK_ERROR" using sint_index [OF lt(1)] by auto
    show "port_taken (unat p) s" using lt by (auto simp: port_taken_def scan_None_iff)
    show "at (ports (n_rx s)) (sint (of_nat j :: i8)) = Some (ports (n_rx s) ! j)"
      using assms lt(1) by (simp add: sint_index listening_def)
  qed (use assms lt in \<open>auto simp: listening_def Let_def\<close>)
qed

lemma port_widened:
  assumes "p \<noteq> (0 :: u8)"
  shows "0 < sint (ucast p :: i16)" "sint (ucast p :: i16) \<le> int MAX_PORT_NUM" "(ucast (ucast p :: i16) :: u8) = p"
proof -
  have lt: "uint p < 256" using uint_lt2p [of p] by simp
  moreover have "0 < uint p" using assms by (simp add: word_neq_0_conv word_less_def)
  moreover have "sint (ucast p :: i16) = uint p"
    using lt signed_take_bit_int_eq_self [of 15 "uint p"] uint_ge_0 [of p]
    by (simp add: sint_uint unsigned_ucast_eq take_bit_int_eq_self)
  ultimately show "0 < sint (ucast p :: i16)" "sint (ucast p :: i16) \<le> int MAX_PORT_NUM"
    by (simp_all add: MAX_PORT_NUM_def)
  show "(ucast (ucast p :: i16) :: u8) = p"
    using lt by (simp add: word_uint_eq_iff unsigned_ucast_eq take_bit_int_eq_self take_bit_word_eq_self)
qed

lemma is_port_associated_taken:
  assumes "listening p s" "locks b 1 n s" "running (n_kernel s) c"
  shows "\<exists>s' k. is_port_associated (ucast p) timer s = Some (Returned 1, s') \<and> s' = s\<lparr>n_kernel := k\<rparr> \<and>
    nrk_signal_list k = nrk_signal_list (n_kernel s) \<and> locks b 1 n s' \<and> running k c"
proof -
  have p: "p \<noteq> 0" using assms(1) by (simp add: listening_def)
  obtain s1 where s1: "enter tl_sem 13 timer s = Some (Returned (), s1)" "only_kernel s s1" "locks b 0 n s1"
    using enter_tl [OF assms(2,3)] by blast
  note r1 = only_kernel_running [OF s1(2) assms(3)]
  note f1 = only_kernel_fields [OF s1(2)]
  have taken: "port_taken (unat p) s1" using f1(1) assms(1) by (elim listening_port) (simp add: port_taken_def)
  define s2 where "s2 = s1\<lparr>n_kernel := upd_tcb c (\<lambda>t. t\<lparr>errno := PORT_UNAVAILABLE\<rparr>) (n_kernel s1)\<rparr>"
  have r2: "locks b 0 n s2" "running (n_kernel s2) c"
    using s1(3) r1 locks_cong [of s2 s1 b 0 n] by (simp_all add: s2_def)
  obtain s3 where s3: "leave tl_sem 13 s2 = Some s3" "only_kernel s2 s3" "locks b 1 n s3" using leave_tl [OF r2] by blast
  obtain k1 where k1: "s1 = s\<lparr>n_kernel := k1\<rparr>" using s1(2) by (rule only_kernelE)
  obtain k3 where k3: "s3 = s2\<lparr>n_kernel := k3\<rparr>" using s3(2) by (rule only_kernelE)
  have "is_port_associated (ucast p) timer s = Some (Returned 1, s3)"
    using port_widened [OF p] s1(1) s3(1) taken r1
    by (simp add: is_port_associated_def and_then_def is_port_associated_body_def check_port_available_def
        set_errno_running s2_def)
  moreover have "s3 = s\<lparr>n_kernel := k3\<rparr>" using k1 k3 by (simp add: s2_def)
  moreover have "nrk_signal_list (n_kernel s3) = nrk_signal_list (n_kernel s)"
    using only_kernel_fields(18) [OF s3(2)] f1(18) by (simp add: s2_def)
  ultimately show ?thesis using s3(3) only_kernel_running [OF s3(2) r2(2)] by (intro exI [of _ s3] exI [of _ k3]) simp
qed

text \<open>The counts of buffers per port stay.\<close>

definition same_totals :: "rx_state \<Rightarrow> rx_state \<Rightarrow> bool" where
  "same_totals s s' \<longleftrightarrow> map countTotal (rx_buf_mgr s') = map countTotal (rx_buf_mgr s)"

lemma same_totals_upd:
  assumes "\<And>m. countTotal (f m) = countTotal m"
  shows "same_totals s (upd_rbm i f s') \<longleftrightarrow> same_totals s s'"
proof -
  let ?p = "map countTotal (rx_buf_mgr s')" and ?j = "nat (sint i)"
  have "?p[?j := countTotal (rx_buf_mgr s' ! ?j)] = ?p"
    by (cases "?j < length ?p") (metis length_map list_update_id nth_map, simp add: list_update_beyond)
  then show ?thesis by (simp add: same_totals_def upd_rbm_def map_update assms)
qed

lemma same_totals_simps [simp]:
  "same_totals s s" "same_totals s (store_seg b seg pr addr rssi s') = same_totals s s'"
  "same_totals s (s'\<lparr>rb_next := n\<rparr>) = same_totals s s'" "same_totals s (s'\<lparr>rb_status := st\<rparr>) = same_totals s s'"
  by (simp_all add: same_totals_def store_seg_def)

lemma insert_rx_pq_totals: "yields (insert_rx_pq seg pr addr rssi s) (same_totals s)"
proof -
  have enqueue: "same_totals s1 (enqueue_seg i b prev ptr seg pr addr rssi s') = same_totals s1 s'" for s1 i b prev ptr s'
    by (simp add: enqueue_seg_def Let_def same_totals_upd split: option.split)
  have remove: "yields (remove_rx_fq i st s1) (\<lambda>(r, s'). same_totals s1 s')" for i st s1
    unfolding remove_rx_fq_def by (intro yields_bind_any) (auto simp: Let_def same_totals_upd split: option.split)
  have replace: "yields (replace_last i t prev ptr seg pr addr rssi s1) (same_totals s)"
    if "same_totals s s1" for i t prev ptr s1
    unfolding replace_last_def using that
    by (intro yields_bind_any) (auto simp: Let_def same_totals_upd split: option.split)
  show ?thesis
    unfolding insert_rx_pq_def
    by (intro yields_bind_any)
       (auto dest!: yieldsD [OF remove] split: option.split prod.split intro!: yields_bind_any replace simp: enqueue)
qed

definition total_at :: "i8 \<Rightarrow> rx_state \<Rightarrow> i8 option" where
  "total_at i s = map_option countTotal (at (rx_buf_mgr s) (sint i))"

lemma same_totals_at: "same_totals s s' \<Longrightarrow> total_at i s' = total_at i s"
  by (simp add: total_at_def same_totals_def flip: at_map)

text \<open>The segment a packet carries.\<close>

definition segment_of :: "net \<Rightarrow> NW_Packet \<Rightarrow> Transport_Segment_UDP" where
  "segment_of s p = (unpack_TL_UDP_header (nl_udp_seg s) (buf_of (pkt_data p)) 0)
     \<lparr>seg_data := take MAX_APP_PAYLOAD (drop 3 (pkt_data p))\<rparr>"

lemma segment_of_datagram:
  assumes "is_datagram src dst sport dport len dat pr p" "nat (sint len) \<le> MAX_APP_PAYLOAD"
  shows "seg_srcPort (segment_of s p) = sport" "seg_destPort (segment_of s p) = dport" "seg_length (segment_of s p) = len"
    "take (nat (sint len)) (seg_data (segment_of s p)) = take (nat (sint len)) dat"
proof -
  have h: "take 3 (pkt_data p) = [sport, dport, len]" using assms(1) by (simp add: is_datagram_def)
  then have "pkt_data p ! 0 = sport" "pkt_data p ! 1 = dport" "pkt_data p ! 2 = len"
    using nth_take [of 0 3 "pkt_data p"] nth_take [of 1 3 "pkt_data p"] nth_take [of 2 3 "pkt_data p"] by simp_all
  then show "seg_srcPort (segment_of s p) = sport" "seg_destPort (segment_of s p) = dport" "seg_length (segment_of s p) = len"
    by (simp_all add: segment_of_def unpack_TL_UDP_header_def buf_of_def numeral_2_eq_2)
  show "take (nat (sint len)) (seg_data (segment_of s p)) = take (nat (sint len)) dat"
    using assms by (simp add: segment_of_def is_datagram_def min_def)
qed

lemma deliver_segment_ok:
  assumes l: "locks 0 0 n s" "running (n_kernel s) c" and port: "listening (seg_destPort (nl_udp_seg s)) s"
    and rx: "rx_holds i (seg_destPort (nl_udp_seg s)) m (n_rx s) xs" "length xs < m"
  shows "\<exists>s'. deliver_segment p rssi s = Some (Returned (), s') \<and> locks 1 1 n s' \<and> sock s' = sock s \<and>
    rx_holds i (seg_destPort (nl_udp_seg s)) m (n_rx s')
      (pinsert (\<lambda>y. rx_key y < sint (pkt_prio p)) (nl_udp_seg s, pkt_prio p, pkt_src p, rssi) xs) \<and>
    total_at i (n_rx s') = total_at i (n_rx s)"
proof -
  let ?seg = "nl_udp_seg s"
  obtain r where r: "insert_rx_pq ?seg (pkt_prio p) (pkt_src p) rssi (n_rx s) = Some r"
    "rx_holds i (seg_destPort ?seg) m r (pinsert (\<lambda>y. rx_key y < sint (pkt_prio p)) (?seg, pkt_prio p, pkt_src p, rssi) xs)"
    using rx_enq_holds [OF rx(1), of "(?seg, pkt_prio p, pkt_src p, rssi)"] rx(2)
    by (auto simp: rx_room_def rx_enq_def rx_key_def)
  have same: "ports r = ports (n_rx s)" "total_at i r = total_at i (n_rx s)"
    using yieldsD [OF insert_rx_pq_ports r(1)] same_totals_at [OF yieldsD [OF insert_rx_pq_totals r(1)]]
    by (simp_all add: same_ports_def)
  obtain j where j: "port_to_port_index (seg_destPort ?seg) (n_rx s) = of_nat j" "(of_nat j :: i8) \<noteq> NRK_ERROR"
    "at (ports (n_rx s)) (sint (of_nat j :: i8)) = Some (ports (n_rx s) ! j)"
    "0 \<le> sint (data_arrived_signal (ports (n_rx s) ! j))" "sint (data_arrived_signal (ports (n_rx s) ! j)) < 32"
    "bit (nrk_signal_list (n_kernel s)) (nat (sint (data_arrived_signal (ports (n_rx s) ! j))))"
    using port by (rule listening_port)
  have pi: "port_to_port_index (seg_destPort ?seg) r = of_nat j"
    using j(1) same(1) by (simp add: port_to_port_index_def)
  obtain ret k where k: "nrk_event_signal (data_arrived_signal (ports (n_rx s) ! j)) (n_kernel s) = Some (ret, k)"
    "running k c" "nrk_sem_list k = nrk_sem_list (n_kernel s)" "if ret = NRK_ERROR then nrk_errno_get k = Some 2 else True"
    using event_signal_in_use [OF l(2) j(4-6)] by blast
  define s1 where "s1 = s\<lparr>n_rx := r, n_kernel := k\<rparr>"
  have l1: "locks 0 0 n s1" "running (n_kernel s1) c"
    using l(1) k(2,3) locks_cong [of s1 s 0 0 n] by (simp_all add: s1_def)
  from finish_taken [OF l1, of 28 "()"] obtain s2 where s2: "finish 28 () s1 = Some (Returned (), s2)"
    "only_kernel s1 s2" "locks 1 1 n s2" by (elim exE conjE)
  have "deliver_segment p rssi s = Some (Returned (), s2)"
    using r(1) pi j(2,3) same(1) k(1,4) s2(1)
    by (cases "ret = NRK_ERROR") (simp_all add: deliver_segment_def Let_def s1_def)
  then show ?thesis using s2(3) only_kernel_fields(1,3) [OF s2(2)] r(2) same(2) by (simp add: s1_def)
qed

lemma process_app_pkt_ok:
  assumes l: "locks 1 1 n s" "running (n_kernel s) c" and p: "is_datagram src dst sport dport len dat pr p"
    "sint len \<le> int MAX_APP_PAYLOAD" "0 < sint len"
    and port: "listening dport s" and rx: "rx_holds i dport m (n_rx s) xs" "length xs < m"
  shows "\<exists>s'. process_app_pkt p rssi timer s = Some (Returned (), s') \<and> locks 1 1 n s' \<and> sock s' = sock s \<and>
    rx_holds i dport m (n_rx s') (pinsert (\<lambda>y. rx_key y < sint pr) (segment_of s p, pr, src, rssi) xs) \<and>
    total_at i (n_rx s') = total_at i (n_rx s)"
proof -
  note seg = segment_of_datagram [OF p(1), of s]
  have small: "nat (sint len) \<le> MAX_APP_PAYLOAD" using p(2) by simp
  have dport: "seg_destPort (segment_of s p) = dport" using seg(2) small by simp
  have k: "pkt_src p = src" "pkt_prio p = pr" "pkt_type p = UDP" using p(1) by (simp_all add: is_datagram_def)
  define s0 where "s0 = s\<lparr>nl_udp_seg := segment_of s p\<rparr>"
  have l0: "locks 1 1 n s0" "running (n_kernel s0) c" "listening dport s0"
    using l port locks_cong [of s0 s 1 1 n] by (simp_all add: s0_def listening_def)
  from is_port_associated_taken [OF l0(3,1,2), of timer] obtain s1 k1 where
    s1: "is_port_associated (ucast dport) timer s0 = Some (Returned 1, s1)" "s1 = s0\<lparr>n_kernel := k1\<rparr>"
    "nrk_signal_list k1 = nrk_signal_list (n_kernel s0)" "locks 1 1 n s1" "running k1 c" by (elim exE conjE)
  have r1: "running (n_kernel s1) c" using s1(2,5) by simp
  obtain s2 where s2: "enter_both 28 timer s1 = Some (Returned (), s2)" "only_kernel s1 s2" "locks 0 0 n s2" "running (n_kernel s2) c"
    using both_sections [OF s1(4) r1] by blast
  note f2 = only_kernel_fields [OF s2(2)]
  have n2: "nl_udp_seg s2 = segment_of s p" "n_rx s2 = n_rx s" "sock s2 = sock s"
    using f2 by (simp_all add: s1(2) s0_def)
  have "listening (seg_destPort (nl_udp_seg s2)) s2"
    using port f2(18) s1(3) n2 by (simp add: dport listening_def s1(2) s0_def)
  from deliver_segment_ok [OF s2(3,4) this, of i m xs p rssi] obtain s3 where
    s3: "deliver_segment p rssi s2 = Some (Returned (), s3)" "locks 1 1 n s3" "sock s3 = sock s2"
    "rx_holds i dport m (n_rx s3) (pinsert (\<lambda>y. rx_key y < sint pr) (segment_of s p, pr, src, rssi) xs)"
    "total_at i (n_rx s3) = total_at i (n_rx s)"
    using rx n2 dport k by auto
  have "seg_destPort (unpack_TL_UDP_header (nl_udp_seg s) (buf_of (pkt_data p)) 0) = dport"
    using dport by (simp add: segment_of_def)
  then have "process_app_pkt p rssi timer s = Some (Returned (), s3)"
    using k(3) s1(1) s2(1) s3(1)
    by (simp add: process_app_pkt_def tl_type_def and_then_def Let_def s0_def segment_of_def [symmetric])
  then show ?thesis using s3(2-5) n2(3) by simp
qed

section \<open>Receiving\<close>

text \<open>The socket \<open>n\<close> of task \<open>c\<close>, without a timeout, has the receive buffers \<open>i\<close>.\<close>

definition can_receive :: "nat \<Rightarrow> i8 \<Rightarrow> i8 \<Rightarrow> net \<Rightarrow> bool" where
  "can_receive c n i s \<longleftrightarrow> owns c n s \<and> (let k = sock s ! nat (sint n) in
     sk_pindex k \<noteq> - 1 \<and> sk_rbmindex k = i \<and> i \<noteq> - 1 \<and> sk_timeout k = no_time)"

lemma receive_first:
  assumes can: "can_receive c n i s" and l: "locks 1 1 1 s"
    and rx: "rx_holds i dport m (n_rx s) (e # es)" and total: "total_at i (n_rx s) = Some (of_nat m)" "m \<le> 127"
  shows "\<exists>s' rc. receive n True timer timer' s = Some (Returned (Some rc), s') \<and> locks 1 1 1 s' \<and>
    e = (rb_seg (n_rx s') (rc_buf rc), rb_prio (n_rx s') (rc_buf rc), rc_srcAddr rc, rc_rssi rc) \<and>
    rc_len rc = seg_length (rb_seg (n_rx s') (rc_buf rc)) \<and> rc_srcPort rc = seg_srcPort (rb_seg (n_rx s') (rc_buf rc))"
proof -
  let ?k = "sock s ! nat (sint n)"
  have own: "owns c n s" and k: "sk_pindex ?k \<noteq> - 1" "sk_rbmindex ?k = i" "i \<noteq> - 1" "sk_timeout ?k = no_time"
    using can by (auto simp: can_receive_def Let_def)
  obtain b ps fs where ok: "port_ok (n_rx s) i (b # ps) fs" and fs: "\<forall>f \<in> set fs. rb_status (n_rx s) f = EMPTY"
    and m: "length (b # ps) + length fs = m" and e: "entry (n_rx s) b = e"
    using rx by (auto simp: rx_holds_def map_eq_Cons_conv)
  obtain r1 where r1: "remove_rx_pq i (n_rx s) = Some (Some b, r1)" "port_ok r1 i ps fs" "entry r1 = entry (n_rx s)"
    "rb_status r1 = rb_status (n_rx s)" using remove_rx_pq_ok [OF ok] by blast
  have b: "b \<notin> set (ps @ fs)" "rb_status (n_rx s) b = FULL" using ok by (auto simp: port_ok_def)
  obtain r2 where r2: "insert_rx_fq b i FULL r1 = Some r2" "entry r2 = entry r1"
    using insert_rx_fq_ok [OF r1(2) b(1), of FULL] b(2) r1(4) by auto
  obtain q where q: "at (rx_buf_mgr (n_rx s)) (sint i) = Some q" "countFree q = of_nat (length fs)" "countTotal q = of_nat m"
  proof -
    obtain q where q: "at (rx_buf_mgr (n_rx s)) (sint i) = Some q"
      "countFree q = of_nat (length (filter (\<lambda>b. rb_status (n_rx s) b = EMPTY) fs))" using ok by (auto simp: port_ok_def)
    moreover have "filter (\<lambda>b. rb_status (n_rx s) b = EMPTY) fs = fs" using fs by (simp add: filter_id_conv)
    moreover have "countTotal q = of_nat m" using total(1) q(1) by (simp add: total_at_def)
    ultimately show thesis using that by simp
  qed
  have small: "sint (of_nat (length fs) :: i8) = int (length fs)" "sint (of_nat m :: i8) = int m"
    using m total(2) by (simp_all add: sint_of_nat_i8)
  have differ: "(of_nat (length fs) :: i8) \<noteq> of_nat m"
  proof
    assume "(of_nat (length fs) :: i8) = of_nat m"
    from arg_cong [OF this, of sint] have "length fs = m" by (simp only: small of_nat_eq_iff)
    then show False using m by simp
  qed
  obtain s1 where s1: "enter_both 16 timer s = Some (Returned (), s1)" "only_kernel s s1" "locks 0 0 1 s1" "running (n_kernel s1) c"
    using both_sections [OF l owns_socket(3) [OF own]] by blast
  note f1 = only_kernel_fields [OF s1(2)]
  note own1 = owns_socket [OF owns_only_kernel [OF s1(2) own]]
  define rc where "rc = \<lparr>rc_buf = b, rc_len = seg_length (rb_seg r2 b), rc_srcAddr = rb_srcAddr r2 b,
      rc_srcPort = seg_srcPort (rb_seg r2 b), rc_rssi = rb_rssi r2 b\<rparr>"
  define s2 where "s2 = s1\<lparr>n_rx := r2\<rparr>"
  have l2: "locks 0 0 1 s2" "running (n_kernel s2) c"
    using s1(3,4) locks_cong [of s2 s1 0 0 1] by (simp_all add: s2_def)
  from finish_taken [OF l2, of 16 "Some rc"] obtain s3 where s3: "finish 16 (Some rc) s2 = Some (Returned (Some rc), s3)"
    "only_kernel s2 s3" "locks 1 1 1 s3" by (elim exE conjE)
  have "receive_body n True timer timer' s1 = finish 16 (Some rc) s2"
    using own1 f1(1,3) k q differ r1(1) r2(1)
    by (simp add: receive_body_def Let_def receive_take_def rc_def s2_def)
  then have "receive n True timer timer' s = Some (Returned (Some rc), s3)"
    using s1(1) s3(1) by (simp add: receive_def and_then_def)
  moreover have "n_rx s3 = r2" using only_kernel_fields(1) [OF s3(2)] by (simp add: s2_def)
  moreover have "e = entry r2 b" using e r1(3) r2(2) by simp
  ultimately show ?thesis using s3(3) by (intro exI [of _ s3] exI [of _ rc]) (simp add: rc_def entry_def)
qed

section \<open>Properties\<close>

text \<open>
  C6: A datagram arrives. A task sends up to 40 bytes from a datagram socket; the transmit queue
  of its node is empty. The packet the network layer then hands to the radio, received by the
  node it is addressed to, puts the segment on the queue of the port, and as soon as a task
  that owns a socket with that port calls \<^verbatim>\<open>receive\<close>, it gets the bytes, their number, the
  address and the port of the sender and the signal strength. The byte orders of the two
  nodes may differ.
\<close>

theorem datagram_delivered:
  assumes sender: "can_send c n sport a" "locks 1 1 1 a" "tx_holds (n_tx a) []" "native (host_le a) (endian a)"
    and args: "0 < sint len" "sint len \<le> int MAX_APP_PAYLOAD" "nat (sint len) \<le> length dat"
      "0 \<le> sint addr" "0 < sint port" "sint port < int MAX_PORT_NUM" "0 < sint pr" "sint pr \<le> MAX_PRIORITY"
    and receiver: "ucast addr = NODE_ADDR b" "native (host_le b) (endian b)" "locks 1 1 1 b" "running (n_kernel b) c'"
      "listening (ucast port) b" "rx_holds i (ucast port) m (n_rx b) []" "total_at i (n_rx b) = Some (of_nat m)"
      "0 < m" "m \<le> 127"
  shows "\<exists>a1 a2 bytes pn b1.
    send bmac_tx tx_done n (Some dat) len addr port pr timer a = Some (Returned NRK_OK, a1) \<and>
    nl_take_packet timer a1 = Some (Returned (Some (bytes, pn)), a2) \<and>
    nl_receive d bytes rssi timer b = Some (Returned (), b1) \<and>
    (\<forall>b2 c2 k timer'. n_rx b2 = n_rx b1 \<longrightarrow> locks 1 1 1 b2 \<longrightarrow> can_receive c2 k i b2 \<longrightarrow>
      (\<exists>b3 rc. receive k True timer timer' b2 = Some (Returned (Some rc), b3) \<and> rc_len rc = len \<and>
        rc_srcAddr rc = NODE_ADDR a \<and> rc_srcPort rc = sport \<and> rc_rssi rc = rssi \<and>
        take (nat (sint len)) (seg_data (rb_seg (n_rx b3) (rc_buf rc))) = take (nat (sint len)) dat))"
proof -
  from send_queues_datagram [OF sender(1,2) args sender(3), of bmac_tx tx_done timer] obtain a1 p where
    a1: "send bmac_tx tx_done n (Some dat) len addr port pr timer a = Some (Returned NRK_OK, a1)"
    "is_datagram (NODE_ADDR a) (ucast addr) sport (ucast port) len dat pr p"
    "tx_holds (n_tx a1) [p]" "locks 1 1 1 a1" "running (n_kernel a1) c" "host_le a1 = host_le a" "endian a1 = endian a"
    by (auto simp: MAX_TX_QUEUE_SIZE_def)
  from nl_take_first [OF a1(4,5,3), of timer] obtain a2 pn where
    a2: "nl_take_packet timer a1 = Some (Returned (Some (pack_packet (host_le a) (endian a) p, pn)), a2)"
    unfolding a1(6,7) by (elim exE conjE)
  have p: "length (pkt_data p) = MAX_NETWORK_PAYLOAD" "pkt_dest p = NODE_ADDR b" "pkt_type p = UDP"
    using a1(2) receiver(1) by (simp_all add: is_datagram_def)
  define b0 where "b0 = b\<lparr>pkt_rx := p\<rparr>"
  have l0: "locks 1 1 1 b0" "running (n_kernel b0) c'" "listening (ucast port) b0"
    "rx_holds i (ucast port) m (n_rx b0) []" "length ([] :: (Transport_Segment_UDP \<times> i8 \<times> u16 \<times> i8) list) < m"
    using receiver locks_cong [of b0 b 1 1 1] by (simp_all add: b0_def listening_def)
  from process_app_pkt_ok [OF l0(1,2) a1(2) args(2,1) l0(3-5), of rssi timer] obtain b1 where
    b1: "process_app_pkt p rssi timer b0 = Some (Returned (), b1)"
    "rx_holds i (ucast port) m (n_rx b1) [(segment_of b0 p, pr, NODE_ADDR a, rssi)]"
    "total_at i (n_rx b1) = total_at i (n_rx b0)" by auto
  have "nl_receive d (pack_packet (host_le a) (endian a) p) rssi timer b = Some (Returned (), b1)"
    using b1(1) p unfolding nl_receive_packet [OF sender(4) receiver(2) p(1)]
    by (simp add: handle_packet_def dispatch_def get_pkt_type_def b0_def)
  moreover have "\<exists>b3 rc. receive k True timer timer' b2 = Some (Returned (Some rc), b3) \<and> rc_len rc = len \<and>
        rc_srcAddr rc = NODE_ADDR a \<and> rc_srcPort rc = sport \<and> rc_rssi rc = rssi \<and>
        take (nat (sint len)) (seg_data (rb_seg (n_rx b3) (rc_buf rc))) = take (nat (sint len)) dat"
    if b2: "n_rx b2 = n_rx b1" "locks 1 1 1 b2" "can_receive c2 k i b2" for b2 c2 k timer'
  proof -
    have "rx_holds i (ucast port) m (n_rx b2) [(segment_of b0 p, pr, NODE_ADDR a, rssi)]" using b1(2) b2(1) by simp
    moreover have "total_at i (n_rx b2) = Some (of_nat m)" using b1(3) b2(1) receiver(7) by (simp add: b0_def)
    ultimately obtain b3 rc where
      b3: "receive k True timer timer' b2 = Some (Returned (Some rc), b3)"
      "(segment_of b0 p, pr, NODE_ADDR a, rssi) =
        (rb_seg (n_rx b3) (rc_buf rc), rb_prio (n_rx b3) (rc_buf rc), rc_srcAddr rc, rc_rssi rc)"
      "rc_len rc = seg_length (rb_seg (n_rx b3) (rc_buf rc))" "rc_srcPort rc = seg_srcPort (rb_seg (n_rx b3) (rc_buf rc))"
      using receive_first [OF b2(3,2) _ _ receiver(9), of "ucast port" _ "[]" timer timer'] by blast
    then show ?thesis using segment_of_datagram [OF a1(2), of b0] args(2) by auto
  qed
  ultimately show ?thesis using a1(1) a2 by blast
qed

definition ex_datagram_socket :: Socket where
  "ex_datagram_socket = \<lparr>sk_pindex = 0, sk_rbmindex = 0, sk_pid = 1, sk_type = SOCK_DGRAM, sk_timeout = no_time\<rparr>"

text \<open>A node whose socket 0 has port 5 with two empty buffers and the wake-up signal.\<close>

definition ex_receiver :: net where
  "ex_receiver = ex_net ((ex_rx (\<lambda>b. EMPTY) (\<lambda>b. 0) [] [0, 1])
     \<lparr>ports := \<lparr>pno = 5, data_arrived_signal = 0, send_done_signal = 0\<rparr> #
        replicate 3 \<lparr>pno = 0, data_arrived_signal = 0, send_done_signal = 0\<rparr>\<rparr>) [ex_datagram_socket]"

lemma ex_net_fields:
  "sock (ex_net r ks) = ks" "n_rx (ex_net r ks) = r" "nrk_signal_list (n_kernel (ex_net r ks)) = 1"
  "nrk_get_pid (n_kernel (ex_net r ks)) = Some 1" "NODE_ADDR (ex_net r ks) = 1"
  "host_le (ex_net r ks)" "endian (ex_net r ks) = LITTLE_ENDIAN"
  by (simp_all add: ex_net_def nrk_get_pid_def cur_tcb_def ex_tasks_def ex_kernel_def)

lemma ex_owns: "owns 1 0 (ex_net r [ex_datagram_socket])"
  using ex_net_running [of r "[ex_datagram_socket]"]
  by (simp add: owns_def bad_sock_num_def NUM_PORTS_def ex_net_fields ex_datagram_socket_def del: One_nat_def)

lemma ex_can_receive: "can_receive 1 0 0 (ex_net r [ex_datagram_socket])"
  unfolding can_receive_def using ex_owns by (simp add: ex_net_fields ex_datagram_socket_def del: One_nat_def)

lemma ex_can_send: "can_send 1 0 5 (ex_receiver\<lparr>n_tx := t, NODE_ADDR := 2\<rparr>)"
proof -
  let ?s = "ex_receiver\<lparr>n_tx := t, NODE_ADDR := 2\<rparr>"
  have "owns 1 0 ?s" using ex_owns [of "n_rx ex_receiver"] by (simp add: owns_def ex_receiver_def ex_net_fields)
  then show ?thesis
    by (simp add: can_send_def ex_receiver_def Let_def del: One_nat_def)
       (simp add: ex_net_def ex_datagram_socket_def at_def ex_packet_def MAX_APP_PAYLOAD_def MAX_NETWORK_PAYLOAD_def MAX_NODES_def)
qed

lemma ex_listening: "listening 5 ex_receiver" "rx_holds 0 5 2 (n_rx ex_receiver) []" "total_at 0 (n_rx ex_receiver) = Some 2"
proof -
  have only: "j = 0" if "j < NUM_PORTS" "pno (ports (n_rx ex_receiver) ! j) = 5" for j
    using that by (cases j) (auto simp: ex_receiver_def ex_net_fields NUM_PORTS_def)
  have first: "pno (ports (n_rx ex_receiver) ! 0) = 5" "data_arrived_signal (ports (n_rx ex_receiver) ! 0) = 0"
    "nrk_signal_list (n_kernel ex_receiver) = 1" "length (ports (n_rx ex_receiver)) = NUM_PORTS" "0 < NUM_PORTS"
    by (simp_all add: ex_receiver_def ex_net_fields NUM_PORTS_def)
  show "listening 5 ex_receiver" unfolding listening_def Let_def
    by (intro conjI allI impI; (drule (1) only)?) (use first in \<open>auto simp: bit_1_iff\<close>)
  have "[0 ..< NUM_PORTS] = 0 # [1 ..< NUM_PORTS]" by (simp add: NUM_PORTS_def upt_rec)
  then have "port_to_rbm_index 5 (n_rx ex_receiver) = Some 0"
    by (simp add: port_to_rbm_index_def ex_receiver_def ex_net_fields ex_rx_def at_def)
  moreover have "port_ok (n_rx ex_receiver) 0 [] [0, 1]"
    using ex_rx_ok [of "[]" "[0, 1]" "\<lambda>b. EMPTY" "\<lambda>b. 0"] by (simp add: ex_receiver_def ex_net_fields port_ok_def)
  ultimately show "rx_holds 0 5 2 (n_rx ex_receiver) []"
    by (rule rx_holdsI) (simp_all add: ex_receiver_def ex_net_fields)
  show "total_at 0 (n_rx ex_receiver) = Some 2"
    by (simp add: total_at_def ex_receiver_def ex_net_fields ex_rx_def at_def)
qed

theorem datagram_delivered_witness:
  "\<forall>d. \<exists>a a1 a2 bytes pn b1 b2 b3 rc.
    send (\<lambda>k. (0, k)) 0 0 (Some [1, 2, 3]) 3 1 5 2 5 a = Some (Returned NRK_OK, a1) \<and>
    nl_take_packet 5 a1 = Some (Returned (Some (bytes, pn)), a2) \<and>
    nl_receive d bytes 60 5 ex_receiver = Some (Returned (), b1) \<and> n_rx b2 = n_rx b1 \<and>
    receive 0 True 5 6 b2 = Some (Returned (Some rc), b3) \<and> rc_srcAddr rc = 2 \<and> rc_srcPort rc = 5 \<and>
    take 3 (seg_data (rb_seg (n_rx b3) (rc_buf rc))) = [1, 2, 3]"
proof
  fix d
  obtain t where t: "tx_holds t []" using initialise_tx_holds by blast
  define a where "a = ex_receiver\<lparr>n_tx := t, NODE_ADDR := 2\<rparr>"
  have r: "locks 1 1 1 ex_receiver" "running (n_kernel ex_receiver) 1"
    unfolding ex_receiver_def by (rule ex_net_locks, rule ex_net_running)
  have s: "can_send 1 0 5 a" "locks 1 1 1 a" "tx_holds (n_tx a) []" "NODE_ADDR a = 2"
    using ex_can_send t r(1) locks_cong [of a ex_receiver 1 1 1] by (simp_all add: a_def)
  have n: "native (host_le a) (endian a)" "native (host_le ex_receiver) (endian ex_receiver)"
    by (simp_all add: a_def ex_receiver_def ex_net_fields native_iff)
  have c: "sint (3 :: i8) = 3" "sint (1 :: 32 word) = 1" "sint (5 :: i16) = 5" "sint (2 :: i8) = 2"
    "(ucast (5 :: i16) :: u8) = 5" "(ucast (1 :: 32 word) :: u16) = NODE_ADDR ex_receiver"
    by (simp_all add: ex_receiver_def ex_net_fields)
  from datagram_delivered [OF s(1-3) n(1), of 3 "[1, 2, 3]" 1 5 2 ex_receiver 1 0 2 "\<lambda>k. (0, k)" 0 5 d 60,
      unfolded c s(4)] obtain a1 a2 bytes pn b1 where
    run: "send (\<lambda>k. (0, k)) 0 0 (Some [1, 2, 3]) 3 1 5 2 5 a = Some (Returned NRK_OK, a1)"
      "nl_take_packet 5 a1 = Some (Returned (Some (bytes, pn)), a2)"
      "nl_receive d bytes 60 5 ex_receiver = Some (Returned (), b1)"
    and rcv: "\<forall>b2 c2 k timer'. n_rx b2 = n_rx b1 \<longrightarrow> locks 1 1 1 b2 \<longrightarrow> can_receive c2 k 0 b2 \<longrightarrow>
      (\<exists>b3 rc. receive k True 5 timer' b2 = Some (Returned (Some rc), b3) \<and> rc_len rc = 3 \<and>
        rc_srcAddr rc = 2 \<and> rc_srcPort rc = 5 \<and> rc_rssi rc = 60 \<and>
        take (nat 3) (seg_data (rb_seg (n_rx b3) (rc_buf rc))) = take (nat 3) [1, 2, 3])"
    using r n(2) ex_listening by (auto simp: MAX_APP_PAYLOAD_def MAX_PORT_NUM_def MAX_PRIORITY_def)
  let ?b = "ex_net (n_rx b1) [ex_datagram_socket]"
  obtain b3 rc where "receive 0 True 5 6 ?b = Some (Returned (Some rc), b3)" "rc_srcAddr rc = 2" "rc_srcPort rc = 5"
    "take (nat 3) (seg_data (rb_seg (n_rx b3) (rc_buf rc))) = take (nat 3) [1, 2, 3]"
    using rcv ex_net_locks ex_can_receive [of "n_rx b1"] ex_net_fields(2) by blast
  then show "\<exists>a a1 a2 bytes pn b1 b2 b3 rc.
    send (\<lambda>k. (0, k)) 0 0 (Some [1, 2, 3]) 3 1 5 2 5 a = Some (Returned NRK_OK, a1) \<and>
    nl_take_packet 5 a1 = Some (Returned (Some (bytes, pn)), a2) \<and>
    nl_receive d bytes 60 5 ex_receiver = Some (Returned (), b1) \<and> n_rx b2 = n_rx b1 \<and>
    receive 0 True 5 6 b2 = Some (Returned (Some rc), b3) \<and> rc_srcAddr rc = 2 \<and> rc_srcPort rc = 5 \<and>
    take 3 (seg_data (rb_seg (n_rx b3) (rc_buf rc))) = [1, 2, 3]"
    using run by (intro exI conjI) (assumption, assumption, assumption, rule ex_net_fields(2), assumption+, simp)
qed

end
