(* ===== verification/Drv_Uart.thy ===== *)
theory Drv_Uart
  imports Net_Locks
begin

text \<open>
  The buffered serial port of the platform, \<^verbatim>\<open>src/src/platform/firefly3/source/ulib.c\<close> with
  \<^verbatim>\<open>NRK_UART_BUF\<close>: a ring buffer the receive interrupt fills and \<^verbatim>\<open>getc0\<close> empties. The
  byte in the data register is a parameter of the interrupt.
\<close>

section \<open>Definitions\<close>

definition MAX_RX_UART_BUF :: nat where "MAX_RX_UART_BUF = 16"

record uart =
  uart_rx_buf :: "u8 list"
  uart_rx_buf_start :: u16
  uart_rx_buf_end :: u16
  uart_rx_signal :: i8

text \<open>\<^verbatim>\<open>SIGNAL(USART0_RX_vect)\<close>\<close>

definition uart_rx_isr :: "u8 \<Rightarrow> uart \<Rightarrow> kernel \<Rightarrow> (uart \<times> kernel) option" where
  "uart_rx_isr c u k = do {
     let k = nrk_int_disable k;
     old \<leftarrow> at (uart_rx_buf u) (uint (uart_rx_buf_end u));
     let u = u\<lparr>uart_rx_buf := (uart_rx_buf u)[unat (uart_rx_buf_end u) := c]\<rparr>;
     let u = u\<lparr>uart_rx_buf_end := uart_rx_buf_end u + 1\<rparr>;
     let u = (if uart_rx_buf_end u = of_nat MAX_RX_UART_BUF then u\<lparr>uart_rx_buf_end := 0\<rparr> else u);
     (r, k) \<leftarrow> nrk_event_signal (uart_rx_signal u) k;
     Some (u, nrk_int_enable k)
   }"

text \<open>The part of \<^verbatim>\<open>getc0\<close> after the wait; \<open>v\<close> is its local variable.\<close>

definition getc0_take :: "i8 \<Rightarrow> uart \<Rightarrow> kernel \<Rightarrow> (u8 outcome \<times> uart \<times> kernel) option" where
  "getc0_take v u k = do {
     let k = (if v = NRK_ERROR then k\<lparr>console := console k @ [Kprintf (''uart rx sig failed'' @ CRLF)]\<rparr> else k);
     tmp \<leftarrow> at (uart_rx_buf u) (uint (uart_rx_buf_start u));
     let u = u\<lparr>uart_rx_buf_start := uart_rx_buf_start u + 1\<rparr>;
     let u = (if of_nat MAX_RX_UART_BUF \<le> uart_rx_buf_start u then u\<lparr>uart_rx_buf_start := 0\<rparr> else u);
     Some (Returned tmp, u, k)
   }"

text \<open>
  \<open>garbage\<close> is the value \<^verbatim>\<open>v\<close> happens to have when there is no wait. The wait gets the
  number of the signal where \<^verbatim>\<open>nrk_event_wait\<close> expects a mask.
\<close>

definition getc0 :: "i8 \<Rightarrow> u8 \<Rightarrow> uart \<Rightarrow> kernel \<Rightarrow> (u8 outcome \<times> uart \<times> kernel) option" where
  "getc0 garbage timer u k =
     (if uart_rx_buf_start u = uart_rx_buf_end u then do {
        (r, k) \<leftarrow> nrk_signal_register (uart_rx_signal u) k;
        (w, k) \<leftarrow> nrk_event_wait (scast (uart_rx_signal u)) timer k;
        case w of
          Blocked \<Rightarrow> Some (Blocked, u, k)
        | Returned m \<Rightarrow> getc0_take (ucast m) u k
      }
      else getc0_take garbage u k)"

definition getc0_resume :: "uart \<Rightarrow> kernel \<Rightarrow> (u8 outcome \<times> uart \<times> kernel) option" where
  "getc0_resume u k = do {
     w \<leftarrow> nrk_event_wait_resume k;
     case w of
       Blocked \<Rightarrow> Some (Blocked, u, k)
     | Returned m \<Rightarrow> getc0_take (ucast m) u k
   }"

text \<open>\<open>rxc1\<close> is the receive flag of the second port.\<close>

definition nrk_uart_data_ready :: "u8 \<Rightarrow> bool \<Rightarrow> uart \<Rightarrow> u8" where
  "nrk_uart_data_ready uart_num rxc1 u =
     (if uart_num = 0 \<and> uart_rx_buf_start u \<noteq> uart_rx_buf_end u then 1
      else if uart_num = 1 \<and> rxc1 then 1 else 0)"

definition nrk_uart_rx_signal_get :: "nrk_cfg \<Rightarrow> uart \<Rightarrow> kernel \<Rightarrow> (i8 \<times> kernel) option" where
  "nrk_uart_rx_signal_get cfg u k = do {
     k \<leftarrow> (if uart_rx_signal u = NRK_ERROR then nrk_error_add cfg NRK_SIGNAL_CREATE_ERROR k else Some k);
     Some (uart_rx_signal u, k)
   }"

section \<open>The ring as a queue\<close>

definition ring_ok :: "uart \<Rightarrow> bool" where
  "ring_ok u \<longleftrightarrow> length (uart_rx_buf u) = MAX_RX_UART_BUF \<and> unat (uart_rx_buf_start u) < MAX_RX_UART_BUF \<and>
     unat (uart_rx_buf_end u) < MAX_RX_UART_BUF"

text \<open>The bytes that have arrived and have not been read.\<close>

definition pending :: "uart \<Rightarrow> u8 list" where
  "pending u = map (\<lambda>i. uart_rx_buf u ! ((unat (uart_rx_buf_start u) + i) mod MAX_RX_UART_BUF))
     [0 ..< (unat (uart_rx_buf_end u) + MAX_RX_UART_BUF - unat (uart_rx_buf_start u)) mod MAX_RX_UART_BUF]"

lemma mod_small: "x < 32 \<Longrightarrow> x mod 16 = (if x < 16 then x else x - (16 :: nat))"
  by (simp add: le_mod_geq)

lemma ring_arith:
  assumes "s < 16" "e < 16" "n = (e + 16 - s) mod (16 :: nat)"
  shows "(s + n) mod 16 = e" "n < 16" "(if e + 1 = 16 then 0 else e + 1) = (e + 1) mod 16"
    "((e + 1) mod 16 + 16 - s) mod 16 = (if n < 15 then n + 1 else 0)"
    "0 < n \<Longrightarrow> (e + 16 - (s + 1) mod 16) mod 16 = n - 1" "i < n \<Longrightarrow> (s + i) mod 16 \<noteq> e"
proof -
  have n: "n = (if s \<le> e then e - s else e + 16 - s)" using assms by (simp add: mod_small)
  show "(s + n) mod 16 = e" "n < 16" using assms(1,2) by (auto simp: n mod_small)
  show "(if e + 1 = 16 then 0 else e + 1) = (e + 1) mod 16" using assms(2) by (simp add: mod_small)
  show "((e + 1) mod 16 + 16 - s) mod 16 = (if n < 15 then n + 1 else 0)"
    using assms(1,2) by (auto simp: n mod_small)
  show "(e + 16 - (s + 1) mod 16) mod 16 = n - 1" if "0 < n"
    using assms(1,2) that by (auto simp: n mod_small split: if_splits)
  show "(s + i) mod 16 \<noteq> e" if "i < n" using assms(1,2) that by (auto simp: n mod_small split: if_splits)
qed

lemma pending_shift:
  assumes "s < 16" "0 < n"
  shows "map (\<lambda>i. f ((s + i) mod 16)) [0 ..< n] = f s # map (\<lambda>i. f (((s + 1) mod 16 + i) mod (16 :: nat))) [0 ..< n - 1]"
proof -
  have "[0 ..< n] = 0 # map Suc [0 ..< n - 1]" using assms(2) by (simp add: map_Suc_upt upt_conv_Cons)
  moreover have "(s + Suc i) mod 16 = ((s + 1) mod 16 + i) mod 16" for i by (simp add: mod_simps)
  ultimately show ?thesis using assms(1) by (simp add: comp_def)
qed

text \<open>Stepping an index on, with the wrap the code uses.\<close>

lemma unat_step:
  assumes "unat (w :: u16) < 16"
  shows "unat (if w + 1 = 16 then 0 else w + 1) = (unat w + 1) mod 16"
    "unat (if 16 \<le> w + 1 then 0 else w + 1) = (unat w + 1) mod 16"
proof -
  have u: "unat (w + 1) = unat w + 1" using assms by (subst unat_word_ariths) simp
  have "w + 1 = 16 \<longleftrightarrow> unat w + 1 = 16" using u by (simp add: word_unat_eq_iff)
  moreover have "16 \<le> w + 1 \<longleftrightarrow> 16 \<le> unat w + 1" using u by (simp add: word_le_nat_alt)
  ultimately show "unat (if w + 1 = 16 then 0 else w + 1) = (unat w + 1) mod 16"
    "unat (if 16 \<le> w + 1 then 0 else w + 1) = (unat w + 1) mod 16" using u assms by (auto simp: mod_small)
qed

lemma isr_pending:
  assumes ok: "ring_ok u" and sig: "running k c" "0 \<le> sint (uart_rx_signal u)" "sint (uart_rx_signal u) < 32"
    "bit (nrk_signal_list k) (nat (sint (uart_rx_signal u)))"
  shows "\<exists>u' k'. uart_rx_isr b u k = Some (u', k') \<and> ring_ok u' \<and>
    pending u' = (if length (pending u) < 15 then pending u @ [b] else [])"
proof -
  define s where "s = unat (uart_rx_buf_start u)"
  define e where "e = unat (uart_rx_buf_end u)"
  define n where "n = (e + 16 - s) mod 16"
  have lt: "s < 16" "e < 16" "length (uart_rx_buf u) = 16" using ok by (simp_all add: ring_ok_def s_def e_def MAX_RX_UART_BUF_def)
  note ar = ring_arith [OF lt(1,2) n_def]
  define u' where "u' = u\<lparr>uart_rx_buf := (uart_rx_buf u)[e := b],
    uart_rx_buf_end := (if uart_rx_buf_end u + 1 = 16 then 0 else uart_rx_buf_end u + 1)\<rparr>"
  have e': "unat (uart_rx_buf_end u') = (e + 1) mod 16" using unat_step(1) lt(2) by (simp add: u'_def e_def)
  have "running (nrk_int_disable k) c" using sig(1) by (simp add: running_def)
  from event_signal_in_use [OF this sig(2,3)] sig(4) obtain r k' where
    "nrk_event_signal (uart_rx_signal u) (nrk_int_disable k) = Some (r, k')" by (auto simp: nrk_int_disable_def)
  then have "uart_rx_isr b u k = Some (u', nrk_int_enable k')"
    using lt by (simp add: uart_rx_isr_def u'_def e_def MAX_RX_UART_BUF_def at_uint_iff)
  moreover have "ring_ok u'" using ok e' by (simp add: ring_ok_def MAX_RX_UART_BUF_def u'_def [symmetric]) (simp add: u'_def)
  moreover have "pending u' = (if length (pending u) < 15 then pending u @ [b] else [])"
  proof -
    have p: "pending u = map (\<lambda>i. uart_rx_buf u ! ((s + i) mod 16)) [0 ..< n]"
      by (simp add: pending_def s_def e_def n_def MAX_RX_UART_BUF_def)
    have "pending u' = map (\<lambda>i. (uart_rx_buf u)[e := b] ! ((s + i) mod 16)) [0 ..< if n < 15 then n + 1 else 0]"
      using ar(4) e' by (simp add: pending_def MAX_RX_UART_BUF_def) (simp add: u'_def s_def)
    also have "\<dots> = (if n < 15 then pending u @ [b] else [])"
      using ar(1) ar(6) [THEN not_sym] lt by (auto simp: p)
    finally show ?thesis by (simp add: p)
  qed
  ultimately show ?thesis by blast
qed

lemma take_pending:
  assumes ok: "ring_ok u" and xs: "pending u = x # xs"
  shows "\<exists>u' k'. getc0_take v u k = Some (Returned x, u', k') \<and> ring_ok u' \<and> pending u' = xs"
proof -
  define s where "s = unat (uart_rx_buf_start u)"
  define e where "e = unat (uart_rx_buf_end u)"
  define n where "n = (e + 16 - s) mod 16"
  have lt: "s < 16" "e < 16" "length (uart_rx_buf u) = 16" using ok by (simp_all add: ring_ok_def s_def e_def MAX_RX_UART_BUF_def)
  note ar = ring_arith [OF lt(1,2) n_def]
  have p: "pending u = map (\<lambda>i. uart_rx_buf u ! ((s + i) mod 16)) [0 ..< n]"
    by (simp add: pending_def s_def e_def n_def MAX_RX_UART_BUF_def)
  then have "0 < n" using xs by (cases n) auto
  note shift = pending_shift [OF lt(1) this, of "(!) (uart_rx_buf u)"]
  define u' where "u' = u\<lparr>uart_rx_buf_start := (if 16 \<le> uart_rx_buf_start u + 1 then 0 else uart_rx_buf_start u + 1)\<rparr>"
  have s': "unat (uart_rx_buf_start u') = (s + 1) mod 16" using unat_step(2) lt(1) by (simp add: u'_def s_def)
  have "\<exists>k'. getc0_take v u k = Some (Returned (uart_rx_buf u ! s), u', k')"
    using lt by (simp add: getc0_take_def Let_def u'_def s_def MAX_RX_UART_BUF_def at_uint_iff)
  moreover have "uart_rx_buf u ! s = x" using shift p xs by simp
  moreover have "ring_ok u'" using ok s' by (simp add: ring_ok_def MAX_RX_UART_BUF_def u'_def [symmetric]) (simp add: u'_def)
  moreover have "pending u' = xs"
  proof -
    have "pending u' = map (\<lambda>i. uart_rx_buf u ! (((s + 1) mod 16 + i) mod 16)) [0 ..< n - 1]"
      using ar(5) \<open>0 < n\<close> s' by (simp add: pending_def MAX_RX_UART_BUF_def) (simp add: u'_def e_def)
    then show ?thesis using shift p xs by simp
  qed
  ultimately show ?thesis by blast
qed

lemma empty_ring: "ring_ok u \<Longrightarrow> uart_rx_buf_start u = uart_rx_buf_end u \<longleftrightarrow> pending u = []"
proof -
  assume "ring_ok u"
  then have "unat (uart_rx_buf_start u) < 16" "unat (uart_rx_buf_end u) < 16" by (simp_all add: ring_ok_def MAX_RX_UART_BUF_def)
  then show ?thesis by (auto simp: pending_def MAX_RX_UART_BUF_def mod_small word_unat_eq_iff split: if_splits)
qed

section \<open>Properties\<close>

text \<open>
  C37: The ring buffer of the serial port is a queue of at most 15 bytes. The interrupt appends
  the byte that has arrived, \<^verbatim>\<open>getc0\<close> returns the oldest pending byte and removes it. A
  byte that arrives while 15 are pending makes the ring look empty: all of them are lost.
\<close>

theorem uart_ring_is_queue:
  assumes "ring_ok u" "running k c" "0 \<le> sint (uart_rx_signal u)" "sint (uart_rx_signal u) < 32"
    "bit (nrk_signal_list k) (nat (sint (uart_rx_signal u)))"
  shows "(\<exists>u' k'. uart_rx_isr b u k = Some (u', k') \<and> ring_ok u' \<and>
      pending u' = (if length (pending u) < 15 then pending u @ [b] else [])) \<and>
    (\<forall>x xs. pending u = x # xs \<longrightarrow>
      (\<exists>u' k'. getc0 garbage timer u k = Some (Returned x, u', k') \<and> ring_ok u' \<and> pending u' = xs))"
proof (intro conjI allI impI)
  show "\<exists>u' k'. uart_rx_isr b u k = Some (u', k') \<and> ring_ok u' \<and>
      pending u' = (if length (pending u) < 15 then pending u @ [b] else [])"
    by (rule isr_pending [OF assms])
  fix x xs assume xs: "pending u = x # xs"
  then have "getc0 garbage timer u k = getc0_take garbage u k" using empty_ring [OF assms(1)] by (simp add: getc0_def)
  then show "\<exists>u' k'. getc0 garbage timer u k = Some (Returned x, u', k') \<and> ring_ok u' \<and> pending u' = xs"
    using take_pending [OF assms(1) xs] by simp
qed

definition ex_uart :: uart where
  "ex_uart = \<lparr>uart_rx_buf = 7 # 8 # replicate 14 0, uart_rx_buf_start = 0, uart_rx_buf_end = 2, uart_rx_signal = 0\<rparr>"

theorem uart_ring_is_queue_witness:
  "\<exists>u' k'. uart_rx_isr 9 ex_uart (ex_kernel 1) = Some (u', k') \<and> pending u' = [7, 8, 9]"
proof -
  have sig: "0 \<le> sint (uart_rx_signal ex_uart)" "sint (uart_rx_signal ex_uart) < 32"
    "bit (nrk_signal_list (ex_kernel 1)) (nat (sint (uart_rx_signal ex_uart)))" by (simp_all add: ex_uart_def)
  have p: "pending ex_uart = [7, 8]" by code_simp
  have "ring_ok ex_uart" by (simp add: ring_ok_def ex_uart_def MAX_RX_UART_BUF_def)
  have "running (ex_kernel 1) 1" by (rule ex_running) simp
  from uart_ring_is_queue [OF \<open>ring_ok ex_uart\<close> this sig, of 9 0 0] show ?thesis by (auto simp: p)
qed

text \<open>
  An empty ring. The wait gets the number of the signal as mask, which has no bit in common
  with the registered signals when the number is, say, 1 and only the signal itself is
  registered: \<^verbatim>\<open>getc0\<close> does not wait, returns a stale byte, and 15 bytes seem pending.
\<close>

lemma getc0_no_wait:
  assumes ok: "ring_ok u" "pending u = []" and sig: "uart_rx_signal u = 1" "bit (nrk_signal_list k) 1"
    and run: "running k c" "registered_signal_mask (nrk_task_TCB k ! c) = 2"
  shows "\<exists>x u' k'. getc0 garbage timer u k = Some (Returned x, u', k') \<and> length (pending u') = 15"
proof -
  have "unat (uart_rx_buf_start u) < 16" using ok(1) by (simp add: ring_ok_def MAX_RX_UART_BUF_def)
  note step = unat_step(2) [OF this]
  have same: "uart_rx_buf_start u = uart_rx_buf_end u" using empty_ring [OF ok(1)] ok(2) by simp
  have two: "2 AND nrk_signal_list k \<noteq> 0" using sig(2) and_pow2 [of 1 "nrk_signal_list k"] by simp
  have "SIG (1 :: i8) = Some 2" by (simp add: SIG_def)
  then have "nrk_signal_register (uart_rx_signal u) k = Some (NRK_OK, upd_tcb c (\<lambda>t. t\<lparr>registered_signal_mask := registered_signal_mask t OR 2\<rparr>) k)"
    using two run by (simp add: nrk_signal_register_def sig(1))
  moreover have "nrk_event_wait (scast (uart_rx_signal u)) timer (upd_tcb c (\<lambda>t. t\<lparr>registered_signal_mask := registered_signal_mask t OR 2\<rparr>) k) =
      Some (Returned 0, upd_tcb c (\<lambda>t. t\<lparr>registered_signal_mask := registered_signal_mask t OR 2\<rparr>) k)"
    using run by (auto simp: nrk_event_wait_def sig(1) running_def)
  ultimately have "getc0 garbage timer u k = getc0_take 0 u (upd_tcb c (\<lambda>t. t\<lparr>registered_signal_mask := registered_signal_mask t OR 2\<rparr>) k)"
    using same by (simp add: getc0_def)
  moreover have "length (pending (u\<lparr>uart_rx_buf_start :=
      if 16 \<le> uart_rx_buf_start u + 1 then 0 else uart_rx_buf_start u + 1\<rparr>)) = 15"
    using step same ok(1) by (auto simp: pending_def MAX_RX_UART_BUF_def ring_ok_def mod_small)
  ultimately show ?thesis using ok(1)
    by (auto simp: getc0_take_def Let_def MAX_RX_UART_BUF_def ring_ok_def at_uint_iff split: if_splits)
qed

end
