(* ===== verification/Net_Slip.thy ===== *)
theory Net_Slip
  imports Drv_Uart
begin

text \<open>
  Framing on the serial line, \<^verbatim>\<open>src/src/net/slip/slip.c\<close>. What has been written is a list of
  bytes; what \<^verbatim>\<open>get_byte\<close> returns is a list too, the bytes in the order in which they arrive,
  and a call that needs more of them waits.
\<close>

section \<open>Definitions\<close>

definition ESC :: u8 where "ESC = 0xDB"
definition END_BYTE :: u8 where "END_BYTE = 0xC0"
definition ESC_END :: u8 where "ESC_END = 0xDC"
definition ESC_ESC :: u8 where "ESC_ESC = 0xDD"
definition START :: u8 where "START = 0xC1"

lemmas slip_bytes = ESC_def END_BYTE_def ESC_END_def ESC_ESC_def START_def

record slip =
  dv_out :: "u8 list"
  g_echo :: bool
  g_delay :: u8
  slip_started :: i8
  slip_tx_sem :: "nat option"

text \<open>A failed creation is not noticed: the pointer is compared with \<^verbatim>\<open>NRK_ERROR\<close>.\<close>

definition slip_init :: "bool \<Rightarrow> u8 \<Rightarrow> slip \<Rightarrow> kernel \<Rightarrow> (i8 \<times> slip \<times> kernel) option" where
  "slip_init echo delay s k = do {
     (sem, k) \<leftarrow> nrk_sem_create 1 255 k;
     Some (NRK_OK, s\<lparr>g_echo := echo, g_delay := delay, slip_tx_sem := sem, slip_started := NRK_OK\<rparr>, k)
   }"

definition put_byte :: "u8 \<Rightarrow> slip \<Rightarrow> slip" where
  "put_byte c s = s\<lparr>dv_out := dv_out s @ [c]\<rparr>"

text \<open>The loop over the payload, with the checksum.\<close>

fun put_payload :: "u8 list \<Rightarrow> u8 \<Rightarrow> slip \<Rightarrow> u8 \<times> slip" where
  "put_payload [] checksum s = (checksum, s)"
| "put_payload (b # bs) checksum s =
     (if b = END_BYTE then put_payload bs (checksum + END_BYTE) (put_byte ESC_END (put_byte ESC s))
      else if b = ESC then put_payload bs (checksum + ESC) (put_byte ESC_ESC (put_byte ESC s))
      else put_payload bs (checksum + b) (put_byte b s))"

text \<open>After the semaphore has been waited for.\<close>

definition slip_tx_body :: "u8 list \<Rightarrow> u8 \<Rightarrow> i8 \<Rightarrow> slip \<Rightarrow> kernel \<Rightarrow> (i8 \<times> slip \<times> kernel) option" where
  "slip_tx_body buf n v s k =
     (if v = NRK_ERROR then do {
        k \<leftarrow> nrk_errno_set 1
          (k\<lparr>console := console k @ [Kprintf (''SLIP TX ERROR:  Access to semaphore failed'' @ CRLF)]\<rparr>);
        Some (NRK_ERROR, s, k)
      }
      else if length buf < unat n then None
      else do {
        let s = put_byte n (put_byte START (put_byte END_BYTE s));
        let (checksum, s) = put_payload (take (unat n) buf) 0 s;
        let s = put_byte END_BYTE (put_byte (checksum AND 0x7F) s);
        (v, k) \<leftarrow> nrk_sem_post (slip_tx_sem s) k;
        if v = NRK_ERROR then do {
          k \<leftarrow> nrk_errno_set 2
            (k\<lparr>console := console k @ [Kprintf (''SLIP TX ERROR:  Release of semaphore failed'' @ CRLF)]\<rparr>);
          Some (NRK_ERROR, s, k)
        }
        else Some (NRK_OK, s, k)
      })"

definition slip_tx :: "u8 list \<Rightarrow> u8 \<Rightarrow> u8 \<Rightarrow> slip \<Rightarrow> kernel \<Rightarrow> (i8 outcome \<times> slip \<times> kernel) option" where
  "slip_tx buf n timer s k =
     (if 128 < uint n then do { k \<leftarrow> nrk_errno_set 3 k; Some (Returned NRK_ERROR, s, k) }
      else do {
        (r, k) \<leftarrow> nrk_sem_pend (slip_tx_sem s) timer k;
        case r of
          Blocked \<Rightarrow> Some (Blocked, s, k)
        | Returned v \<Rightarrow> do { (r, s, k) \<leftarrow> slip_tx_body buf n v s k; Some (Returned r, s, k) }
      })"

text \<open>
  Receiving. \<open>hunt\<close> reads up to the start byte. In \<open>rx_loop\<close>, \<open>c\<close> is the byte read last,
  \<open>got\<close> what has been stored in the buffer; the result is the value returned, the buffer, the
  messages printed and the bytes left. \<open>None\<close>: more bytes have to arrive.
\<close>

fun hunt :: "u8 list \<Rightarrow> u8 list option" where
  "hunt [] = None"
| "hunt (c # cs) = (if c = START then Some cs else hunt cs)"

definition store_byte :: "u8 \<Rightarrow> u8 \<Rightarrow> u8 \<Rightarrow> u8 list \<times> u8 \<Rightarrow> u8 list \<times> u8" where
  "store_byte max_len n c st =
     (let (got, checksum) = st
      in if length got < unat max_len \<and> length got < unat n then (got @ [c], checksum + c) else (got, checksum))"

fun rx_loop :: "u8 \<Rightarrow> u8 \<Rightarrow> u8 \<Rightarrow> u8 list \<times> u8 \<Rightarrow> u8 list \<Rightarrow> (i8 \<times> u8 list \<times> out_event list \<times> u8 list) option" where
  "rx_loop max_len n c st [] = None"
| "rx_loop max_len n c st (x # xs) =
     (let last_c = c; (got, checksum) = st
      in if x = END_BYTE then
        let sum = (if got \<noteq> [] then checksum AND 0x7F else checksum)
        in if got \<noteq> [] \<and> last_c = sum then Some (of_nat (length got), got, [], xs)
           else Some (NRK_ERROR, got,
             [Kprintf ''Checksum failed: '',
              Printf (''%d %d %d'' @ CRLF) [int (length got), uint last_c, uint sum]], xs)
      else if x = ESC then
        (case xs of
           [] \<Rightarrow> None
         | y # ys \<Rightarrow>
             if y = ESC_ESC then rx_loop max_len n ESC (store_byte max_len n ESC st) ys
             else if y = ESC_END then rx_loop max_len n END_BYTE (store_byte max_len n END_BYTE st) ys
             else Some (NRK_ERROR, got, [Kprintf (''Malformed ESC sequence'' @ CRLF)], ys))
      else rx_loop max_len n x (store_byte max_len n x st) xs)"

definition slip_rx_frame :: "u8 \<Rightarrow> u8 list \<Rightarrow> (i8 \<times> u8 list \<times> out_event list \<times> u8 list) option" where
  "slip_rx_frame max_len bytes = do {
     bytes \<leftarrow> hunt bytes;
     case bytes of [] \<Rightarrow> None | n # bytes \<Rightarrow> rx_loop max_len n START ([], 0) bytes
   }"

definition slip_rx :: "nrk_cfg \<Rightarrow> uart \<Rightarrow> u8 \<Rightarrow> u8 list \<Rightarrow> kernel \<Rightarrow> ((i8 \<times> u8 list \<times> u8 list) outcome \<times> kernel) option" where
  "slip_rx cfg u max_len bytes k = do {
     (sig, k) \<leftarrow> nrk_uart_rx_signal_get cfg u k;
     let k = (if sig = NRK_ERROR then k\<lparr>console := console k @ [Kprintf (''SLIP RX error: Get Signal'' @ CRLF)]\<rparr> else k);
     (v, k) \<leftarrow> nrk_signal_register sig k;
     let k = (if v = NRK_ERROR then k\<lparr>console := console k @ [Kprintf (''SLIP RX error: nrk_signal_register'' @ CRLF)]\<rparr> else k);
     case slip_rx_frame max_len bytes of
       None \<Rightarrow> Some (Blocked, k)
     | Some (r, got, es, rest) \<Rightarrow> Some (Returned (r, got, rest), k\<lparr>console := console k @ es\<rparr>)
   }"

section \<open>Frames\<close>

definition stuff :: "u8 \<Rightarrow> u8 list" where
  "stuff b = (if b = END_BYTE then [ESC, ESC_END] else if b = ESC then [ESC, ESC_ESC] else [b])"

text \<open>A frame with the payload \<open>xs\<close> and the checksum byte \<open>c\<close>.\<close>

definition frame :: "u8 list \<Rightarrow> u8 \<Rightarrow> u8 list" where
  "frame xs c = [END_BYTE, START, of_nat (length xs)] @ concat (map stuff xs) @ [c, END_BYTE]"

lemma put_payload_stuff:
  "put_payload xs c s = (c + sum_list xs, s\<lparr>dv_out := dv_out s @ concat (map stuff xs)\<rparr>)"
  by (induction xs c s rule: put_payload.induct) (simp_all add: put_byte_def stuff_def add.assoc)

lemma store_all:
  "fold (store_byte m n) xs (got, c) =
    (let k = min (unat m) (unat n) - length got in (got @ take k xs, c + sum_list (take k xs)))"
proof (induction xs arbitrary: got c)
  case (Cons x xs)
  show ?case
  proof (cases "length got < unat m \<and> length got < unat n")
    case True
    then obtain k where "min (unat m) (unat n) - length got = Suc k" by (metis Suc_pred min_less_iff_conj zero_less_diff)
    moreover from this have "min (unat m) (unat n) - length (got @ [x]) = k" by simp
    ultimately show ?thesis using True Cons by (simp add: store_byte_def Let_def add.assoc)
  next
    case False
    then have "min (unat m) (unat n) - length got = 0" by auto
    then show ?thesis using False Cons by (simp add: store_byte_def)
  qed
qed simp

lemma rx_loop_stuffed:
  "rx_loop m n c st (concat (map stuff xs) @ rest) = rx_loop m n (last (c # xs)) (fold (store_byte m n) xs st) rest"
proof (induction xs arbitrary: c st)
  case (Cons x xs)
  have "rx_loop m n c st (stuff x @ ys) = rx_loop m n x (store_byte m n x st) ys" for ys
    by (cases st) (simp add: stuff_def slip_bytes)
  then show ?case using Cons by simp
qed simp

lemma hunt_skip: "START \<notin> set pre \<Longrightarrow> hunt (pre @ START # xs) = Some xs"
  by (induction pre) auto

text \<open>What the receiver makes of a frame, for any checksum byte below 128.\<close>

lemma slip_rx_any_frame:
  assumes "START \<notin> set pre" "length xs < 256" "unat c < 128"
  shows "slip_rx_frame m (pre @ frame xs c @ rest) =
    (let got = take (unat m) xs; sum = sum_list got
     in if got \<noteq> [] \<and> c = sum AND 0x7F then Some (of_nat (length got), got, [], rest)
        else Some (NRK_ERROR, got, [Kprintf ''Checksum failed: '', Printf (''%d %d %d'' @ CRLF)
          [int (length got), uint c, uint (if got \<noteq> [] then sum AND 0x7F else sum)]], rest))"
proof -
  have h: "hunt (pre @ frame xs c @ rest) = Some (of_nat (length xs) # concat (map stuff xs) @ [c, END_BYTE] @ rest)"
    using hunt_skip [of "pre @ [END_BYTE]"] assms(1) by (simp add: frame_def slip_bytes)
  have c: "c \<noteq> END_BYTE" "c \<noteq> ESC" using assms(3) by (auto simp: slip_bytes)
  have len: "unat (of_nat (length xs) :: u8) = length xs" using assms(2) by (simp add: unsigned_of_nat take_bit_nat_eq_self)
  have st: "fold (store_byte m (of_nat (length xs))) xs ([], 0) = (take (unat m) xs, sum_list (take (unat m) xs))"
    by (simp add: store_all len Let_def min_def)
  have full: "store_byte m (of_nat (length xs)) c (take (unat m) xs, z) = (take (unat m) xs, z)" for z
    by (simp add: store_byte_def len)
  show ?thesis
    unfolding slip_rx_frame_def h by (simp add: rx_loop_stuffed st full c Let_def)
qed

section \<open>Properties\<close>

text \<open>A call that finds the semaphore free.\<close>

lemma slip_tx_frame:
  assumes "slip_tx_sem s = Some i" "mutex_free i k" "running k c" "length xs \<le> 128"
  shows "\<exists>s' k'. slip_tx xs (of_nat (length xs)) timer s k = Some (Returned NRK_OK, s', k') \<and>
    dv_out s' = dv_out s @ frame xs (sum_list xs AND 0x7F) \<and> mutex_free i k'"
proof -
  have n: "unat (of_nat (length xs) :: u8) = length xs" using assms(4) by (simp add: unsigned_of_nat take_bit_nat_eq_self)
  obtain k1 where k1: "nrk_sem_pend (Some i) timer k = Some (Returned NRK_OK, k1)" "calm k k1"
    "nrk_sem_list k1 = (nrk_sem_list k)[i := (nrk_sem_list k ! i)\<lparr>sem_value := 0\<rparr>]"
    using sem_pend_calm [OF assms(2,3)] by blast
  have "i < NRK_MAX_RESOURCE_CNT k1" "NRK_MAX_RESOURCE_CNT k1 \<le> 127" "sem_count (nrk_sem_list k1 ! i) = 1"
    "sem_value (nrk_sem_list k1 ! i) = 0" using assms(2) k1(3) by (simp_all add: mutex_free_def)
  from sem_post_calm [OF this(1,2) calm_running [OF k1(2) assms(3)] this(3,4)] obtain k2 where
    k2: "nrk_sem_post (Some i) k1 = Some (NRK_OK, k2)"
    "nrk_sem_list k2 = (nrk_sem_list k1)[i := (nrk_sem_list k1 ! i)\<lparr>sem_value := 1\<rparr>]" by blast
  have "mutex_free i k2" using assms(2) k1(3) k2(2) by (simp add: mutex_free_def)
  moreover have "uint (of_nat (length xs) :: u8) \<le> 128" using n assms(4) by (simp add: uint_nat)
  ultimately show ?thesis using k1(1) k2(1) assms(1) n
    by (simp add: slip_tx_def slip_tx_body_def put_payload_stuff put_byte_def frame_def)
qed


definition ex_slip :: slip where
  "ex_slip = \<lparr>dv_out = [], g_echo = False, g_delay = 0, slip_started = NRK_OK, slip_tx_sem = Some 0\<rparr>"


text \<open>
  Which frames are accepted. A frame with the payload \<open>ys\<close>, at most 127 bytes, and a
  checksum byte below 128 is accepted just when some byte is stored and the checksum byte
  agrees with the sum of the stored bytes modulo 128; a change of a byte by 128 goes
  unnoticed. Bytes that do not fit the buffer are dropped and not summed.
\<close>

theorem slip_rx_accepts:
  assumes "START \<notin> set pre" "length ys \<le> 127" "unat c < 128"
  shows "\<exists>r got es. slip_rx_frame m (pre @ frame ys c @ rest) = Some (r, got, es, rest) \<and> got = take (unat m) ys \<and>
    (if got \<noteq> [] \<and> int (unat c) = (\<Sum>y \<leftarrow> got. uint y) mod 128 then sint r = int (length got) \<and> es = []
     else r = NRK_ERROR \<and> es \<noteq> [])"
proof -
  let ?got = "take (unat m) ys"
  have len: "sint (of_nat (length ?got) :: i8) = int (length ?got)" using assms(2) by (simp add: sint_of_nat_i8)
  have "uint (sum_list zs) = (\<Sum>y \<leftarrow> zs. uint y) mod 256" for zs :: "u8 list"
    by (induction zs) (simp_all add: uint_word_ariths mod_simps)
  moreover have "uint (w AND 0x7F) = uint w mod 128" for w :: u8
  proof -
    have "w AND 0x7F = take_bit 7 w" by (simp add: take_bit_eq_mask mask_eq_exp_minus_1)
    then have "uint (w AND 0x7F) = take_bit 7 (uint w)" by (simp only: unsigned_take_bit_eq)
    then show ?thesis by (simp add: take_bit_eq_mod)
  qed
  ultimately have "uint (sum_list zs AND 0x7F) = (\<Sum>y \<leftarrow> zs. uint y) mod 128" for zs :: "u8 list"
    by (simp add: mod_mod_cancel)
  then have iff: "c = sum_list ?got AND 0x7F \<longleftrightarrow> int (unat c) = (\<Sum>y \<leftarrow> ?got. uint y) mod 128"
    by (simp only: word_uint_eq_iff uint_nat [symmetric])
  have "length ys < 256" using assms(2) by simp
  note run = slip_rx_any_frame [OF assms(1) this assms(3), of m rest, unfolded Let_def]
  show ?thesis
  proof (cases "?got \<noteq> [] \<and> c = sum_list ?got AND 0x7F")
    case True
    have "slip_rx_frame m (pre @ frame ys c @ rest) = Some (of_nat (length ?got), ?got, [], rest)"
      unfolding run by (rule if_P [OF True])
    then show ?thesis using True [unfolded iff] len by auto
  next
    case False
    then show ?thesis unfolding run if_not_P [OF False] using False [unfolded iff] by auto
  qed
qed

theorem slip_rx_accepts_witness:
  "slip_rx_frame 32 (frame [129, 2] 3) = Some (2, [129, 2], [], []) \<and>
    (\<exists>got es. slip_rx_frame 32 (frame [129, 2] 4) = Some (NRK_ERROR, got, es, []))"
proof -
  have c: "unat (3 :: u8) < 128" "unat (4 :: u8) < 128" by simp_all
  have "\<exists>r got es. slip_rx_frame 32 (frame [129, 2] 3) = Some (r, got, es, []) \<and> got = [129, 2] \<and> sint r = 2 \<and> es = []"
    using slip_rx_accepts [of "[]" "[129, 2]" 3 32 "[]"] c by simp
  moreover have "r = 2" if "sint r = 2" for r :: i8 using that sint_cancel [of r 2] by simp
  ultimately have "slip_rx_frame 32 (frame [129, 2] 3) = Some (2, [129, 2], [], [])" by auto
  moreover have "\<exists>got es. slip_rx_frame 32 (frame [129, 2] 4) = Some (NRK_ERROR, got, es, [])"
    using slip_rx_accepts [of "[]" "[129, 2]" 4 32 "[]"] c by auto
  ultimately show ?thesis by blast
qed

text \<open>A message of 128 bytes is sent, but the number the receiver returns is negative.\<close>

lemma slip_rx_128:
  assumes "length xs = 128" "128 \<le> unat m"
  shows "slip_rx_frame m (frame xs (sum_list xs AND 0x7F)) = Some (- 128, xs, [], [])"
proof -
  have "unat (sum_list xs AND 0x7F) < 128" using word_and_le1 [of "sum_list xs" "0x7F"] by (simp add: word_le_nat_alt)
  moreover have "(of_nat 128 :: i8) = - 128" by simp
  ultimately show ?thesis using slip_rx_any_frame [of "[]" xs _ m "[]"] assms by (auto simp: Let_def)
qed

end
