(* ===== verification/Nrk_Driver.thy ===== *)
theory Nrk_Driver
  imports Nrk_Events
begin

text \<open>
  The device driver table, \<^verbatim>\<open>src/src/kernel/source/nrk_driver.c\<close>. A driver is reached through
  a function pointer, a 16-bit address; \<open>manager\<close>, a parameter, is what a call through it does
  to the state \<open>'w\<close> of the drivers and of the buffers they get as addresses.
\<close>

section \<open>Definitions\<close>

definition WAS_OPEN :: u8 where "WAS_OPEN = 1"
definition WAS_NOT_OPEN :: u8 where "WAS_NOT_OPEN = 0"
definition ACT_INIT :: u8 where "ACT_INIT = 0"
definition ACT_OPEN :: u8 where "ACT_OPEN = 1"
definition ACT_CLOSE :: u8 where "ACT_CLOSE = 2"
definition ACT_GET_STATUS :: u8 where "ACT_GET_STATUS = 3"
definition ACT_SET_STATUS :: u8 where "ACT_SET_STATUS = 4"
definition ACT_READ :: u8 where "ACT_READ = 5"
definition ACT_WRITE :: u8 where "ACT_WRITE = 6"

record NRKDriver =
  dev_id :: i8
  access_priv :: i8
  devicemanager :: u16

record 'w driver_state =
  nrk_drivers :: "NRKDriver list"
  nrk_driver_init :: "u8 list"
  nrk_driver_count :: i8
  d_kernel :: kernel
  d_world :: 'w

type_synonym 'w manager = "u16 \<Rightarrow> u8 \<Rightarrow> u8 \<Rightarrow> u16 \<Rightarrow> u8 \<Rightarrow> 'w \<Rightarrow> i8 \<times> 'w"

definition NRK_MAX_DRIVER_CNT :: "'w driver_state \<Rightarrow> nat" where
  "NRK_MAX_DRIVER_CNT s = length (nrk_drivers s)"

text \<open>A call of \<^verbatim>\<open>nrk_drivers[i].devicemanager\<close>.\<close>

definition call_driver ::
    "'w manager \<Rightarrow> int \<Rightarrow> u8 \<Rightarrow> u8 \<Rightarrow> u16 \<Rightarrow> u8 \<Rightarrow> 'w driver_state \<Rightarrow> (i8 \<times> 'w driver_state) option" where
  "call_driver manager i act opt buf n s = do {
     d \<leftarrow> at (nrk_drivers s) i;
     if devicemanager d = 0 then None
     else
       let (r, w) = manager (devicemanager d) act opt buf n (d_world s)
       in Some (r, s\<lparr>d_world := w\<rparr>)
   }"

definition nrk_register_driver :: "u16 \<Rightarrow> u8 \<Rightarrow> 'w driver_state \<Rightarrow> (i8 \<times> 'w driver_state) option" where
  "nrk_register_driver f dev s =
     (if sint (nrk_driver_count s) < int (NRK_MAX_DRIVER_CNT s) then do {
        d \<leftarrow> at (nrk_drivers s) (sint (nrk_driver_count s));
        Some (NRK_OK, s\<lparr>nrk_drivers := (nrk_drivers s)[nat (sint (nrk_driver_count s)) :=
                          d\<lparr>dev_id := dev, devicemanager := f\<rparr>],
                        nrk_driver_count := nrk_driver_count s + 1\<rparr>)
      }
      else Some (NRK_ERROR, s))"

text \<open>The loop of \<^verbatim>\<open>nrk_open\<close>; the identifiers compare as numbers, one signed, one not.\<close>

fun open_from :: "'w manager \<Rightarrow> u8 \<Rightarrow> u8 \<Rightarrow> nat list \<Rightarrow> 'w driver_state \<Rightarrow> (i8 \<times> 'w driver_state) option" where
  "open_from manager dev opt [] s = Some (NRK_ERROR, s)"
| "open_from manager dev opt (i # is) s = do {
     d \<leftarrow> at (nrk_drivers s) (int i);
     if sint (dev_id d) = uint dev then do {
       o0 \<leftarrow> at (nrk_driver_init s) (int i);
       s \<leftarrow> (if o0 = WAS_NOT_OPEN then do {
               (r, s) \<leftarrow> call_driver manager (int i) ACT_INIT opt 0 0
                           (s\<lparr>nrk_driver_init := (nrk_driver_init s)[i := WAS_OPEN]\<rparr>);
               Some s
             }
             else Some s);
       (r, s) \<leftarrow> call_driver manager (int i) ACT_OPEN opt 0 0 s;
       Some (of_nat i, s)
     }
     else open_from manager dev opt is s
   }"

definition nrk_open :: "'w manager \<Rightarrow> u8 \<Rightarrow> u8 \<Rightarrow> 'w driver_state \<Rightarrow> (i8 \<times> 'w driver_state) option" where
  "nrk_open manager dev opt s = open_from manager dev opt [0 ..< nat (sint (nrk_driver_count s))] s"

text \<open>The test all calls with a handle begin with.\<close>

definition with_handle :: "u8 \<Rightarrow> 'w driver_state \<Rightarrow> (i8 \<times> 'w driver_state) option \<Rightarrow> (i8 \<times> 'w driver_state) option" where
  "with_handle fd s call =
     (if sint (nrk_driver_count s) < uint fd then do {
        k \<leftarrow> nrk_errno_set 1 (d_kernel s);
        Some (NRK_ERROR, s\<lparr>d_kernel := k\<rparr>)
      }
      else call)"

definition nrk_close :: "'w manager \<Rightarrow> u8 \<Rightarrow> 'w driver_state \<Rightarrow> (i8 \<times> 'w driver_state) option" where
  "nrk_close manager fd s = with_handle fd s (call_driver manager (uint fd) ACT_CLOSE 0 0 0 s)"

definition nrk_write :: "'w manager \<Rightarrow> u8 \<Rightarrow> u16 \<Rightarrow> u8 \<Rightarrow> 'w driver_state \<Rightarrow> (i8 \<times> 'w driver_state) option" where
  "nrk_write manager fd buf n s = with_handle fd s (call_driver manager (uint fd) ACT_WRITE 0 buf n s)"

definition nrk_read :: "'w manager \<Rightarrow> u8 \<Rightarrow> u16 \<Rightarrow> u8 \<Rightarrow> 'w driver_state \<Rightarrow> (i8 \<times> 'w driver_state) option" where
  "nrk_read manager fd buf n s = with_handle fd s (call_driver manager (uint fd) ACT_READ 0 buf n s)"

definition nrk_set_status :: "'w manager \<Rightarrow> u8 \<Rightarrow> u8 \<Rightarrow> u8 \<Rightarrow> 'w driver_state \<Rightarrow> (i8 \<times> 'w driver_state) option" where
  "nrk_set_status manager fd key v s = with_handle fd s (call_driver manager (uint fd) ACT_SET_STATUS key 0 v s)"

definition nrk_get_status :: "'w manager \<Rightarrow> u8 \<Rightarrow> u8 \<Rightarrow> 'w driver_state \<Rightarrow> (i8 \<times> 'w driver_state) option" where
  "nrk_get_status manager fd key s = with_handle fd s (call_driver manager (uint fd) ACT_GET_STATUS key 0 0 s)"

section \<open>The table\<close>

definition drivers_ok :: "'w driver_state \<Rightarrow> bool" where
  "drivers_ok s \<longleftrightarrow> 0 \<le> sint (nrk_driver_count s) \<and> nat (sint (nrk_driver_count s)) \<le> length (nrk_drivers s) \<and>
     length (nrk_drivers s) \<le> 127 \<and> length (nrk_driver_init s) = length (nrk_drivers s) \<and>
     (\<forall>i < nat (sint (nrk_driver_count s)). devicemanager (nrk_drivers s ! i) \<noteq> 0)"

text \<open>The drivers registered, in order: identifier, function, whether it has been opened.\<close>

definition registered :: "'w driver_state \<Rightarrow> (int \<times> u16 \<times> bool) list" where
  "registered s = map (\<lambda>i. (sint (dev_id (nrk_drivers s ! i)), devicemanager (nrk_drivers s ! i),
     nrk_driver_init s ! i \<noteq> WAS_NOT_OPEN)) [0 ..< nat (sint (nrk_driver_count s))]"

lemma length_registered [simp]: "length (registered s) = nat (sint (nrk_driver_count s))"
  by (simp add: registered_def)

lemma registered_nth:
  "i < nat (sint (nrk_driver_count s)) \<Longrightarrow> registered s ! i =
    (sint (dev_id (nrk_drivers s ! i)), devicemanager (nrk_drivers s ! i), nrk_driver_init s ! i \<noteq> WAS_NOT_OPEN)"
  by (simp add: registered_def)

lemma nrk_register_driver_appends:
  assumes "drivers_ok s" "f \<noteq> 0" "nat (sint (nrk_driver_count s)) < NRK_MAX_DRIVER_CNT s"
  shows "\<exists>s' o1. nrk_register_driver f dev s = Some (NRK_OK, s') \<and> drivers_ok s' \<and>
    registered s' = registered s @ [(sint dev, f, o1)] \<and> d_world s' = d_world s \<and> nrk_driver_init s' = nrk_driver_init s"
proof -
  define c where "c = nat (sint (nrk_driver_count s))"
  have c: "sint (nrk_driver_count s) = int c" "c < length (nrk_drivers s)" "length (nrk_drivers s) \<le> 127"
    using assms(1,3) by (auto simp: drivers_ok_def c_def NRK_MAX_DRIVER_CNT_def)
  have cnt: "sint (nrk_driver_count s + 1) = int (Suc c)"
  proof -
    have "sint (nrk_driver_count s) = sint (of_nat c :: i8)" using c by (simp add: sint_of_nat_i8)
    then have "nrk_driver_count s = of_nat c" by (simp only: sint_cancel)
    then have "nrk_driver_count s + 1 = of_nat (Suc c)" by simp
    then show ?thesis using c(2,3) by (simp add: sint_of_nat_i8 del: of_nat_Suc)
  qed
  let ?s = "s\<lparr>nrk_drivers := (nrk_drivers s)[c := (nrk_drivers s ! c)\<lparr>dev_id := dev, devicemanager := f\<rparr>],
    nrk_driver_count := nrk_driver_count s + 1\<rparr>"
  have "nrk_register_driver f dev s = Some (NRK_OK, ?s)"
    using c by (simp add: nrk_register_driver_def NRK_MAX_DRIVER_CNT_def)
  moreover have "drivers_ok ?s"
    using assms(1,2) c cnt by (auto simp: drivers_ok_def less_Suc_eq nth_list_update simp del: of_nat_Suc)
  moreover have "registered ?s = registered s @ [(sint dev, f, nrk_driver_init s ! c \<noteq> WAS_NOT_OPEN)]"
    using c cnt by (auto simp: registered_def simp del: of_nat_Suc)
  ultimately show ?thesis by auto
qed

lemma call_driver_registered:
  assumes "drivers_ok s" "i < nat (sint (nrk_driver_count s))"
  shows "call_driver manager (int i) act opt buf n s =
    (let (r, w) = manager (devicemanager (nrk_drivers s ! i)) act opt buf n (d_world s) in Some (r, s\<lparr>d_world := w\<rparr>))"
  using assms by (simp add: call_driver_def drivers_ok_def at_of_nat_iff)

lemma open_from_first:
  assumes ok: "drivers_ok s" and idx: "\<forall>i \<in> set is. i < nat (sint (nrk_driver_count s))"
  shows "case find (\<lambda>i. fst (registered s ! i) = uint dev) is of
      None \<Rightarrow> open_from manager dev opt is s = Some (NRK_ERROR, s)
    | Some i \<Rightarrow> \<exists>s'. open_from manager dev opt is s = Some (of_nat i, s') \<and> drivers_ok s' \<and>
        (let (d, f, was) = registered s ! i in registered s' = (registered s)[i := (d, f, True)] \<and>
           d_world s' = snd (manager f ACT_OPEN opt 0 0
             (if was then d_world s else snd (manager f ACT_INIT opt 0 0 (d_world s)))))"
  using idx
proof (induction "is")
  case (Cons i "is")
  then have i: "i < nat (sint (nrk_driver_count s))" by simp
  have at: "at (nrk_drivers s) (int i) = Some (nrk_drivers s ! i)" "at (nrk_driver_init s) (int i) = Some (nrk_driver_init s ! i)"
    using ok i by (auto simp: drivers_ok_def at_of_nat_iff)
  show ?case
  proof (cases "sint (dev_id (nrk_drivers s ! i)) = uint dev")
    case False
    have e: "open_from manager dev opt (i # is) s = open_from manager dev opt is s" using False at(1) by simp
    have f: "find (\<lambda>i. fst (registered s ! i) = uint dev) (i # is) = find (\<lambda>i. fst (registered s ! i) = uint dev) is"
      using False i by (simp add: registered_nth)
    have "\<forall>i \<in> set is. i < nat (sint (nrk_driver_count s))" using Cons.prems by simp
    from Cons.IH [OF this] show ?thesis unfolding e f .
  next
    case True
    define s1 where "s1 = s\<lparr>nrk_driver_init := (nrk_driver_init s)[i := WAS_OPEN],
      d_world := snd (manager (devicemanager (nrk_drivers s ! i)) ACT_INIT opt 0 0 (d_world s))\<rparr>"
    define s0 where "s0 = (if nrk_driver_init s ! i = WAS_NOT_OPEN then s1 else s)"
    have ok0: "drivers_ok s0" "i < nat (sint (nrk_driver_count s0))" "nrk_drivers s0 = nrk_drivers s"
      "nrk_driver_count s0 = nrk_driver_count s"
      using ok i by (auto simp: s0_def s1_def drivers_ok_def)
    define s2 where "s2 = s0\<lparr>d_world := snd (manager (devicemanager (nrk_drivers s ! i)) ACT_OPEN opt 0 0 (d_world s0))\<rparr>"
    have first: "call_driver manager (int i) ACT_INIT opt 0 0 (s\<lparr>nrk_driver_init := (nrk_driver_init s)[i := WAS_OPEN]\<rparr>) =
        Some (fst (manager (devicemanager (nrk_drivers s ! i)) ACT_INIT opt 0 0 (d_world s)), s1)"
      using call_driver_registered [of "s\<lparr>nrk_driver_init := (nrk_driver_init s)[i := WAS_OPEN]\<rparr>" i manager ACT_INIT opt 0 0] ok i
      by (simp add: drivers_ok_def s1_def split_beta)
    have "open_from manager dev opt (i # is) s = Some (of_nat i, s2)"
      using True at first call_driver_registered [OF ok0(1,2), of manager ACT_OPEN opt 0 0] ok0(3)
      by (cases "nrk_driver_init s ! i = WAS_NOT_OPEN") (simp_all add: s0_def s2_def split_beta)
    moreover have "drivers_ok s2" using ok0(1) by (simp add: s2_def drivers_ok_def)
    moreover have "registered s2 = (registered s)[i := (uint dev, devicemanager (nrk_drivers s ! i), True)]"
      using ok0(3,4) i ok True
      by (intro nth_equalityI) (auto simp: s2_def registered_nth nth_list_update s0_def s1_def drivers_ok_def WAS_OPEN_def WAS_NOT_OPEN_def)
    moreover have "d_world s2 = snd (manager (devicemanager (nrk_drivers s ! i)) ACT_OPEN opt 0 0
        (if nrk_driver_init s ! i \<noteq> WAS_NOT_OPEN then d_world s else snd (manager (devicemanager (nrk_drivers s ! i)) ACT_INIT opt 0 0 (d_world s))))"
      by (simp add: s2_def s0_def s1_def)
    ultimately show ?thesis using True i by (auto simp: registered_nth Let_def)
  qed
qed simp

section \<open>Properties\<close>

text \<open>
  C38: Opening a device. \<^verbatim>\<open>nrk_open\<close> returns the index of the first registered driver with
  the identifier, calls its \<^verbatim>\<open>INIT\<close> the first time only and its \<^verbatim>\<open>OPEN\<close> every time, and
  changes nothing but its being marked as opened. Without such a driver it returns
  \<^verbatim>\<open>NRK_ERROR\<close>, and so it does for every identifier from 128 on.
\<close>

theorem nrk_open_first:
  assumes "drivers_ok s"
  shows "case find (\<lambda>i. fst (registered s ! i) = uint dev) [0 ..< length (registered s)] of
      None \<Rightarrow> nrk_open manager dev opt s = Some (NRK_ERROR, s)
    | Some i \<Rightarrow> uint dev < 128 \<and> (\<exists>s'. nrk_open manager dev opt s = Some (of_nat i, s') \<and> drivers_ok s' \<and>
        (let (d, f, was) = registered s ! i in registered s' = (registered s)[i := (d, f, True)] \<and>
           d_world s' = snd (manager f ACT_OPEN opt 0 0
             (if was then d_world s else snd (manager f ACT_INIT opt 0 0 (d_world s))))))"
proof -
  have "uint dev < 128" if "find (\<lambda>i. fst (registered s ! i) = uint dev) [0 ..< length (registered s)] = Some i" for i
  proof -
    have "i < length (registered s)" "fst (registered s ! i) = uint dev" using that by (auto simp: find_Some_iff)
    then show ?thesis using sint_lt [of "dev_id (nrk_drivers s ! i)"] by (simp add: registered_nth)
  qed
  then show ?thesis
    using open_from_first [OF assms, of "[0 ..< length (registered s)]" manager dev opt]
    by (auto simp: nrk_open_def split: option.splits)
qed

text \<open>Drivers for examples: the function with address \<open>f\<close> logs the actions it is called for.\<close>

definition ex_manager :: "(u16 \<times> u8) list manager" where
  "ex_manager f act opt buf n w = (0, w @ [(f, act)])"

definition ex_drivers :: "(u16 \<times> u8) list driver_state" where
  "ex_drivers = \<lparr>nrk_drivers = [\<lparr>dev_id = 3, access_priv = 0, devicemanager = 7\<rparr>, \<lparr>dev_id = 0, access_priv = 0, devicemanager = 0\<rparr>],
     nrk_driver_init = [0, 0], nrk_driver_count = 1, d_kernel = ex_kernel 1, d_world = []\<rparr>"

lemma ex_drivers_ok: "drivers_ok ex_drivers" "registered ex_drivers = [(3, 7, False)]"
  by (simp_all add: drivers_ok_def ex_drivers_def registered_def WAS_NOT_OPEN_def)

theorem nrk_open_first_witness:
  "\<exists>s'. nrk_open ex_manager 3 1 ex_drivers = Some (0, s') \<and> d_world s' = [(7, ACT_INIT), (7, ACT_OPEN)] \<and>
    nrk_open ex_manager 4 1 ex_drivers = Some (NRK_ERROR, ex_drivers)"
  using nrk_open_first [OF ex_drivers_ok(1), of ex_manager 3 1] nrk_open_first [OF ex_drivers_ok(1), of ex_manager 4 1]
  by (auto simp: ex_drivers_ok(2) ex_manager_def ex_drivers_def [THEN arg_cong [of _ _ d_world]])



end
