(* ===== verification/Flash_Clock.thy ===== *)
theory Flash_Clock
  imports Nrk_Time
begin

text \<open>
  The clock of the flooding protocols, \<^verbatim>\<open>src/src/net/flash/flash.c\<close>: a free running 16-bit
  counter, 16 counts to the microsecond, of which the timer interrupt and every reading move
  whole milliseconds into a 64-bit number. The counter stands still while one of these
  functions runs; that time passes is a step of its own.
\<close>

section \<open>Definitions\<close>

record flash_clock =
  TCNT3 :: u16
  current_time_ms :: u64
  gie :: bool

definition TICKS_PER_MS :: u16 where "TICKS_PER_MS = 0x3F74"

text \<open>
  \<^verbatim>\<open>while (TCNT3 > TICKS_PER_MS)\<close>, with the variable that counts the milliseconds: 64 bits
  in the interrupt, 8 bits in \<^verbatim>\<open>flash_get_current_time\<close>.
\<close>

function carry_ms :: "u16 \<Rightarrow> 'n::len word \<Rightarrow> u16 \<times> 'n word" where
  "carry_ms t n = (if TICKS_PER_MS < t then carry_ms (t - TICKS_PER_MS) (n + 1) else (t, n))"
  by pat_completeness auto
termination
  by (relation "measure (\<lambda>(t, n). unat t)")
     (auto simp: TICKS_PER_MS_def word_less_nat_alt unat_sub word_le_nat_alt)

declare carry_ms.simps [simp del]

definition timer_3_callback :: "flash_clock \<Rightarrow> flash_clock" where
  "timer_3_callback c =
     (let (t, ms) = carry_ms (TCNT3 c) (current_time_ms c)
      in c\<lparr>TCNT3 := t, current_time_ms := ms, gie := True\<rparr>)"

definition flash_get_current_time :: "flash_clock \<Rightarrow> u64 \<times> flash_clock" where
  "flash_get_current_time c =
     (let orig_ticks = (ucast (TCNT3 c) :: u32); orig_ms = current_time_ms c;
          (t, extra) = carry_ms (TCNT3 c) (0 :: u8)
      in (orig_ms * 1000 + ucast (drop_bit 4 orig_ticks),
          c\<lparr>TCNT3 := t, current_time_ms := current_time_ms c + ucast extra, gie := True\<rparr>))"

definition flash_set_time :: "u64 \<Rightarrow> flash_clock \<Rightarrow> flash_clock" where
  "flash_set_time current_time c =
     c\<lparr>current_time_ms := current_time div 1000, TCNT3 := ucast ((current_time mod 1000) * 16), gie := True\<rparr>"

definition flash_reset_timer :: "flash_clock \<Rightarrow> flash_clock" where
  "flash_reset_timer c = c\<lparr>current_time_ms := 0\<rparr>"

text \<open>
  The timer is one that \<^verbatim>\<open>nrk_timer_int_configure\<close> and \<^verbatim>\<open>nrk_timer_int_start\<close> accept,
  which only set registers.
\<close>

definition flash_timer_setup :: "flash_clock \<Rightarrow> u8 \<times> flash_clock" where
  "flash_timer_setup c = (NRK_OK, c\<lparr>current_time_ms := 0\<rparr>)"

text \<open>Both arguments are normalised in place.\<close>

definition nrk_time_compare :: "nrk_time_t \<Rightarrow> nrk_time_t \<Rightarrow> i8 \<times> nrk_time_t \<times> nrk_time_t" where
  "nrk_time_compare a b =
     (let a = nrk_time_compact_nanos a; b = nrk_time_compact_nanos b
      in (if secs b < secs a then 1 else if secs a < secs b then - 1
          else if nano_secs b < nano_secs a then 1 else if nano_secs a < nano_secs b then - 1 else 0, a, b))"

text \<open>\<open>n\<close> counts pass.\<close>

definition pass :: "nat \<Rightarrow> flash_clock \<Rightarrow> flash_clock" where
  "pass n c = c\<lparr>TCNT3 := TCNT3 c + of_nat n\<rparr>"

section \<open>Whole milliseconds\<close>

lemma unat_TICKS_PER_MS [simp]: "unat TICKS_PER_MS = 16244"
  by (simp add: TICKS_PER_MS_def)

lemma carry_ms_value:
  "\<exists>k. carry_ms t (n :: 'n::len word) = (t - of_nat k * TICKS_PER_MS, n + of_nat k) \<and>
    unat (t - of_nat k * TICKS_PER_MS) + 16244 * k = unat t \<and>
    unat (t - of_nat k * TICKS_PER_MS) \<le> 16244 \<and> k \<le> 4 \<and> (k = 0 \<longleftrightarrow> t \<le> TICKS_PER_MS)"
proof (induction t n rule: carry_ms.induct)
  case (1 t n)
  show ?case
  proof (cases "TICKS_PER_MS < t")
    case True
    from 1 [OF True] obtain k where
      k: "carry_ms (t - TICKS_PER_MS) (n + 1) = (t - TICKS_PER_MS - of_nat k * TICKS_PER_MS, n + 1 + of_nat k)"
        "unat (t - TICKS_PER_MS - of_nat k * TICKS_PER_MS) + 16244 * k = unat (t - TICKS_PER_MS)"
        "unat (t - TICKS_PER_MS - of_nat k * TICKS_PER_MS) \<le> 16244" by (elim exE conjE)
    have s: "t - TICKS_PER_MS - of_nat k * TICKS_PER_MS = t - of_nat (Suc k) * TICKS_PER_MS"
      by (simp add: algebra_simps)
    have u: "unat (t - TICKS_PER_MS) = unat t - 16244"
      using True by (simp add: unat_sub word_less_nat_alt word_le_nat_alt)
    have t: "16244 < unat t" "unat t < 65536" using True unat_less_pow [of t] by (simp_all add: word_less_nat_alt)
    have total: "unat (t - of_nat (Suc k) * TICKS_PER_MS) + 16244 * Suc k = unat t" using k(2) t u by (simp only: s) simp
    moreover have "Suc k \<le> 4" using total t by simp
    ultimately show ?thesis
      using True k(1,3) by (intro exI [of _ "Suc k"]) (simp add: carry_ms.simps [of t n] s algebra_simps not_le)
  next
    case False
    then show ?thesis by (intro exI [of _ 0]) (simp add: carry_ms.simps [of t n] word_less_nat_alt not_less word_le_nat_alt)
  qed
qed

section \<open>The clock counts\<close>

text \<open>The counts since the clock was at zero.\<close>

definition counted :: "flash_clock \<Rightarrow> nat" where
  "counted c = 16244 * unat (current_time_ms c) + unat (TCNT3 c)"

lemma counted_timer: "counted c < 2 ^ 60 \<Longrightarrow> counted (timer_3_callback c) = counted c"
proof -
  assume "counted c < 2 ^ 60"
  then have m: "unat (current_time_ms c) < 2 ^ 60" by (simp add: counted_def)
  from carry_ms_value [of "TCNT3 c" "current_time_ms c"] obtain k where
    k: "carry_ms (TCNT3 c) (current_time_ms c) = (TCNT3 c - of_nat k * TICKS_PER_MS, current_time_ms c + of_nat k)"
      "unat (TCNT3 c - of_nat k * TICKS_PER_MS) + 16244 * k = unat (TCNT3 c)" "k \<le> 4" by (elim exE conjE)
  have "unat (current_time_ms c + of_nat k) = unat (current_time_ms c) + k"
    using m k(3) by (simp add: unat_word_ariths unsigned_of_nat take_bit_nat_eq_self)
  then show ?thesis using k(1,2) by (simp add: counted_def timer_3_callback_def)
qed

lemma read_clock_carry:
  assumes "counted c < 2 ^ 60"
  shows "\<exists>k. unat (current_time_ms (snd (flash_get_current_time c))) = unat (current_time_ms c) + k \<and>
    unat (TCNT3 (snd (flash_get_current_time c))) + 16244 * k = unat (TCNT3 c) \<and>
    unat (TCNT3 (snd (flash_get_current_time c))) \<le> 16244 \<and> k \<le> 4 \<and> (k = 0 \<longleftrightarrow> TCNT3 c \<le> TICKS_PER_MS)"
proof -
  have m: "unat (current_time_ms c) * 16244 < 2 ^ 60" using assms by (simp add: counted_def)
  from carry_ms_value [of "TCNT3 c" "0 :: u8"] obtain k where
    k: "carry_ms (TCNT3 c) (0 :: u8) = (TCNT3 c - of_nat k * TICKS_PER_MS, 0 + of_nat k)"
      "unat (TCNT3 c - of_nat k * TICKS_PER_MS) + 16244 * k = unat (TCNT3 c)"
      "unat (TCNT3 c - of_nat k * TICKS_PER_MS) \<le> 16244" "k \<le> 4" "k = 0 \<longleftrightarrow> TCNT3 c \<le> TICKS_PER_MS" by (elim exE conjE)
  have "unat (ucast (of_nat k :: u8) :: u64) = k"
    using k(4) by (simp add: unat_ucast_up unsigned_of_nat take_bit_nat_eq_self)
  then have "unat (current_time_ms c + ucast (of_nat k :: u8)) = unat (current_time_ms c) + k"
    using m k(4) by (simp add: unat_word_ariths)
  then show ?thesis using k(1-3) k(4,5)
    by (intro exI [of _ k]) (simp add: flash_get_current_time_def)
qed

lemma read_clock:
  assumes "counted c < 2 ^ 60"
  shows "unat (fst (flash_get_current_time c)) = unat (current_time_ms c) * 1000 + unat (TCNT3 c) div 16"
    "counted (snd (flash_get_current_time c)) = counted c"
proof -
  have m: "unat (current_time_ms c) * 16244 < 2 ^ 60" using assms by (simp add: counted_def)
  have t: "unat (TCNT3 c) < 65536" using unat_less_pow [of "TCNT3 c"] by simp
  show "counted (snd (flash_get_current_time c)) = counted c"
    using read_clock_carry [OF assms] by (auto simp: counted_def)
  have "unat (drop_bit 4 (ucast (TCNT3 c) :: u32)) = unat (TCNT3 c) div 16"
    by (simp add: drop_bit_eq_div unat_div unat_ucast_up)
  then have d: "unat (ucast (drop_bit 4 (ucast (TCNT3 c) :: u32)) :: u64) = unat (TCNT3 c) div 16"
    by (simp add: unat_ucast_up)
  have "unat (current_time_ms c * 1000) = unat (current_time_ms c) * 1000" using m by (simp add: unat_word_ariths)
  then show "unat (fst (flash_get_current_time c)) = unat (current_time_ms c) * 1000 + unat (TCNT3 c) div 16"
    using m d t by (simp add: flash_get_current_time_def split_beta unat_word_ariths)
qed

lemma clock_arith:
  fixes m t :: nat
  assumes "t < 65536"
  shows "1000 * (16244 * m + t) < 16244 * (m * 1000 + t div 16 + 1)"
    "16244 * (m * 1000 + t div 16) \<le> 1000 * (16244 * m + t) + 16244 * 62"
proof -
  define q r where "q = t div 16" and "r = t mod 16"
  have t: "t = 16 * q + r" "r < 16" "q \<le> 4095" using assms by (simp_all add: q_def r_def)
  show "1000 * (16244 * m + t) < 16244 * (m * 1000 + t div 16 + 1)"
    "16244 * (m * 1000 + t div 16) \<le> 1000 * (16244 * m + t) + 16244 * 62"
    unfolding q_def [symmetric] using t by simp_all
qed

text \<open>What happens to the clock, one event after the other.\<close>

datatype clock_event = Pass nat | Interrupt | Reading

fun clock_step :: "clock_event \<Rightarrow> flash_clock \<Rightarrow> flash_clock" where
  "clock_step (Pass n) c = pass n c"
| "clock_step Interrupt c = timer_3_callback c"
| "clock_step Reading c = snd (flash_get_current_time c)"

text \<open>The counter never runs over: an interrupt or a reading comes at least every four milliseconds.\<close>

fun in_time :: "clock_event list \<Rightarrow> flash_clock \<Rightarrow> bool" where
  "in_time [] c = True"
| "in_time (e # es) c = ((case e of Pass n \<Rightarrow> unat (TCNT3 c) + n < 65536 | _ \<Rightarrow> True) \<and> in_time es (clock_step e c))"

definition passed :: "clock_event list \<Rightarrow> nat" where
  "passed es = (\<Sum>e \<leftarrow> es. case e of Pass n \<Rightarrow> n | _ \<Rightarrow> 0)"

lemma passed_Cons [simp]: "passed [] = 0" "passed (e # es) = (case e of Pass n \<Rightarrow> n | _ \<Rightarrow> 0) + passed es"
  by (simp_all add: passed_def)

lemma counted_step:
  assumes "counted c < 2 ^ 60" "case e of Pass n \<Rightarrow> unat (TCNT3 c) + n < 65536 | _ \<Rightarrow> True"
  shows "counted (clock_step e c) = counted c + (case e of Pass n \<Rightarrow> n | _ \<Rightarrow> 0)"
proof (cases e)
  case (Pass n)
  then have "unat (TCNT3 c + of_nat n) = unat (TCNT3 c) + n"
    using assms(2) by (simp add: unat_word_ariths unsigned_of_nat take_bit_nat_eq_self)
  then show ?thesis using Pass by (simp add: counted_def pass_def)
qed (use assms(1) in \<open>simp_all add: counted_timer read_clock(2)\<close>)

lemma counted_run:
  "in_time es c \<Longrightarrow> counted c + passed es < 2 ^ 60 \<Longrightarrow> counted (fold clock_step es c) = counted c + passed es"
proof (induction es arbitrary: c)
  case (Cons e es)
  have e: "counted (clock_step e c) = counted c + (case e of Pass n \<Rightarrow> n | _ \<Rightarrow> 0)"
    by (rule counted_step) (use Cons.prems in simp_all)
  have "counted (fold clock_step es (clock_step e c)) = counted (clock_step e c) + passed es"
    by (rule Cons.IH) (use Cons.prems e in simp_all)
  then show ?case using e by simp
qed simp

lemma flash_clock_accuracy_aux:
  assumes "in_time es c" "counted c + passed es < 2 ^ 60"
  shows "case flash_get_current_time (fold clock_step es c) of (t, c') \<Rightarrow>
    counted c' = counted c + passed es \<and>
    1000 * counted c' < 16244 * (unat t + 1) \<and> 16244 * unat t \<le> 1000 * counted c' + 16244 * 62"
proof -
  let ?c = "fold clock_step es c"
  have n: "counted ?c = counted c + passed es" by (rule counted_run [OF assms])
  then have b: "counted ?c < 2 ^ 60" using assms(2) by simp
  have "unat (TCNT3 ?c) < 65536" using unat_less_pow [of "TCNT3 ?c"] by simp
  then have "1000 * counted ?c < 16244 * (unat (current_time_ms ?c) * 1000 + unat (TCNT3 ?c) div 16 + 1)"
    "16244 * (unat (current_time_ms ?c) * 1000 + unat (TCNT3 ?c) div 16) \<le> 1000 * counted ?c + 16244 * 62"
    unfolding counted_def by (rule clock_arith)+
  then show ?thesis using n read_clock [OF b] by (simp add: split_beta)
qed

lemma flash_clock_goes_back_aux:
  assumes "counted c < 2 ^ 60" "flash_get_current_time c = (t1, c1)" "flash_get_current_time c1 = (t2, c2)"
  shows "(t2 < t1 \<longleftrightarrow> TICKS_PER_MS < TCNT3 c) \<and> unat t2 \<le> unat t1 \<and> unat t1 \<le> unat t2 + 61 \<and> c2 = c1"
proof -
  have c1: "c1 = snd (flash_get_current_time c)" "c2 = snd (flash_get_current_time c1)" using assms(2,3) by simp_all
  have b: "counted c1 < 2 ^ 60" using read_clock(2) [OF assms(1)] assms(1) c1 by simp
  from read_clock_carry [OF assms(1)] obtain k where
    k: "unat (current_time_ms c1) = unat (current_time_ms c) + k" "unat (TCNT3 c1) + 16244 * k = unat (TCNT3 c)"
      "unat (TCNT3 c1) \<le> 16244" "k \<le> 4" "k = 0 \<longleftrightarrow> TCNT3 c \<le> TICKS_PER_MS"
    unfolding c1(1) by (elim exE conjE)
  have r: "unat t1 = unat (current_time_ms c) * 1000 + unat (TCNT3 c) div 16"
    "unat t2 = unat (current_time_ms c1) * 1000 + unat (TCNT3 c1) div 16"
    using read_clock(1) [OF assms(1)] read_clock(1) [OF b] assms(2,3) by simp_all
  have d: "unat (TCNT3 c) div 16 = 1015 * k + (unat (TCNT3 c1) + 4 * k) div 16" using k(2) by linarith
  have "\<not> TICKS_PER_MS < TCNT3 c1" using k(3) by (simp add: word_less_nat_alt)
  then have "carry_ms (TCNT3 c1) 0 = (TCNT3 c1, 0 :: u8)" by (simp add: carry_ms.simps [of "TCNT3 c1"])
  moreover have "gie c1" unfolding c1(1) by (simp add: flash_get_current_time_def split_beta)
  ultimately have "c2 = c1" unfolding c1(2) by (simp add: flash_get_current_time_def)
  moreover have "unat t2 + 15 * k \<le> unat t1 \<and> unat t1 \<le> unat t2 + 15 * k + 1"
  proof -
    have "unat (TCNT3 c1) div 16 \<le> (unat (TCNT3 c1) + 4 * k) div 16" by (simp add: div_le_mono)
    moreover have "(unat (TCNT3 c1) + 4 * k) div 16 \<le> (unat (TCNT3 c1) + 16) div 16" using k(4) by (intro div_le_mono) simp
    moreover have "(unat (TCNT3 c1) + 16) div 16 = unat (TCNT3 c1) div 16 + 1" by simp
    ultimately show ?thesis using r k(1) d by (simp add: algebra_simps)
  qed
  moreover have "k = 0 \<Longrightarrow> unat t1 = unat t2" using r k(1) d by simp
  ultimately show ?thesis using k(4,5) by (cases "k = 0") (auto simp: word_less_nat_alt word_le_nat_alt not_le)
qed

lemma flash_set_get_time_aux:
  "fst (flash_get_current_time (flash_set_time t c)) = t"
proof -
  have m: "unat (t mod 1000) < 1000" by (simp add: unat_mod_word)
  have p: "unat ((t mod 1000) * 16) = unat (t mod 1000) * 16" using m by (simp add: unat_word_ariths)
  have "unat (TCNT3 (flash_set_time t c)) = unat (t mod 1000) * 16"
    using p m by (simp add: flash_set_time_def unat_ucast_fits)
  then have "drop_bit 4 (ucast (TCNT3 (flash_set_time t c)) :: u32) = (ucast (t mod 1000) :: u32)"
    using m by (simp add: word_unat_eq_iff drop_bit_eq_div unat_div unat_ucast_up unat_ucast_fits)
  then have "ucast (drop_bit 4 (ucast (TCNT3 (flash_set_time t c)) :: u32)) = t mod 1000"
    using m by (simp add: word_unat_eq_iff unat_ucast_up unat_ucast_fits)
  then show ?thesis
    by (simp add: flash_get_current_time_def split_beta flash_set_time_def div_mult_mod_eq)
qed

section \<open>Properties\<close>


definition ex_clock :: flash_clock where
  "ex_clock = \<lparr>TCNT3 = 0, current_time_ms = 0, gie = True\<rparr>"


text \<open>
  Going back. Of two readings at the same moment the second is the smaller one just when
  the counter has passed a millisecond, by up to 61 microseconds: 16244 counts are moved as a
  thousand microseconds, though a reading takes sixteen counts for one.
\<close>

theorem flash_clock_goes_back:
  assumes "counted c < 2 ^ 60" "flash_get_current_time c = (t1, c1)" "flash_get_current_time c1 = (t2, c2)"
  shows "(t2 < t1 \<longleftrightarrow> TICKS_PER_MS < TCNT3 c) \<and> unat t2 \<le> unat t1 \<and> unat t1 \<le> unat t2 + 61 \<and> c2 = c1"
  by (rule flash_clock_goes_back_aux [OF assms])

theorem flash_clock_goes_back_witness:
  "case flash_get_current_time (pass 17000 ex_clock) of (t1, c1) \<Rightarrow>
    case flash_get_current_time c1 of (t2, c2) \<Rightarrow> t2 < t1 \<and> unat t1 \<le> unat t2 + 61"
proof -
  have c: "counted (pass 17000 ex_clock) < 2 ^ 60" by (simp add: counted_def ex_clock_def pass_def)
  show ?thesis
    using flash_clock_goes_back [OF c surjective_pairing surjective_pairing]
    by (simp add: split_beta pass_def ex_clock_def TICKS_PER_MS_def)
qed

text \<open>
  Setting the clock. The time to which the clock is set is what it then shows, for every
  64-bit number of microseconds.
\<close>

theorem flash_set_get_time:
  "fst (flash_get_current_time (flash_set_time t c)) = t"
  by (rule flash_set_get_time_aux)

end
