(* ===== verification/Flash_Flood.thy ===== *)
theory Flash_Flood
  imports Flash_Clock Nrk_Stats
begin

text \<open>
  Flash flooding, \<^verbatim>\<open>src/src/net/flash/flash.c\<close>, with the parts of the radio driver
  \<^verbatim>\<open>src/src/radio/rf231_soc/source/basic_rf.c\<close> that decide what it receives: the interrupts
  at the start and the end of a frame, and taking the frame out of the radio. LEDs and the
  radio's registers are left out.
\<close>

section \<open>Definitions\<close>

text \<open>
  \<open>TRXFB\<close> is the frame in the radio's buffer, \<open>on_air\<close> the payloads that have been sent,
  \<open>rx_length\<close> and \<open>rx_max_length\<close> are fields of \<^verbatim>\<open>flash_rfRxInfo\<close>.
\<close>

record radio =
  rf_ready :: bool
  rx_ready :: bool
  TRXFB :: "u8 list"
  TST_RX_LENGTH :: u8
  wireless_prog :: u8
  rx_length :: i8
  rx_max_length :: i8
  receiver_on :: bool
  on_air :: "u8 list list"

text \<open>\<open>fl_app\<close> is the state of the program that uses the protocol.\<close>

record 'u flash =
  fl_clock :: flash_clock
  flash_message_len :: u16
  flash_err_count :: u32
  flash_chan :: i8
  is_enabled :: i8
  flash_started :: u8
  flash_buf :: "u8 list"
  auto_re_tx :: u8
  last_rx_time :: u64
  flash_pkt_received :: bool
  fl_radio :: radio
  fl_console :: "out_event list"
  fl_app :: 'u

definition FLASH_MAX_PKT_LEN :: nat where "FLASH_MAX_PKT_LEN = 128"
definition RF_PACKET_OVERHEAD_SIZE :: nat where "RF_PACKET_OVERHEAD_SIZE = 11"
definition RF_MAX_PAYLOAD_SIZE :: nat where "RF_MAX_PAYLOAD_SIZE = 127 - RF_PACKET_OVERHEAD_SIZE"

text \<open>The size of \<^verbatim>\<open>ieee_mac_frame_header_t\<close>\<close>

definition MAC_HEADER :: nat where "MAC_HEADER = 9"

definition reset_val :: "u8 list" where
  "reset_val = [0x43, 0x15, 0xa6, 0xd9, 0x3d, 0x31, 0x82, 0xf1, 0x8c, 0xa7, 0x4f, 0xc5, 0x99, 0x97, 0x04, 0xac]"

definition say :: "out_event list \<Rightarrow> 'u flash \<Rightarrow> 'u flash" where
  "say es s = s\<lparr>fl_console := fl_console s @ es\<rparr>"

definition upd_radio :: "(radio \<Rightarrow> radio) \<Rightarrow> 'u flash \<Rightarrow> 'u flash" where
  "upd_radio f s = s\<lparr>fl_radio := f (fl_radio s)\<rparr>"

definition read_time :: "'u flash \<Rightarrow> u64 \<times> 'u flash" where
  "read_time s = (let (t, c) = flash_get_current_time (fl_clock s) in (t, s\<lparr>fl_clock := c\<rparr>))"

text \<open>
  Taking a frame out of the radio. The packet that makes a node reset itself never returns;
  the reset is off unless \<^verbatim>\<open>set_wireless_prog\<close> has turned it on.
\<close>

definition rf_rx_packet_nonblock :: "'u flash \<Rightarrow> (i8 \<times> 'u flash) option" where
  "rf_rx_packet_nonblock s =
     (let r = fl_radio s; n = TST_RX_LENGTH r - of_nat MAC_HEADER - 2
      in if \<not> rf_ready r then Some (NRK_ERROR, say [Printf (''rf not ready'' @ CRLF) []] s)
         else if \<not> rx_ready r then Some (0, s)
         else if sint (rx_max_length r) < uint (TST_RX_LENGTH r) - 2
           then Some (NRK_ERROR, say [Printf (''length too great'' @ CRLF) []] s)
         else if sint (rx_max_length r) < sint n \<or> sint n < 0
           then Some (NRK_ERROR, say [Printf (''incorrect length setting in rf settings'' @ CRLF) []]
                  (s\<lparr>fl_radio := r\<lparr>rx_length := n, rx_ready := False\<rparr>\<rparr>))
         else if length (TRXFB r) < MAC_HEADER + unat n \<or> length (flash_buf s) < unat n then None
         else
           let buf = take (unat n) (drop MAC_HEADER (TRXFB r)) @ drop (unat n) (flash_buf s)
           in if wireless_prog r \<noteq> 0 \<and> n = 16 \<and> take 16 buf = reset_val then None
              else Some (NRK_OK, s\<lparr>flash_buf := buf, fl_radio := r\<lparr>rx_length := n, rx_ready := False\<rparr>\<rparr>))"

definition rf_rx_on :: "'u flash \<Rightarrow> 'u flash" where
  "rf_rx_on s = upd_radio (\<lambda>r. r\<lparr>receiver_on := True\<rparr>) s"

definition rf_rx_off :: "'u flash \<Rightarrow> 'u flash" where
  "rf_rx_off s = upd_radio (\<lambda>r. r\<lparr>receiver_on := False, rx_ready := False\<rparr>) s"

text \<open>The interrupts: at the start of a frame it is time-stamped, at its end it is announced.\<close>

definition rx_started_callback :: "'u flash \<Rightarrow> 'u flash" where
  "rx_started_callback s = (let (t, s) = read_time s in s\<lparr>last_rx_time := t\<rparr>)"

definition rx_finished_callback :: "'u flash \<Rightarrow> 'u flash" where
  "rx_finished_callback s = s\<lparr>flash_pkt_received := True\<rparr>"

definition rf_rx_end :: "bool \<Rightarrow> 'u flash \<Rightarrow> 'u flash" where
  "rf_rx_end crc s = rx_finished_callback
     (if crc then upd_radio (\<lambda>r. r\<lparr>rx_ready := True\<rparr>) s
      else say [Printf (''RX end failed checksum!'' @ CRLF) []] s)"

record air_frame =
  af_bytes :: "u8 list"
  af_crc :: bool

definition receive_frame :: "air_frame \<Rightarrow> 'u flash \<Rightarrow> 'u flash" where
  "receive_frame f s = rf_rx_end (af_crc f)
     (upd_radio (\<lambda>r. r\<lparr>TRXFB := af_bytes f, TST_RX_LENGTH := of_nat (length (af_bytes f))\<rparr>) (rx_started_callback s))"

text \<open>
  Sending. \<open>sent\<close> says whether the radio reports the end of the transmission in time; the
  status is a \<^verbatim>\<open>uint8_t\<close>. A callback that has been set may change the bytes that go out.
\<close>

type_synonym 'u tx_callback = "u16 \<Rightarrow> u8 list \<Rightarrow> 'u flash \<Rightarrow> (u8 list \<times> 'u flash) option"

definition rf_tx_packet_blocking ::
    "'u tx_callback option \<Rightarrow> bool \<Rightarrow> u8 list \<Rightarrow> 'u flash \<Rightarrow> (u8 \<times> 'u flash) option" where
  "rf_tx_packet_blocking cb sent payload s = do {
     (payload, s) \<leftarrow> (case cb of None \<Rightarrow> Some (payload, s) | Some f \<Rightarrow> f (of_nat (length payload)) payload s);
     Some (if sent then NRK_OK else NRK_ERROR,
       if sent then upd_radio (\<lambda>r. r\<lparr>on_air := on_air r @ [payload]\<rparr>) s else s)
   }"

definition flash_tx_pkt :: "'u tx_callback option \<Rightarrow> bool \<Rightarrow> u8 list \<Rightarrow> u8 \<Rightarrow> 'u flash \<Rightarrow> 'u flash option" where
  "flash_tx_pkt cb sent buf len s =
     (if sint len < 0 \<or> length buf < unat len then None
      else do {
        (r, s) \<leftarrow> rf_tx_packet_blocking cb sent (take (unat len) buf) s;
        Some (if uint r = sint NRK_ERROR then say [Printf (''ERROR: TX timed out'' @ CRLF) []] s else s)
      })"

definition flash_msg_len_set :: "u16 \<Rightarrow> 'u flash \<Rightarrow> 'u flash" where
  "flash_msg_len_set n s = s\<lparr>flash_message_len := n\<rparr>"

definition flash_err_count_reset :: "'u flash \<Rightarrow> 'u flash" where
  "flash_err_count_reset s = s\<lparr>flash_err_count := 0\<rparr>"

definition flash_set_retransmit :: "u8 \<Rightarrow> 'u flash \<Rightarrow> 'u flash" where
  "flash_set_retransmit f s = s\<lparr>auto_re_tx := f\<rparr>"

definition flash_rf_power_set :: "u8 \<Rightarrow> i8" where
  "flash_rf_power_set p = (if 31 < uint p then NRK_ERROR else NRK_OK)"

definition flash_init :: "u8 \<Rightarrow> 'u flash \<Rightarrow> i8 \<times> 'u flash" where
  "flash_init chan s = (NRK_OK, upd_radio (\<lambda>r. r\<lparr>rx_max_length := of_nat RF_MAX_PAYLOAD_SIZE, rf_ready := True, rx_ready := False\<rparr>)
     (s\<lparr>flash_message_len := of_nat RF_MAX_PAYLOAD_SIZE, flash_err_count := 0, flash_chan := chan,
        flash_started := 1, auto_re_tx := 1\<rparr>))"

text \<open>
  The busy wait of \<^verbatim>\<open>flash_enable\<close>. An element of the list is one round of the loop: the
  counts that pass, and the frame that arrives in it, if one does. The result says whether a
  packet has been announced; \<open>None\<close>: the wait goes on after the last element.
\<close>

fun wait_packet :: "u64 option \<Rightarrow> (nat \<times> air_frame option) list \<Rightarrow> 'u flash \<Rightarrow> (bool \<times> 'u flash) option" where
  "wait_packet timeout_time ps s =
     (if flash_pkt_received s then Some (True, s)
      else
        let (t, s) = (case timeout_time of None \<Rightarrow> (0, s) | Some x \<Rightarrow> read_time s)
        in if timeout_time \<noteq> None \<and> the timeout_time < t then Some (False, s)
           else case ps of
             [] \<Rightarrow> None
           | (n, f) # ps \<Rightarrow> wait_packet timeout_time ps
               ((case f of None \<Rightarrow> id | Some f \<Rightarrow> receive_frame f) (s\<lparr>fl_clock := pass n (fl_clock s)\<rparr>)))"

declare wait_packet.simps [simp del]

type_synonym 'u rx_callback = "u8 list \<Rightarrow> u64 \<Rightarrow> 'u flash \<Rightarrow> (u8 list \<times> 'u flash) option"

definition start_listening :: "u8 \<Rightarrow> 'u flash \<Rightarrow> 'u flash" where
  "start_listening msg_len s = rf_rx_on (s\<lparr>is_enabled := 1, flash_pkt_received := False, flash_message_len := ucast msg_len,
     fl_clock := (fl_clock s)\<lparr>gie := True\<rparr>\<rparr>)"

text \<open>What follows a received packet\<close>

definition handle_flood :: "'u rx_callback option \<Rightarrow> 'u tx_callback option \<Rightarrow> bool \<Rightarrow> 'u flash \<Rightarrow> 'u flash option" where
  "handle_flood edit_buf cb sent s = do {
     (resp, s) \<leftarrow> rf_rx_packet_nonblock s;
     let s = rf_rx_off s;
     let s = s\<lparr>fl_clock := (fl_clock s)\<lparr>gie := False\<rparr>, flash_message_len := scast (rx_length (fl_radio s))\<rparr>;
     s \<leftarrow> (case edit_buf of
            None \<Rightarrow> Some s
          | Some f \<Rightarrow> do { (buf, s) \<leftarrow> f (flash_buf s) (last_rx_time s) s; Some (s\<lparr>flash_buf := buf\<rparr>) });
     s \<leftarrow> (if auto_re_tx s \<noteq> 0 then flash_tx_pkt cb sent (flash_buf s) (ucast (flash_message_len s)) s else Some s);
     Some (s\<lparr>fl_clock := (fl_clock s)\<lparr>gie := True\<rparr>\<rparr>)
   }"

definition flash_enable :: "u8 \<Rightarrow> u64 option \<Rightarrow> 'u rx_callback option \<Rightarrow> 'u tx_callback option \<Rightarrow> bool \<Rightarrow>
    (nat \<times> air_frame option) list \<Rightarrow> 'u flash \<Rightarrow> 'u flash option" where
  "flash_enable msg_len timeout edit_buf cb sent ps s = do {
     let s = start_listening msg_len s;
     let (t, s) = (case timeout of None \<Rightarrow> (0, s) | Some x \<Rightarrow> read_time s);
     (r, s) \<leftarrow> wait_packet (map_option (\<lambda>x. t + x) timeout) ps s;
     if r then handle_flood edit_buf cb sent s else Some s
   }"

section \<open>One flood\<close>

definition radio_ok :: "'u flash \<Rightarrow> bool" where
  "radio_ok s \<longleftrightarrow> rf_ready (fl_radio s) \<and> rx_max_length (fl_radio s) = of_nat RF_MAX_PAYLOAD_SIZE \<and>
     wireless_prog (fl_radio s) = 0 \<and> length (flash_buf s) = FLASH_MAX_PKT_LEN"

text \<open>The frame has a header of nine bytes and a checksum of two.\<close>

definition carries :: "air_frame \<Rightarrow> u8 list \<Rightarrow> bool" where
  "carries f p \<longleftrightarrow> af_crc f \<and> length (af_bytes f) = length p + RF_PACKET_OVERHEAD_SIZE \<and>
     take (length p) (drop MAC_HEADER (af_bytes f)) = p"

text \<open>A receive callback that changes only the bytes, the clock, the output and its program's state.\<close>

definition edits :: "'u rx_callback \<Rightarrow> bool" where
  "edits cb \<longleftrightarrow> (\<forall>b t s b' s'. cb b t s = Some (b', s') \<longrightarrow> length b' = length b \<and>
     (\<exists>c es a. s' = s\<lparr>fl_clock := c, fl_console := es, fl_app := a\<rparr>))"

lemma editsI:
  assumes "\<And>b t s b' s'. cb b t s = Some (b', s') \<Longrightarrow> length b' = length b \<and>
    s' = s\<lparr>fl_clock := fl_clock s', fl_console := fl_console s', fl_app := fl_app s'\<rparr>"
  shows "edits cb"
  unfolding edits_def using assms by blast

text \<open>The clock of a node when its callback runs, \<open>d\<close> counts after it began to listen.\<close>

definition heard_clock :: "bool \<Rightarrow> nat \<Rightarrow> flash_clock \<Rightarrow> flash_clock" where
  "heard_clock timed d c =
     (let c = c\<lparr>gie := True\<rparr>; rd = (\<lambda>c. snd (flash_get_current_time c));
          c = (if timed then rd (rd c) else c)
      in (rd (pass d c))\<lparr>gie := False\<rparr>)"

definition heard_time :: "bool \<Rightarrow> nat \<Rightarrow> flash_clock \<Rightarrow> u64" where
  "heard_time timed d c =
     (let c = c\<lparr>gie := True\<rparr>; rd = (\<lambda>c. snd (flash_get_current_time c));
          c = (if timed then rd (rd c) else c)
      in fst (flash_get_current_time (pass d c)))"

text \<open>The time-out has not run out when the wait begins.\<close>

definition can_wait :: "u64 option \<Rightarrow> 'u flash \<Rightarrow> bool" where
  "can_wait timeout s \<longleftrightarrow> (case timeout of None \<Rightarrow> True | Some x \<Rightarrow>
     (let (t, c) = flash_get_current_time ((fl_clock s)\<lparr>gie := True\<rparr>) in fst (flash_get_current_time c) \<le> t + x))"

lemma can_waitI:
  assumes "counted (fl_clock s) < 2 ^ 60" "\<forall>x. timeout = Some x \<longrightarrow> unat x < 2 ^ 60"
  shows "can_wait timeout s"
proof (cases timeout)
  case (Some x)
  let ?c = "(fl_clock s)\<lparr>gie := True\<rparr>"
  have c: "counted ?c < 2 ^ 60" using assms(1) by (simp add: counted_def)
  obtain t c1 where t: "flash_get_current_time ?c = (t, c1)" by fastforce
  have "unat (fst (flash_get_current_time c1)) \<le> unat t"
    using flash_clock_goes_back_aux [OF c t surjective_pairing] by simp
  moreover have "unat t < 2 ^ 60"
  proof -
    have m: "16244 * unat (current_time_ms ?c) + unat (TCNT3 ?c) < 2 ^ 60" using c unfolding counted_def .
    have "unat t = unat (current_time_ms ?c) * 1000 + unat (TCNT3 ?c) div 16" using read_clock(1) [OF c] t by simp
    then show ?thesis using m by linarith
  qed
  moreover have "unat x < 2 ^ 60" using assms(2) Some by simp
  ultimately have "fst (flash_get_current_time c1) \<le> t + x"
    by (simp add: word_le_nat_alt unat_word_ariths)
  then show ?thesis using Some t by (simp add: can_wait_def)
qed (simp add: can_wait_def)

lemma radio_steps:
  "rf_rx_off s = s\<lparr>fl_radio := (fl_radio s)\<lparr>receiver_on := False, rx_ready := False\<rparr>\<rparr>"
  "rf_rx_on s = s\<lparr>fl_radio := (fl_radio s)\<lparr>receiver_on := True\<rparr>\<rparr>"
  by (simp_all add: rf_rx_off_def rf_rx_on_def upd_radio_def)

lemma receive_frame_eq:
  "receive_frame f s = s\<lparr>fl_clock := snd (flash_get_current_time (fl_clock s)), last_rx_time := fst (flash_get_current_time (fl_clock s)),
     flash_pkt_received := True, fl_console := fl_console s @ (if af_crc f then [] else [Printf (''RX end failed checksum!'' @ CRLF) []]),
     fl_radio := (fl_radio s)\<lparr>TRXFB := af_bytes f, TST_RX_LENGTH := of_nat (length (af_bytes f)),
       rx_ready := (af_crc f \<or> rx_ready (fl_radio s))\<rparr>\<rparr>"
  by (simp add: receive_frame_def rf_rx_end_def rx_finished_callback_def rx_started_callback_def read_time_def split_beta
      upd_radio_def say_def)

lemma wait_one:
  assumes "can_wait timeout s" "flash_pkt_received s = False" "gie (fl_clock s)"
  shows "(let (t, s) = (case timeout of None \<Rightarrow> (0, s) | Some x \<Rightarrow> read_time s)
    in wait_packet (map_option (\<lambda>x. t + x) timeout) ((d, Some f) # ps) s) =
    (let rd = (\<lambda>c. snd (flash_get_current_time c)); c = fl_clock s; c = (if timeout \<noteq> None then rd (rd c) else c)
     in Some (True, receive_frame f (s\<lparr>fl_clock := pass d c\<rparr>)))"
proof -
  have c: "(fl_clock s)\<lparr>gie := True\<rparr> = fl_clock s" using assms(3) by simp
  have r: "wait_packet x ps (receive_frame f s) = Some (True, receive_frame f s)" for x s
    by (simp add: wait_packet.simps receive_frame_eq)
  show ?thesis
  proof (cases timeout)
    case None
    then show ?thesis using assms(2) r by (simp add: wait_packet.simps [of _ "_ # _"])
  next
    case (Some x)
    then have "\<not> fst (flash_get_current_time (fl_clock s)) + x <
        fst (flash_get_current_time (snd (flash_get_current_time (fl_clock s))))"
      using assms(1) c by (simp add: can_wait_def split_beta not_less)
    then show ?thesis using Some assms(2) r
      by (simp add: wait_packet.simps [of _ "_ # _"] read_time_def split_beta)
  qed
qed

lemma payload_length:
  assumes "n \<le> 107"
  shows "sint (of_nat n :: i8) = int n" "unat (of_nat n :: u8) = n" "uint (of_nat (n + 11) :: u8) = int n + 11"
    "(of_nat (n + 11) :: u8) - 9 - 2 = of_nat n" "scast (of_nat n :: i8) = (of_nat n :: u16)"
    "ucast (of_nat n :: u16) = (of_nat n :: u8)"
proof -
  show n: "sint (of_nat n :: i8) = int n" using assms by (simp add: signed_of_nat signed_take_bit_int_eq_self)
  show "unat (of_nat n :: u8) = n" using assms by (simp add: unsigned_of_nat take_bit_nat_eq_self)
  show "uint (of_nat (n + 11) :: u8) = int n + 11"
    using assms by (simp only: unsigned_of_nat) (simp add: take_bit_nat_eq_self)
  show "(of_nat (n + 11) :: u8) - 9 - 2 = of_nat n" by simp
  show "scast (of_nat n :: i8) = (of_nat n :: u16)" by (simp only: scast_eq n of_int_of_nat_eq)
  show "ucast (of_nat n :: u16) = (of_nat n :: u8)" by (rule ucast_down_of_nat) simp
qed

lemma rx_good:
  assumes "radio_ok s" "carries f p" "length p \<le> 107"
  shows "rf_rx_packet_nonblock (receive_frame f s) = Some (NRK_OK, (receive_frame f s)\<lparr>
    flash_buf := p @ drop (length p) (flash_buf s),
    fl_radio := (fl_radio (receive_frame f s))\<lparr>rx_length := of_nat (length p), rx_ready := False\<rparr>\<rparr>)"
proof -
  have max: "sint (of_nat RF_MAX_PAYLOAD_SIZE :: i8) = 116"
    by (simp add: RF_MAX_PAYLOAD_SIZE_def RF_PACKET_OVERHEAD_SIZE_def)
  show ?thesis
    using assms payload_length [OF assms(3)]
    by (simp add: rf_rx_packet_nonblock_def receive_frame_eq radio_ok_def carries_def max MAC_HEADER_def
        RF_PACKET_OVERHEAD_SIZE_def FLASH_MAX_PKT_LEN_def Let_def)
qed

lemma rx_bad:
  assumes "rf_ready (fl_radio s)" "\<not> rx_ready (fl_radio s)" "\<not> af_crc f"
  shows "rf_rx_packet_nonblock (receive_frame f s) = Some (0, receive_frame f s)"
  using assms by (simp add: rf_rx_packet_nonblock_def receive_frame_eq Let_def)

text \<open>What the callback sees, and what becomes of its result.\<close>

lemma handle_flood_edits:
  fixes cb :: "'a rx_callback"
  assumes rx: "rf_rx_packet_nonblock s = Some (r, s1)" and len: "rx_length (fl_radio s1) = of_nat n" "n \<le> 107"
    "n \<le> length (flash_buf s1)" and cb: "edits cb"
  shows "case cb (flash_buf s1) (last_rx_time s1) (rf_rx_off s1\<lparr>fl_clock := (fl_clock s1)\<lparr>gie := False\<rparr>, flash_message_len := of_nat n\<rparr>) of
      None \<Rightarrow> handle_flood (Some cb) None sent s = None
    | Some (b, s2) \<Rightarrow> handle_flood (Some cb) None sent s = Some (s2\<lparr>flash_buf := b,
        fl_radio := (fl_radio s2)\<lparr>on_air := on_air (fl_radio s1) @ (if auto_re_tx s1 \<noteq> 0 \<and> sent then [take n b] else [])\<rparr>,
        fl_clock := (fl_clock s2)\<lparr>gie := True\<rparr>\<rparr>)"
proof -
  let ?s = "rf_rx_off s1\<lparr>fl_clock := (fl_clock s1)\<lparr>gie := False\<rparr>, flash_message_len := of_nat n\<rparr>"
  show ?thesis
  proof (cases "cb (flash_buf s1) (last_rx_time s1) ?s")
    case None
    then show ?thesis using rx len payload_length [OF len(2)] by (simp add: handle_flood_def radio_steps)
  next
    case (Some bs)
    obtain b s2 where b: "bs = (b, s2)" by fastforce
    with Some cb obtain c es a where e: "length b = length (flash_buf s1)" "s2 = ?s\<lparr>fl_clock := c, fl_console := es, fl_app := a\<rparr>"
      unfolding edits_def by blast
    have st: "uint (if sent then NRK_OK else NRK_ERROR) \<noteq> sint NRK_ERROR"
    proof -
      have "0 \<le> uint w" for w :: u8 by simp
      then show ?thesis by (metis NRK_codes(4) neg_0_le_iff_le not_one_le_zero)
    qed
    have tx: "flash_tx_pkt None sent b (of_nat n) s' = Some (if sent then upd_radio (\<lambda>r. r\<lparr>on_air := on_air r @ [take n b]\<rparr>) s' else s')" for s' :: "'a flash"
      using payload_length [OF len(2)] len(3) e(1) st by (simp add: flash_tx_pkt_def rf_tx_packet_blocking_def)
    have same: "s'\<lparr>fl_radio := fl_radio s'\<rparr> = s'" "r\<lparr>on_air := on_air r\<rparr> = r" for s' :: "'a flash" and r :: radio by simp_all
    show ?thesis using Some b rx len(1) payload_length [OF len(2)] tx e(2)
      by (cases sent; cases "auto_re_tx s1 = 0") (simp_all add: handle_flood_def radio_steps upd_radio_def)
  qed
qed

text \<open>Between the start of \<^verbatim>\<open>flash_enable\<close> and the end of the wait.\<close>

lemma flash_enable_wait:
  assumes "can_wait timeout s"
  shows "flash_enable n timeout cb tx sent ((d, Some f) # ps) s =
    handle_flood cb tx sent (receive_frame f (s\<lparr>is_enabled := 1, flash_pkt_received := False, flash_message_len := ucast n,
      fl_radio := (fl_radio s)\<lparr>receiver_on := True\<rparr>, fl_clock := pass d ((let c = (fl_clock s)\<lparr>gie := True\<rparr>; rd = (\<lambda>c. snd (flash_get_current_time c))
        in if timeout \<noteq> None then rd (rd c) else c))\<rparr>))"
proof -
  let ?s = "start_listening n s"
  have w: "can_wait timeout ?s" "flash_pkt_received ?s = False" "gie (fl_clock ?s)"
    using assms by (simp_all add: start_listening_def radio_steps can_wait_def split: option.splits)
  show ?thesis using wait_one [OF w, of d f ps]
    by (cases timeout) (simp_all add: flash_enable_def start_listening_def radio_steps Let_def read_time_def split_beta)
qed

text \<open>
  The whole of \<^verbatim>\<open>flash_enable\<close> with a frame that arrives in the first round, from what the
  radio makes of it: \<open>b0\<close> is in the buffer then, and \<open>m\<close> is taken for the length.
\<close>

definition relayed :: "'u flash \<Rightarrow> 'u flash \<Rightarrow> u8 list \<Rightarrow> nat \<Rightarrow> bool \<Rightarrow> 'u flash \<Rightarrow> bool" where
  "relayed s s2 b m sent s' \<longleftrightarrow> radio_ok s' \<and> \<not> receiver_on (fl_radio s') \<and> flash_buf s' = b \<and> fl_app s' = fl_app s2 \<and>
     fl_console s' = fl_console s2 \<and> fl_clock s' = (fl_clock s2)\<lparr>gie := True\<rparr> \<and> auto_re_tx s' = auto_re_tx s \<and>
     on_air (fl_radio s') = on_air (fl_radio s) @ (if auto_re_tx s \<noteq> 0 \<and> sent then [take m b] else [])"

lemma flash_enable_hears:
  fixes cb :: "'a rx_callback"
  assumes ok: "edits cb" "can_wait timeout s" "m \<le> 107" "length b0 = FLASH_MAX_PKT_LEN"
    and rx: "\<And>w :: 'a flash. fl_radio w = (fl_radio s)\<lparr>receiver_on := True\<rparr> \<Longrightarrow> flash_buf w = flash_buf s \<Longrightarrow>
      \<exists>r rd. rf_rx_packet_nonblock (receive_frame f w) = Some (r, (receive_frame f w)\<lparr>flash_buf := b0, fl_radio := rd\<rparr>) \<and>
        rx_length rd = of_nat m \<and> on_air rd = on_air (fl_radio s) \<and>
        rf_ready rd \<and> rx_max_length rd = of_nat RF_MAX_PAYLOAD_SIZE \<and> wireless_prog rd = 0"
  shows "\<exists>s1. fl_app s1 = fl_app s \<and> fl_clock s1 = heard_clock (timeout \<noteq> None) d (fl_clock s) \<and>
    fl_console s1 = fl_console s @ (if af_crc f then [] else [Printf (''RX end failed checksum!'' @ CRLF) []]) \<and>
    (case cb b0 (heard_time (timeout \<noteq> None) d (fl_clock s)) s1 of
       None \<Rightarrow> flash_enable n timeout (Some cb) None sent ((d, Some f) # ps) s = None
     | Some (b, s2) \<Rightarrow> \<exists>s'. flash_enable n timeout (Some cb) None sent ((d, Some f) # ps) s = Some s' \<and> relayed s s2 b m sent s')"
proof -
  define w where "w = s\<lparr>is_enabled := 1, flash_pkt_received := False, flash_message_len := ucast n,
      fl_radio := (fl_radio s)\<lparr>receiver_on := True\<rparr>, fl_clock := pass d ((let c = (fl_clock s)\<lparr>gie := True\<rparr>;
        rd = (\<lambda>c. snd (flash_get_current_time c)) in if timeout \<noteq> None then rd (rd c) else c))\<rparr>"
  from rx [of w] obtain r rd where rd: "rx_length rd = of_nat m" "on_air rd = on_air (fl_radio s)"
      "rf_ready rd \<and> rx_max_length rd = of_nat RF_MAX_PAYLOAD_SIZE \<and> wireless_prog rd = 0"
    and rx: "rf_rx_packet_nonblock (receive_frame f w) = Some (r, (receive_frame f w)\<lparr>flash_buf := b0, fl_radio := rd\<rparr>)"
    by (auto simp: w_def)
  define s1 where "s1 = (receive_frame f w)\<lparr>flash_buf := b0, fl_radio := rd\<rparr>"
  let ?s = "rf_rx_off s1\<lparr>fl_clock := (fl_clock s1)\<lparr>gie := False\<rparr>, flash_message_len := of_nat m\<rparr>"
  have e: "flash_enable n timeout (Some cb) None sent ((d, Some f) # ps) s = handle_flood (Some cb) None sent (receive_frame f w)"
    using flash_enable_wait [OF ok(2)] by (simp add: w_def)
  have clk: "fl_clock ?s = heard_clock (timeout \<noteq> None) d (fl_clock s)" "last_rx_time s1 = heard_time (timeout \<noteq> None) d (fl_clock s)"
    by (simp_all add: s1_def w_def receive_frame_eq heard_clock_def heard_time_def Let_def)
  have frame: "fl_app ?s = fl_app s" "flash_buf s1 = b0" "auto_re_tx s1 = auto_re_tx s" "fl_radio s1 = rd"
    "fl_console ?s = fl_console s @ (if af_crc f then [] else [Printf (''RX end failed checksum!'' @ CRLF) []])"
    by (simp_all add: s1_def w_def receive_frame_eq radio_steps)
  have n: "rx_length (fl_radio s1) = of_nat m" "m \<le> length (flash_buf s1)"
    using rd(1) ok(3,4) by (simp_all add: s1_def FLASH_MAX_PKT_LEN_def)
  note h = handle_flood_edits [OF rx [folded s1_def] n(1) ok(3) n(2) ok(1), of sent]
  have "relayed s s2 b m sent (s2\<lparr>flash_buf := b,
      fl_radio := (fl_radio s2)\<lparr>on_air := on_air (fl_radio s1) @ (if auto_re_tx s1 \<noteq> 0 \<and> sent then [take m b] else [])\<rparr>,
      fl_clock := (fl_clock s2)\<lparr>gie := True\<rparr>\<rparr>)" if "cb b0 t ?s = Some (b, s2)" for t b s2
  proof -
    from that ok(1) obtain c es a where "length b = length b0" "s2 = ?s\<lparr>fl_clock := c, fl_console := es, fl_app := a\<rparr>"
      unfolding edits_def by blast
    then show ?thesis using rd(2,3) ok(4) by (simp add: relayed_def radio_ok_def radio_steps frame)
  qed
  then show ?thesis using h clk frame(1,5)
    by (intro exI [of _ ?s]) (auto simp: e frame(2) split: option.splits)
qed

lemma flash_enable_relays_aux:
  fixes cb :: "'a rx_callback"
  assumes "radio_ok s" "carries f p" "length p \<le> 107" "edits cb" "can_wait timeout s"
  shows "\<exists>s1. fl_app s1 = fl_app s \<and> fl_clock s1 = heard_clock (timeout \<noteq> None) d (fl_clock s) \<and> fl_console s1 = fl_console s \<and>
    (case cb (p @ drop (length p) (flash_buf s)) (heard_time (timeout \<noteq> None) d (fl_clock s)) s1 of
       None \<Rightarrow> flash_enable n timeout (Some cb) None sent ((d, Some f) # ps) s = None
     | Some (b, s2) \<Rightarrow> \<exists>s'. flash_enable n timeout (Some cb) None sent ((d, Some f) # ps) s = Some s' \<and>
         relayed s s2 b (length p) sent s')"
proof -
  let ?b = "p @ drop (length p) (flash_buf s)"
  have rx: "\<exists>r rd. rf_rx_packet_nonblock (receive_frame f w) = Some (r, (receive_frame f w)\<lparr>flash_buf := ?b, fl_radio := rd\<rparr>) \<and>
      rx_length rd = of_nat (length p) \<and> on_air rd = on_air (fl_radio s) \<and>
      rf_ready rd \<and> rx_max_length rd = of_nat RF_MAX_PAYLOAD_SIZE \<and> wireless_prog rd = 0"
    if w: "fl_radio w = (fl_radio s)\<lparr>receiver_on := True\<rparr>" "flash_buf w = flash_buf s" for w :: "'a flash"
  proof -
    have "radio_ok w" using assms(1) w by (simp add: radio_ok_def)
    from rx_good [OF this assms(2,3)] show ?thesis
      using assms(1) w by (intro exI conjI) (assumption | simp add: receive_frame_eq radio_ok_def)+
  qed
  have "length ?b = FLASH_MAX_PKT_LEN" using assms(1,3) by (simp add: radio_ok_def FLASH_MAX_PKT_LEN_def)
  from flash_enable_hears [OF assms(4,5,3) this rx, of d n sent ps] show ?thesis
    using assms(2) by (auto simp: carries_def)
qed

section \<open>Time-outs\<close>

text \<open>The clock in a wait in which no frame arrives\<close>

definition polls :: "nat list \<Rightarrow> clock_event list" where
  "polls ns = concat (map (\<lambda>n. [Reading, Pass n]) ns)"

lemma polls_simps [simp]: "polls [] = []" "polls (n # ns) = Reading # Pass n # polls ns"
  by (simp_all add: polls_def)

lemma passed_polls [simp]: "passed (polls ns) = sum_list ns"
  by (induction ns) simp_all

lemma wait_quiet:
  assumes "\<not> flash_pkt_received s"
  shows "case wait_packet (Some x) (map (\<lambda>n. (n, None)) ns) s of
      None \<Rightarrow> fst (flash_get_current_time (fold clock_step (polls ns) (fl_clock s))) \<le> x
    | Some (r, s') \<Rightarrow> \<not> r \<and> (\<exists>c. s' = s\<lparr>fl_clock := c\<rparr>)"
  using assms
proof (induction ns arbitrary: s)
  case Nil
  then show ?case by (auto simp: wait_packet.simps read_time_def split_beta not_less)
next
  case (Cons n ns)
  let ?s = "s\<lparr>fl_clock := pass n (snd (flash_get_current_time (fl_clock s)))\<rparr>"
  have "\<not> flash_pkt_received ?s" using Cons.prems by simp
  note ih = Cons.IH [OF this]
  have e: "wait_packet (Some x) (map (\<lambda>n. (n, None)) (n # ns)) s =
      (if x < fst (flash_get_current_time (fl_clock s)) then Some (False, s\<lparr>fl_clock := snd (flash_get_current_time (fl_clock s))\<rparr>)
       else wait_packet (Some x) (map (\<lambda>n. (n, None)) ns) ?s)"
    using Cons.prems by (simp add: wait_packet.simps [of _ "_ # _"] read_time_def split_beta)
  show ?case
  proof (cases "x < fst (flash_get_current_time (fl_clock s))")
    case True
    then show ?thesis unfolding e by auto
  next
    case False
    then show ?thesis using ih unfolding e by (auto split: option.splits)
  qed
qed

section \<open>Properties\<close>


text \<open>A program without state, and a callback that does nothing.\<close>

definition ex_flash :: "u8 list \<Rightarrow> 'u \<Rightarrow> 'u flash" where
  "ex_flash b a = snd (flash_init 16 \<lparr>fl_clock = ex_clock, flash_message_len = 0, flash_err_count = 0, flash_chan = 0,
     is_enabled = 0, flash_started = 0, flash_buf = b @ replicate (128 - length b) 0, auto_re_tx = 0, last_rx_time = 0,
     flash_pkt_received = False, fl_radio = \<lparr>rf_ready = False, rx_ready = False, TRXFB = [], TST_RX_LENGTH = 0,
       wireless_prog = 0, rx_length = 3, rx_max_length = 0, receiver_on = False, on_air = []\<rparr>,
     fl_console = [], fl_app = a\<rparr>)"

definition ex_frame :: "u8 list \<Rightarrow> bool \<Rightarrow> air_frame" where
  "ex_frame p crc = \<lparr>af_bytes = replicate 9 0 @ p @ [0, 0], af_crc = crc\<rparr>"

lemma ex_flash_ok [simp]: "length b \<le> 128 \<Longrightarrow> radio_ok (ex_flash b a)" "fl_clock (ex_flash b a) = ex_clock"
  "fl_app (ex_flash b a) = a" "auto_re_tx (ex_flash b a) = 1" "on_air (fl_radio (ex_flash b a)) = []" "fl_console (ex_flash b a) = []"
  by (simp_all add: radio_ok_def ex_flash_def flash_init_def upd_radio_def FLASH_MAX_PKT_LEN_def)

lemma ex_clock_counted [simp]: "counted ex_clock = 0"
  by (simp add: counted_def ex_clock_def)

lemma ex_frame_carries [simp]: "carries (ex_frame p True) p"
  by (simp add: carries_def ex_frame_def MAC_HEADER_def RF_PACKET_OVERHEAD_SIZE_def)

lemma edits_idle: "edits (\<lambda>b t s. Some (b, s))"
proof -
  have "\<exists>c es a. s = s\<lparr>fl_clock := c, fl_console := es, fl_app := a\<rparr>" for s :: "'a flash"
    by (intro exI [of _ "fl_clock s"] exI [of _ "fl_console s"] exI [of _ "fl_app s"]) simp
  then show ?thesis by (auto simp: edits_def)
qed


text \<open>
  C28: A broken frame. The end of a frame is announced although its checksum is wrong. The
  node then runs its callback on what its buffer held before, and sends as many bytes of it
  as the frame before had.
\<close>

theorem flash_enable_broken_frame:
  fixes cb :: "'a rx_callback"
  assumes "radio_ok s" "\<not> rx_ready (fl_radio s)" "\<not> af_crc f" "rx_length (fl_radio s) = of_nat m" "m \<le> 107"
    "edits cb" "can_wait timeout s"
  shows "\<exists>s1. fl_app s1 = fl_app s \<and>
    (case cb (flash_buf s) (heard_time (timeout \<noteq> None) d (fl_clock s)) s1 of
       None \<Rightarrow> flash_enable n timeout (Some cb) None sent ((d, Some f) # ps) s = None
     | Some (b, s2) \<Rightarrow> \<exists>s'. flash_enable n timeout (Some cb) None sent ((d, Some f) # ps) s = Some s' \<and> relayed s s2 b m sent s')"
proof -
  have rx: "\<exists>r rd. rf_rx_packet_nonblock (receive_frame f w) = Some (r, (receive_frame f w)\<lparr>flash_buf := flash_buf s, fl_radio := rd\<rparr>) \<and>
      rx_length rd = of_nat m \<and> on_air rd = on_air (fl_radio s) \<and>
      rf_ready rd \<and> rx_max_length rd = of_nat RF_MAX_PAYLOAD_SIZE \<and> wireless_prog rd = 0"
    if w: "fl_radio w = (fl_radio s)\<lparr>receiver_on := True\<rparr>" "flash_buf w = flash_buf s" for w :: "'a flash"
  proof -
    have "(receive_frame f w)\<lparr>flash_buf := flash_buf s, fl_radio := fl_radio (receive_frame f w)\<rparr> = receive_frame f w"
      by (simp add: receive_frame_eq flip: w(2))
    moreover have "rf_rx_packet_nonblock (receive_frame f w) = Some (0, receive_frame f w)"
      using assms(1-3) w(1) by (intro rx_bad) (simp_all add: radio_ok_def)
    ultimately show ?thesis using assms(1,4) w(1)
      by (intro exI [of _ 0] exI [of _ "fl_radio (receive_frame f w)"]) (simp add: receive_frame_eq radio_ok_def)
  qed
  have "length (flash_buf s) = FLASH_MAX_PKT_LEN" using assms(1) by (simp add: radio_ok_def)
  from flash_enable_hears [OF assms(6,7,5) this rx, of d n sent ps] show ?thesis by blast
qed

theorem flash_enable_broken_frame_witness:
  "\<exists>s'. flash_enable 3 None (Some (\<lambda>b t s. Some (b, s))) None True [(500, Some (ex_frame [7, 8] False))] (ex_flash [1, 2, 3, 4] ()) = Some s' \<and>
    on_air (fl_radio s') = [[1, 2, 3]]"
proof -
  have w: "can_wait None (ex_flash [1, 2, 3, 4] ())" by (simp add: can_wait_def)
  have r: "\<not> rx_ready (fl_radio (ex_flash [1, 2, 3, 4] ()))" "rx_length (fl_radio (ex_flash [1, 2, 3, 4] ())) = of_nat 3"
    "\<not> af_crc (ex_frame [7, 8] False)"
    by (simp_all add: ex_flash_def flash_init_def upd_radio_def ex_frame_def)
  have b: "take 3 (flash_buf (ex_flash [1, 2, 3, 4] ())) = [1, 2, 3]" by (simp add: ex_flash_def flash_init_def upd_radio_def)
  from flash_enable_broken_frame [where d = 500 and n = 3 and sent = True and ps = "[]",
      OF ex_flash_ok(1) r(1,3,2) _ edits_idle w]
  show ?thesis using b by (auto simp: relayed_def)
qed



end
