(* ===== verification/Flood_Node.thy ===== *)
theory Flood_Node
  imports Flash_Flood
begin

text \<open>
  A leaf node of the flooding TDMA network, \<^verbatim>\<open>projects/demos/748_flooding_tdma/tdma.h\<close> and
  \<^verbatim>\<open>projects/demos/748_flooding_tdma/node/main.c\<close>. The phases of \<^verbatim>\<open>main\<close> are steps, one for
  each TDMA slot; between them the node waits for the end of the slot. What the pressure
  sensor reads and which frames are in the air are parameters.
\<close>

section \<open>Definitions\<close>

definition TDMA_SLOT_LEN :: u64 where "TDMA_SLOT_LEN = 200000"
definition PKT_LEN :: nat where "PKT_LEN = 9"
definition INTER_SYNC_CYCLES :: u32 where "INTER_SYNC_CYCLES = 100"
definition NUM_NODES :: nat where "NUM_NODES = 5"
definition FLOOD_PROP_REDUNDANCY :: nat where "FLOOD_PROP_REDUNDANCY = 1"

definition SLOT_OFF :: u8 where "SLOT_OFF = 0"
definition SLOT_LISTEN :: u8 where "SLOT_LISTEN = 1"
definition SLOT_FLOOD :: u8 where "SLOT_FLOOD = 2"

lemmas slot_types = SLOT_OFF_def SLOT_LISTEN_def SLOT_FLOOD_def

record node =
  nodeID :: u8
  time_slots :: "u8 list"
  msg :: "u8 list"
  time_synchronized :: bool
  press :: u32
  last_sense_time :: u32

text \<open>Four bytes of a packet as a \<^verbatim>\<open>uint32_t\<close>, the low byte first.\<close>

definition get32 :: "nat \<Rightarrow> u8 list \<Rightarrow> u32" where
  "get32 i xs = ucast (xs ! i) OR push_bit 8 (ucast (xs ! (i + 1))) OR push_bit 16 (ucast (xs ! (i + 2))) OR
     push_bit 24 (ucast (xs ! (i + 3)))"

definition put32 :: "nat \<Rightarrow> u32 \<Rightarrow> u8 list \<Rightarrow> u8 list" where
  "put32 i w xs = xs[i := ucast w, i + 1 := ucast (drop_bit 8 w), i + 2 := ucast (drop_bit 16 w), i + 3 := ucast (drop_bit 24 w)]"

definition upd_app :: "('u \<Rightarrow> 'u) \<Rightarrow> 'u flash \<Rightarrow> 'u flash" where
  "upd_app f s = s\<lparr>fl_app := f (fl_app s)\<rparr>"

definition time_sync_callback :: "node rx_callback" where
  "time_sync_callback buf recv_time s =
     (if length buf < PKT_LEN then None
      else if buf ! 0 = 0 \<or> buf ! 0 = 255 then
        let global_time = get32 1 buf;
            s = s\<lparr>fl_clock := flash_set_time (ucast (global_time + 673)) (fl_clock s)\<rparr>;
            (current_time, s) = read_time s;
            buf = put32 1 (ucast current_time) buf
        in Some (buf, if buf ! 0 = 255 then upd_app (\<lambda>a. a\<lparr>time_synchronized := True\<rparr>) s else s)
      else Some (buf, s))"

definition startup_phase1_callback :: "node rx_callback" where
  "startup_phase1_callback buf recv_time s =
     (if length buf < PKT_LEN then None
      else
        let num_retransmissions = buf ! (PKT_LEN - 1);
            (buf, s) =
              (if PKT_LEN - 2 \<le> unat (buf ! (PKT_LEN - 1)) then (buf, say [Printf (''too many retransmissions'' @ CRLF) []] s)
               else (buf[PKT_LEN - 1 := buf ! (PKT_LEN - 1) + 1, unat num_retransmissions + 1 := nodeID (fl_app s)], s))
        in Some (buf, say (map (\<lambda>i. Printf (''buf[%d] = %d'' @ CRLF) [int i, uint (buf ! i)]) [0 ..< PKT_LEN]) s))"

definition startup_phase2_callback :: "node rx_callback" where
  "startup_phase2_callback buf recv_time s =
     (if length buf < PKT_LEN \<or> length (time_slots (fl_app s)) \<le> unat (buf ! 0) then None
      else
        let s = say [Printf (''received phase 2 for slot %d'' @ CRLF) [uint (buf ! 0)]] s;
            slot = unat (buf ! 0);
            s = upd_app (\<lambda>a. a\<lparr>time_slots := (time_slots a)[slot := SLOT_OFF]\<rparr>) s;
            s = (if buf ! 0 = nodeID (fl_app s) then upd_app (\<lambda>a. a\<lparr>time_slots := (time_slots a)[slot := SLOT_FLOOD]\<rparr>) s else s);
            s = (if nodeID (fl_app s) \<in> set (take (PKT_LEN - 2) (drop 1 buf))
                 then upd_app (\<lambda>a. a\<lparr>time_slots := (time_slots a)[slot := SLOT_LISTEN]\<rparr>) s else s)
        in Some (buf, s))"

definition get_curr_tdma_cycle :: "'u flash \<Rightarrow> u8 \<times> 'u flash" where
  "get_curr_tdma_cycle s = (let (t, s) = read_time s in (ucast ((t div TDMA_SLOT_LEN) mod of_nat NUM_NODES), s))"

text \<open>
  The waits of \<^verbatim>\<open>wait_remainder_of_tdma_period\<close>: the arguments of \<^verbatim>\<open>nrk_spin_wait_us\<close>. The
  counter of the loop has 16 bits and a sign.
\<close>

definition wait_remainder_of_tdma_period :: "u8 \<Rightarrow> 'u flash \<Rightarrow> (u16 list \<times> 'u flash) option" where
  "wait_remainder_of_tdma_period slot_old s =
     (let (cycle, s) = get_curr_tdma_cycle s
      in if cycle \<noteq> slot_old then Some ([], s)
         else
           let slot_len = ucast TDMA_SLOT_LEN; (t, s) = read_time s;
               remainder = (slot_len - ucast t mod slot_len :: u32);
               remainder = remainder - 100
           in if 32767 < unat (remainder div 50000) then None
              else Some (replicate (unat (remainder div 50000)) 50000 @ [ucast (remainder mod 50000)], s))"

text \<open>The rounds of \<^verbatim>\<open>nrk_spin_wait_us\<close>, \<^verbatim>\<open>do { ... } while (--timeout)\<close>, one microsecond each\<close>

function nrk_spin_wait_us :: "u16 \<Rightarrow> nat" where
  "nrk_spin_wait_us timeout = 1 + (if timeout - 1 \<noteq> 0 then nrk_spin_wait_us (timeout - 1) else 0)"
  by pat_completeness auto
termination
  by (relation "measure (\<lambda>t. unat (t - 1))") (auto simp: unat_sub_if' unsigned_greater_eq word_unat_eq_iff)

declare nrk_spin_wait_us.simps [simp del]

subsection \<open>The phases\<close>

text \<open>One round of the loop that waits for the first synchronisation\<close>

definition await_sync :: "bool \<Rightarrow> (nat \<times> air_frame option) list \<Rightarrow> node flash \<Rightarrow> node flash option" where
  "await_sync sent ps s = flash_enable (of_nat PKT_LEN) None (Some time_sync_callback) None sent ps s"

definition start_init :: "node flash \<Rightarrow> node flash" where
  "start_init s = flash_set_retransmit 1 s"

definition init1_slot :: "u8 \<Rightarrow> bool \<Rightarrow> (nat \<times> air_frame option) list \<Rightarrow> node flash \<Rightarrow> node flash option" where
  "init1_slot cycle sent ps s =
     (if cycle = nodeID (fl_app s) then
        if length (msg (fl_app s)) < PKT_LEN then None
        else
          let s = upd_app (\<lambda>a. a\<lparr>msg := (msg a)[0 := nodeID a, PKT_LEN - 1 := 0]\<rparr>) s
          in flash_tx_pkt None sent (msg (fl_app s)) (of_nat PKT_LEN) s
      else flash_enable (of_nat PKT_LEN) (Some (TDMA_SLOT_LEN - 1000)) (Some startup_phase1_callback) None sent ps s)"

definition init2_slot :: "bool \<Rightarrow> (nat \<times> air_frame option) list \<Rightarrow> node flash \<Rightarrow> node flash option" where
  "init2_slot sent ps s =
     flash_enable (of_nat PKT_LEN) (Some (TDMA_SLOT_LEN - 1000)) (Some startup_phase2_callback) None sent ps s"

definition fix_slots :: "node flash \<Rightarrow> node flash option" where
  "fix_slots s =
     (if length (time_slots (fl_app s)) \<le> unat (nodeID (fl_app s)) then None
      else Some (upd_app (\<lambda>a. a\<lparr>time_slots := (time_slots a)[0 := SLOT_LISTEN, unat (nodeID a) := SLOT_FLOOD]\<rparr>) s))"

text \<open>The loop over the transmissions of one slot\<close>

fun flood_times :: "nat \<Rightarrow> bool \<Rightarrow> node flash \<Rightarrow> node flash option" where
  "flood_times 0 sent s = Some s"
| "flood_times (Suc n) sent s = do {
     s \<leftarrow> flash_tx_pkt None sent (msg (fl_app s)) (of_nat PKT_LEN) s;
     flood_times n sent s
   }"

text \<open>One round of the main loop, up to the wait for the end of the slot\<close>

definition node_slot :: "u32 \<Rightarrow> bool \<Rightarrow> (nat \<times> air_frame option) list \<Rightarrow> node flash \<Rightarrow> (u8 \<times> node flash) option" where
  "node_slot sensor sent ps s = do {
     let (cycle, s) = get_curr_tdma_cycle s;
     cycle_type \<leftarrow> at (time_slots (fl_app s)) (uint cycle);
     s \<leftarrow> (if cycle_type = SLOT_OFF then
             let s = upd_app (\<lambda>a. a\<lparr>press := sensor\<rparr>) s; (t, s) = read_time s
             in Some (upd_app (\<lambda>a. a\<lparr>last_sense_time := ucast t\<rparr>) s)
           else if cycle_type = SLOT_LISTEN then
             flash_enable (of_nat PKT_LEN) (Some (TDMA_SLOT_LEN - 1000)) (Some time_sync_callback) None sent ps s
           else if cycle_type = SLOT_FLOOD then
             if length (msg (fl_app s)) < PKT_LEN then None
             else
               let s = say [Printf (''transmitting pkt'' @ CRLF) []] s;
                   s = upd_app (\<lambda>a. a\<lparr>msg := put32 5 (last_sense_time a) (put32 1 (press a) ((msg a)[0 := nodeID a]))\<rparr>) s
               in flood_times FLOOD_PROP_REDUNDANCY sent s
           else Some (say [Printf (''incorrect time slot type'' @ CRLF) []] s));
     Some (cycle, say [Printf (''cycle %d, action:%d, press:%lu'' @ CRLF)
       [uint cycle, uint cycle_type, uint (press (fl_app s))]] s)
   }"

section \<open>The callbacks\<close>

lemma length_put32 [simp]: "length (put32 i w xs) = length xs"
  by (simp add: put32_def)

lemma get_put32 [simp]: "i + 3 < length xs \<Longrightarrow> get32 i (put32 i w xs) = w"
proof -
  assume "i + 3 < length xs"
  then have e: "put32 i w xs ! i = ucast w" "put32 i w xs ! (i + 1) = ucast (drop_bit 8 w)"
    "put32 i w xs ! (i + 2) = ucast (drop_bit 16 w)" "put32 i w xs ! (i + 3) = ucast (drop_bit 24 w)"
    by (simp_all add: put32_def)
  show ?thesis unfolding get32_def e
  proof (rule bit_word_eqI)
    fix n :: nat assume n: "n < LENGTH(32)"
    consider "n < 8" | k where "n = 8 + k" "k < 8" | k where "n = 16 + k" "k < 8" | k where "n = 24 + k"
    proof -
      have "n < 8 \<or> (\<exists>k. n = 8 + k \<and> k < 8) \<or> (\<exists>k. n = 16 + k \<and> k < 8) \<or> (\<exists>k. n = 24 + k)" by presburger
      then show ?thesis using that by blast
    qed
    then show "bit ((ucast (ucast w :: u8) :: u32) OR push_bit 8 (ucast (ucast (drop_bit 8 w) :: u8)) OR
        push_bit 16 (ucast (ucast (drop_bit 16 w) :: u8)) OR push_bit 24 (ucast (ucast (drop_bit 24 w) :: u8))) n = bit w n"
      using n by cases (auto simp: bit_or_iff bit_push_bit_iff bit_ucast_iff bit_drop_bit_eq)
  qed
qed

lemma get32_other: "j + 3 < i \<or> i + 3 < j \<Longrightarrow> get32 j (put32 i w xs) = get32 j xs"
  by (auto simp: get32_def put32_def)

lemma put32_nth: "j < i \<or> i + 3 < j \<Longrightarrow> put32 i w xs ! j = xs ! j"
  by (auto simp: put32_def)

lemma get32_append: "i + 3 < length xs \<Longrightarrow> get32 i (xs @ ys) = get32 i xs"
  by (simp add: get32_def nth_append)

lemma put32_append: "i + 3 < length xs \<Longrightarrow> put32 i w (xs @ ys) = put32 i w xs @ ys"
  by (simp add: put32_def list_update_append)

text \<open>What a relay does to a packet of the first phase\<close>

definition record_hop :: "u8 \<Rightarrow> u8 list \<Rightarrow> u8 list" where
  "record_hop n b = (if 7 \<le> unat (b ! 8) then b else b[8 := b ! 8 + 1, unat (b ! 8) + 1 := n])"

lemma length_record_hop [simp]: "length (record_hop n b) = length b"
  by (simp add: record_hop_def)

lemma record_hop_append: "length p = 9 \<Longrightarrow> record_hop n (p @ r) = record_hop n p @ r"
  by (simp add: record_hop_def nth_append list_update_append)

lemma phase1_value:
  "length b < 9 \<Longrightarrow> startup_phase1_callback b t s = None"
  "9 \<le> length b \<Longrightarrow> \<exists>es. startup_phase1_callback b t s = Some (record_hop (nodeID (fl_app s)) b, s\<lparr>fl_console := fl_console s @ es\<rparr>)"
proof -
  show "length b < 9 \<Longrightarrow> startup_phase1_callback b t s = None" by (simp add: startup_phase1_callback_def PKT_LEN_def)
  assume "9 \<le> length b"
  then show "\<exists>es. startup_phase1_callback b t s = Some (record_hop (nodeID (fl_app s)) b, s\<lparr>fl_console := fl_console s @ es\<rparr>)"
    by (cases "7 \<le> unat (b ! 8)")
      (simp_all add: startup_phase1_callback_def PKT_LEN_def record_hop_def say_def Let_def exI)
qed

lemma edits_phase1: "edits startup_phase1_callback"
proof (rule editsI)
  fix b t s b' s'
  assume "startup_phase1_callback b t s = Some (b', s')"
  then show "length b' = length b \<and> s' = s\<lparr>fl_clock := fl_clock s', fl_console := fl_console s', fl_app := fl_app s'\<rparr>"
    using phase1_value(1) [of b t s] phase1_value(2) [of b t s] by (cases "9 \<le> length b") (auto simp: not_le not_less)
qed

text \<open>What a node makes of a packet of the second phase\<close>

definition learn_slot :: "u8 list \<Rightarrow> node \<Rightarrow> node" where
  "learn_slot b a = a\<lparr>time_slots := (time_slots a)[unat (b ! 0) :=
     (if nodeID a \<in> set (take 7 (drop 1 b)) then SLOT_LISTEN else if b ! 0 = nodeID a then SLOT_FLOOD else SLOT_OFF)]\<rparr>"

lemma phase2_value:
  "length b < 9 \<or> length (time_slots (fl_app s)) \<le> unat (b ! 0) \<Longrightarrow> startup_phase2_callback b t s = None"
  "9 \<le> length b \<Longrightarrow> unat (b ! 0) < length (time_slots (fl_app s)) \<Longrightarrow>
    \<exists>es. startup_phase2_callback b t s = Some (b, s\<lparr>fl_console := fl_console s @ es, fl_app := learn_slot b (fl_app s)\<rparr>)"
  by (auto simp: startup_phase2_callback_def PKT_LEN_def say_def upd_app_def learn_slot_def Let_def)

lemma edits_phase2: "edits startup_phase2_callback"
proof (rule editsI)
  fix b t s b' s'
  assume "startup_phase2_callback b t s = Some (b', s')"
  then show "length b' = length b \<and> s' = s\<lparr>fl_clock := fl_clock s', fl_console := fl_console s', fl_app := fl_app s'\<rparr>"
    using phase2_value(1) [of b s t] phase2_value(2) [of b s t] by (cases "9 \<le> length b \<and> unat (b ! 0) < length (time_slots (fl_app s))") (auto simp: not_le not_less)
qed

text \<open>Time synchronisation\<close>

definition is_sync :: "u8 list \<Rightarrow> bool" where
  "is_sync b \<longleftrightarrow> b ! 0 = 0 \<or> b ! 0 = 255"

lemma ucast_back: "ucast (ucast (w :: u32) :: u64) = w"
  by (rule bit_word_eqI) (simp add: bit_ucast_iff)

lemma sync_value:
  "length b < 9 \<Longrightarrow> time_sync_callback b t s = None"
  "9 \<le> length b \<Longrightarrow> \<not> is_sync b \<Longrightarrow> time_sync_callback b t s = Some (b, s)"
  "9 \<le> length b \<Longrightarrow> is_sync b \<Longrightarrow> time_sync_callback b t s = Some (put32 1 (get32 1 b + 673) b,
    s\<lparr>fl_clock := snd (flash_get_current_time (flash_set_time (ucast (get32 1 b + 673)) (fl_clock s))),
      fl_app := (fl_app s)\<lparr>time_synchronized := time_synchronized (fl_app s) \<or> b ! 0 = 255\<rparr>\<rparr>)"
proof -
  show "length b < 9 \<Longrightarrow> time_sync_callback b t s = None" "9 \<le> length b \<Longrightarrow> \<not> is_sync b \<Longrightarrow> time_sync_callback b t s = Some (b, s)"
    by (simp_all add: time_sync_callback_def PKT_LEN_def is_sync_def)
  have same: "fl_app s = (fl_app s)\<lparr>time_synchronized := time_synchronized (fl_app s)\<rparr>" by simp
  assume "9 \<le> length b" "is_sync b"
  then show "time_sync_callback b t s = Some (put32 1 (get32 1 b + 673) b,
    s\<lparr>fl_clock := snd (flash_get_current_time (flash_set_time (ucast (get32 1 b + 673)) (fl_clock s))),
      fl_app := (fl_app s)\<lparr>time_synchronized := time_synchronized (fl_app s) \<or> b ! 0 = 255\<rparr>\<rparr>)"
    by (auto simp: time_sync_callback_def PKT_LEN_def is_sync_def read_time_def split_beta flash_set_get_time_aux
        ucast_back put32_nth upd_app_def Let_def)
qed

lemma edits_sync: "edits time_sync_callback"
proof (rule editsI)
  fix b t s b' s'
  assume "time_sync_callback b t s = Some (b', s')"
  then show "length b' = length b \<and> s' = s\<lparr>fl_clock := fl_clock s', fl_console := fl_console s', fl_app := fl_app s'\<rparr>"
    using sync_value(1) [of b t s] sync_value(2,3) [of b t s] by (cases "9 \<le> length b"; cases "is_sync b") (auto simp: not_le not_less)
qed

section \<open>Waiting for the end of a slot\<close>

lemma spin_value: "nrk_spin_wait_us t = (if t = 0 then 65536 else unat t)"
proof -
  have pos: "nrk_spin_wait_us t = unat t" if "t \<noteq> 0" for t
    using that
  proof (induction t rule: nrk_spin_wait_us.induct)
    case (1 t)
    have u: "unat (t - 1) = unat t - 1" "0 < unat t" using 1(2) by (simp_all add: unat_minus_one unat_gt_0)
    show ?case
    proof (cases "t - 1 = 0")
      case True
      then have "t = 1" by simp
      then show ?thesis by (simp add: nrk_spin_wait_us.simps [of 1])
    next
      case False
      then show ?thesis using 1(1) [OF False] u by (simp add: nrk_spin_wait_us.simps [of t])
    qed
  qed
  have "unat (- 1 :: u16) = 65535" by (simp add: unsigned_minus_1_eq_mask mask_eq_exp_minus_1)
  then have "nrk_spin_wait_us 0 = 65536" using pos [of "- 1"] by (simp add: nrk_spin_wait_us.simps [of 0])
  then show ?thesis using pos by simp
qed

lemma cycle_value:
  "fst (get_curr_tdma_cycle s) = ucast ((fst (flash_get_current_time (fl_clock s)) div TDMA_SLOT_LEN) mod 5)"
  "snd (get_curr_tdma_cycle s) = snd (read_time s)"
  by (simp_all add: get_curr_tdma_cycle_def read_time_def split_beta NUM_NODES_def)

lemma slot_rest:
  fixes p :: nat
  assumes p: "p < 200000"
  defines "R \<equiv> 200000 - of_nat p - 100 :: u32"
  shows "p \<le> 199900 \<Longrightarrow> unat (R div 50000) = (199900 - p) div 50000"
    "p \<le> 199900 \<Longrightarrow> ucast (R mod 50000) = (of_nat ((199900 - p) mod 50000) :: u16)"
    "32767 < unat (R div 50000) \<longleftrightarrow> \<not> p \<le> 199900"
proof -
  have early: "R = of_nat (199900 - p)" if "p \<le> 199900"
    using that by (simp add: R_def of_nat_diff)
  have late: "32767 < unat (R div 50000)" if "\<not> p \<le> 199900"
  proof -
    define q where "q = p - 199900"
    have q: "p = 199900 + q" "0 < q" "q < 100" using that p by (simp_all add: q_def)
    have "R = of_nat (2 ^ 32 - q)" using q(1,3) by (simp add: R_def of_nat_diff)
    moreover have "unat (of_nat (2 ^ 32 - q) :: u32) = 2 ^ 32 - q"
      using q(2) by (simp only: unsigned_of_nat) (simp add: take_bit_nat_eq_self)
    moreover have "unat (50000 :: u32) = 50000" by simp
    ultimately have "unat (R div 50000) = (2 ^ 32 - q) div 50000" by (simp only: unat_div)
    moreover have "(2 ^ 32 - 100) div 50000 \<le> (2 ^ 32 - q) div 50000" using q(3) by (intro div_le_mono) simp
    ultimately show ?thesis by simp
  qed
  have n: "unat (of_nat (199900 - p) :: u32) = 199900 - p"
    by (simp only: unsigned_of_nat) (simp add: take_bit_nat_eq_self)
  have small: "(199900 - p) div 50000 \<le> 3"
  proof -
    have "(199900 - p) div 50000 \<le> 199900 div 50000" by (rule div_le_mono) (rule diff_le_self)
    then show ?thesis by simp
  qed
  have parts: "unat (R div 50000) = (199900 - p) div 50000" "ucast (R mod 50000) = (of_nat ((199900 - p) mod 50000) :: u16)"
    if "p \<le> 199900"
  proof -
    show "unat (R div 50000) = (199900 - p) div 50000" unfolding early [OF that] by (simp only: unat_div n) simp
    have "unat (R mod 50000) = (199900 - p) mod 50000" unfolding early [OF that] by (simp only: unat_mod_word n) simp
    then show "ucast (R mod 50000) = (of_nat ((199900 - p) mod 50000) :: u16)"
      by (simp add: word_unat_eq_iff unat_ucast_fits unsigned_of_nat take_bit_nat_eq_self)
  qed
  show "p \<le> 199900 \<Longrightarrow> unat (R div 50000) = (199900 - p) div 50000" by (rule parts(1))
  show "p \<le> 199900 \<Longrightarrow> ucast (R mod 50000) = (of_nat ((199900 - p) mod 50000) :: u16)" by (rule parts(2))
  show "32767 < unat (R div 50000) \<longleftrightarrow> \<not> p \<le> 199900" using parts(1) small late by (cases "p \<le> 199900") simp_all
qed

lemma spins_total:
  "(\<Sum>w \<leftarrow> replicate (n div 50000) 50000 @ [of_nat (n mod 50000) :: u16]. nrk_spin_wait_us w) =
     n + (if 50000 dvd n then 65536 else 0)"
proof -
  have "(of_nat (n mod 50000) :: u16) = 0 \<longleftrightarrow> n mod 50000 = 0"
    by (simp add: word_unat_eq_iff unsigned_of_nat take_bit_nat_eq_self)
  moreover have "unat (of_nat (n mod 50000) :: u16) = n mod 50000" by (simp add: unsigned_of_nat take_bit_nat_eq_self)
  moreover have "sum_list (map nrk_spin_wait_us (replicate k 50000)) = 50000 * k" for k
    by (simp add: sum_list_replicate spin_value)
  ultimately show ?thesis by (auto simp: spin_value dvd_eq_mod_eq_0)
qed


definition ex_node :: "u8 \<Rightarrow> node" where
  "ex_node n = \<lparr>nodeID = n, time_slots = replicate 5 0, msg = replicate 9 0, time_synchronized = False, press = 0, last_sense_time = 0\<rparr>"


end
