(* ===== verification/Flood_Root.thy ===== *)
theory Flood_Root
  imports Flood_Node
begin

text \<open>
  The root node of the flooding TDMA network, \<^verbatim>\<open>projects/demos/748_flooding_tdma/root/main.c\<close>,
  a step for each TDMA slot as for the leaf nodes.
\<close>

section \<open>Definitions\<close>

record root =
  shortest_paths :: "u8 list list"
  tx_buf :: "u8 list"
  correct :: u32
  failed_slots :: u32
  cycles_since_sync :: u32

text \<open>Counting past the largest \<^verbatim>\<open>int32_t\<close> is undefined.\<close>

definition inc32 :: "u32 \<Rightarrow> u32 option" where
  "inc32 n = (if sint n = 2 ^ 31 - 1 then None else Some (n + 1))"

definition node_data_callback :: "root rx_callback" where
  "node_data_callback data time s =
     (if length data < PKT_LEN then None
      else do {
        let sender_node = data ! 0;
        let p = get32 1 data;
        let sense_time = get32 5 data;
        let (slot, s) = get_curr_tdma_cycle s;
        let s = say [Printf (''got sender %d press %lu sense time %lu'' @ CRLF) [uint sender_node, uint p, uint sense_time]] s;
        if sender_node \<noteq> slot then do {
          n \<leftarrow> inc32 (failed_slots (fl_app s));
          Some (data, say [Printf (''slot error[slot:%d,sender:%d]'' @ CRLF) [uint slot, uint sender_node]]
            (upd_app (\<lambda>a. a\<lparr>failed_slots := n\<rparr>) s))
        }
        else do {
          n \<leftarrow> inc32 (correct (fl_app s));
          Some (data, say [Printf (''slot correct'' @ CRLF) []] (upd_app (\<lambda>a. a\<lparr>correct := n\<rparr>) s))
        }
      })"

definition root_phase1_callback :: "root rx_callback" where
  "root_phase1_callback buf recv_time s =
     (if length buf < PKT_LEN then None
      else
        let orig_node = buf ! 0; (slot, s) = get_curr_tdma_cycle s
        in if orig_node \<noteq> slot then
             Some (buf, say [Printf (''error: flood message from %d overflowed to tdma slot %d'' @ CRLF) [uint orig_node, uint slot]] s)
           else if length (shortest_paths (fl_app s)) \<le> unat slot then None
           else
             let s = upd_app (\<lambda>a. a\<lparr>shortest_paths := (shortest_paths a)[unat slot := take PKT_LEN buf]\<rparr>) s;
                 s = say ([Printf ''got pkt ['' []] @ map (\<lambda>b. Printf ''%d '' [uint b]) (take PKT_LEN buf) @ [Printf ('']'' @ CRLF) []]) s
             in Some (replicate PKT_LEN 0 @ drop PKT_LEN buf, s))"

text \<open>The root is a sink: it never retransmits.\<close>

definition root_start :: "bool \<Rightarrow> root flash \<Rightarrow> root flash option" where
  "root_start sent s =
     (let s = flash_set_retransmit 0 s;
          s = upd_app (\<lambda>a. a\<lparr>tx_buf := (tx_buf a)[0 := 255]\<rparr>) s;
          (timestamp, s) = read_time s;
          s = upd_app (\<lambda>a. a\<lparr>tx_buf := put32 1 (ucast timestamp) (tx_buf a)\<rparr>) s
      in if length (tx_buf (fl_app s)) < PKT_LEN then None
         else flash_tx_pkt None sent (tx_buf (fl_app s)) (of_nat PKT_LEN) s)"

definition root_phase1_slot :: "bool \<Rightarrow> (nat \<times> air_frame option) list \<Rightarrow> root flash \<Rightarrow> root flash option" where
  "root_phase1_slot sent ps s =
     flash_enable (of_nat PKT_LEN) (Some (TDMA_SLOT_LEN - 1000)) (Some root_phase1_callback) None sent ps s"

definition root_phase2_slot :: "u8 \<Rightarrow> bool \<Rightarrow> root flash \<Rightarrow> root flash option" where
  "root_phase2_slot cycle sent s = do {
     p \<leftarrow> at (shortest_paths (fl_app s)) (uint cycle);
     if length p < PKT_LEN then None
     else do {
       let s = upd_app (\<lambda>a. a\<lparr>tx_buf := take PKT_LEN p @ drop PKT_LEN (tx_buf a)\<rparr>) s;
       let s = say [Printf (''sending topology msg %d [%d, %d, %d, %d]'' @ CRLF) (map uint (cycle # take 4 p)),
                    Printf (''phase2 cycle %d'' @ CRLF) [uint cycle]] s;
       flash_tx_pkt None sent (tx_buf (fl_app s)) (of_nat PKT_LEN) s
     }
   }"

text \<open>One round of the main loop, up to the wait for the end of the slot\<close>

definition root_slot :: "bool \<Rightarrow> (nat \<times> air_frame option) list \<Rightarrow> root flash \<Rightarrow> (u8 \<times> root flash) option" where
  "root_slot sent ps s = do {
     let (cycle, s) = get_curr_tdma_cycle s;
     s \<leftarrow> (if cycle = 0 then
             if length (tx_buf (fl_app s)) < PKT_LEN then None
             else if INTER_SYNC_CYCLES \<le> cycles_since_sync (fl_app s) then do {
               let (timestamp, s) = read_time s;
               let s = upd_app (\<lambda>a. a\<lparr>tx_buf := put32 1 (ucast timestamp) ((tx_buf a)[0 := 0])\<rparr>) s;
               s \<leftarrow> flash_tx_pkt None sent (tx_buf (fl_app s)) (of_nat PKT_LEN) s;
               Some (upd_app (\<lambda>a. a\<lparr>cycles_since_sync := 0\<rparr>) s)
             }
             else do {
               let s = upd_app (\<lambda>a. a\<lparr>tx_buf := (replicate PKT_LEN 0 @ drop PKT_LEN (tx_buf a))[0 := 1]\<rparr>) s;
               s \<leftarrow> flash_tx_pkt None sent (tx_buf (fl_app s)) (of_nat PKT_LEN) s;
               Some (upd_app (\<lambda>a. a\<lparr>cycles_since_sync := cycles_since_sync a + 1\<rparr>) s)
             }
           else
             flash_enable (of_nat PKT_LEN) (Some (TDMA_SLOT_LEN - 1000)) (Some node_data_callback) None sent ps
               (s\<lparr>fl_clock := (fl_clock s)\<lparr>gie := True\<rparr>\<rparr>));
     Some (cycle, s)
   }"

section \<open>The callbacks\<close>

lemma cycle_state: "get_curr_tdma_cycle s = (slot, s') \<Longrightarrow> s' = s\<lparr>fl_clock := snd (flash_get_current_time (fl_clock s))\<rparr>"
  by (auto simp: get_curr_tdma_cycle_def read_time_def split_beta)

lemma root_phase1_value:
  "length b < 9 \<Longrightarrow> root_phase1_callback b t s = None"
  "9 \<le> length b \<Longrightarrow> get_curr_tdma_cycle s = (slot, s1) \<Longrightarrow> b ! 0 \<noteq> slot \<Longrightarrow>
    \<exists>es. root_phase1_callback b t s = Some (b, s1\<lparr>fl_console := es\<rparr>)"
  "9 \<le> length b \<Longrightarrow> get_curr_tdma_cycle s = (slot, s1) \<Longrightarrow> b ! 0 = slot \<Longrightarrow> unat slot < length (shortest_paths (fl_app s)) \<Longrightarrow>
    \<exists>es. root_phase1_callback b t s = Some (replicate 9 0 @ drop 9 b, s1\<lparr>fl_app := (fl_app s)\<lparr>
      shortest_paths := (shortest_paths (fl_app s))[unat slot := take 9 b]\<rparr>, fl_console := es\<rparr>)"
  "9 \<le> length b \<Longrightarrow> get_curr_tdma_cycle s = (slot, s1) \<Longrightarrow> b ! 0 = slot \<Longrightarrow> length (shortest_paths (fl_app s)) \<le> unat slot \<Longrightarrow>
    root_phase1_callback b t s = None"
  using cycle_state [of s slot s1]
  by (auto simp: root_phase1_callback_def PKT_LEN_def say_def upd_app_def Let_def intro!: exI)

lemma edits_root_phase1: "edits root_phase1_callback"
proof (rule editsI)
  fix b t s b' s'
  assume r: "root_phase1_callback b t s = Some (b', s')"
  obtain slot s1 where c: "get_curr_tdma_cycle s = (slot, s1)" by fastforce
  from r have l: "9 \<le> length b" using root_phase1_value(1) [of b t s] by fastforce
  show "length b' = length b \<and> s' = s\<lparr>fl_clock := fl_clock s', fl_console := fl_console s', fl_app := fl_app s'\<rparr>"
    using r l root_phase1_value(2-4) [OF l c, of t] cycle_state [OF c]
    by (cases "b ! 0 = slot"; cases "unat slot < length (shortest_paths (fl_app s))") (auto simp: not_less)
qed

lemma node_data_value:
  "length b < 9 \<Longrightarrow> node_data_callback b t s = None"
  "9 \<le> length b \<Longrightarrow> get_curr_tdma_cycle s = (slot, s1) \<Longrightarrow> node_data_callback b t s =
    (let got = Printf (''got sender %d press %lu sense time %lu'' @ CRLF) [uint (b ! 0), uint (get32 1 b), uint (get32 5 b)]
     in if b ! 0 = slot
        then map_option (\<lambda>n. (b, s1\<lparr>fl_console := fl_console s @ [got, Printf (''slot correct'' @ CRLF) []],
               fl_app := (fl_app s)\<lparr>correct := n\<rparr>\<rparr>)) (inc32 (correct (fl_app s)))
        else map_option (\<lambda>n. (b, s1\<lparr>fl_console := fl_console s @ [got, Printf (''slot error[slot:%d,sender:%d]'' @ CRLF) [uint slot, uint (b ! 0)]],
               fl_app := (fl_app s)\<lparr>failed_slots := n\<rparr>\<rparr>)) (inc32 (failed_slots (fl_app s))))"
  using cycle_state [of s slot s1]
  by (cases "inc32 (correct (fl_app s))"; cases "inc32 (failed_slots (fl_app s))";
      auto simp: node_data_callback_def PKT_LEN_def say_def upd_app_def Let_def)+

lemma edits_node_data: "edits node_data_callback"
proof (rule editsI)
  fix b t s b' s'
  assume r: "node_data_callback b t s = Some (b', s')"
  obtain slot s1 where c: "get_curr_tdma_cycle s = (slot, s1)" by fastforce
  from r have l: "9 \<le> length b" using node_data_value(1) [of b t s] by fastforce
  show "length b' = length b \<and> s' = s\<lparr>fl_clock := fl_clock s', fl_console := fl_console s', fl_app := fl_app s'\<rparr>"
    using r node_data_value(2) [OF l c, of t] cycle_state [OF c] by (auto simp: Let_def split: if_splits)
qed

lemma transmit:
  "9 \<le> length b \<Longrightarrow> flash_tx_pkt None sent b (of_nat PKT_LEN) s =
    Some (if sent then upd_radio (\<lambda>r. r\<lparr>on_air := on_air r @ [take 9 b]\<rparr>) s else s)"
proof -
  have "uint w \<noteq> - 1" for w :: u8 using uint_nonnegative [of w] by (metis neg_0_le_iff_le not_one_le_zero)
  then show "9 \<le> length b \<Longrightarrow> ?thesis" by (simp add: flash_tx_pkt_def rf_tx_packet_blocking_def PKT_LEN_def)
qed

end
