(* ===== verification/Flood_Net.thy ===== *)
theory Flood_Net
  imports Flood_Root
begin

text \<open>
  The flooding TDMA network as a whole: a packet that goes from node to node, the two start-up
  phases in which the root and the nodes learn who has to relay for whom, time
  synchronisation, and a sensor reading on its way to the root.
\<close>

section \<open>A flood\<close>

text \<open>An intact frame with a payload; its header does not matter.\<close>

definition on_the_air :: "u8 list \<Rightarrow> air_frame" where
  "on_the_air p = \<lparr>af_bytes = replicate MAC_HEADER 0 @ p @ [0, 0], af_crc = True\<rparr>"

text \<open>
  A packet goes along a path: each node hears what the one before it has sent last. A node
  comes with the counts that pass before the frame arrives.
\<close>

fun flood_along :: "((nat \<times> air_frame option) list \<Rightarrow> node flash \<Rightarrow> node flash option) \<Rightarrow>
    (node flash \<times> nat) list \<Rightarrow> u8 list \<Rightarrow> (node flash list \<times> u8 list) option" where
  "flood_along step [] p = Some ([], p)"
| "flood_along step ((s, d) # ns) p = do {
     s \<leftarrow> step [(d, Some (on_the_air p))] s;
     (ns, q) \<leftarrow> flood_along step ns (last (on_air (fl_radio s)));
     Some (s # ns, q)
   }"

definition relay_ok :: "'u flash \<Rightarrow> bool" where
  "relay_ok s \<longleftrightarrow> radio_ok s \<and> auto_re_tx s \<noteq> 0 \<and> counted (fl_clock s) < 2 ^ 60"

lemma on_the_air_carries [simp]: "carries (on_the_air p) p"
  by (simp add: carries_def on_the_air_def MAC_HEADER_def RF_PACKET_OVERHEAD_SIZE_def)

text \<open>A node that hears a packet of nine bytes\<close>

lemma hear_packet:
  fixes cb :: "'a rx_callback"
  assumes s: "radio_ok s" "counted (fl_clock s) < 2 ^ 60" and p: "length p = 9" "length q = 9"
    and cb: "edits cb" "\<forall>x. timeout = Some x \<longrightarrow> unat x < 2 ^ 60"
    and step: "\<forall>t s1. fl_app s1 = fl_app s \<longrightarrow> fl_console s1 = fl_console s \<longrightarrow>
      fl_clock s1 = heard_clock (timeout \<noteq> None) d (fl_clock s) \<longrightarrow>
      (\<exists>s2. cb (p @ drop 9 (flash_buf s)) t s1 = Some (q @ drop 9 (flash_buf s), s2) \<and> Q s2)"
  shows "\<exists>s' s2. flash_enable (of_nat PKT_LEN) timeout (Some cb) None True [(d, Some (on_the_air p))] s = Some s' \<and> Q s2 \<and>
    radio_ok s' \<and> auto_re_tx s' = auto_re_tx s \<and> fl_app s' = fl_app s2 \<and> fl_console s' = fl_console s2 \<and>
    fl_clock s' = (fl_clock s2)\<lparr>gie := True\<rparr> \<and>
    on_air (fl_radio s') = on_air (fl_radio s) @ (if auto_re_tx s \<noteq> 0 then [q] else [])"
proof -
  have w: "can_wait timeout s" using s(2) cb(2) by (rule can_waitI)
  have l: "length p \<le> 107" using p(1) by simp
  from flash_enable_relays_aux [OF s(1) on_the_air_carries l cb(1) w, of d "of_nat PKT_LEN" True "[]"] obtain s1 where
    s1: "fl_app s1 = fl_app s" "fl_clock s1 = heard_clock (timeout \<noteq> None) d (fl_clock s)" "fl_console s1 = fl_console s"
    and r: "case cb (p @ drop 9 (flash_buf s)) (heard_time (timeout \<noteq> None) d (fl_clock s)) s1 of
      None \<Rightarrow> flash_enable (of_nat PKT_LEN) timeout (Some cb) None True [(d, Some (on_the_air p))] s = None
    | Some (b, s2) \<Rightarrow> \<exists>s'. flash_enable (of_nat PKT_LEN) timeout (Some cb) None True [(d, Some (on_the_air p))] s = Some s' \<and>
         relayed s s2 b 9 True s'"
    unfolding p(1) by (elim exE conjE)
  from step s1 obtain s2 where "cb (p @ drop 9 (flash_buf s)) (heard_time (timeout \<noteq> None) d (fl_clock s)) s1 =
      Some (q @ drop 9 (flash_buf s), s2)" "Q s2" by blast
  with r p(2) show ?thesis by (auto simp: relayed_def)
qed

lemma slot_timeout: "unat (TDMA_SLOT_LEN - 1000) < 2 ^ 60"
  by (simp add: TDMA_SLOT_LEN_def)

section \<open>The phases of the start\<close>

text \<open>The first phase: a relay adds itself to the packet.\<close>

lemma phase1_hop:
  assumes "relay_ok s" "length p = 9" "c \<noteq> nodeID (fl_app s)"
  shows "\<exists>s'. init1_slot c True [(d, Some (on_the_air p))] s = Some s' \<and>
    last (on_air (fl_radio s')) = record_hop (nodeID (fl_app s)) p"
proof -
  from assms(1) have r: "radio_ok s" "auto_re_tx s \<noteq> 0" "counted (fl_clock s) < 2 ^ 60" by (simp_all add: relay_ok_def)
  have step: "\<exists>s2. startup_phase1_callback (p @ drop 9 (flash_buf s)) t s1 =
      Some (record_hop (nodeID (fl_app s)) p @ drop 9 (flash_buf s), s2) \<and> True" if "fl_app s1 = fl_app s" for t s1
    using phase1_value(2) [of "p @ drop 9 (flash_buf s)" t s1] assms(2) that by (auto simp: record_hop_append)
  then have step: "\<forall>t s1. fl_app s1 = fl_app s \<longrightarrow> fl_console s1 = fl_console s \<longrightarrow>
      fl_clock s1 = heard_clock (Some (TDMA_SLOT_LEN - 1000) \<noteq> None) d (fl_clock s) \<longrightarrow>
      (\<exists>s2. startup_phase1_callback (p @ drop 9 (flash_buf s)) t s1 =
        Some (record_hop (nodeID (fl_app s)) p @ drop 9 (flash_buf s), s2) \<and> True)" by blast
  have "length (record_hop (nodeID (fl_app s)) p) = 9" "\<forall>x. Some (TDMA_SLOT_LEN - 1000) = Some x \<longrightarrow> unat x < 2 ^ 60"
    using assms(2) slot_timeout by auto
  from hear_packet [OF r(1,3) assms(2) this(1) edits_phase1 this(2) step] show ?thesis
    using r(2) assms(3) by (auto simp: init1_slot_def)
qed

lemma phase1_flood:
  assumes "\<forall>(s, d) \<in> set rs. relay_ok s \<and> c \<noteq> nodeID (fl_app s)" "length p = 9"
  shows "\<exists>rs'. flood_along (init1_slot c True) rs p = Some (rs', fold record_hop (map (\<lambda>(s, d). nodeID (fl_app s)) rs) p)"
  using assms
proof (induction rs arbitrary: p)
  case (Cons r rs)
  obtain s d where r: "r = (s, d)" by fastforce
  with Cons.prems have s: "relay_ok s" "c \<noteq> nodeID (fl_app s)" by auto
  from phase1_hop [OF s(1) Cons.prems(2) s(2), of d] obtain s' where
    "init1_slot c True [(d, Some (on_the_air p))] s = Some s'" "last (on_air (fl_radio s')) = record_hop (nodeID (fl_app s)) p"
    by blast
  moreover from Cons.IH [of "record_hop (nodeID (fl_app s)) p"] Cons.prems obtain rs' where
    "flood_along (init1_slot c True) rs (record_hop (nodeID (fl_app s)) p) =
      Some (rs', fold record_hop (map (\<lambda>(s, d). nodeID (fl_app s)) rs) (record_hop (nodeID (fl_app s)) p))" by auto
  ultimately show ?case using r by simp
qed simp

text \<open>The packet after the relays \<open>ids\<close>\<close>

lemma recorded_path:
  "fold record_hop ids (n # replicate 8 0) =
    n # take 7 ids @ replicate (7 - length ids) 0 @ [of_nat (min 7 (length ids))]"
proof (induction ids rule: rev_induct)
  case Nil
  then show ?case by (simp add: numeral_eq_Suc)
next
  case (snoc x xs)
  let ?p = "n # take 7 xs @ replicate (7 - length xs) 0 @ [of_nat (min 7 (length xs)) :: u8]"
  have l: "length (take 7 xs @ replicate (7 - length xs) 0) = 7" by simp
  have eighth: "(a # ys @ [z]) ! 8 = z" if "length ys = 7" for a z :: u8 and ys
    using that nth_append_length [of "a # ys" z "[]"] by simp
  have last: "?p ! 8 = of_nat (min 7 (length xs))" using eighth [OF l] by simp
  have u: "unat (of_nat (min 7 (length xs)) :: u8) = min 7 (length xs)" by (simp add: unsigned_of_nat take_bit_nat_eq_self)
  show ?case
  proof (cases "7 \<le> length xs")
    case True
    then show ?thesis using snoc last u by (simp add: record_hop_def)
  next
    case False
    then have m: "min 7 (length xs) = length xs" "min 7 (Suc (length xs)) = Suc (length xs)" by simp_all
    obtain k where k: "7 - length xs = Suc k" using False by (metis Suc_diff_Suc not_le)
    have len: "Suc (length xs + k) = 7" using k by simp
    have "record_hop x ?p = n # xs @ x # replicate k 0 @ [of_nat (Suc (length xs))]"
      using False last u m k len by (simp add: record_hop_def list_update_append nth_append)
    then show ?thesis using snoc m k False by simp
  qed
qed

text \<open>The root keeps what arrives in the slot of its sender, and sends it in the second phase.\<close>

lemma root_keeps:
  assumes "radio_ok r" "counted (fl_clock r) < 2 ^ 60" "length q = 9" "unat (q ! 0) < length (shortest_paths (fl_app r))"
    "fst (get_curr_tdma_cycle (r\<lparr>fl_clock := heard_clock True d (fl_clock r)\<rparr>)) = q ! 0"
  shows "\<exists>r'. root_phase1_slot True [(d, Some (on_the_air q))] r = Some r' \<and>
    fl_app r' = (fl_app r)\<lparr>shortest_paths := (shortest_paths (fl_app r))[unat (q ! 0) := q]\<rparr>"
proof -
  have step: "\<exists>s2. root_phase1_callback (q @ drop 9 (flash_buf r)) t s1 = Some (replicate 9 0 @ drop 9 (flash_buf r), s2) \<and>
      fl_app s2 = (fl_app r)\<lparr>shortest_paths := (shortest_paths (fl_app r))[unat (q ! 0) := q]\<rparr>"
    if s1: "fl_app s1 = fl_app r" "fl_console s1 = fl_console r"
      "fl_clock s1 = heard_clock (Some (TDMA_SLOT_LEN - 1000) \<noteq> None) d (fl_clock r)" for t s1
  proof -
    have c: "get_curr_tdma_cycle s1 = (q ! 0, snd (get_curr_tdma_cycle s1))"
      using assms(5) s1(3) cycle_value(1) [of s1] cycle_value(1) [of "r\<lparr>fl_clock := heard_clock True d (fl_clock r)\<rparr>"]
      by (simp add: prod_eq_iff)
    have b: "9 \<le> length (q @ drop 9 (flash_buf r))" "(q @ drop 9 (flash_buf r)) ! 0 = q ! 0"
      using assms(3) by (simp_all add: nth_append)
    show ?thesis using root_phase1_value(3) [OF b(1) c b(2), of t] assms(3,4) s1(1)
      by (auto simp del: replicate.simps)
  qed
  have len: "length (replicate 9 0 :: u8 list) = 9" and time: "\<forall>x. Some (TDMA_SLOT_LEN - 1000) = Some x \<longrightarrow> unat x < 2 ^ 60"
    using slot_timeout by auto
  from step have "\<forall>t s1. fl_app s1 = fl_app r \<longrightarrow> fl_console s1 = fl_console r \<longrightarrow>
      fl_clock s1 = heard_clock (Some (TDMA_SLOT_LEN - 1000) \<noteq> None) d (fl_clock r) \<longrightarrow>
      (\<exists>s2. root_phase1_callback (q @ drop 9 (flash_buf r)) t s1 = Some (replicate 9 0 @ drop 9 (flash_buf r), s2) \<and>
        fl_app s2 = (fl_app r)\<lparr>shortest_paths := (shortest_paths (fl_app r))[unat (q ! 0) := q]\<rparr>)" by blast
  from hear_packet [OF assms(1-3) len edits_root_phase1 time this] obtain r' and s2 :: "root flash" where
    "flash_enable (of_nat PKT_LEN) (Some (TDMA_SLOT_LEN - 1000)) (Some root_phase1_callback) None True [(d, Some (on_the_air q))] r = Some r'"
    "fl_app s2 = (fl_app r)\<lparr>shortest_paths := (shortest_paths (fl_app r))[unat (q ! 0) := q]\<rparr>" "fl_app r' = fl_app s2" by (elim exE conjE)
  then show ?thesis by (simp add: root_phase1_slot_def)
qed

lemma transmit9:
  "length q = 9 \<Longrightarrow> flash_tx_pkt None True (q @ x) (of_nat PKT_LEN) s = Some (upd_radio (\<lambda>r. r\<lparr>on_air := on_air r @ [q]\<rparr>) s)"
  using transmit [of "q @ x" True s] by simp

lemma root_passes_on:
  assumes "unat c < length (shortest_paths (fl_app r))" "shortest_paths (fl_app r) ! unat c = q" "length q = 9"
  shows "\<exists>r'. root_phase2_slot c True r = Some r' \<and> on_air (fl_radio r') = on_air (fl_radio r) @ [q]"
proof -
  have q: "\<not> length q < PKT_LEN" "take PKT_LEN q = q" using assms(3) by (simp_all add: PKT_LEN_def)
  show ?thesis using assms(1,2) q transmit9 [OF assms(3), where 'a = root] by (simp add: root_phase2_slot_def upd_app_def say_def upd_radio_def)
qed

text \<open>The second phase: the packet stays as it is, and every node that hears it learns from it.\<close>

lemma phase2_hop:
  assumes "relay_ok s" "length p = 9" "unat (p ! 0) < length (time_slots (fl_app s))"
  shows "\<exists>s'. init2_slot True [(d, Some (on_the_air p))] s = Some s' \<and> last (on_air (fl_radio s')) = p \<and>
    fl_app s' = learn_slot p (fl_app s)"
proof -
  from assms(1) have r: "radio_ok s" "auto_re_tx s \<noteq> 0" "counted (fl_clock s) < 2 ^ 60" by (simp_all add: relay_ok_def)
  have learn: "learn_slot (p @ x) a = learn_slot p a" for x a using assms(2) by (simp add: learn_slot_def nth_append)
  have step: "\<exists>s2. startup_phase2_callback (p @ drop 9 (flash_buf s)) t s1 = Some (p @ drop 9 (flash_buf s), s2) \<and>
      fl_app s2 = learn_slot p (fl_app s)" if "fl_app s1 = fl_app s" for t s1
    using phase2_value(2) [of "p @ drop 9 (flash_buf s)" s1 t] assms(2,3) that by (auto simp: nth_append learn)
  then have step: "\<forall>t s1. fl_app s1 = fl_app s \<longrightarrow> fl_console s1 = fl_console s \<longrightarrow>
      fl_clock s1 = heard_clock (Some (TDMA_SLOT_LEN - 1000) \<noteq> None) d (fl_clock s) \<longrightarrow>
      (\<exists>s2. startup_phase2_callback (p @ drop 9 (flash_buf s)) t s1 = Some (p @ drop 9 (flash_buf s), s2) \<and>
        fl_app s2 = learn_slot p (fl_app s))" by blast
  have "\<forall>x. Some (TDMA_SLOT_LEN - 1000) = Some x \<longrightarrow> unat x < 2 ^ 60" using slot_timeout by auto
  from hear_packet [OF r(1,3) assms(2,2) edits_phase2 this step] show ?thesis
    using r(2) by (auto simp: init2_slot_def)
qed

lemma phase2_flood:
  assumes "\<forall>(s, d) \<in> set ms. relay_ok s \<and> unat (p ! 0) < length (time_slots (fl_app s))" "length p = 9"
  shows "\<exists>ms'. flood_along (init2_slot True) ms p = Some (ms', p) \<and>
    list_all2 (\<lambda>(s, d) s'. fl_app s' = learn_slot p (fl_app s)) ms ms'"
  using assms
proof (induction ms)
  case (Cons m ms)
  obtain s d where m: "m = (s, d)" by fastforce
  with Cons.prems have s: "relay_ok s" "unat (p ! 0) < length (time_slots (fl_app s))" by auto
  from phase2_hop [OF s(1) Cons.prems(2) s(2), of d] Cons.IH Cons.prems show ?case by (auto simp: m)
qed simp

section \<open>Synchronisation and data\<close>

lemma put_get32: "i + 3 < length xs \<Longrightarrow> put32 i (get32 i xs) xs = xs"
proof -
  have "ucast (get32 i xs) = xs ! i" "ucast (drop_bit 8 (get32 i xs)) = xs ! (i + 1)"
    "ucast (drop_bit 16 (get32 i xs)) = xs ! (i + 2)" "ucast (drop_bit 24 (get32 i xs)) = xs ! (i + 3)"
    by (rule bit_word_eqI, auto simp: get32_def bit_or_iff bit_push_bit_iff bit_ucast_iff bit_drop_bit_eq
        dest: bit_imp_le_length)+
  then show ?thesis by (simp add: put32_def)
qed

lemma put_put32: "put32 i v (put32 i w xs) = put32 i v xs"
proof -
  have "ys[j := y] ! k = (if j = k then y else ys ! k)" if "k < length ys" for ys :: "u8 list" and j k y
    using that by (cases "j = k") simp_all
  then show ?thesis by (intro nth_equalityI) (simp_all add: put32_def)
qed

lemma is_sync_put: "is_sync (put32 1 w p) = is_sync p" "put32 1 w p ! 0 = p ! 0"
  by (simp_all add: is_sync_def put32_nth)

lemma set_clock_state: "snd (flash_get_current_time (flash_set_time x c)) = flash_set_time x c"
proof -
  have m: "unat (x mod 1000) < 1000" by (simp add: unat_mod_word)
  then have "unat ((x mod 1000) * 16) = unat (x mod 1000) * 16" by (simp add: unat_word_ariths)
  then have "unat (TCNT3 (flash_set_time x c)) \<le> 16244" using m by (simp add: flash_set_time_def unat_ucast_fits)
  then have "\<not> TICKS_PER_MS < TCNT3 (flash_set_time x c)" by (simp add: word_less_nat_alt)
  then show ?thesis
    by (simp add: flash_get_current_time_def carry_ms.simps [of "TCNT3 (flash_set_time x c)"]) (simp add: flash_set_time_def)
qed

lemma sync_hop:
  assumes "relay_ok s" "length p = 9" "is_sync p"
  shows "\<exists>s'. await_sync True [(d, Some (on_the_air p))] s = Some s' \<and> last (on_air (fl_radio s')) = put32 1 (get32 1 p + 673) p \<and>
    fst (flash_get_current_time (fl_clock s')) = ucast (get32 1 p + 673) \<and>
    time_synchronized (fl_app s') = (time_synchronized (fl_app s) \<or> p ! 0 = 255)"
proof -
  from assms(1) have r: "radio_ok s" "auto_re_tx s \<noteq> 0" "counted (fl_clock s) < 2 ^ 60" by (simp_all add: relay_ok_def)
  let ?p = "p @ drop 9 (flash_buf s)"
  have b: "9 \<le> length ?p" "is_sync ?p" "get32 1 ?p = get32 1 p" "?p ! 0 = p ! 0"
    "put32 1 w ?p = put32 1 w p @ drop 9 (flash_buf s)" for w
    using assms(2,3) by (simp_all add: is_sync_def nth_append get32_append put32_append)
  have step: "\<exists>s2. time_sync_callback ?p t s1 = Some (put32 1 (get32 1 p + 673) p @ drop 9 (flash_buf s), s2) \<and>
      fl_clock s2 = flash_set_time (ucast (get32 1 p + 673)) (fl_clock s1) \<and>
      time_synchronized (fl_app s2) = (time_synchronized (fl_app s) \<or> p ! 0 = 255)" if "fl_app s1 = fl_app s" for t s1
    using sync_value(3) [OF b(1,2), of t s1] that by (auto simp: b set_clock_state simp del: One_nat_def)
  then have step: "\<forall>t s1. fl_app s1 = fl_app s \<longrightarrow> fl_console s1 = fl_console s \<longrightarrow>
      fl_clock s1 = heard_clock (None \<noteq> (None :: u64 option)) d (fl_clock s) \<longrightarrow>
      (\<exists>s2. time_sync_callback ?p t s1 = Some (put32 1 (get32 1 p + 673) p @ drop 9 (flash_buf s), s2) \<and>
        ((\<exists>c. fl_clock s2 = flash_set_time (ucast (get32 1 p + 673)) c) \<and>
        time_synchronized (fl_app s2) = (time_synchronized (fl_app s) \<or> p ! 0 = 255)))" by blast
  have q: "length (put32 1 (get32 1 p + 673) p) = 9" using assms(2) by simp
  have "\<forall>x. None = Some x \<longrightarrow> unat (x :: u64) < 2 ^ 60" by simp
  from hear_packet [OF r(1,3) assms(2) q edits_sync this step] obtain s' and s2 :: "node flash" and c where
    s': "flash_enable (of_nat PKT_LEN) None (Some time_sync_callback) None True [(d, Some (on_the_air p))] s = Some s'"
      "on_air (fl_radio s') = on_air (fl_radio s) @ (if auto_re_tx s \<noteq> 0 then [put32 1 (get32 1 p + 673) p] else [])" "fl_app s' = fl_app s2"
      "fl_clock s' = (fl_clock s2)\<lparr>gie := True\<rparr>" "fl_clock s2 = flash_set_time (ucast (get32 1 p + 673)) c"
      "time_synchronized (fl_app s2) = (time_synchronized (fl_app s) \<or> p ! 0 = 255)"
    by (elim exE conjE)
  have "fl_clock s' = flash_set_time (ucast (get32 1 p + 673)) c" using s'(4,5) by (simp add: flash_set_time_def)
  then show ?thesis using s' r(2) by (simp add: await_sync_def flash_set_get_time_aux)
qed

lemma sync_flood:
  assumes "\<forall>(s, d) \<in> set ns. relay_ok s" "length p = 9" "is_sync p"
  shows "\<exists>ns'. flood_along (await_sync True) ns p = Some (ns', put32 1 (get32 1 p + 673 * of_nat (length ns)) p) \<and> length ns' = length ns \<and>
    (\<forall>i < length ns. fst (flash_get_current_time (fl_clock (ns' ! i))) = ucast (get32 1 p + 673 * of_nat (i + 1)) \<and>
      (p ! 0 = 255 \<longrightarrow> time_synchronized (fl_app (ns' ! i))))"
  using assms
proof (induction ns arbitrary: p)
  case Nil
  then show ?case by (simp add: put_get32)
next
  case (Cons n ns)
  obtain s d where n: "n = (s, d)" by fastforce
  let ?p = "put32 1 (get32 1 p + 673) p"
  have p: "length ?p = 9" "is_sync ?p" "get32 1 ?p = get32 1 p + 673" "?p ! 0 = p ! 0"
    using Cons.prems(2,3) by (simp_all add: is_sync_put del: One_nat_def)
  from Cons.prems n have "relay_ok s" by auto
  from sync_hop [OF this Cons.prems(2,3), of d] obtain s' where
    s': "await_sync True [(d, Some (on_the_air p))] s = Some s'" "last (on_air (fl_radio s')) = ?p"
      "fst (flash_get_current_time (fl_clock s')) = ucast (get32 1 p + 673)" "p ! 0 = 255 \<longrightarrow> time_synchronized (fl_app s')" by blast
  have "\<forall>(s, d) \<in> set ns. relay_ok s" using Cons.prems(1) by auto
  from Cons.IH [OF this p(1,2)] obtain ns' where
    ns': "flood_along (await_sync True) ns ?p = Some (ns', put32 1 (get32 1 p + 673 + 673 * of_nat (length ns)) p)" "length ns' = length ns"
      "\<forall>i < length ns. fst (flash_get_current_time (fl_clock (ns' ! i))) = ucast (get32 1 p + 673 + 673 * of_nat (i + 1)) \<and>
        (p ! 0 = 255 \<longrightarrow> time_synchronized (fl_app (ns' ! i)))"
    unfolding p(3,4) put_put32 by (elim exE conjE)
  have add: "get32 1 p + 673 + 673 * of_nat k = get32 1 p + 673 * of_nat (k + 1)" for k by (simp add: algebra_simps)
  have "flood_along (await_sync True) (n # ns) p = Some (s' # ns', put32 1 (get32 1 p + 673 * of_nat (length (n # ns))) p)"
    using s'(1,2) ns'(1) unfolding add by (simp add: n)
  moreover have "fst (flash_get_current_time (fl_clock ((s' # ns') ! i))) = ucast (get32 1 p + 673 * of_nat (i + 1)) \<and>
      (p ! 0 = 255 \<longrightarrow> time_synchronized (fl_app ((s' # ns') ! i)))" if "i < length (n # ns)" for i
    using that s'(3,4) ns'(3) unfolding add by (cases i) auto
  ultimately show ?case using ns'(2) by (intro exI [of _ "s' # ns'"]) simp
qed

text \<open>Data: what a node sends in its own slot, and a relay that passes it on\<close>

definition reading_packet :: "node \<Rightarrow> u8 list" where
  "reading_packet a = put32 5 (last_sense_time a) (put32 1 (press a) ((msg a)[0 := nodeID a]))"

lemma reading_packet_fields:
  assumes "length (msg a) = 9"
  shows "length (reading_packet a) = 9" "reading_packet a ! 0 = nodeID a" "get32 1 (reading_packet a) = press a"
    "get32 5 (reading_packet a) = last_sense_time a"
  using assms by (simp_all add: reading_packet_def put32_nth get32_other del: One_nat_def)

lemma clock_read_once:
  assumes "relay_ok s"
  shows "relay_ok (s\<lparr>fl_clock := snd (flash_get_current_time (fl_clock s))\<rparr>)"
  using assms by (simp add: relay_ok_def radio_ok_def read_clock(2))

lemma send_slot:
  assumes "fst (get_curr_tdma_cycle s) = n" "unat n < length (time_slots (fl_app s))"
    "time_slots (fl_app s) ! unat n = SLOT_FLOOD" "length (msg (fl_app s)) = 9"
  shows "\<exists>s'. node_slot x True [] s = Some (n, s') \<and> last (on_air (fl_radio s')) = reading_packet (fl_app s)"
proof -
  obtain s1 where c: "get_curr_tdma_cycle s = (n, s1)" using assms(1) by (metis prod.collapse)
  have tx: "flash_tx_pkt None True q 9 u = Some (upd_radio (\<lambda>r. r\<lparr>on_air := on_air r @ [q]\<rparr>) u)" if "length q = 9" for q and u :: "node flash"
    using transmit9 [OF that, of "[]" u] by (simp add: PKT_LEN_def)
  have once: "flood_times 1 True u = flash_tx_pkt None True (msg (fl_app u)) (of_nat PKT_LEN) u" for u
    by (cases "flash_tx_pkt None True (msg (fl_app u)) (of_nat PKT_LEN) u") simp_all
  show ?thesis
    using assms c cycle_state [OF c] reading_packet_fields(1) [OF assms(4)]
    by (simp add: node_slot_def slot_types upd_app_def say_def PKT_LEN_def FLOOD_PROP_REDUNDANCY_def
        reading_packet_def once tx upd_radio_def del: One_nat_def)
qed

lemma relay_slot:
  assumes "relay_ok s" "fst (get_curr_tdma_cycle s) = n" "unat n < length (time_slots (fl_app s))"
    "time_slots (fl_app s) ! unat n = SLOT_LISTEN" "length p = 9" "\<not> is_sync p"
  shows "\<exists>s'. node_slot x True [(d, Some (on_the_air p))] s = Some (n, s') \<and> last (on_air (fl_radio s')) = p"
proof -
  obtain s1 where c: "get_curr_tdma_cycle s = (n, s1)" using assms(2) by (metis prod.collapse)
  then have s1: "s1 = s\<lparr>fl_clock := snd (flash_get_current_time (fl_clock s))\<rparr>" by (rule cycle_state)
  have "relay_ok s1" unfolding s1 by (rule clock_read_once [OF assms(1)])
  then have r: "radio_ok s1" "auto_re_tx s1 \<noteq> 0" "counted (fl_clock s1) < 2 ^ 60" by (simp_all add: relay_ok_def)
  have b: "9 \<le> length (p @ drop 9 (flash_buf s1))" "\<not> is_sync (p @ drop 9 (flash_buf s1))"
    using assms(5,6) by (simp_all add: is_sync_def nth_append)
  have step: "\<forall>t s2. fl_app s2 = fl_app s1 \<longrightarrow> fl_console s2 = fl_console s1 \<longrightarrow>
      fl_clock s2 = heard_clock (Some (TDMA_SLOT_LEN - 1000) \<noteq> None) d (fl_clock s1) \<longrightarrow>
      (\<exists>s3. time_sync_callback (p @ drop 9 (flash_buf s1)) t s2 = Some (p @ drop 9 (flash_buf s1), s3) \<and> True)"
    using sync_value(2) [OF b] by blast
  have "\<forall>x. Some (TDMA_SLOT_LEN - 1000) = Some x \<longrightarrow> unat x < 2 ^ 60" using slot_timeout by auto
  from hear_packet [OF r(1,3) assms(5,5) edits_sync this step] r(2) obtain s2 where
    s2: "flash_enable (of_nat PKT_LEN) (Some (TDMA_SLOT_LEN - 1000)) (Some time_sync_callback) None True [(d, Some (on_the_air p))] s1 = Some s2"
      "on_air (fl_radio s2) = on_air (fl_radio s1) @ [p]" by auto
  then show ?thesis using c s1 assms(3,4)
    by (simp add: node_slot_def slot_types upd_app_def say_def)
qed

lemma relay_path:
  assumes "\<forall>(s, d) \<in> set rs. relay_ok s \<and> fst (get_curr_tdma_cycle s) = n \<and> unat n < length (time_slots (fl_app s)) \<and>
    time_slots (fl_app s) ! unat n = SLOT_LISTEN" "length p = 9" "\<not> is_sync p"
  shows "\<exists>rs'. flood_along (\<lambda>ps s. map_option snd (node_slot x True ps s)) rs p = Some (rs', p)"
  using assms(1)
proof (induction rs)
  case (Cons r rs)
  obtain s d where r: "r = (s, d)" by fastforce
  with Cons.prems have s: "relay_ok s" "fst (get_curr_tdma_cycle s) = n" "unat n < length (time_slots (fl_app s))"
    "time_slots (fl_app s) ! unat n = SLOT_LISTEN" by auto
  from relay_slot [OF s assms(2,3), of x d] Cons.IH Cons.prems show ?case by (auto simp: r)
qed simp

text \<open>The root takes a reading in.\<close>

lemma root_hears:
  assumes "radio_ok r" "counted (fl_clock r) < 2 ^ 60" "fst (get_curr_tdma_cycle r) = c" "c \<noteq> 0"
    and "fst (get_curr_tdma_cycle (r\<lparr>fl_clock := heard_clock True d (snd (flash_get_current_time (fl_clock r)))\<rparr>)) = p ! 0"
    and "length p = 9" "sint (correct (fl_app r)) \<noteq> 2 ^ 31 - 1"
  shows "\<exists>r'. root_slot True [(d, Some (on_the_air p))] r = Some (c, r') \<and>
    fl_app r' = (fl_app r)\<lparr>correct := correct (fl_app r) + 1\<rparr> \<and>
    fl_console r' = fl_console r @ [Printf (''got sender %d press %lu sense time %lu'' @ CRLF)
      [uint (p ! 0), uint (get32 1 p), uint (get32 5 p)], Printf (''slot correct'' @ CRLF) []]"
proof -
  let ?out = "fl_console r @ [Printf (''got sender %d press %lu sense time %lu'' @ CRLF)
      [uint (p ! 0), uint (get32 1 p), uint (get32 5 p)], Printf (''slot correct'' @ CRLF) []]"
  define r1 where "r1 = r\<lparr>fl_clock := (snd (flash_get_current_time (fl_clock r)))\<lparr>gie := True\<rparr>\<rparr>"
  have c: "get_curr_tdma_cycle r = (c, r\<lparr>fl_clock := snd (flash_get_current_time (fl_clock r))\<rparr>)"
    using assms(3) cycle_state [of r c "snd (get_curr_tdma_cycle r)"] by (simp add: prod_eq_iff)
  have ok: "radio_ok r1" "counted (fl_clock r1) < 2 ^ 60"
    using assms(1,2) by (simp_all add: r1_def radio_ok_def read_clock(2) counted_def [of "_\<lparr>gie := _\<rparr>"] counted_def [symmetric])
  have same: "heard_clock t d (c\<lparr>gie := True\<rparr>) = heard_clock t d c" for t c by (simp add: heard_clock_def)
  have step: "\<exists>s2. node_data_callback (p @ drop 9 (flash_buf r1)) t s1 = Some (p @ drop 9 (flash_buf r1), s2) \<and>
      (fl_app s2 = (fl_app r)\<lparr>correct := correct (fl_app r) + 1\<rparr> \<and> fl_console s2 = ?out)"
    if s1: "fl_app s1 = fl_app r1" "fl_console s1 = fl_console r1"
      "fl_clock s1 = heard_clock (Some (TDMA_SLOT_LEN - 1000) \<noteq> None) d (fl_clock r1)" for t s1
  proof -
    have k: "get_curr_tdma_cycle s1 = (p ! 0, snd (get_curr_tdma_cycle s1))"
      using assms(5) s1(3) cycle_value(1) [of s1]
        cycle_value(1) [of "r\<lparr>fl_clock := heard_clock True d (snd (flash_get_current_time (fl_clock r)))\<rparr>"]
      by (simp add: prod_eq_iff r1_def same)
    have b: "9 \<le> length (p @ drop 9 (flash_buf r1))" "(p @ drop 9 (flash_buf r1)) ! 0 = p ! 0"
      "get32 1 (p @ drop 9 (flash_buf r1)) = get32 1 p" "get32 5 (p @ drop 9 (flash_buf r1)) = get32 5 p"
      using assms(6) by (simp_all add: nth_append get32_append del: One_nat_def)
    have a: "fl_app s1 = fl_app r" "fl_console s1 = fl_console r" using s1 by (simp_all add: r1_def)
    show ?thesis unfolding node_data_value(2) [OF b(1) k] b(2-4) a using assms(7)
      by (simp add: Let_def inc32_def)
  qed
  then have step: "\<forall>t s1. fl_app s1 = fl_app r1 \<longrightarrow> fl_console s1 = fl_console r1 \<longrightarrow>
      fl_clock s1 = heard_clock (Some (TDMA_SLOT_LEN - 1000) \<noteq> None) d (fl_clock r1) \<longrightarrow>
      (\<exists>s2. node_data_callback (p @ drop 9 (flash_buf r1)) t s1 = Some (p @ drop 9 (flash_buf r1), s2) \<and>
        (fl_app s2 = (fl_app r)\<lparr>correct := correct (fl_app r) + 1\<rparr> \<and> fl_console s2 = ?out))" by blast
  have time: "\<forall>x. Some (TDMA_SLOT_LEN - 1000) = Some x \<longrightarrow> unat x < 2 ^ 60" using slot_timeout by auto
  from hear_packet [OF ok assms(6,6) edits_node_data time step] obtain r' and s2 :: "root flash" where
    r': "flash_enable (of_nat PKT_LEN) (Some (TDMA_SLOT_LEN - 1000)) (Some node_data_callback) None True [(d, Some (on_the_air p))] r1 = Some r'"
      "fl_app s2 = (fl_app r)\<lparr>correct := correct (fl_app r) + 1\<rparr>" "fl_console s2 = ?out" "fl_app r' = fl_app s2"
      "fl_console r' = fl_console s2" by (elim exE conjE)
  show ?thesis using r' c assms(4) by (simp add: root_slot_def r1_def)
qed

section \<open>Properties\<close>

text \<open>
  C7: Learning the topology. Node \<open>n\<close> starts a flood in its slot of the first phase and the
  flood reaches the root along the relays \<open>rs\<close>, in the same slot. What the root then sends
  for slot \<open>n\<close> makes every node it reaches mark this slot: the node itself to flood, the first
  seven relays to listen, and every other node to be off.
\<close>

theorem topology_learned:
  assumes "radio_ok o1" "nodeID (fl_app o1) = n" "msg (fl_app o1) = replicate 9 0" "n \<noteq> 0"
    and "\<forall>(s, d) \<in> set rs. relay_ok s \<and> nodeID (fl_app s) \<noteq> n"
    and "radio_ok r" "counted (fl_clock r) < 2 ^ 60" "unat n < length (shortest_paths (fl_app r))"
    and "fst (get_curr_tdma_cycle (r\<lparr>fl_clock := heard_clock True d (fl_clock r)\<rparr>)) = n"
    and "\<forall>(s, d) \<in> set ms. relay_ok s \<and> unat n < length (time_slots (fl_app s)) \<and> nodeID (fl_app s) \<noteq> 0"
    and "ids = map (\<lambda>(s, d). nodeID (fl_app s)) rs"
  shows "\<exists>o2 rs' q r1. init1_slot n True [] o1 = Some o2 \<and>
    flood_along (init1_slot n True) rs (last (on_air (fl_radio o2))) = Some (rs', q) \<and>
    root_phase1_slot True [(d, Some (on_the_air q))] r = Some r1 \<and>
    (\<forall>r2. fl_app r2 = fl_app r1 \<longrightarrow> (\<exists>r3 ms' q'. root_phase2_slot n True r2 = Some r3 \<and>
      flood_along (init2_slot True) ms (last (on_air (fl_radio r3))) = Some (ms', q') \<and>
      list_all2 (\<lambda>(s, d) s'. fl_app s' = (fl_app s)\<lparr>time_slots := (time_slots (fl_app s))[unat n :=
        (if nodeID (fl_app s) = n then SLOT_FLOOD else if nodeID (fl_app s) \<in> set (take 7 ids) then SLOT_LISTEN else SLOT_OFF)]\<rparr>) ms ms'))"
proof -
  define q where "q = n # take 7 ids @ replicate (7 - length ids) 0 @ [of_nat (min 7 (length ids)) :: u8]"
  have q: "length q = 9" "q ! 0 = n" by (simp_all add: q_def)
  have "(replicate 9 0)[0 := n, 8 := 0] = n # replicate 8 (0 :: u8)" by (simp add: numeral_eq_Suc)
  then obtain o2 where o2: "init1_slot n True [] o1 = Some o2" "last (on_air (fl_radio o2)) = n # replicate 8 0"
    using assms(2,3) transmit9 [of "n # replicate 8 0" "[]", where 'a = node]
    by (auto simp: init1_slot_def upd_app_def PKT_LEN_def upd_radio_def simp del: replicate.simps)
  have "\<forall>(s, d) \<in> set rs. relay_ok s \<and> n \<noteq> nodeID (fl_app s)" using assms(5) by auto
  from phase1_flood [OF this, of "n # replicate 8 0"] obtain rs' where
    rs': "flood_along (init1_slot n True) rs (last (on_air (fl_radio o2))) = Some (rs', q)"
    by (auto simp: o2(2) recorded_path q_def assms(11))
  from root_keeps [OF assms(6,7) q(1), unfolded q(2), OF assms(8,9)] obtain r1 where
    r1: "root_phase1_slot True [(d, Some (on_the_air q))] r = Some r1" "shortest_paths (fl_app r1) = (shortest_paths (fl_app r))[unat n := q]"
    by auto
  have second: "\<exists>r3 ms' q'. root_phase2_slot n True r2 = Some r3 \<and>
      flood_along (init2_slot True) ms (last (on_air (fl_radio r3))) = Some (ms', q') \<and>
      list_all2 (\<lambda>(s, d) s'. fl_app s' = learn_slot q (fl_app s)) ms ms'" if "fl_app r2 = fl_app r1" for r2
  proof -
    from root_passes_on [of n r2 q] assms(8) r1(2) q(1) that obtain r3 where
      r3: "root_phase2_slot n True r2 = Some r3" "last (on_air (fl_radio r3)) = q" by auto
    have "\<forall>(s, d) \<in> set ms. relay_ok s \<and> unat (q ! 0) < length (time_slots (fl_app s))" using assms(10) by (auto simp: q(2))
    from phase2_flood [OF this q(1)] r3 show ?thesis by auto
  qed
  have learn: "learn_slot q a = a\<lparr>time_slots := (time_slots a)[unat n :=
      (if nodeID a = n then SLOT_FLOOD else if nodeID a \<in> set (take 7 ids) then SLOT_LISTEN else SLOT_OFF)]\<rparr>"
    if "nodeID a \<noteq> 0" for a
  proof -
    have "n \<notin> set (take 7 ids)" using assms(5,11) by (auto dest!: in_set_takeD)
    moreover have "take 7 (drop 1 q) = take 7 ids @ replicate (7 - length ids) 0" by (simp add: q_def)
    ultimately show ?thesis using that by (auto simp: learn_slot_def q(2))
  qed
  have roles: "list_all2 (\<lambda>(s, d) s'. fl_app s' = (fl_app s)\<lparr>time_slots := (time_slots (fl_app s))[unat n :=
        (if nodeID (fl_app s) = n then SLOT_FLOOD else if nodeID (fl_app s) \<in> set (take 7 ids) then SLOT_LISTEN else SLOT_OFF)]\<rparr>) ms ms'"
    if "list_all2 (\<lambda>(s, d) s'. fl_app s' = learn_slot q (fl_app s)) ms ms'" for ms'
    using that assms(10) by (auto simp: list_all2_conv_all_nth split_beta learn dest!: nth_mem)
  show ?thesis using o2(1) rs' r1(1) second roles by blast
qed

definition ex_root :: "u64 \<Rightarrow> root flash" where
  "ex_root ms = flash_set_retransmit 0 ((ex_flash [] \<lparr>shortest_paths = replicate 5 (replicate 9 0), tx_buf = replicate 9 0,
     correct = 0, failed_slots = 0, cycles_since_sync = 0\<rparr>)\<lparr>fl_clock := ex_clock\<lparr>current_time_ms := ms\<rparr>\<rparr>)"

lemma ex_relay_ok [simp]: "relay_ok (ex_flash [] a)"
  by (simp add: relay_ok_def)

lemma ex_root_ok [simp]: "radio_ok (ex_root ms)" "fl_clock (ex_root ms) = ex_clock\<lparr>current_time_ms := ms\<rparr>"
  "fl_app (ex_root ms) = \<lparr>shortest_paths = replicate 5 (replicate 9 0), tx_buf = replicate 9 0, correct = 0, failed_slots = 0, cycles_since_sync = 0\<rparr>"
  "fl_console (ex_root ms) = []"
  by (simp_all add: ex_root_def radio_ok_def ex_flash_def flash_init_def upd_radio_def FLASH_MAX_PKT_LEN_def flash_set_retransmit_def)

theorem topology_learned_witness:
  "\<exists>r2 r3 ms q. root_phase2_slot 2 True r2 = Some r3 \<and>
    flood_along (init2_slot True) [(ex_flash [] (ex_node 2), 40 :: nat), (ex_flash [] (ex_node 3), 50), (ex_flash [] (ex_node 4), 60)]
      (last (on_air (fl_radio r3))) = Some (ms, q) \<and>
    map (\<lambda>s. time_slots (fl_app s) ! 2) ms = [SLOT_FLOOD, SLOT_LISTEN, SLOT_OFF]"
proof -
  have n: "nodeID (fl_app (ex_flash [] (ex_node k))) = k" "time_slots (fl_app (ex_flash [] (ex_node k))) = replicate 5 0"
    "msg (fl_app (ex_flash [] (ex_node k))) = replicate 9 0" for k by (simp_all add: ex_node_def)
  have c: "fst (get_curr_tdma_cycle ((ex_root 450)\<lparr>fl_clock := heard_clock True 100 (fl_clock (ex_root 450))\<rparr>)) = 2"
    by (simp add: cycle_value heard_clock_def flash_get_current_time_def carry_ms.simps TICKS_PER_MS_def ex_clock_def pass_def
        TDMA_SLOT_LEN_def)
  have b: "counted (fl_clock (ex_root 450)) < 2 ^ 60" by (simp add: counted_def ex_clock_def)
  have "\<exists>o2 rs' q r1. init1_slot 2 True [] (ex_flash [] (ex_node 2)) = Some o2 \<and>
    flood_along (init1_slot 2 True) [(ex_flash [] (ex_node 3), 30)] (last (on_air (fl_radio o2))) = Some (rs', q) \<and>
    root_phase1_slot True [(100, Some (on_the_air q))] (ex_root 450) = Some r1 \<and>
    (\<forall>r2. fl_app r2 = fl_app r1 \<longrightarrow> (\<exists>r3 ms' q'. root_phase2_slot 2 True r2 = Some r3 \<and>
      flood_along (init2_slot True) [(ex_flash [] (ex_node 2), 40 :: nat), (ex_flash [] (ex_node 3), 50), (ex_flash [] (ex_node 4), 60)]
        (last (on_air (fl_radio r3))) = Some (ms', q') \<and>
      list_all2 (\<lambda>(s, d) s'. fl_app s' = (fl_app s)\<lparr>time_slots := (time_slots (fl_app s))[unat (2 :: u8) :=
        (if nodeID (fl_app s) = 2 then SLOT_FLOOD else if nodeID (fl_app s) \<in> set (take 7 [3]) then SLOT_LISTEN else SLOT_OFF)]\<rparr>)
        [(ex_flash [] (ex_node 2), 40 :: nat), (ex_flash [] (ex_node 3), 50), (ex_flash [] (ex_node 4), 60)] ms'))"
    by (rule topology_learned [OF _ _ _ _ _ _ b _ c]) (simp_all add: ex_node_def)
  then show ?thesis by (fastforce simp: list_all2_Cons1 ex_node_def)
qed

text \<open>
  C9: Time synchronisation. A synchronisation packet with the time \<open>t\<close> that goes along a path
  sets the clock of the \<open>i\<close>-th node on it to \<open>t + 673 i\<close> microseconds, modulo \<open>2^32\<close>, and that
  time is what the node sends on. The first packet of all also tells the nodes to start.
\<close>

theorem sync_propagates:
  assumes "\<forall>(s, d) \<in> set ns. relay_ok s" "length p = 9" "is_sync p"
  shows "\<exists>ns'. flood_along (await_sync True) ns p = Some (ns', put32 1 (get32 1 p + 673 * of_nat (length ns)) p) \<and> length ns' = length ns \<and>
    (\<forall>i < length ns. fst (flash_get_current_time (fl_clock (ns' ! i))) = ucast (get32 1 p + 673 * of_nat (i + 1)) \<and>
      (p ! 0 = 255 \<longrightarrow> time_synchronized (fl_app (ns' ! i))))"
  by (rule sync_flood [OF assms])

theorem sync_propagates_witness:
  "\<exists>ns' q. flood_along (await_sync True) [(ex_flash [] (ex_node 1), 10), (ex_flash [] (ex_node 2), 20)]
      [255, 0xE8, 3, 0, 0, 0, 0, 0, 0] = Some (ns', q) \<and>
    fst (flash_get_current_time (fl_clock (ns' ! 1))) = 2346 \<and> time_synchronized (fl_app (ns' ! 1))"
proof -
  have p: "is_sync [255, 0xE8, 3, 0, 0, 0, 0, 0, 0]" "get32 1 [255, 0xE8, 3, 0, 0, 0, 0, 0, 0] = 1000"
    by (simp_all add: is_sync_def get32_def push_bit_eq_mult)
  have "\<forall>(s, d) \<in> set [(ex_flash [] (ex_node 1), 10 :: nat), (ex_flash [] (ex_node 2), 20)]. relay_ok s" by simp
  from sync_propagates [OF this _ p(1)] show ?thesis unfolding p(2) by fastforce
qed

text \<open>
  C8: A sensor reading reaches the root. In the slot of node \<open>n\<close>, the node sends what it has
  read last, and when; every relay on the way has this slot marked to listen and passes the
  packet on unchanged. The root counts it as correct and prints the very numbers of the node.
\<close>

theorem reading_delivered:
  assumes "fst (get_curr_tdma_cycle s) = n" "unat n < length (time_slots (fl_app s))" "time_slots (fl_app s) ! unat n = SLOT_FLOOD"
    and "length (msg (fl_app s)) = 9" "nodeID (fl_app s) = n" "n \<noteq> 0" "n \<noteq> 255"
    and "\<forall>(s, d) \<in> set rs. relay_ok s \<and> fst (get_curr_tdma_cycle s) = n \<and> unat n < length (time_slots (fl_app s)) \<and>
      time_slots (fl_app s) ! unat n = SLOT_LISTEN"
    and "radio_ok r" "counted (fl_clock r) < 2 ^ 60" "fst (get_curr_tdma_cycle r) = n"
    and "fst (get_curr_tdma_cycle (r\<lparr>fl_clock := heard_clock True d (snd (flash_get_current_time (fl_clock r)))\<rparr>)) = n"
    and "sint (correct (fl_app r)) \<noteq> 2 ^ 31 - 1"
  shows "\<exists>s' rs' q r'. node_slot x True [] s = Some (n, s') \<and>
    flood_along (\<lambda>ps s. map_option snd (node_slot y True ps s)) rs (last (on_air (fl_radio s'))) = Some (rs', q) \<and>
    root_slot True [(d, Some (on_the_air q))] r = Some (n, r') \<and>
    fl_app r' = (fl_app r)\<lparr>correct := correct (fl_app r) + 1\<rparr> \<and>
    fl_console r' = fl_console r @ [Printf (''got sender %d press %lu sense time %lu'' @ CRLF)
      [uint n, uint (press (fl_app s)), uint (last_sense_time (fl_app s))], Printf (''slot correct'' @ CRLF) []]"
proof -
  let ?q = "reading_packet (fl_app s)"
  note q = reading_packet_fields [OF assms(4), unfolded assms(5)]
  have "\<not> is_sync ?q" using q(2) assms(6,7) by (simp add: is_sync_def)
  from relay_path [OF assms(8) q(1) this, of y] obtain rs' where
    "flood_along (\<lambda>ps s. map_option snd (node_slot y True ps s)) rs ?q = Some (rs', ?q)" by blast
  moreover from send_slot [OF assms(1-4), of x] obtain s' where
    "node_slot x True [] s = Some (n, s')" "last (on_air (fl_radio s')) = ?q" by blast
  moreover from root_hears [OF assms(9-11) assms(6) _ q(1) assms(13), of d] assms(12) obtain r' where
    "root_slot True [(d, Some (on_the_air ?q))] r = Some (n, r')" "fl_app r' = (fl_app r)\<lparr>correct := correct (fl_app r) + 1\<rparr>"
    "fl_console r' = fl_console r @ [Printf (''got sender %d press %lu sense time %lu'' @ CRLF)
      [uint n, uint (press (fl_app s)), uint (last_sense_time (fl_app s))], Printf (''slot correct'' @ CRLF) []]"
    unfolding q(2-4) by blast
  ultimately show ?thesis by metis
qed

definition ex_at :: "u64 \<Rightarrow> u8 list \<Rightarrow> node \<Rightarrow> node flash" where
  "ex_at ms slots a = (ex_flash [] (a\<lparr>time_slots := slots, press := 101325, last_sense_time := 7\<rparr>))\<lparr>fl_clock := ex_clock\<lparr>current_time_ms := ms\<rparr>\<rparr>"

theorem reading_delivered_witness:
  "\<exists>s' rs' q r'. node_slot 5 True [] (ex_at 450 [1, 1, 2, 0, 0] (ex_node 2)) = Some (2, s') \<and>
    flood_along (\<lambda>ps s. map_option snd (node_slot 6 True ps s)) [(ex_at 450 [1, 1, 1, 2, 0] (ex_node 3), 30)]
      (last (on_air (fl_radio s'))) = Some (rs', q) \<and>
    root_slot True [(100, Some (on_the_air q))] (ex_root 450) = Some (2, r') \<and>
    fl_console r' = [Printf (''got sender %d press %lu sense time %lu'' @ CRLF) [2, 101325, 7], Printf (''slot correct'' @ CRLF) []]"
proof -
  have slot: "fst (get_curr_tdma_cycle s) = 2" if "TCNT3 (fl_clock s) \<le> 100" "current_time_ms (fl_clock s) = 450" for s :: "'a flash"
  proof -
    have "unat (TCNT3 (fl_clock s)) \<le> 100" using that(1) by (simp add: word_le_nat_alt)
    then have "unat (TCNT3 (fl_clock s)) div 16 \<le> 6" by simp
    moreover have c: "counted (fl_clock s) < 2 ^ 60"
      using that(2) \<open>unat (TCNT3 (fl_clock s)) \<le> 100\<close> by (simp add: counted_def)
    ultimately have t: "unat (fst (flash_get_current_time (fl_clock s))) = 450000 + unat (TCNT3 (fl_clock s)) div 16"
      "unat (TCNT3 (fl_clock s)) div 16 \<le> 6"
      using read_clock(1) [OF c] that(2) by simp_all
    have "unat (fst (flash_get_current_time (fl_clock s)) div 200000) = 2" using t by (simp add: unat_div)
    then have "fst (flash_get_current_time (fl_clock s)) div 200000 = 2" by (simp add: word_unat_eq_iff)
    then show ?thesis by (simp add: cycle_value TDMA_SLOT_LEN_def)
  qed
  have rd: "snd (flash_get_current_time c) = c\<lparr>gie := True\<rparr>" if "TCNT3 c \<le> 100" for c
  proof -
    have "\<not> TICKS_PER_MS < TCNT3 c" using that by (simp add: word_less_nat_alt word_le_nat_alt)
    then show ?thesis by (simp add: flash_get_current_time_def carry_ms.simps [of "TCNT3 c"])
  qed
  have clock: "heard_clock True 100 (snd (flash_get_current_time (ex_clock\<lparr>current_time_ms := 450\<rparr>))) =
      \<lparr>TCNT3 = 100, current_time_ms = 450, gie = False\<rparr>"
    by (simp add: heard_clock_def rd pass_def ex_clock_def)
  have late: "fst (get_curr_tdma_cycle ((ex_root 450)\<lparr>fl_clock := heard_clock True 100 (snd (flash_get_current_time (fl_clock (ex_root 450))))\<rparr>)) = 2"
    by (rule slot) (simp_all add: clock)
  have now: "fst (get_curr_tdma_cycle (ex_root 450)) = 2" "fst (get_curr_tdma_cycle (ex_at 450 l a)) = 2" for l a
    by (rule slot, simp_all add: ex_at_def ex_clock_def)+
  have app: "fl_app (ex_at 450 l a) = a\<lparr>time_slots := l, press := 101325, last_sense_time := 7\<rparr>" for l a
    by (simp add: ex_at_def)
  have "relay_ok (ex_at 450 l a)" for l a
    using ex_relay_ok [of "a\<lparr>time_slots := l, press := 101325, last_sense_time := 7\<rparr>"]
    by (simp add: ex_at_def relay_ok_def radio_ok_def counted_def ex_clock_def)
  then have relay: "\<forall>(s, d) \<in> set [(ex_at 450 [1, 1, 1, 2, 0] (ex_node 3), 30 :: nat)]. relay_ok s \<and> fst (get_curr_tdma_cycle s) = 2 \<and>
      unat (2 :: u8) < length (time_slots (fl_app s)) \<and> time_slots (fl_app s) ! unat (2 :: u8) = SLOT_LISTEN"
    by (simp add: now app slot_types)
  have sender: "unat (2 :: u8) < length (time_slots (fl_app (ex_at 450 [1, 1, 2, 0, 0] (ex_node 2))))"
    "time_slots (fl_app (ex_at 450 [1, 1, 2, 0, 0] (ex_node 2))) ! unat (2 :: u8) = SLOT_FLOOD"
    "length (msg (fl_app (ex_at 450 [1, 1, 2, 0, 0] (ex_node 2)))) = 9" "nodeID (fl_app (ex_at 450 [1, 1, 2, 0, 0] (ex_node 2))) = 2"
    by (simp_all add: app ex_node_def slot_types)
  have root: "counted (fl_clock (ex_root 450)) < 2 ^ 60" "sint (correct (fl_app (ex_root 450))) \<noteq> 2 ^ 31 - 1"
    by (simp_all add: counted_def ex_clock_def)
  have "(2 :: u8) \<noteq> 0" "(2 :: u8) \<noteq> 255" by simp_all
  from reading_delivered [OF now(2) sender this relay ex_root_ok(1) root(1) now(1) late root(2), of 5 6] show ?thesis
    by (elim exE conjE) (simp add: app)
qed

end
