(* ===== verification/Rtl_Schedule.thy ===== *)
theory Rtl_Schedule
  imports Nrk_Prelude
begin

text \<open>
  The schedule of the RT-Link protocol, \<^verbatim>\<open>src/src/net/rt_link/rtl_scheduler.c\<close>, and the part of
  \<^verbatim>\<open>rtl_nw_task\<close> (\<^verbatim>\<open>rt_link.c\<close>) that takes a coordinator from one slot of a cycle to the next.
  A cycle has 32 frames of 32 slots; slot \<open>i\<close> of a frame with schedule \<open>k\<close> is used in every
  \<open>2^(k - 1)\<close>-th frame. The reference is a search through the slots one by one.
\<close>

section \<open>Definitions\<close>

definition MAX_SLOTS :: u16 where "MAX_SLOTS = 1024"
definition MAX_ABS_WAKEUP :: nat where "MAX_ABS_WAKEUP = 4"

datatype rtl_rx_tx_t = RTL_RX | RTL_TX

record rtl =
  rtl_sched :: "u8 list"
  rtl_sched_cache :: "u8 list"
  rtl_abs_wakeup :: "u16 list"
  rtl_tdma_rx_mask :: u32
  rtl_tdma_tx_mask :: u32

definition upd_sched :: "nat \<Rightarrow> (u8 \<Rightarrow> u8) \<Rightarrow> rtl \<Rightarrow> rtl" where
  "upd_sched i f s = s\<lparr>rtl_sched := (rtl_sched s)[i := f (rtl_sched s ! i)]\<rparr>"

definition rtl_set_schedule :: "rtl_rx_tx_t \<Rightarrow> u8 \<Rightarrow> u8 \<Rightarrow> rtl \<Rightarrow> i8 \<times> rtl" where
  "rtl_set_schedule rx_tx slot sched s =
     (if 15 < sched \<or> 31 < slot then (NRK_ERROR, s)
      else
        let t_mask = push_bit (unat slot) 1;
            s = (case rx_tx of RTL_RX \<Rightarrow> s\<lparr>rtl_tdma_rx_mask := rtl_tdma_rx_mask s OR t_mask\<rparr>
                             | RTL_TX \<Rightarrow> s\<lparr>rtl_tdma_tx_mask := rtl_tdma_tx_mask s OR t_mask\<rparr>);
            dslot = unat (drop_bit 1 slot)
        in (NRK_OK,
            if slot mod 2 = 0 then upd_sched dslot (\<lambda>b. b OR sched) (upd_sched dslot (\<lambda>b. b AND 0xF0) s)
            else upd_sched dslot (\<lambda>b. b OR (push_bit 4 sched AND 0xF0)) (upd_sched dslot (\<lambda>b. b AND 0x0F) s)))"

definition rtl_get_schedule :: "u8 \<Rightarrow> rtl \<Rightarrow> i8" where
  "rtl_get_schedule slot s =
     (if 31 < slot then NRK_ERROR
      else
        let dslot = unat (drop_bit 1 slot)
        in if slot mod 2 = 0 then rtl_sched s ! dslot AND 0x0F else drop_bit 4 (rtl_sched s ! dslot))"

text \<open>
  The mask is made by shifting an \<^verbatim>\<open>int\<close> of 16 bits. Only the error path returns a value.
\<close>

definition rtl_clr_schedule :: "rtl_rx_tx_t \<Rightarrow> u8 \<Rightarrow> rtl \<Rightarrow> (i8 option \<times> rtl) option" where
  "rtl_clr_schedule rx_tx slot s =
     (if 31 < slot then Some (Some NRK_ERROR, s)
      else if 15 \<le> slot then None
      else
        let t_mask = push_bit (unat slot) 1;
            s = (case rx_tx of RTL_RX \<Rightarrow> s\<lparr>rtl_tdma_rx_mask := rtl_tdma_rx_mask s AND NOT t_mask\<rparr>
                             | RTL_TX \<Rightarrow> s\<lparr>rtl_tdma_tx_mask := rtl_tdma_tx_mask s AND NOT t_mask\<rparr>);
            dslot = unat (drop_bit 1 slot)
        in Some (None, upd_sched dslot (\<lambda>b. if slot mod 2 = 0 then b AND 0xF0 else b AND 0x0F) s))"

subsection \<open>Absolute wake-ups\<close>

text \<open>The top bit of an entry says that it is repeated in every cycle.\<close>

definition abs_slot_of :: "u16 \<Rightarrow> u16" where
  "abs_slot_of w = w AND 0x7FFF"

definition rtl_clr_abs_all_wakeup :: "rtl \<Rightarrow> rtl" where
  "rtl_clr_abs_all_wakeup s = s\<lparr>rtl_abs_wakeup := replicate MAX_ABS_WAKEUP (MAX_SLOTS + 1)\<rparr>"

definition rtl_set_abs_wakeup :: "u16 \<Rightarrow> u8 \<Rightarrow> rtl \<Rightarrow> i8 \<times> rtl" where
  "rtl_set_abs_wakeup slot repeat s =
     (case scan (\<lambda>i. MAX_SLOTS < abs_slot_of (rtl_abs_wakeup s ! i)) 0 MAX_ABS_WAKEUP of
        None \<Rightarrow> (NRK_ERROR, s)
      | Some i \<Rightarrow> (NRK_OK, s\<lparr>rtl_abs_wakeup := (rtl_abs_wakeup s)[i := if repeat \<noteq> 0 then slot OR 0x8000 else slot]\<rparr>))"

definition rtl_clr_abs_wakeup :: "u16 \<Rightarrow> rtl \<Rightarrow> rtl" where
  "rtl_clr_abs_wakeup slot s =
     (case scan (\<lambda>i. abs_slot_of (rtl_abs_wakeup s ! i) = slot) 0 MAX_ABS_WAKEUP of
        None \<Rightarrow> s
      | Some i \<Rightarrow> s\<lparr>rtl_abs_wakeup := (rtl_abs_wakeup s)[i := MAX_SLOTS + 1]\<rparr>)"

definition rtl_match_abs_wakeup :: "u16 \<Rightarrow> rtl \<Rightarrow> u8 \<times> rtl" where
  "rtl_match_abs_wakeup global_slot s =
     (case scan (\<lambda>i. abs_slot_of (rtl_abs_wakeup s ! i) = global_slot) 0 MAX_ABS_WAKEUP of
        None \<Rightarrow> (0, s)
      | Some i \<Rightarrow> (1, if rtl_abs_wakeup s ! i \<le> 0x8000 then rtl_clr_abs_wakeup global_slot s else s))"

fun nearest_abs :: "u16 \<Rightarrow> u16 list \<Rightarrow> i16 \<Rightarrow> i16" where
  "nearest_abs g [] m = m"
| "nearest_abs g (w # ws) m = nearest_abs g ws
     (if abs_slot_of w < MAX_SLOTS
      then let tmp = abs_slot_of w - g in if 0 < sint tmp \<and> sint tmp < sint m then tmp else m
      else m)"

definition rtl_get_next_abs_wakeup :: "u16 \<Rightarrow> rtl \<Rightarrow> u16" where
  "rtl_get_next_abs_wakeup global_slot s =
     (let m = nearest_abs global_slot (rtl_abs_wakeup s) (MAX_SLOTS + 1) in if m = MAX_SLOTS + 1 then 0 else m)"

definition rtl_clear_sched_cache :: "rtl \<Rightarrow> rtl" where
  "rtl_clear_sched_cache s = s\<lparr>rtl_sched_cache := replicate 32 0\<rparr>"

subsection \<open>The next slot\<close>

fun pow_loop :: "nat \<Rightarrow> u8 \<Rightarrow> u8 \<Rightarrow> u8" where
  "pow_loop 0 x acc = acc"
| "pow_loop (Suc n) x acc = pow_loop n x (acc * x)"

definition rtl_pow :: "u8 \<Rightarrow> u8 \<Rightarrow> u8" where
  "rtl_pow x y = (if y = 0 then 1 else pow_loop (unat y - 1) x x)"

text \<open>The loop over the frames of one slot\<close>

partial_function (option) catch_up :: "u16 \<Rightarrow> u8 \<Rightarrow> u8 \<Rightarrow> u8 \<Rightarrow> (u8 \<times> u16) option" where
  "catch_up current_slot test_slot frame_inc test_frame =
     (let abs_slot = push_bit 5 (ucast test_frame) + ucast test_slot
      in if abs_slot \<le> current_slot then catch_up current_slot test_slot frame_inc (test_frame + frame_inc)
         else Some (test_frame, abs_slot))"

text \<open>One round of the loop over the slots, and the loop\<close>

definition test_slot_step :: "u16 \<Rightarrow> nat \<Rightarrow> u16 \<times> rtl \<Rightarrow> (u16 \<times> rtl) option" where
  "test_slot_step current_slot i = (\<lambda>(min_slot, s).
     let k = rtl_get_schedule (of_nat i) s
     in if k = 0 then Some (min_slot, s)
        else do {
          (test_frame, abs_slot) \<leftarrow> catch_up current_slot (of_nat i) (rtl_pow 2 (k - 1)) (rtl_sched_cache s ! i);
          let s = s\<lparr>rtl_sched_cache := (rtl_sched_cache s)[i := test_frame]\<rparr>;
          Some (if abs_slot - current_slot < min_slot \<and> abs_slot < MAX_SLOTS + 1 then abs_slot - current_slot else min_slot, s)
        })"

fun test_slots :: "u16 \<Rightarrow> nat list \<Rightarrow> u16 \<times> rtl \<Rightarrow> (u16 \<times> rtl) option" where
  "test_slots current_slot [] ms = Some ms"
| "test_slots current_slot (i # is) ms = do { ms \<leftarrow> test_slot_step current_slot i ms; test_slots current_slot is ms }"

definition rtl_get_slots_until_next_wakeup :: "u16 \<Rightarrow> rtl \<Rightarrow> (u16 \<times> rtl) option" where
  "rtl_get_slots_until_next_wakeup current_slot s = do {
     (min_slot, s) \<leftarrow> test_slots current_slot [0 ..< 32] (MAX_SLOTS + 1, s);
     Some (if MAX_SLOTS < min_slot then 0 else min_slot, s)
   }"

text \<open>What \<^verbatim>\<open>rtl_nw_task\<close> makes of the two\<close>

definition next_slot_offset :: "u16 \<Rightarrow> rtl \<Rightarrow> (u16 \<times> rtl) option" where
  "next_slot_offset global_slot s = do {
     (n, s) \<leftarrow> rtl_get_slots_until_next_wakeup global_slot s;
     let tmp = rtl_get_next_abs_wakeup global_slot s;
     let n = (if tmp \<noteq> 0 then let n = (if n = 0 then tmp else n) in if tmp < n then tmp else n else n);
     Some (if n = 0 then MAX_SLOTS - global_slot else n, s)
   }"

text \<open>
  The slots of a cycle in which a coordinator is awake, each with what \<^verbatim>\<open>_rtl_match_abs_wakeup\<close>
  returns there. What it does in a slot and the callbacks are left out.
\<close>

partial_function (option) rtl_cycle :: "u16 \<Rightarrow> rtl \<Rightarrow> ((u16 \<times> u8) list \<times> rtl) option" where
  "rtl_cycle global_slot s =
     (if MAX_SLOTS \<le> global_slot then Some ([], s)
      else do {
        let (r, s) = rtl_match_abs_wakeup global_slot s;
        (n, s) \<leftarrow> next_slot_offset global_slot s;
        (gs, s) \<leftarrow> rtl_cycle (global_slot + n) s;
        Some ((global_slot, r) # gs, s)
      })"

section \<open>Setting and reading a schedule\<close>

lemma slot_half:
  assumes "slot \<le> (31 :: u8)"
  shows "unat (drop_bit 1 slot) = unat slot div 2" "slot mod 2 = 0 \<longleftrightarrow> even (unat slot)" "unat slot < 32"
proof -
  show "unat (drop_bit 1 slot) = unat slot div 2" by (simp add: drop_bit_eq_div unat_div)
  show "slot mod 2 = 0 \<longleftrightarrow> even (unat slot)"
    by (simp add: word_unat_eq_iff unat_mod_word even_iff_mod_2_eq_zero)
  show "unat slot < 32" using assms by (simp add: word_le_nat_alt)
qed

lemma nibbles:
  fixes b x :: u8
  assumes "x \<le> 15"
  shows "((b AND 0xF0) OR x) AND 0x0F = x" "drop_bit 4 ((b AND 0xF0) OR x) = drop_bit 4 b"
    "drop_bit 4 ((b AND 0x0F) OR (push_bit 4 x AND 0xF0)) = x" "((b AND 0x0F) OR (push_bit 4 x AND 0xF0)) AND 0x0F = b AND 0x0F"
proof -
  have F: "(0x0F :: u8) = mask 4" "(0xF0 :: u8) = push_bit 4 (mask 4)" by (simp_all add: mask_eq_exp_minus_1 push_bit_eq_mult)
  have "take_bit 4 x = x" using assms by (simp add: take_bit_eq_mod word_unat_eq_iff unat_mod_word word_le_nat_alt)
  moreover have "((b AND 0xF0) OR take_bit 4 x) AND 0x0F = take_bit 4 x" "drop_bit 4 ((b AND 0xF0) OR take_bit 4 x) = drop_bit 4 b"
    "drop_bit 4 ((b AND 0x0F) OR (push_bit 4 (take_bit 4 x) AND 0xF0)) = take_bit 4 x"
    "((b AND 0x0F) OR (push_bit 4 (take_bit 4 x) AND 0xF0)) AND 0x0F = b AND 0x0F"
    unfolding F
    by (rule bit_word_eqI, auto simp only: bit_and_iff bit_or_iff bit_mask_iff bit_push_bit_iff bit_drop_bit_eq bit_take_bit_iff
        comp_apply add_diff_cancel_left' possible_bit_word le_add1 not_less split: if_splits, (auto dest: bit_imp_le_length)?)+
  ultimately show "((b AND 0xF0) OR x) AND 0x0F = x" "drop_bit 4 ((b AND 0xF0) OR x) = drop_bit 4 b"
    "drop_bit 4 ((b AND 0x0F) OR (push_bit 4 x AND 0xF0)) = x" "((b AND 0x0F) OR (push_bit 4 x AND 0xF0)) AND 0x0F = b AND 0x0F"
    by simp_all
qed

lemma get_schedule_value:
  "i < 32 \<Longrightarrow> rtl_get_schedule (of_nat i) s =
    (if even i then rtl_sched s ! (i div 2) AND 0x0F else drop_bit 4 (rtl_sched s ! (i div 2)))"
proof -
  assume "i < 32"
  then have u: "unat (of_nat i :: u8) = i" by (simp add: unsigned_of_nat take_bit_nat_eq_self)
  have "(of_nat i :: u8) \<le> 31" using \<open>i < 32\<close> u by (simp add: word_le_nat_alt)
  then have "\<not> (31 :: u8) < of_nat i" by (simp only: not_less)
  with slot_half [OF \<open>(of_nat i :: u8) \<le> 31\<close>] show ?thesis by (simp add: rtl_get_schedule_def u Let_def)
qed

definition rtl_ok :: "rtl \<Rightarrow> bool" where
  "rtl_ok s \<longleftrightarrow> length (rtl_sched s) = 16 \<and> length (rtl_sched_cache s) = 32 \<and> length (rtl_abs_wakeup s) = MAX_ABS_WAKEUP"

lemma set_schedule_value:
  assumes "rtl_ok s" "sched \<le> 15" "i < 32"
  shows "rtl_set_schedule rx_tx (of_nat i) sched s = (NRK_OK, (case rx_tx of
      RTL_RX \<Rightarrow> s\<lparr>rtl_tdma_rx_mask := rtl_tdma_rx_mask s OR push_bit i 1\<rparr> |
      RTL_TX \<Rightarrow> s\<lparr>rtl_tdma_tx_mask := rtl_tdma_tx_mask s OR push_bit i 1\<rparr>)
    \<lparr>rtl_sched := (rtl_sched s)[i div 2 := (if even i then (rtl_sched s ! (i div 2) AND 0xF0) OR sched
       else (rtl_sched s ! (i div 2) AND 0x0F) OR (push_bit 4 sched AND 0xF0))]\<rparr>)"
proof -
  have u: "unat (of_nat i :: u8) = i" using assms(3) by (simp add: unsigned_of_nat take_bit_nat_eq_self)
  have i: "(of_nat i :: u8) \<le> 31" using assms(3) u by (simp add: word_le_nat_alt)
  have "i div 2 < length (rtl_sched s)" using assms(1,3) by (simp add: rtl_ok_def)
  moreover have "\<not> (31 :: u8) < of_nat i" "\<not> 15 < sched" using i assms(2) by (simp_all only: not_less)
  ultimately show ?thesis using slot_half [OF i]
    by (cases rx_tx) (simp_all add: rtl_set_schedule_def upd_sched_def u Let_def)
qed

lemma set_get_schedule:
  assumes "rtl_ok s" "sched \<le> 15" "i < 32" "j < 32"
  shows "rtl_get_schedule (of_nat j) (snd (rtl_set_schedule rx_tx (of_nat i) sched s)) =
    (if j = i then sched else rtl_get_schedule (of_nat j) s)"
proof -
  have l: "i div 2 < length (rtl_sched s)" "j div 2 < length (rtl_sched s)" using assms(1,3,4) by (simp_all add: rtl_ok_def)
  have same: "i = j" if "i div 2 = j div 2" "even i = even j" using that by (metis dvd_div_mult_self odd_two_times_div_two_succ)
  let ?V = "if even i then (rtl_sched s ! (i div 2) AND 0xF0) OR sched
    else (rtl_sched s ! (i div 2) AND 0x0F) OR (push_bit 4 sched AND 0xF0)"
  have L: "rtl_sched (snd (rtl_set_schedule rx_tx (of_nat i) sched s)) = (rtl_sched s)[i div 2 := ?V]"
    unfolding set_schedule_value [OF assms(1-3)] by (cases rx_tx) simp_all
  note n = nibbles [OF assms(2), of "rtl_sched s ! (i div 2)"]
  show ?thesis
  proof (cases "i div 2 = j div 2")
    case True
    then have V: "(rtl_sched s)[i div 2 := ?V] ! (j div 2) = ?V" using l(1) by simp
    show ?thesis
    proof (cases "even i = even j")
      case same: True
      with True show ?thesis using \<open>i div 2 = j div 2 \<Longrightarrow> even i = even j \<Longrightarrow> i = j\<close> n(1,3)
        unfolding get_schedule_value [OF assms(4)] L V by (cases "even j") simp_all
    next
      case False
      then have "j \<noteq> i" by auto
      then show ?thesis using False n(2,4) True
        unfolding get_schedule_value [OF assms(4)] L V by (cases "even j") simp_all
    qed
  next
    case False
    then have "(rtl_sched s)[i div 2 := ?V] ! (j div 2) = rtl_sched s ! (j div 2)" "j \<noteq> i" by auto
    then show ?thesis unfolding get_schedule_value [OF assms(4)] L by simp
  qed
qed

section \<open>The reference\<close>

text \<open>The schedule of slot \<open>t mod 32\<close> asks for the frame \<open>t div 32\<close>.\<close>

definition sched_of :: "rtl \<Rightarrow> nat \<Rightarrow> nat" where
  "sched_of s i = unat (rtl_get_schedule (of_nat i) s)"

definition is_scheduled :: "rtl \<Rightarrow> nat \<Rightarrow> bool" where
  "is_scheduled s t \<longleftrightarrow> 0 < sched_of s (t mod 32) \<and> 2 ^ (sched_of s (t mod 32) - 1) dvd t div 32"

text \<open>The schedules that the protocol can follow, and what the cache may hold in slot \<open>c\<close>\<close>

definition scheds_ok :: "rtl \<Rightarrow> bool" where
  "scheds_ok s \<longleftrightarrow> rtl_ok s \<and> (\<forall>i < 32. sched_of s i \<le> 8)"

definition cached :: "nat \<Rightarrow> nat \<Rightarrow> u8 \<Rightarrow> nat \<Rightarrow> bool" where
  "cached c k f i \<longleftrightarrow> 0 < k \<longrightarrow> 2 ^ (k - 1) dvd unat f \<and> (\<forall>g. 2 ^ (k - 1) dvd g \<longrightarrow> g < unat f \<longrightarrow> 32 * g + i \<le> c)"

definition cache_ok :: "nat \<Rightarrow> rtl \<Rightarrow> bool" where
  "cache_ok c s \<longleftrightarrow> (\<forall>i < 32. cached c (sched_of s i) (rtl_sched_cache s ! i) i)"

lemma cache_clear: "cache_ok c (rtl_clear_sched_cache s)"
  by (simp add: cache_ok_def cached_def rtl_clear_sched_cache_def)

lemma cache_later: "cache_ok c s \<Longrightarrow> c \<le> d \<Longrightarrow> cache_ok d s"
  unfolding cache_ok_def cached_def by (meson le_trans)

lemma pow_loop_value: "pow_loop n x acc = acc * x ^ n"
  by (induction n arbitrary: acc) (simp_all add: algebra_simps)

lemma rtl_pow_2: "k < 8 \<Longrightarrow> unat (rtl_pow 2 (of_nat k)) = 2 ^ k"
proof -
  assume k: "k < 8"
  then have u: "unat (of_nat k :: u8) = k" by (simp add: unsigned_of_nat take_bit_nat_eq_self)
  have "rtl_pow 2 (of_nat k) = 2 ^ k"
  proof (cases k)
    case (Suc n)
    then have "(of_nat k :: u8) \<noteq> 0" using u by (metis nat.distinct(1) unsigned_0)
    then show ?thesis using Suc u by (simp add: rtl_pow_def pow_loop_value)
  qed (simp add: rtl_pow_def)
  moreover have "(2 :: nat) ^ k < 2 ^ 8" using k by (intro power_strict_increasing) simp_all
  ultimately show ?thesis
    using take_bit_nat_eq_self [of "2 ^ k" 8] unsigned_of_nat [of "2 ^ k", where 'a = nat and 'b = 8] by simp
qed

section \<open>The loop over the frames\<close>

lemma slot_number:
  assumes "i < 32"
  shows "unat (push_bit 5 (ucast (f :: u8)) + ucast (of_nat i :: u8) :: u16) = 32 * unat f + i"
proof -
  have f: "unat (ucast f :: u16) = unat f" by (simp add: unat_ucast_up)
  have i: "unat (ucast (of_nat i :: u8) :: u16) = i"
    using assms by (simp add: unat_ucast_up unsigned_of_nat take_bit_nat_eq_self)
  have b: "unat f \<le> 255" by simp
  have "unat (push_bit 5 (ucast f) :: u16) = 32 * unat f"
  proof -
    have "unat f * 32 < 65536" using b by linarith
    then show ?thesis using f by (simp add: push_bit_eq_mult unat_word_ariths)
  qed
  moreover have "32 * unat f + i < 65536" using b assms by linarith
  ultimately show ?thesis using i by (simp add: unat_word_ariths)
qed

lemma catch_up_value:
  assumes "i < 32" "k < 8" "c \<le> 1024" "unat inc = 2 ^ k" "2 ^ k dvd unat f"
  shows "\<exists>f' a. catch_up (of_nat c) (of_nat i) inc f = Some (f', a) \<and> unat a = 32 * unat f' + i \<and> c < unat a \<and>
    2 ^ k dvd unat f' \<and> unat f \<le> unat f' \<and> (\<forall>g. 2 ^ k dvd g \<longrightarrow> unat f \<le> g \<longrightarrow> g < unat f' \<longrightarrow> 32 * g + i \<le> c)"
  using assms(5)
proof (induction "256 - unat f" arbitrary: f rule: less_induct)
  case less
  let ?a = "push_bit 5 (ucast f) + ucast (of_nat i :: u8) :: u16"
  have c: "unat (of_nat c :: u16) = c" using assms(3) by (simp add: unsigned_of_nat take_bit_nat_eq_self)
  have a: "unat ?a = 32 * unat f + i" by (rule slot_number [OF assms(1)])
  show ?case
  proof (cases "?a \<le> of_nat c")
    case False
    then have "catch_up (of_nat c) (of_nat i) inc f = Some (f, ?a)" by (simp add: catch_up.simps [of _ _ _ f])
    moreover have "c < unat ?a" using False c by (simp add: word_le_nat_alt)
    ultimately show ?thesis using a less.prems by auto
  next
    case True
    then have le: "32 * unat f + i \<le> c" using a c by (simp add: word_le_nat_alt)
    have "(2 :: nat) ^ k \<le> 2 ^ 7" using assms(2) by (intro power_increasing) simp_all
    then have p: "0 < (2 :: nat) ^ k" "(2 :: nat) ^ k \<le> 128" by simp_all
    then have "unat f + 2 ^ k < 256" using le assms(3) by linarith
    then have u: "unat (f + inc) = unat f + 2 ^ k" using assms(4) by (simp add: unat_word_ariths)
    have "256 - unat (f + inc) < 256 - unat f" unfolding u using p le assms(3) by linarith
    moreover have "2 ^ k dvd unat (f + inc)" using u less.prems by simp
    ultimately obtain f' a' where
      r: "catch_up (of_nat c) (of_nat i) inc (f + inc) = Some (f', a')" "unat a' = 32 * unat f' + i" "c < unat a'"
        "2 ^ k dvd unat f'" "unat f + 2 ^ k \<le> unat f'"
        "\<forall>g. 2 ^ k dvd g \<longrightarrow> unat f + 2 ^ k \<le> g \<longrightarrow> g < unat f' \<longrightarrow> 32 * g + i \<le> c"
      using less.hyps [of "f + inc"] unfolding u by blast
    have "32 * g + i \<le> c" if g: "2 ^ k dvd g" "unat f \<le> g" "g < unat f'" for g
    proof (cases "g = unat f")
      case True
      then show ?thesis using le by simp
    next
      case False
      then have "unat f < g" using g(2) by simp
      moreover have "2 ^ k dvd g - unat f" using g(1) less.prems by simp
      ultimately have "unat f + 2 ^ k \<le> g" using dvd_imp_le [of "2 ^ k" "g - unat f"] by linarith
      then show ?thesis using r(6) g by blast
    qed
    moreover have "catch_up (of_nat c) (of_nat i) inc f = Some (f', a')"
      using True r(1) by (simp add: catch_up.simps [of _ _ _ f])
    ultimately show ?thesis using r(2-5) by (intro exI [of _ f'] exI [of _ a']) simp
  qed
qed

text \<open>With a schedule above 8 the number of frames wraps to 0 and the loop never ends.\<close>

lemma catch_up_endless: "push_bit 5 (ucast f) + ucast i \<le> c \<Longrightarrow> catch_up c i 0 f = None"
proof (rule ccontr)
  assume le: "push_bit 5 (ucast f) + ucast i \<le> c" and "catch_up c i 0 f \<noteq> None"
  then obtain r where r: "catch_up c i 0 f = Some r" by auto
  have "0 = (0 :: u8) \<longrightarrow> \<not> push_bit 5 (ucast f) + ucast i \<le> c"
  proof (rule catch_up.raw_induct [where P = "\<lambda>c i inc f r. inc = 0 \<longrightarrow> \<not> push_bit 5 (ucast f) + ucast i \<le> c", OF _ r])
    fix g and c i inc f and r :: "u8 \<times> u16"
    assume IH: "\<And>c i inc f r. g c i inc f = Some r \<Longrightarrow> inc = 0 \<longrightarrow> \<not> push_bit 5 (ucast f) + ucast i \<le> c"
      and eq: "(let a = push_bit 5 (ucast f) + ucast i in if a \<le> c then g c i inc (f + inc) else Some (f, a)) = Some r"
    show "inc = 0 \<longrightarrow> \<not> push_bit 5 (ucast f) + ucast i \<le> c"
    proof (intro impI notI)
      assume "inc = 0" "push_bit 5 (ucast f) + ucast i \<le> c"
      moreover then have "g c i inc f = Some r" using eq by (simp add: Let_def)
      ultimately show False using IH by blast
    qed
  qed
  then show False using le by simp
qed

section \<open>The loop over the slots\<close>

text \<open>
  After the slots \<open>is\<close> the minimum is the distance to the nearest of their scheduled slots,
  if that is nearer than before.
\<close>

definition same_plan :: "rtl \<Rightarrow> rtl \<Rightarrow> bool" where
  "same_plan s s' \<longleftrightarrow> (\<exists>xs. s' = s\<lparr>rtl_sched_cache := xs\<rparr> \<and> length xs = length (rtl_sched_cache s))"

lemma same_plan_facts:
  assumes "same_plan s s'"
  shows "sched_of s' i = sched_of s i" "is_scheduled s' t = is_scheduled s t" "rtl_abs_wakeup s' = rtl_abs_wakeup s"
    "scheds_ok s' = scheds_ok s"
proof -
  have g: "rtl_get_schedule k s' = rtl_get_schedule k s" for k using assms by (auto simp: same_plan_def rtl_get_schedule_def Let_def)
  then show "sched_of s' i = sched_of s i" "is_scheduled s' t = is_scheduled s t" "scheds_ok s' = scheds_ok s"
    using assms by (auto simp: sched_of_def is_scheduled_def scheds_ok_def rtl_ok_def same_plan_def)
  show "rtl_abs_wakeup s' = rtl_abs_wakeup s" using assms by (auto simp: same_plan_def)
qed

lemma same_plan_refl [simp]: "same_plan s s"
  by (auto simp: same_plan_def intro!: exI [of _ "rtl_sched_cache s"])

lemma same_plan_trans: "same_plan s s' \<Longrightarrow> same_plan s' s'' \<Longrightarrow> same_plan s s''"
  by (auto simp: same_plan_def)

definition nearest :: "(nat \<Rightarrow> bool) \<Rightarrow> nat \<Rightarrow> u16 \<Rightarrow> u16 \<Rightarrow> bool" where
  "nearest P c m m' \<longleftrightarrow> unat m' \<le> unat m \<and> (\<forall>t. c < t \<longrightarrow> t \<le> 1024 \<longrightarrow> P t \<longrightarrow> unat m' \<le> t - c) \<and>
     (m' = m \<or> 0 < unat m' \<and> c + unat m' \<le> 1024 \<and> P (c + unat m'))"

lemma nearest_trans: "nearest P c m m1 \<Longrightarrow> nearest Q c m1 m2 \<Longrightarrow> nearest (\<lambda>t. P t \<or> Q t) c m m2"
  unfolding nearest_def by (elim conjE disjE) (auto intro: le_trans)

lemma nearest_cong: "nearest P c m m' \<Longrightarrow> (\<And>t. P t = Q t) \<Longrightarrow> nearest Q c m m'"
  by (simp add: nearest_def)

lemma test_slot_value:
  assumes "scheds_ok s" "cache_ok c s" "i < 32" "c \<le> 1024" "unat m \<le> 1025"
  shows "\<exists>m' s'. test_slot_step (of_nat c) i (m, s) = Some (m', s') \<and> same_plan s s' \<and> cache_ok c s' \<and>
    nearest (\<lambda>t. t mod 32 = i \<and> is_scheduled s t) c m m'"
proof -
  have u: "unat (rtl_get_schedule (of_nat i) s) = sched_of s i" by (simp add: sched_of_def)
  show ?thesis
  proof (cases "sched_of s i = 0")
    case True
    then have "rtl_get_schedule (of_nat i) s = 0" using u by (simp add: word_unat_eq_iff)
    moreover have "nearest (\<lambda>t. t mod 32 = i \<and> is_scheduled s t) c m m" using True by (auto simp: nearest_def is_scheduled_def)
    ultimately show ?thesis using assms(2) by (auto simp: test_slot_step_def)
  next
    case False
    define k where "k = sched_of s i - 1"
    have k: "k < 8" "sched_of s i = Suc k" using False assms(1,3) by (auto simp: k_def scheds_ok_def)
    have g: "rtl_get_schedule (of_nat i) s \<noteq> 0" using False u by auto
    have "rtl_get_schedule (of_nat i) s - 1 = of_nat k"
      using u k g by (simp add: word_unat_eq_iff unat_minus_one unsigned_of_nat take_bit_nat_eq_self)
    then have inc: "unat (rtl_pow 2 (rtl_get_schedule (of_nat i) s - 1)) = 2 ^ k" using rtl_pow_2 [OF k(1)] by simp
    have f: "2 ^ k dvd unat (rtl_sched_cache s ! i)" "\<forall>g. 2 ^ k dvd g \<longrightarrow> g < unat (rtl_sched_cache s ! i) \<longrightarrow> 32 * g + i \<le> c"
      using assms(2,3) k by (auto simp: cache_ok_def cached_def)
    from catch_up_value [OF assms(3) k(1) assms(4) inc f(1)] obtain f' a where
      r: "catch_up (of_nat c) (of_nat i) (rtl_pow 2 (rtl_get_schedule (of_nat i) s - 1)) (rtl_sched_cache s ! i) = Some (f', a)"
        "unat a = 32 * unat f' + i" "c < unat a" "2 ^ k dvd unat f'"
        "\<forall>g. 2 ^ k dvd g \<longrightarrow> unat (rtl_sched_cache s ! i) \<le> g \<longrightarrow> g < unat f' \<longrightarrow> 32 * g + i \<le> c" by blast
    have least: "\<forall>g. 2 ^ k dvd g \<longrightarrow> g < unat f' \<longrightarrow> 32 * g + i \<le> c" using f(2) r(5) by (meson not_less)
    let ?s = "s\<lparr>rtl_sched_cache := (rtl_sched_cache s)[i := f']\<rparr>"
    let ?m = "if a - of_nat c < m \<and> a < MAX_SLOTS + 1 then a - of_nat c else m"
    have plan: "same_plan s ?s" by (auto simp: same_plan_def)
    have "cache_ok c ?s"
      unfolding cache_ok_def same_plan_facts(1) [OF plan]
    proof (intro allI impI)
      fix j :: nat assume j: "j < 32"
      show "cached c (sched_of s j) (rtl_sched_cache ?s ! j) j"
      proof (cases "j = i")
        case True
        have "length (rtl_sched_cache s) = 32" using assms(1) by (simp add: scheds_ok_def rtl_ok_def)
        then show ?thesis using True assms(3) r(4) least k(2) by (simp add: cached_def)
      next
        case False
        then show ?thesis using assms(2) j by (simp add: cache_ok_def)
      qed
    qed
    moreover have "nearest (\<lambda>t. t mod 32 = i \<and> is_scheduled s t) c m ?m"
    proof -
      have c: "unat (of_nat c :: u16) = c" using assms(4) by (simp add: unsigned_of_nat take_bit_nat_eq_self)
      have "of_nat c \<le> a" using r(3) c by (simp add: word_le_nat_alt)
      then have d: "unat (a - of_nat c) = unat a - c" using c by (simp add: unat_sub)
      have lim: "a < MAX_SLOTS + 1 \<longleftrightarrow> unat a \<le> 1024" by (auto simp: MAX_SLOTS_def word_less_nat_alt)
      have sched: "t mod 32 = i \<Longrightarrow> is_scheduled s t \<longleftrightarrow> 2 ^ k dvd t div 32" for t using k by (simp add: is_scheduled_def)
      have at: "unat a mod 32 = i" "unat a div 32 = unat f'" using r(2) assms(3) by simp_all
      have first: "unat a \<le> t" if "c < t" "t mod 32 = i" "2 ^ k dvd t div 32" for t
      proof -
        have t: "t = 32 * (t div 32) + i" using that(2) by (metis mult_div_mod_eq)
        then have "\<not> t div 32 < unat f'" using least that by (metis not_less)
        then show ?thesis using t r(2) by linarith
      qed
      let ?P = "\<lambda>t. t mod 32 = i \<and> is_scheduled s t"
      have P: "?P (unat a)" using sched [OF at(1)] at r(4) by simp
      have below: "unat a \<le> t" if "c < t" "?P t" for t
        using first [of t] that sched [of t] by blast
      show ?thesis
      proof (cases "a - of_nat c < m \<and> a < MAX_SLOTS + 1")
        case True
        then have less: "unat a - c < unat m" "unat a \<le> 1024" using d lim by (simp_all add: word_less_nat_alt)
        have "unat a - c \<le> t - c" if "c < t" "?P t" for t using below [OF that] by (rule diff_le_mono)
        moreover have "0 < unat a - c" "c + (unat a - c) = unat a" using r(3) by simp_all
        ultimately have "nearest ?P c m (a - of_nat c)"
          unfolding nearest_def d using less P by (metis less_imp_le)
        moreover have "?m = a - of_nat c" using True by (rule if_P)
        ultimately show ?thesis by (simp only:)
      next
        case False
        then have far: "unat m \<le> unat a - c \<or> 1024 < unat a" using d lim by (auto simp: word_less_nat_alt)
        have "unat m \<le> t - c" if "c < t" "t \<le> 1024" "?P t" for t
          using below [OF that(1,3)] far that(2) by linarith
        then have "nearest ?P c m m" by (simp add: nearest_def)
        moreover have "?m = m" using False by (rule if_not_P)
        ultimately show ?thesis by (simp only:)
      qed
    qed
    ultimately show ?thesis using r(1) g plan by (auto simp: test_slot_step_def Let_def)
  qed
qed

lemma test_slots_value:
  assumes "scheds_ok s" "cache_ok c s" "\<forall>i \<in> set xs. i < 32" "c \<le> 1024" "unat m \<le> 1025"
  shows "\<exists>m' s'. test_slots (of_nat c) xs (m, s) = Some (m', s') \<and> same_plan s s' \<and> cache_ok c s' \<and>
    nearest (\<lambda>t. t mod 32 \<in> set xs \<and> is_scheduled s t) c m m'"
  using assms
proof (induction xs arbitrary: m s)
  case Nil
  then show ?case by (auto simp: nearest_def)
next
  case (Cons i js)
  from test_slot_value [OF Cons.prems(1,2) _ Cons.prems(4,5), of i] Cons.prems(3) obtain m1 s1 where
    1: "test_slot_step (of_nat c) i (m, s) = Some (m1, s1)" "same_plan s s1" "cache_ok c s1"
      "nearest (\<lambda>t. t mod 32 = i \<and> is_scheduled s t) c m m1" by auto
  have "unat m1 \<le> 1025" using 1(4) Cons.prems(5) by (simp add: nearest_def)
  with Cons.IH [of s1 m1] 1(2,3) Cons.prems(1,3,4) same_plan_facts [OF 1(2)] obtain m2 s2 where
    2: "test_slots (of_nat c) js (m1, s1) = Some (m2, s2)" "same_plan s1 s2" "cache_ok c s2"
      "nearest (\<lambda>t. t mod 32 \<in> set js \<and> is_scheduled s t) c m1 m2" by auto
  have "nearest (\<lambda>t. t mod 32 \<in> set (i # js) \<and> is_scheduled s t) c m m2"
    by (rule nearest_cong [OF nearest_trans [OF 1(4) 2(4)]]) auto
  then show ?case using 1 2 same_plan_trans [OF 1(2) 2(2)] by simp
qed

lemma scan_nearest:
  assumes "nearest P c 1025 m" "c \<le> 1024"
  shows "(case scan P (c + 1) 1025 of None \<Rightarrow> m = 1025 | Some t \<Rightarrow> m = of_nat (t - c) \<and> c < t \<and> t \<le> 1024)"
proof -
  have far: "unat (1025 :: u16) = 1025" by simp
  show ?thesis
  proof (cases "scan P (c + 1) 1025")
    case None
    then have "\<not> P t" if "c < t" "t \<le> 1024" for t using that unfolding scan_None_iff by simp
    then have "m = 1025" using assms(1) unfolding nearest_def by auto
    then show ?thesis using None by simp
  next
    case (Some t)
    then have t: "c < t" "t \<le> 1024" "P t" "\<And>j. c < j \<Longrightarrow> j < t \<Longrightarrow> \<not> P j" unfolding scan_Some_iff by simp_all
    have le: "unat m \<le> t - c" using assms(1) t unfolding nearest_def by blast
    then have "m \<noteq> 1025" using t far by auto
    then have m: "0 < unat m" "P (c + unat m)" using assms(1) unfolding nearest_def by auto
    then have "\<not> c + unat m < t" using t(4) [of "c + unat m"] by auto
    then have "unat m = t - c" using le t(1) by linarith
    then have "m = of_nat (t - c)" using word_unat_eq_iff [of m "of_nat (t - c)"] t(1,2)
      by (simp only: unsigned_of_nat) (simp add: take_bit_nat_eq_self)
    then show ?thesis using Some t by simp
  qed
qed

lemma until_next_wakeup_value:
  assumes "scheds_ok s" "cache_ok c s" "c \<le> 1024"
  shows "\<exists>s'. rtl_get_slots_until_next_wakeup (of_nat c) s =
      Some (case scan (is_scheduled s) (c + 1) 1025 of None \<Rightarrow> 0 | Some t \<Rightarrow> of_nat (t - c), s') \<and>
    same_plan s s' \<and> cache_ok c s'"
proof -
  have M: "MAX_SLOTS + 1 = 1025" by (simp add: MAX_SLOTS_def)
  from test_slots_value [OF assms(1,2) _ assms(3), of "[0 ..< 32]" 1025] obtain m s' where
    m: "test_slots (of_nat c) [0 ..< 32] (1025, s) = Some (m, s')" "same_plan s s'" "cache_ok c s'"
      "nearest (\<lambda>t. t mod 32 \<in> set [0 ..< 32] \<and> is_scheduled s t) c 1025 m" by (auto simp del: upt_conv_Cons)
  have "nearest (is_scheduled s) c 1025 m" by (rule nearest_cong [OF m(4)]) simp
  note sc = scan_nearest [OF this assms(3)]
  have "(if MAX_SLOTS < m then 0 else m) = (case scan (is_scheduled s) (c + 1) 1025 of None \<Rightarrow> 0 | Some t \<Rightarrow> of_nat (t - c))"
  proof (cases "scan (is_scheduled s) (c + 1) 1025")
    case None
    then show ?thesis using sc by (simp add: MAX_SLOTS_def)
  next
    case (Some t)
    then have t: "m = of_nat (t - c)" "t - c \<le> 1024" using sc by auto
    have "unat m \<le> 1024" unfolding t(1) unsigned_of_nat using t(2) by (simp add: take_bit_nat_eq_self)
    then have "\<not> MAX_SLOTS < m" by (simp add: MAX_SLOTS_def word_less_nat_alt)
    then show ?thesis using Some sc by simp
  qed
  then show ?thesis using m(1-3) by (simp add: rtl_get_slots_until_next_wakeup_def M del: upt_conv_Cons)
qed

section \<open>Absolute wake-ups\<close>

definition abs_at :: "rtl \<Rightarrow> nat \<Rightarrow> bool" where
  "abs_at s t \<longleftrightarrow> t < 1024 \<and> (\<exists>w \<in> set (rtl_abs_wakeup s). unat (abs_slot_of w) = t)"

lemma nearest_abs_value:
  assumes "c \<le> 1024" "unat m \<le> 1025"
  shows "nearest (\<lambda>t. t < 1024 \<and> (\<exists>w \<in> set ws. unat (abs_slot_of w) = t)) c m (nearest_abs (of_nat c) ws m)"
  using assms(2)
proof (induction ws arbitrary: m)
  case Nil
  then show ?case by (simp add: nearest_def)
next
  case (Cons w ws)
  let ?P = "\<lambda>t. t < 1024 \<and> unat (abs_slot_of w) = t"
  let ?tmp = "abs_slot_of w - of_nat c"
  let ?m = "if abs_slot_of w < MAX_SLOTS then let tmp = ?tmp in if 0 < sint tmp \<and> sint tmp < sint m then tmp else m else m"
  have lim: "abs_slot_of w < MAX_SLOTS \<longleftrightarrow> unat (abs_slot_of w) < 1024" by (simp add: MAX_SLOTS_def word_less_nat_alt)
  have sm: "sint m = int (unat m)"
  proof -
    have "sint (of_nat k :: i16) = int k" if "k \<le> 1025" for k
      using that by (simp only: signed_of_nat) (simp add: signed_take_bit_int_eq_self)
    from this [of "unat m"] show ?thesis using Cons.prems by simp
  qed
  have st: "sint ?tmp = int (unat (abs_slot_of w)) - int c" if "unat (abs_slot_of w) < 1024"
  proof -
    have "sint (of_int k :: i16) = k" if "- 1024 \<le> k" "k < 1024" for k
      using that by (simp only: signed_of_int) (simp add: signed_take_bit_int_eq_self)
    moreover have "- 1024 \<le> int (unat (abs_slot_of w)) - int c" "int (unat (abs_slot_of w)) - int c < 1024"
      using that assms(1) by linarith+
    ultimately have "sint (of_int (int (unat (abs_slot_of w)) - int c) :: i16) = int (unat (abs_slot_of w)) - int c" .
    then show ?thesis by simp
  qed
  have ut: "unat ?tmp = unat (abs_slot_of w) - c" if "unat (abs_slot_of w) < 1024" "c < unat (abs_slot_of w)"
  proof -
    have "unat (of_nat k :: u16) = k" if "k < 1024" for k
      using that by (simp only: unsigned_of_nat) (simp add: take_bit_nat_eq_self)
    from this [of "unat (abs_slot_of w) - c"] show ?thesis using that by (simp add: of_nat_diff)
  qed
  let ?near = "unat (abs_slot_of w) < 1024 \<and> c < unat (abs_slot_of w) \<and> unat (abs_slot_of w) - c < unat m"
  have choice: "(abs_slot_of w < MAX_SLOTS \<and> 0 < sint ?tmp \<and> sint ?tmp < sint m) = ?near"
  proof (cases "unat (abs_slot_of w) < 1024")
    case True
    show ?thesis unfolding lim st [OF True] sm using True by linarith
  qed (simp add: lim)
  have m: "?m = (if ?near then ?tmp else m)" unfolding choice [symmetric] by (simp add: Let_def)
  have one: "nearest ?P c m ?m"
  proof (cases "unat (abs_slot_of w) < 1024 \<and> c < unat (abs_slot_of w) \<and> unat (abs_slot_of w) - c < unat m")
    case True
    then have "?m = ?tmp" unfolding m by (rule if_P)
    then show ?thesis using True ut by (auto simp: nearest_def)
  next
    case False
    then have "?m = m" unfolding m by (rule if_not_P)
    moreover have "unat m \<le> t - c" if "c < t" "?P t" for t using False that by linarith
    ultimately show ?thesis by (simp add: nearest_def)
  qed
  then have "unat ?m \<le> 1025" using Cons.prems by (simp add: nearest_def)
  from nearest_trans [OF one Cons.IH [OF this]]
  have "nearest (\<lambda>t. ?P t \<or> (t < 1024 \<and> (\<exists>w \<in> set ws. unat (abs_slot_of w) = t))) c m (nearest_abs (of_nat c) ws ?m)" .
  then show ?case unfolding nearest_abs.simps by (rule nearest_cong) auto
qed

lemma next_abs_value:
  assumes "c \<le> 1024"
  shows "rtl_get_next_abs_wakeup (of_nat c) s = (case scan (abs_at s) (c + 1) 1025 of None \<Rightarrow> 0 | Some t \<Rightarrow> of_nat (t - c))"
proof -
  have M: "MAX_SLOTS + 1 = 1025" by (simp add: MAX_SLOTS_def)
  have "nearest (abs_at s) c 1025 (nearest_abs (of_nat c) (rtl_abs_wakeup s) 1025)"
    using nearest_abs_value [OF assms, of 1025 "rtl_abs_wakeup s"] by (simp add: abs_at_def [abs_def])
  from scan_nearest [OF this assms] show ?thesis
  proof (cases "scan (abs_at s) (c + 1) 1025")
    case (Some t)
    with scan_nearest [OF \<open>nearest (abs_at s) c 1025 (nearest_abs (of_nat c) (rtl_abs_wakeup s) 1025)\<close> assms]
    have v: "nearest_abs (of_nat c) (rtl_abs_wakeup s) 1025 = of_nat (t - c)" "t - c \<le> 1024" by auto
    have "unat (nearest_abs (of_nat c) (rtl_abs_wakeup s) 1025) \<le> 1024"
      unfolding v(1) unsigned_of_nat using v(2) by (simp add: take_bit_nat_eq_self)
    then have "nearest_abs (of_nat c) (rtl_abs_wakeup s) 1025 \<noteq> 1025" by auto
    then show ?thesis using v(1) Some by (simp add: rtl_get_next_abs_wakeup_def M Let_def)
  qed (simp add: rtl_get_next_abs_wakeup_def M Let_def)
qed

section \<open>A cycle\<close>

text \<open>The slots of a cycle in which a node is awake\<close>

definition wakes :: "rtl \<Rightarrow> nat \<Rightarrow> bool" where
  "wakes s t \<longleftrightarrow> is_scheduled s t \<or> abs_at s t \<or> t = 1024"

definition earlier :: "nat option \<Rightarrow> nat option \<Rightarrow> nat option" where
  "earlier x y = (case x of None \<Rightarrow> y | Some t \<Rightarrow> (case y of None \<Rightarrow> Some t | Some u \<Rightarrow> Some (min t u)))"

lemma scan_or: "scan (\<lambda>t. P t \<or> Q t) i n = earlier (scan P i n) (scan Q i n)"
proof (cases "scan P i n")
  case None
  note p = this [unfolded scan_None_iff]
  show ?thesis
  proof (cases "scan Q i n")
    case None
    note q = this [unfolded scan_None_iff]
    have "scan (\<lambda>t. P t \<or> Q t) i n = None" unfolding scan_None_iff using p q by blast
    then show ?thesis using None \<open>scan P i n = None\<close> by (simp add: earlier_def)
  next
    case (Some u)
    note q = this [unfolded scan_Some_iff]
    have "scan (\<lambda>t. P t \<or> Q t) i n = Some u" unfolding scan_Some_iff using p q by (meson less_trans)
    then show ?thesis using Some \<open>scan P i n = None\<close> by (simp add: earlier_def)
  qed
next
  case (Some t)
  note p = this [unfolded scan_Some_iff]
  show ?thesis
  proof (cases "scan Q i n")
    case None
    note q = this [unfolded scan_None_iff]
    have "scan (\<lambda>t. P t \<or> Q t) i n = Some t" unfolding scan_Some_iff using p q by (meson less_trans)
    then show ?thesis using None \<open>scan P i n = Some t\<close> by (simp add: earlier_def)
  next
    case (Some u)
    note q = this [unfolded scan_Some_iff]
    have "scan (\<lambda>t. P t \<or> Q t) i n = Some (min t u)" unfolding scan_Some_iff using p q by (simp add: min_def)
    then show ?thesis using Some \<open>scan P i n = Some t\<close> by (simp add: earlier_def)
  qed
qed

lemma scan_end: "c < n \<Longrightarrow> scan (\<lambda>t. t = n) (c + 1) (n + 1) = Some n"
  by (simp add: scan_Some_iff)

lemma next_slot_value:
  assumes "scheds_ok s" "cache_ok c s" "c < 1024"
  shows "\<exists>s' t. next_slot_offset (of_nat c) s = Some (of_nat (t - c), s') \<and> same_plan s s' \<and> cache_ok c s' \<and>
    scan (wakes s) (c + 1) 1025 = Some t"
proof -
  have c: "c \<le> 1024" using assms(3) by simp
  from until_next_wakeup_value [OF assms(1,2) c] obtain s' where
    s': "rtl_get_slots_until_next_wakeup (of_nat c) s =
        Some (case scan (is_scheduled s) (c + 1) 1025 of None \<Rightarrow> 0 | Some t \<Rightarrow> of_nat (t - c), s')"
      "same_plan s s'" "cache_ok c s'" by blast
  have a: "rtl_get_next_abs_wakeup (of_nat c) s' = (case scan (abs_at s) (c + 1) 1025 of None \<Rightarrow> 0 | Some t \<Rightarrow> of_nat (t - c))"
    using next_abs_value [OF c, of s'] same_plan_facts(3) [OF s'(2)] by (simp add: abs_at_def [abs_def])
  have "scan (\<lambda>t. t = 1024) (c + 1) 1025 = Some 1024" using scan_end [OF assms(3)] by simp
  then have w: "scan (wakes s) (c + 1) 1025 =
      earlier (scan (is_scheduled s) (c + 1) 1025) (earlier (scan (abs_at s) (c + 1) 1025) (Some 1024))"
    by (simp only: wakes_def [abs_def] scan_or)
  have b: "c < t \<and> t \<le> 1024" if "scan P (c + 1) 1025 = Some t" for P t using that by (auto simp: scan_Some_iff)
  have d: "of_nat (t - c) \<noteq> (0 :: u16)" "unat (of_nat (t - c) :: u16) = t - c" if "c < t" "t \<le> 1024" for t
  proof -
    show "unat (of_nat (t - c) :: u16) = t - c" using that by (simp only: unsigned_of_nat) (simp add: take_bit_nat_eq_self)
    then show "of_nat (t - c) \<noteq> (0 :: u16)" using that by (metis unsigned_0 zero_less_diff less_irrefl)
  qed
  have e: "MAX_SLOTS - of_nat c = of_nat (1024 - c)" using c by (simp add: MAX_SLOTS_def of_nat_diff)
  have less: "(of_nat (t - c) :: u16) < of_nat (u - c) \<longleftrightarrow> t < u" if "c < t" "t \<le> 1024" "c < u" "u \<le> 1024" for t u
    unfolding word_less_nat_alt d(2) [OF that(1,2)] d(2) [OF that(3,4)] using that by linarith
  show ?thesis
  proof (cases "scan (is_scheduled s) (c + 1) 1025"; cases "scan (abs_at s) (c + 1) 1025")
    assume n: "scan (is_scheduled s) (c + 1) 1025 = None" "scan (abs_at s) (c + 1) 1025 = None"
    then have "scan (wakes s) (c + 1) 1025 = Some 1024" unfolding w by (simp add: earlier_def min_def)
    moreover have "next_slot_offset (of_nat c) s = Some (of_nat (1024 - c), s')"
      using n s'(1) a e by (simp add: next_slot_offset_def del: of_nat_diff)
    ultimately show ?thesis using s'(2,3) by blast
  next
    fix u assume n: "scan (is_scheduled s) (c + 1) 1025 = None" "scan (abs_at s) (c + 1) 1025 = Some u"
    then have "scan (wakes s) (c + 1) 1025 = Some u" using b [OF n(2)] unfolding w by (simp add: earlier_def min_def)
    moreover have "next_slot_offset (of_nat c) s = Some (of_nat (u - c), s')"
      using n s'(1) a d [of u] b [OF n(2)] by (simp add: next_slot_offset_def Let_def del: of_nat_diff)
    ultimately show ?thesis using s'(2,3) by blast
  next
    fix t assume n: "scan (is_scheduled s) (c + 1) 1025 = Some t" "scan (abs_at s) (c + 1) 1025 = None"
    then have "scan (wakes s) (c + 1) 1025 = Some t" using b [OF n(1)] unfolding w by (simp add: earlier_def min_def)
    moreover have "next_slot_offset (of_nat c) s = Some (of_nat (t - c), s')"
      using n s'(1) a d [of t] b [OF n(1)] by (simp add: next_slot_offset_def Let_def del: of_nat_diff)
    ultimately show ?thesis using s'(2,3) by blast
  next
    fix t u assume n: "scan (is_scheduled s) (c + 1) 1025 = Some t" "scan (abs_at s) (c + 1) 1025 = Some u"
    note bt = b [OF n(1)] and bu = b [OF n(2)]
    have "scan (wakes s) (c + 1) 1025 = Some (min t u)" using n bt bu unfolding w by (simp add: earlier_def min_def)
    moreover have "next_slot_offset (of_nat c) s = Some (of_nat (min t u - c), s')"
      using n s'(1) a d [of t] d [of u] bt bu less [of u t] by (simp add: next_slot_offset_def Let_def min_def del: of_nat_diff)
    ultimately show ?thesis using s'(2,3) by blast
  qed
qed

lemma abs_at_index:
  "rtl_ok s \<Longrightarrow> abs_at s t \<longleftrightarrow> t < 1024 \<and> (\<exists>i < MAX_ABS_WAKEUP. unat (abs_slot_of (rtl_abs_wakeup s ! i)) = t)"
  by (auto simp: abs_at_def rtl_ok_def Bex_def in_set_conv_nth)

text \<open>A wake-up that is cleared leaves the others.\<close>

lemma clr_abs_value:
  assumes "rtl_ok s" "c < 1024"
  shows "\<exists>ws. rtl_clr_abs_wakeup (of_nat c) s = s\<lparr>rtl_abs_wakeup := ws\<rparr> \<and> length ws = length (rtl_abs_wakeup s) \<and>
    (\<forall>t. t \<noteq> c \<longrightarrow> abs_at (s\<lparr>rtl_abs_wakeup := ws\<rparr>) t = abs_at s t)"
proof (cases "scan (\<lambda>i. abs_slot_of (rtl_abs_wakeup s ! i) = of_nat c) 0 MAX_ABS_WAKEUP")
  case None
  then show ?thesis by (intro exI [of _ "rtl_abs_wakeup s"]) (simp add: rtl_clr_abs_wakeup_def)
next
  case (Some i)
  have c: "unat (of_nat c :: u16) = c" using assms(2) by (simp add: unsigned_of_nat take_bit_nat_eq_self)
  have i: "i < MAX_ABS_WAKEUP" "unat (abs_slot_of (rtl_abs_wakeup s ! i)) = c" using Some c by (simp_all add: scan_Some_iff)
  let ?ws = "(rtl_abs_wakeup s)[i := MAX_SLOTS + 1]"
  have l: "length (rtl_abs_wakeup s) = MAX_ABS_WAKEUP" "rtl_ok (s\<lparr>rtl_abs_wakeup := ?ws\<rparr>)" using assms(1) by (simp_all add: rtl_ok_def)
  have out: "unat (abs_slot_of (MAX_SLOTS + 1)) = 1025" by (simp add: abs_slot_of_def MAX_SLOTS_def)
  have "abs_at (s\<lparr>rtl_abs_wakeup := ?ws\<rparr>) t = abs_at s t" if "t \<noteq> c" for t
    unfolding abs_at_index [OF assms(1)] abs_at_index [OF l(2)] using i out l(1) that
    by (auto simp: nth_list_update)
  then show ?thesis using Some by (intro exI [of _ ?ws]) (simp add: rtl_clr_abs_wakeup_def)
qed

lemma match_abs_value:
  assumes "rtl_ok s" "c < 1024"
  shows "\<exists>ws. rtl_match_abs_wakeup (of_nat c) s = (if abs_at s c then 1 else 0, s\<lparr>rtl_abs_wakeup := ws\<rparr>) \<and>
    length ws = length (rtl_abs_wakeup s) \<and> (\<forall>t. t \<noteq> c \<longrightarrow> abs_at (s\<lparr>rtl_abs_wakeup := ws\<rparr>) t = abs_at s t)"
proof (cases "scan (\<lambda>i. abs_slot_of (rtl_abs_wakeup s ! i) = of_nat c) 0 MAX_ABS_WAKEUP")
  have c: "unat (of_nat c :: u16) = c" using assms(2) by (simp add: unsigned_of_nat take_bit_nat_eq_self)
  {
    case None
    then have "\<not> abs_at s c" using c by (auto simp: abs_at_index [OF assms(1)] scan_None_iff word_unat_eq_iff)
    then show ?thesis using None by (intro exI [of _ "rtl_abs_wakeup s"]) (simp add: rtl_match_abs_wakeup_def)
  next
    case (Some i)
    then have "abs_at s c" using c assms(2) by (auto simp: abs_at_index [OF assms(1)] scan_Some_iff)
    moreover from clr_abs_value [OF assms] obtain ws where
      "rtl_clr_abs_wakeup (of_nat c) s = s\<lparr>rtl_abs_wakeup := ws\<rparr>" "length ws = length (rtl_abs_wakeup s)"
      "\<forall>t. t \<noteq> c \<longrightarrow> abs_at (s\<lparr>rtl_abs_wakeup := ws\<rparr>) t = abs_at s t" by blast
    ultimately show ?thesis using Some
      by (intro exI [of _ "if rtl_abs_wakeup s ! i \<le> 0x8000 then ws else rtl_abs_wakeup s"]) (simp add: rtl_match_abs_wakeup_def)
  }
qed

lemma abs_frame:
  "sched_of (s\<lparr>rtl_abs_wakeup := ws\<rparr>) i = sched_of s i" "is_scheduled (s\<lparr>rtl_abs_wakeup := ws\<rparr>) t = is_scheduled s t"
  "cache_ok c (s\<lparr>rtl_abs_wakeup := ws\<rparr>) = cache_ok c s"
  "length ws = length (rtl_abs_wakeup s) \<Longrightarrow> scheds_ok (s\<lparr>rtl_abs_wakeup := ws\<rparr>) = scheds_ok s"
proof -
  have "rtl_get_schedule k (s\<lparr>rtl_abs_wakeup := ws\<rparr>) = rtl_get_schedule k s" for k by (simp add: rtl_get_schedule_def Let_def)
  then show a: "sched_of (s\<lparr>rtl_abs_wakeup := ws\<rparr>) i = sched_of s i" for i by (simp add: sched_of_def)
  then show "is_scheduled (s\<lparr>rtl_abs_wakeup := ws\<rparr>) t = is_scheduled s t" "cache_ok c (s\<lparr>rtl_abs_wakeup := ws\<rparr>) = cache_ok c s"
    "length ws = length (rtl_abs_wakeup s) \<Longrightarrow> scheds_ok (s\<lparr>rtl_abs_wakeup := ws\<rparr>) = scheds_ok s"
    by (simp_all add: is_scheduled_def cache_ok_def scheds_ok_def rtl_ok_def)
qed

lemma filter_skip:
  assumes "scan P (c + 1) 1025 = Some t" "c < 1024" "t \<le> 1024"
  shows "filter (\<lambda>u. u = c \<or> P u) [c ..< 1024] = c # filter (\<lambda>u. u = t \<or> P u) [t ..< 1024]"
proof -
  have t: "c < t" "P t" "\<And>j. c < j \<Longrightarrow> j < t \<Longrightarrow> \<not> P j" using assms(1) by (auto simp: scan_Some_iff)
  have "[c ..< 1024] = c # [c + 1 ..< t] @ [t ..< 1024]"
    using t(1) assms(2,3) by (simp add: upt_conv_Cons) (metis Suc_leI le_add_diff_inverse upt_add_eq_append)
  moreover have "filter (\<lambda>u. u = c \<or> P u) [c + 1 ..< t] = []" using t(3) by (auto simp: filter_empty_conv)
  moreover have "filter (\<lambda>u. u = c \<or> P u) [t ..< 1024] = filter (\<lambda>u. u = t \<or> P u) [t ..< 1024]"
    using t(1,2) by (intro filter_cong) auto
  ultimately show ?thesis by simp
qed

lemma rtl_cycle_value:
  assumes "scheds_ok s" "cache_ok c s" "c \<le> 1024"
  shows "\<exists>s'. rtl_cycle (of_nat c) s =
    Some (map (\<lambda>t. (of_nat t, if abs_at s t then 1 else 0)) (filter (\<lambda>t. t = c \<or> wakes s t) [c ..< 1024]), s')"
  using assms
proof (induction "1024 - c" arbitrary: c s rule: less_induct)
  case less
  have u: "unat (of_nat c :: u16) = c" using less.prems(3) by (simp add: unsigned_of_nat take_bit_nat_eq_self)
  show ?case
  proof (cases "c < 1024")
    case False
    then have "MAX_SLOTS \<le> of_nat c" "c = 1024" using less.prems(3) u by (simp_all add: MAX_SLOTS_def word_le_nat_alt)
    then show ?thesis by (simp add: rtl_cycle.simps [of 1024])
  next
    case True
    have "rtl_ok s" using less.prems(1) by (simp add: scheds_ok_def)
    from match_abs_value [OF this True] obtain ws where
      m: "rtl_match_abs_wakeup (of_nat c) s = (if abs_at s c then 1 else 0, s\<lparr>rtl_abs_wakeup := ws\<rparr>)"
        "length ws = length (rtl_abs_wakeup s)" "\<forall>t. t \<noteq> c \<longrightarrow> abs_at (s\<lparr>rtl_abs_wakeup := ws\<rparr>) t = abs_at s t" by blast
    let ?s = "s\<lparr>rtl_abs_wakeup := ws\<rparr>"
    have ok: "scheds_ok ?s" "cache_ok c ?s" using less.prems(1,2) m(2) by (simp_all add: abs_frame)
    from next_slot_value [OF this True] obtain s2 t where
      n: "next_slot_offset (of_nat c) ?s = Some (of_nat (t - c), s2)" "same_plan ?s s2" "cache_ok c s2"
        "scan (wakes ?s) (c + 1) 1025 = Some t" by blast
    have same: "wakes ?s x = wakes s x" if "x \<noteq> c" for x using m(3) that by (simp add: wakes_def abs_frame)
    have sc: "scan (wakes s) (c + 1) 1025 = Some t" using n(4) same unfolding scan_Some_iff by auto
    have t: "c < t" "t \<le> 1024" using sc by (simp_all add: scan_Some_iff)
    have s2: "abs_at s2 x = abs_at s x" "wakes s2 x = wakes s x" if "t \<le> x" for x
    proof -
      show a: "abs_at s2 x = abs_at s x"
        using m(3) that t(1) same_plan_facts(3) [OF n(2)] by (simp add: abs_at_def)
      show "wakes s2 x = wakes s x" unfolding wakes_def a same_plan_facts(2) [OF n(2)] abs_frame(2) ..
    qed
    have "scheds_ok s2" "cache_ok t s2" using same_plan_facts(4) [OF n(2)] ok(1) cache_later [OF n(3)] t(1) by simp_all
    from less.hyps [OF _ this t(2)] t(1) True obtain s3 where
      "rtl_cycle (of_nat t) s2 = Some (map (\<lambda>t. (of_nat t, if abs_at s2 t then 1 else 0)) (filter (\<lambda>u. u = t \<or> wakes s2 u) [t ..< 1024]), s3)"
      by (auto simp: diff_less_mono2)
    also have "map (\<lambda>t. (of_nat t :: u16, if abs_at s2 t then 1 else 0 :: u8)) (filter (\<lambda>u. u = t \<or> wakes s2 u) [t ..< 1024]) =
        map (\<lambda>t. (of_nat t, if abs_at s t then 1 else 0)) (filter (\<lambda>u. u = t \<or> wakes s u) [t ..< 1024])"
      using s2 by (intro map_cong filter_cong) auto
    finally have r: "rtl_cycle (of_nat t) s2 = Some (map (\<lambda>t. (of_nat t, if abs_at s t then 1 else 0)) (filter (\<lambda>u. u = t \<or> wakes s u) [t ..< 1024]), s3)" .
    have "\<not> MAX_SLOTS \<le> of_nat c" using True u by (simp add: MAX_SLOTS_def word_le_nat_alt)
    moreover have "of_nat c + of_nat (t - c) = (of_nat t :: u16)" using t(1) by (simp add: of_nat_diff)
    ultimately show ?thesis
      unfolding filter_skip [OF sc True t(2)] rtl_cycle.simps [of "of_nat c"] using m(1) n(1) r by (simp del: of_nat_diff)
  qed
qed

section \<open>Properties\<close>

text \<open>
  C33: The slots of a cycle. After the cache has been cleared a coordinator whose schedules
  are at most 8 is awake, between slot 0 and the end of the cycle, in the slots that the
  schedules ask for, in those with an absolute wake-up and in no others, and it finds an
  absolute wake-up just where one was set. In particular every loop ends.
\<close>

theorem rtl_cycle_wakes:
  assumes "scheds_ok s"
  shows "\<exists>s'. rtl_cycle 0 (rtl_clear_sched_cache s) =
    Some (map (\<lambda>t. (of_nat t, if abs_at s t then 1 else 0)) (filter (\<lambda>t. t = 0 \<or> is_scheduled s t \<or> abs_at s t) [0 ..< 1024]), s')"
proof -
  let ?s = "rtl_clear_sched_cache s"
  have plan: "same_plan s ?s" using assms by (auto simp: same_plan_def rtl_clear_sched_cache_def scheds_ok_def rtl_ok_def)
  have "scheds_ok ?s" using assms same_plan_facts(4) [OF plan] by simp
  from rtl_cycle_value [OF this cache_clear, of 0] obtain s' where
    "rtl_cycle 0 ?s = Some (map (\<lambda>t. (of_nat t, if abs_at ?s t then 1 else 0)) (filter (\<lambda>t. t = 0 \<or> wakes ?s t) [0 ..< 1024]), s')" by auto
  also have "abs_at ?s = abs_at s" by (simp add: abs_at_def [abs_def] rtl_clear_sched_cache_def)
  also have "filter (\<lambda>t. t = 0 \<or> wakes ?s t) [0 ..< 1024] = filter (\<lambda>t. t = 0 \<or> is_scheduled s t \<or> abs_at s t) [0 ..< 1024]"
    using \<open>abs_at ?s = abs_at s\<close> same_plan_facts(2) [OF plan] by (intro filter_cong) (auto simp: wakes_def)
  finally show ?thesis by blast
qed

definition ex_rtl :: rtl where
  "ex_rtl = \<lparr>rtl_sched = 4 # replicate 15 0, rtl_sched_cache = replicate 32 0, rtl_abs_wakeup = [300, 1025, 1025, 1025],
    rtl_tdma_rx_mask = 0, rtl_tdma_tx_mask = 1\<rparr>"

lemma ex_rtl_sched: "i < 32 \<Longrightarrow> sched_of ex_rtl i = (if i = 0 then 4 else 0)"
proof -
  assume i: "i < 32"
  have "rtl_sched ex_rtl ! (i div 2) = (if i div 2 = 0 then 4 else 0)"
    using i by (simp add: ex_rtl_def nth_Cons split: nat.split)
  then show ?thesis using i by (auto simp: sched_of_def get_schedule_value)
qed

lemma ex_rtl_ok: "scheds_ok ex_rtl"
  by (simp add: scheds_ok_def ex_rtl_sched) (simp add: rtl_ok_def ex_rtl_def MAX_ABS_WAKEUP_def)

theorem rtl_cycle_wakes_witness:
  "\<exists>s'. rtl_cycle 0 (rtl_clear_sched_cache ex_rtl) = Some ([(0, 0), (256, 0), (300, 1), (512, 0), (768, 0)], s')"
proof -
  have a: "abs_at ex_rtl t \<longleftrightarrow> t = 300" for t by (auto simp: abs_at_def ex_rtl_def abs_slot_of_def)
  have sch: "is_scheduled ex_rtl t \<longleftrightarrow> 256 dvd t" for t
  proof -
    have k: "sched_of ex_rtl (t mod 32) = (if t mod 32 = 0 then 4 else 0)" by (rule ex_rtl_sched) simp
    show ?thesis
    proof (cases "t mod 32 = 0")
      case True
      then obtain q where q: "t = 32 * q" by (auto simp: mod_eq_0_iff_dvd)
      have "256 dvd 32 * q \<longleftrightarrow> 8 dvd q" using nat_mult_dvd_cancel1 [of 32 8 q] by simp
      then show ?thesis using k True unfolding is_scheduled_def q by simp
    next
      case False
      then have "\<not> 256 dvd t" using dvd_trans [of 32 256 t] by (auto simp: mod_eq_0_iff_dvd)
      then show ?thesis using k False unfolding is_scheduled_def by simp
    qed
  qed
  have f: "filter (\<lambda>t. t = 0 \<or> is_scheduled ex_rtl t \<or> abs_at ex_rtl t) [0 ..< 1024] = [0, 256, 300, 512, 768]"
  proof -
    have "[0 :: nat, 256, 300, 512, 768] = sorted_list_of_set {0, 256, 300, 512, 768}" by simp
    moreover have "filter (\<lambda>t. t = 0 \<or> is_scheduled ex_rtl t \<or> abs_at ex_rtl t) [0 ..< 1024] =
        sorted_list_of_set {t. t < 1024 \<and> (256 dvd t \<or> t = 300)}"
      unfolding a sch by (intro sorted_distinct_set_unique) (auto intro!: sorted_wrt_filter)
    moreover have "{t :: nat. t < 1024 \<and> (256 dvd t \<or> t = 300)} = {0, 256, 300, 512, 768}" by (auto simp: dvd_def)
    ultimately show ?thesis by simp
  qed
  show ?thesis using rtl_cycle_wakes [OF ex_rtl_ok] unfolding f by (simp add: a)
qed

text \<open>
  Setting a schedule. What is set for one of the 32 slots is read back for it, every other
  slot keeps its schedule, and the cache and the absolute wake-ups stay as they are.
\<close>

theorem rtl_set_get_schedule:
  assumes "rtl_ok s" "sched \<le> 15" "i < 32" "rtl_set_schedule rx_tx (of_nat i) sched s = (r, s')"
  shows "r = NRK_OK \<and> (\<forall>j < 32. rtl_get_schedule (of_nat j) s' = (if j = i then sched else rtl_get_schedule (of_nat j) s)) \<and>
    rtl_sched_cache s' = rtl_sched_cache s \<and> rtl_abs_wakeup s' = rtl_abs_wakeup s \<and> rtl_ok s'"
proof -
  have v: "(r, s') = rtl_set_schedule rx_tx (of_nat i) sched s" using assms(4) by simp
  have "rtl_get_schedule (of_nat j) s' = (if j = i then sched else rtl_get_schedule (of_nat j) s)" if "j < 32" for j
    using set_get_schedule [OF assms(1-3) that, of rx_tx] v by (metis snd_conv)
  moreover have "r = NRK_OK \<and> rtl_sched_cache s' = rtl_sched_cache s \<and> rtl_abs_wakeup s' = rtl_abs_wakeup s \<and> rtl_ok s'"
    using v [unfolded set_schedule_value [OF assms(1-3)]] assms(1) by (cases rx_tx) (auto simp: rtl_ok_def)
  ultimately show ?thesis by blast
qed

theorem rtl_set_get_schedule_witness:
  "rtl_get_schedule 5 (snd (rtl_set_schedule RTL_RX 5 3 ex_rtl)) = 3 \<and> rtl_get_schedule 0 (snd (rtl_set_schedule RTL_RX 5 3 ex_rtl)) = 4"
proof -
  have "rtl_ok ex_rtl" using ex_rtl_ok by (simp add: scheds_ok_def)
  from rtl_set_get_schedule [OF this _ _ prod.collapse [symmetric], of 3 5 RTL_RX]
  have *: "\<forall>j < 32. rtl_get_schedule (of_nat j) (snd (rtl_set_schedule RTL_RX 5 3 ex_rtl)) =
      (if j = 5 then 3 else rtl_get_schedule (of_nat j) ex_rtl)" by simp
  have "rtl_get_schedule 0 ex_rtl = 4" using ex_rtl_sched [of 0] by (simp add: sched_of_def word_unat_eq_iff)
  then show ?thesis using * [rule_format, of 5] * [rule_format, of 0] by simp
qed

text \<open>
  Setting a schedule does not clear the cache: a slot that has used its last frame with a rare
  schedule stays unused for the rest of the cycle.
\<close>

lemma set_schedule_stale:
  assumes "rtl_ok s" "rtl_sched_cache s ! 0 = 32" "c < 1024"
  shows "rtl_get_schedule 0 (snd (rtl_set_schedule RTL_TX 0 1 s)) = 1 \<and>
    catch_up (of_nat c) 0 (rtl_pow 2 (1 - 1)) (rtl_sched_cache (snd (rtl_set_schedule RTL_TX 0 1 s)) ! 0) = Some (32, 1024)"
proof -
  have c: "unat (of_nat c :: u16) = c" using assms(3) by (simp add: unsigned_of_nat take_bit_nat_eq_self)
  have "\<not> (1024 :: u16) \<le> of_nat c" using c assms(3) by (simp add: word_le_nat_alt)
  then have "catch_up (of_nat c) 0 x 32 = Some (32, 1024)" for x by (simp add: catch_up.simps [of _ _ _ 32] push_bit_eq_mult)
  moreover have "rtl_sched_cache (snd (rtl_set_schedule RTL_TX 0 1 s)) ! 0 = 32"
    using set_schedule_value [OF assms(1), of 1 0 RTL_TX] assms(2) by simp
  moreover have "rtl_get_schedule 0 (snd (rtl_set_schedule RTL_TX 0 1 s)) = 1"
    using set_get_schedule [OF assms(1), of 1 0 0 RTL_TX] by simp
  ultimately show ?thesis by simp
qed

text \<open>A repeated wake-up at slot 0 is cleared when it is matched.\<close>

lemma repeat_at_0_lost:
  assumes "rtl_abs_wakeup s = [0x8000, 1025, 1025, 1025]"
  shows "rtl_match_abs_wakeup 0 s = (1, s\<lparr>rtl_abs_wakeup := [1025, 1025, 1025, 1025]\<rparr>)"
  using assms by (simp add: rtl_match_abs_wakeup_def rtl_clr_abs_wakeup_def scan.simps [of _ 0] MAX_ABS_WAKEUP_def
      abs_slot_of_def MAX_SLOTS_def)

end
