(* ===== verification/Net_Lists.thy ===== *)
theory Net_Lists
  imports Nrk_Time
begin

text \<open>
  Three small tables beside the network stack: the neighbour list
  (\<^verbatim>\<open>src/src/net/neighbor_list\<close>), the route table (\<^verbatim>\<open>src/src/net/route_table\<close>) and the schedule
  of TDMA-ASAP (\<^verbatim>\<open>src/src/net/tdma_asap/tdma_asap_scheduler.c\<close>). What the clock shows at a call
  is a parameter; tables have their default sizes.
\<close>

section \<open>The neighbour list\<close>

definition NEIGHBOR_LIST_SIZE :: nat where "NEIGHBOR_LIST_SIZE = 5"
definition VALID_MASK :: i8 where "VALID_MASK = 1"

record neighbor_list_t =
  mac :: u16
  ttl :: u16
  rssi :: i8
  flags :: i8

record neighbors =
  neighbor_table :: "neighbor_list_t list"
  nb_last_time :: nrk_time_t
  nb_elapsed_time :: nrk_time_t

definition no_neighbor :: neighbor_list_t where
  "no_neighbor = \<lparr>mac = 0, ttl = 0, rssi = 0, flags = 0\<rparr>"

definition neighbor_list_init :: "nrk_time_t \<Rightarrow> neighbors \<Rightarrow> i8 \<times> neighbors" where
  "neighbor_list_init now s = (NRK_OK, s\<lparr>neighbor_table := replicate NEIGHBOR_LIST_SIZE no_neighbor, nb_last_time := now\<rparr>)"

definition age_neighbor :: "u32 \<Rightarrow> neighbor_list_t \<Rightarrow> neighbor_list_t" where
  "age_neighbor n e =
     (if ttl e \<noteq> 0 then if n < ucast (ttl e) then e\<lparr>ttl := ttl e - ucast n\<rparr> else no_neighbor else e)"

definition neighbor_list_ttl_update :: "nrk_time_t \<Rightarrow> neighbors \<Rightarrow> neighbors" where
  "neighbor_list_ttl_update now s =
     (let (v, e) = nrk_time_sub (nb_elapsed_time s) now (nb_last_time s);
          s = s\<lparr>nb_last_time := now, nb_elapsed_time := e\<rparr>
      in if v = NRK_OK then s\<lparr>neighbor_table := map (age_neighbor (secs e)) (neighbor_table s)\<rparr> else s)"

definition neighbor_list_add :: "nrk_time_t \<Rightarrow> u16 \<Rightarrow> i8 \<Rightarrow> u16 \<Rightarrow> neighbors \<Rightarrow> i8 \<times> neighbors" where
  "neighbor_list_add now m r t s =
     (let s = neighbor_list_ttl_update now s;
          store = (\<lambda>i. s\<lparr>neighbor_table := (neighbor_table s)[i := (neighbor_table s ! i)\<lparr>mac := m, ttl := t, rssi := r,
            flags := flags (neighbor_table s ! i) OR VALID_MASK\<rparr>]\<rparr>)
      in case scan (\<lambda>i. mac (neighbor_table s ! i) = m) 0 NEIGHBOR_LIST_SIZE of
           Some i \<Rightarrow> (NRK_OK, store i)
         | None \<Rightarrow> (case scan (\<lambda>i. ttl (neighbor_table s ! i) = 0) 0 NEIGHBOR_LIST_SIZE of
             Some i \<Rightarrow> (NRK_OK, store i)
           | None \<Rightarrow> (NRK_ERROR, s)))"

definition neighbor_list_get_next_valid_index :: "u8 \<Rightarrow> neighbors \<Rightarrow> i8" where
  "neighbor_list_get_next_valid_index start s =
     (if NEIGHBOR_LIST_SIZE \<le> unat start then NRK_ERROR
      else case scan (\<lambda>i. flags (neighbor_table s ! i) AND VALID_MASK \<noteq> 0) (unat start) NEIGHBOR_LIST_SIZE of
             Some i \<Rightarrow> of_nat i | None \<Rightarrow> NRK_ERROR)"

text \<open>The index is an \<^verbatim>\<open>int8_t\<close>: a negative one is not refused.\<close>

definition get_field :: "(neighbor_list_t \<Rightarrow> 'a::zero) \<Rightarrow> i8 \<Rightarrow> neighbors \<Rightarrow> 'a option" where
  "get_field f i s = (if int NEIGHBOR_LIST_SIZE \<le> sint i then Some 0 else map_option f (at (neighbor_table s) (sint i)))"

definition neighbor_list_get_mac :: "i8 \<Rightarrow> neighbors \<Rightarrow> u16 option" where
  "neighbor_list_get_mac = get_field mac"

definition neighbor_list_get_rssi :: "i8 \<Rightarrow> neighbors \<Rightarrow> i8 option" where
  "neighbor_list_get_rssi = get_field rssi"

definition neighbor_list_get_ttl :: "i8 \<Rightarrow> neighbors \<Rightarrow> u16 option" where
  "neighbor_list_get_ttl = get_field ttl"

section \<open>The route table\<close>

definition ROUTE_TABLE_SIZE :: nat where "ROUTE_TABLE_SIZE = 5"
definition ROUTE_TABLE_VALUES :: nat where "ROUTE_TABLE_VALUES = 1"

record route_table_t =
  dst :: u16
  next_hop :: u16
  rt_ttl :: u16
  rt_flags :: i8
  rt_value :: "i8 list"

record routes =
  route_table :: "route_table_t list"
  rt_last_time :: nrk_time_t
  rt_elapsed_time :: nrk_time_t

text \<open>Nothing is returned.\<close>

definition route_table_init :: "nrk_time_t \<Rightarrow> routes \<Rightarrow> routes" where
  "route_table_init now s = s\<lparr>route_table := replicate ROUTE_TABLE_SIZE
     \<lparr>dst = 0, next_hop = 0, rt_ttl = 0, rt_flags = 0, rt_value = replicate ROUTE_TABLE_VALUES (- 1)\<rparr>, rt_last_time := now\<rparr>"

definition age_route :: "u32 \<Rightarrow> route_table_t \<Rightarrow> route_table_t" where
  "age_route n e =
     (if rt_ttl e \<noteq> 0
      then if n < ucast (rt_ttl e) then e\<lparr>rt_ttl := rt_ttl e - ucast n\<rparr>
           else e\<lparr>rt_flags := 0, rt_ttl := 0, dst := 0, next_hop := 0\<rparr>
      else e)"

definition route_table_ttl_update :: "nrk_time_t \<Rightarrow> routes \<Rightarrow> routes" where
  "route_table_ttl_update now s =
     (let (v, e) = nrk_time_sub (rt_elapsed_time s) now (rt_last_time s);
          s = s\<lparr>rt_last_time := now, rt_elapsed_time := e\<rparr>
      in if v = NRK_OK then s\<lparr>route_table := map (age_route (secs e)) (route_table s)\<rparr> else s)"

definition upd_route :: "nat \<Rightarrow> (route_table_t \<Rightarrow> route_table_t) \<Rightarrow> routes \<Rightarrow> routes" where
  "upd_route i f s = s\<lparr>route_table := (route_table s)[i := f (route_table s ! i)]\<rparr>"

definition route_table_set :: "nrk_time_t \<Rightarrow> u16 \<Rightarrow> u16 \<Rightarrow> u16 \<Rightarrow> routes \<Rightarrow> i8 \<times> routes" where
  "route_table_set now d nh t s =
     (let s = route_table_ttl_update now s;
          store = (\<lambda>e. e\<lparr>next_hop := nh, rt_ttl := t, rt_flags := rt_flags e OR VALID_MASK\<rparr>)
      in case scan (\<lambda>i. dst (route_table s ! i) = d) 0 ROUTE_TABLE_SIZE of
           Some i \<Rightarrow> (NRK_OK, upd_route i store s)
         | None \<Rightarrow> (case scan (\<lambda>i. rt_ttl (route_table s ! i) = 0) 0 ROUTE_TABLE_SIZE of
             Some i \<Rightarrow> (NRK_OK, upd_route i store s)
           | None \<Rightarrow> (NRK_ERROR, s)))"

text \<open>No value is returned when there is no such entry.\<close>

definition route_table_clr :: "u16 \<Rightarrow> routes \<Rightarrow> i8 option \<times> routes" where
  "route_table_clr d s =
     (case scan (\<lambda>i. dst (route_table s ! i) = d) 0 ROUTE_TABLE_SIZE of
        Some i \<Rightarrow> (Some NRK_OK, upd_route i (\<lambda>e. e\<lparr>rt_flags := 0, dst := 0, rt_ttl := 0, next_hop := 0\<rparr>) s)
      | None \<Rightarrow> (None, s))"

definition valid_route :: "u16 \<Rightarrow> routes \<Rightarrow> nat option" where
  "valid_route d s =
     scan (\<lambda>i. rt_flags (route_table s ! i) AND VALID_MASK \<noteq> 0 \<and> dst (route_table s ! i) = d) 0 ROUTE_TABLE_SIZE"

definition route_table_get :: "u16 \<Rightarrow> routes \<Rightarrow> u16" where
  "route_table_get d s = (case valid_route d s of Some i \<Rightarrow> next_hop (route_table s ! i) | None \<Rightarrow> 0xffff)"

definition route_table_value_set :: "u16 \<Rightarrow> u8 \<Rightarrow> i8 \<Rightarrow> routes \<Rightarrow> i8 \<times> routes" where
  "route_table_value_set d k v s =
     (if ROUTE_TABLE_VALUES \<le> unat k then (NRK_ERROR, s)
      else case valid_route d s of
             Some i \<Rightarrow> (NRK_OK, upd_route i (\<lambda>e. e\<lparr>rt_value := (rt_value e)[unat k := v]\<rparr>) s)
           | None \<Rightarrow> (NRK_ERROR, s))"

definition route_table_value_get :: "u16 \<Rightarrow> u8 \<Rightarrow> routes \<Rightarrow> i8" where
  "route_table_value_get d k s =
     (if ROUTE_TABLE_VALUES \<le> unat k then NRK_ERROR
      else case valid_route d s of Some i \<Rightarrow> rt_value (route_table s ! i) ! unat k | None \<Rightarrow> NRK_ERROR)"

definition route_table_get_next_valid_index :: "u8 \<Rightarrow> routes \<Rightarrow> i8" where
  "route_table_get_next_valid_index start s =
     (if ROUTE_TABLE_SIZE \<le> unat start then NRK_ERROR
      else case scan (\<lambda>i. rt_flags (route_table s ! i) AND VALID_MASK \<noteq> 0) (unat start) ROUTE_TABLE_SIZE of
             Some i \<Rightarrow> of_nat i | None \<Rightarrow> NRK_ERROR)"

definition route_table_get_dst_by_index :: "i8 \<Rightarrow> routes \<Rightarrow> u16 option" where
  "route_table_get_dst_by_index i s =
     (if int ROUTE_TABLE_SIZE \<le> sint i then Some 0 else map_option dst (at (route_table s) (sint i)))"

section \<open>The TDMA schedule\<close>

definition TDMA_SCHEDULE_MAX_SIZE :: nat where "TDMA_SCHEDULE_MAX_SIZE = 64"

datatype tdma_slot_type_t = TDMA_RXSYNC | TDMA_RXDATA | TDMA_TXSYNC | TDMA_TXDATA

fun slot_type_value :: "tdma_slot_type_t \<Rightarrow> u8" where
  "slot_type_value TDMA_RXSYNC = 0"
| "slot_type_value TDMA_RXDATA = 1"
| "slot_type_value TDMA_TXSYNC = 2"
| "slot_type_value TDMA_TXDATA = 3"

definition is_rx_slot :: "tdma_slot_type_t \<Rightarrow> u8" where
  "is_rx_slot st = (if slot_type_value st AND 2 = 0 then 1 else 0)"

definition is_sync_slot :: "tdma_slot_type_t \<Rightarrow> u8" where
  "is_sync_slot st = (if slot_type_value st AND 1 = 0 then 1 else 0)"

record tdma_schedule_entry_t =
  ts_slot :: i16
  ts_type :: tdma_slot_type_t
  ts_priority :: i8

record tdma =
  tdma_schedule :: "tdma_schedule_entry_t list"
  tdma_schedule_size :: u8

definition tdma_schedule_clr :: "tdma \<Rightarrow> tdma" where
  "tdma_schedule_clr s = s\<lparr>tdma_schedule_size := 0\<rparr>"

definition tdma_schedule_add :: "i16 \<Rightarrow> tdma_slot_type_t \<Rightarrow> i8 \<Rightarrow> tdma \<Rightarrow> i8 \<times> tdma" where
  "tdma_schedule_add slot slot_type priority s =
     (if TDMA_SCHEDULE_MAX_SIZE \<le> unat (tdma_schedule_size s) then (NRK_ERROR, s)
      else (NRK_OK, s\<lparr>tdma_schedule := (tdma_schedule s)[unat (tdma_schedule_size s) :=
              \<lparr>ts_slot = slot, ts_type = slot_type, ts_priority = priority\<rparr>],
            tdma_schedule_size := tdma_schedule_size s + 1\<rparr>))"

text \<open>The loop; an index of -1 is \<open>None\<close>.\<close>

definition better :: "tdma_schedule_entry_t list \<Rightarrow> nat \<Rightarrow> nat option \<Rightarrow> bool" where
  "better es i k \<longleftrightarrow> (case k of None \<Rightarrow> True | Some k \<Rightarrow> sint (ts_slot (es ! i)) < sint (ts_slot (es ! k)))"

fun next_loop :: "i16 \<Rightarrow> tdma_schedule_entry_t list \<Rightarrow> nat list \<Rightarrow> nat option \<times> nat option \<Rightarrow> nat option \<times> nat option" where
  "next_loop slot es [] r = r"
| "next_loop slot es (i # js) (smallest, smallest_larger) = next_loop slot es js
     (if better es i smallest then Some i else smallest,
      if sint slot < sint (ts_slot (es ! i)) \<and> better es i smallest_larger then Some i else smallest_larger)"

definition tdma_schedule_get_next :: "i16 \<Rightarrow> tdma \<Rightarrow> tdma_schedule_entry_t option" where
  "tdma_schedule_get_next slot s =
     (let (smallest, smallest_larger) = next_loop slot (tdma_schedule s) [0 ..< unat (tdma_schedule_size s)] (None, None);
          k = (if smallest_larger = None then smallest else smallest_larger)
      in map_option (\<lambda>k. tdma_schedule s ! k) k)"

definition nrk_time_cmp :: "nrk_time_t \<Rightarrow> nrk_time_t \<Rightarrow> i8" where
  "nrk_time_cmp time1 time2 =
     (if secs time2 < secs time1 then 1
      else if secs time1 = secs time2 then if nano_secs time2 < nano_secs time1 then 1 else - 1
      else - 1)"

section \<open>Ageing\<close>

lemma seconds_between:
  assumes "normal now" "normal l" "time_ns l \<le> time_ns now"
  shows "fst (nrk_time_sub r now l) = NRK_OK" "unat (secs (snd (nrk_time_sub r now l))) = (time_ns now - time_ns l) div 1000000000"
proof -
  show ok: "fst (nrk_time_sub r now l) = NRK_OK" using time_sub_total [OF assms(1,2)] assms(3) by simp
  let ?e = "snd (nrk_time_sub r now l)"
  have e: "normal ?e" "time_ns ?e = time_ns now - time_ns l" using time_sub_total [OF assms(1,2), of r] assms(3) by simp_all
  have "time_ns ?e div 1000000000 = unat (secs ?e)"
    using normal_unat [OF e(1)] by (simp add: time_ns_def)
  then show "unat (secs ?e) = (time_ns now - time_ns l) div 1000000000" using e(2) by simp
qed

lemma age_0: "age_neighbor 0 = id"
proof
  fix e :: neighbor_list_t
  have "(0 :: u32) < ucast (ttl e)" if "ttl e \<noteq> 0"
  proof -
    have "unat (ucast (ttl e) :: u32) = unat (ttl e)" by (simp add: unat_ucast_up)
    moreover have "0 < unat (ttl e)" using that by (simp add: unat_gt_0)
    ultimately show ?thesis by (simp add: word_less_nat_alt)
  qed
  then show "age_neighbor 0 e = id e" by (simp add: age_neighbor_def)
qed

text \<open>Calls that follow each other in less than a second\<close>

fun frequent :: "nrk_time_t \<Rightarrow> nrk_time_t list \<Rightarrow> bool" where
  "frequent l [] \<longleftrightarrow> normal l"
| "frequent l (t # ts) \<longleftrightarrow> normal l \<and> time_ns l \<le> time_ns t \<and> time_ns t < time_ns l + 1000000000 \<and> frequent t ts"

lemma frequent_normal: "frequent l ts \<Longrightarrow> normal l"
  by (cases ts) simp_all

lemma no_ageing:
  "frequent (nb_last_time s) ts \<Longrightarrow> neighbor_table (fold neighbor_list_ttl_update ts s) = neighbor_table s"
proof (induction ts arbitrary: s)
  case (Cons t ts)
  let ?s = "neighbor_list_ttl_update t s"
  have n: "normal t" "normal (nb_last_time s)" "time_ns (nb_last_time s) \<le> time_ns t" "time_ns t - time_ns (nb_last_time s) < 1000000000"
    using Cons.prems frequent_normal by auto
  note b = seconds_between [OF n(1-3), of "nb_elapsed_time s"]
  have "secs (snd (nrk_time_sub (nb_elapsed_time s) t (nb_last_time s))) = 0"
    using b(2) n(4) by (simp add: word_unat_eq_iff)
  then have "neighbor_table ?s = neighbor_table s" "nb_last_time ?s = t"
    using b(1) by (simp_all add: neighbor_list_ttl_update_def split_beta Let_def age_0)
  then show ?case using Cons.IH [of ?s] Cons.prems by simp
qed simp

section \<open>Routes\<close>

datatype route_op =
    RouteSet nrk_time_t u16 u16 u16
  | RouteClr u16
  | RouteValue u16 u8 i8
  | RouteUpdate nrk_time_t

fun route_step :: "route_op \<Rightarrow> routes \<Rightarrow> routes" where
  "route_step (RouteSet now d nh t) s = snd (route_table_set now d nh t s)"
| "route_step (RouteClr d) s = snd (route_table_clr d s)"
| "route_step (RouteValue d k v) s = snd (route_table_value_set d k v s)"
| "route_step (RouteUpdate now) s = route_table_ttl_update now s"

definition no_dst :: "routes \<Rightarrow> bool" where
  "no_dst s \<longleftrightarrow> length (route_table s) = ROUTE_TABLE_SIZE \<and> (\<forall>e \<in> set (route_table s). dst e = 0)"

lemma no_dst_upd: "no_dst s \<Longrightarrow> (\<And>e. dst e = 0 \<Longrightarrow> dst (f e) = 0) \<Longrightarrow> i < ROUTE_TABLE_SIZE \<Longrightarrow> no_dst (upd_route i f s)"
  by (auto simp: no_dst_def upd_route_def dest: set_update_subset_insert [THEN subsetD])

lemma no_dst_update: "no_dst s \<Longrightarrow> no_dst (route_table_ttl_update now s)"
  by (auto simp: no_dst_def route_table_ttl_update_def age_route_def split_beta Let_def)

lemma no_dst_step: "no_dst s \<Longrightarrow> no_dst (route_step p s)"
proof (cases p)
  case (RouteSet now d nh t)
  assume "no_dst s"
  note u = no_dst_update [OF this, of now]
  show ?thesis unfolding RouteSet route_step.simps route_table_set_def Let_def
    by (auto split: option.split simp: u dest!: scan_bounds intro!: no_dst_upd [OF u])
next
  case (RouteClr d)
  assume "no_dst s"
  then show ?thesis using RouteClr
    by (auto simp: route_table_clr_def dest!: scan_bounds intro!: no_dst_upd split: option.split)
next
  case (RouteValue d k v)
  assume "no_dst s"
  then show ?thesis using RouteValue
    by (auto simp: route_table_value_set_def valid_route_def dest!: scan_bounds intro!: no_dst_upd split: option.split)
qed (simp add: no_dst_update)

lemma no_dst_run: "no_dst s \<Longrightarrow> no_dst (fold route_step ps s)"
  by (induction ps arbitrary: s) (simp_all add: no_dst_step)

lemma no_valid_route: "no_dst s \<Longrightarrow> d \<noteq> 0 \<Longrightarrow> valid_route d s = None"
  by (auto simp: valid_route_def scan_None_iff no_dst_def)

section \<open>The next slot of the schedule\<close>

text \<open>What the two indices are after the loop over \<open>js\<close>\<close>

definition least_in :: "tdma_schedule_entry_t list \<Rightarrow> nat set \<Rightarrow> nat option \<Rightarrow> bool" where
  "least_in es A k \<longleftrightarrow> (case k of None \<Rightarrow> A = {} | Some k \<Rightarrow> k \<in> A \<and> (\<forall>j \<in> A. sint (ts_slot (es ! k)) \<le> sint (ts_slot (es ! j))))"

lemma least_in_step: "least_in es A k \<Longrightarrow> least_in es (insert i A) (if better es i k then Some i else k)"
  by (cases k) (auto simp: least_in_def better_def not_less intro: less_imp_le order_trans)

lemma next_loop_value:
  assumes "least_in es A x" "least_in es {j \<in> A. sint slot < sint (ts_slot (es ! j))} y"
  shows "case next_loop slot es js (x, y) of (x', y') \<Rightarrow>
    least_in es (A \<union> set js) x' \<and> least_in es {j \<in> A \<union> set js. sint slot < sint (ts_slot (es ! j))} y'"
  using assms
proof (induction js arbitrary: A x y)
  case (Cons i js)
  let ?y = "if sint slot < sint (ts_slot (es ! i)) \<and> better es i y then Some i else y"
  have "least_in es {j \<in> insert i A. sint slot < sint (ts_slot (es ! j))} ?y"
  proof (cases "sint slot < sint (ts_slot (es ! i))")
    case True
    then have "{j \<in> insert i A. sint slot < sint (ts_slot (es ! j))} = insert i {j \<in> A. sint slot < sint (ts_slot (es ! j))}" by auto
    then show ?thesis using True least_in_step [OF Cons.prems(2), of i] by simp
  next
    case False
    then have "{j \<in> insert i A. sint slot < sint (ts_slot (es ! j))} = {j \<in> A. sint slot < sint (ts_slot (es ! j))}" by auto
    then show ?thesis using False Cons.prems(2) by simp
  qed
  from Cons.IH [OF least_in_step [OF Cons.prems(1)] this] show ?case by simp
qed simp

section \<open>Properties\<close>

text \<open>
  C34: Routes are never found. \<^verbatim>\<open>route_table_set\<close> does not store the destination: whatever
  routes are set, cleared and given values, every entry keeps destination 0, no destination
  other than 0 has a next hop, and its values can be neither set nor read.
\<close>

theorem route_table_never_finds:
  assumes "d \<noteq> 0"
  shows "let s = fold route_step ps (route_table_init now s) in
    route_table_get d s = 0xffff \<and> route_table_value_set d k v s = (NRK_ERROR, s) \<and> route_table_value_get d k s = NRK_ERROR \<and>
    (\<forall>i. 0 \<le> sint i \<longrightarrow> route_table_get_dst_by_index i s = Some 0)"
proof -
  let ?s = "fold route_step ps (route_table_init now s)"
  have "no_dst (route_table_init now s)" by (simp add: no_dst_def route_table_init_def)
  then have n: "no_dst ?s" by (rule no_dst_run)
  note v = no_valid_route [OF n assms]
  have "route_table_get_dst_by_index i ?s = Some 0" if "0 \<le> sint i" for i
    using n that by (cases "int ROUTE_TABLE_SIZE \<le> sint i") (auto simp: route_table_get_dst_by_index_def at_def no_dst_def)
  then show ?thesis using v
    by (simp add: Let_def route_table_get_def route_table_value_set_def route_table_value_get_def)
qed

definition ex_routes :: routes where
  "ex_routes = \<lparr>route_table = [], rt_last_time = \<lparr>secs = 0, nano_secs = 0\<rparr>, rt_elapsed_time = \<lparr>secs = 0, nano_secs = 0\<rparr>\<rparr>"

theorem route_table_never_finds_witness:
  "route_table_get 7 (route_step (RouteSet \<lparr>secs = 1, nano_secs = 0\<rparr> 7 9 60) (route_table_init \<lparr>secs = 0, nano_secs = 0\<rparr> ex_routes)) = 0xffff"
  using route_table_never_finds [of 7 "[RouteSet \<lparr>secs = 1, nano_secs = 0\<rparr> 7 9 60]" "\<lparr>secs = 0, nano_secs = 0\<rparr>" ex_routes]
  by (simp add: Let_def)

text \<open>
  C35: Neighbours that never age. Each update forgets what is left of a second. When the list
  is updated more often than once a second no time to live ever changes, however long this
  goes on, and no neighbour is dropped.
\<close>

theorem neighbors_never_age:
  assumes "frequent (nb_last_time s) ts"
  shows "neighbor_table (fold neighbor_list_ttl_update ts s) = neighbor_table s"
  by (rule no_ageing [OF assms])

theorem neighbors_never_age_witness:
  "neighbor_table (fold neighbor_list_ttl_update [\<lparr>secs = 0, nano_secs = 900000000\<rparr>, \<lparr>secs = 1, nano_secs = 800000000\<rparr>]
     \<lparr>neighbor_table = [\<lparr>mac = 3, ttl = 1, rssi = 0, flags = 1\<rparr>], nb_last_time = \<lparr>secs = 0, nano_secs = 0\<rparr>,
      nb_elapsed_time = \<lparr>secs = 0, nano_secs = 0\<rparr>\<rparr>) = [\<lparr>mac = 3, ttl = 1, rssi = 0, flags = 1\<rparr>]"
proof -
  have "frequent \<lparr>secs = 0, nano_secs = 0\<rparr> [\<lparr>secs = 0, nano_secs = 900000000\<rparr>, \<lparr>secs = 1, nano_secs = 800000000\<rparr>]"
    by (simp add: normal_def NANOS_PER_SEC_def time_ns_def)
  then show ?thesis
    using neighbors_never_age [of "\<lparr>neighbor_table = [\<lparr>mac = 3, ttl = 1, rssi = 0, flags = 1\<rparr>], nb_last_time = \<lparr>secs = 0, nano_secs = 0\<rparr>,
      nb_elapsed_time = \<lparr>secs = 0, nano_secs = 0\<rparr>\<rparr>" "[\<lparr>secs = 0, nano_secs = 900000000\<rparr>, \<lparr>secs = 1, nano_secs = 800000000\<rparr>]"]
    by (simp only: neighbors.simps)
qed

text \<open>
  C36: The next entry of the schedule. With \<open>n\<close> entries \<^verbatim>\<open>tdma_schedule_get_next\<close> returns an
  entry with the smallest slot after the given one, or with the smallest slot of all when
  there is none after it; with no entry it reads in front of the array.
\<close>

theorem tdma_next_cyclic:
  assumes "n = unat (tdma_schedule_size s)"
  shows "case tdma_schedule_get_next slot s of
      None \<Rightarrow> n = 0
    | Some e \<Rightarrow> \<exists>i < n. e = tdma_schedule s ! i \<and>
        (if \<exists>j < n. sint slot < sint (ts_slot (tdma_schedule s ! j))
         then sint slot < sint (ts_slot e) \<and>
           (\<forall>j < n. sint slot < sint (ts_slot (tdma_schedule s ! j)) \<longrightarrow> sint (ts_slot e) \<le> sint (ts_slot (tdma_schedule s ! j)))
         else \<forall>j < n. sint (ts_slot e) \<le> sint (ts_slot (tdma_schedule s ! j)))"
proof -
  let ?es = "tdma_schedule s"
  obtain x y where r: "next_loop slot ?es [0 ..< n] (None, None) = (x, y)" by fastforce
  have "least_in ?es {} None" "least_in ?es {j \<in> {}. sint slot < sint (ts_slot (?es ! j))} None" by (simp_all add: least_in_def)
  from next_loop_value [OF this, of "[0 ..< n]"] r
  have l: "least_in ?es {j. j < n} x" "least_in ?es {j. j < n \<and> sint slot < sint (ts_slot (?es ! j))} y"
    by (simp_all add: lessThan_def [symmetric] atLeast0LessThan)
  show ?thesis using l r assms
    by (cases x; cases y) (auto simp: tdma_schedule_get_next_def least_in_def)
qed

theorem tdma_next_cyclic_witness:
  "\<exists>e. tdma_schedule_get_next 5 \<lparr>tdma_schedule = [\<lparr>ts_slot = 9, ts_type = TDMA_RXDATA, ts_priority = 0\<rparr>,
      \<lparr>ts_slot = 2, ts_type = TDMA_TXDATA, ts_priority = 0\<rparr>], tdma_schedule_size = 2\<rparr> = Some e \<and> sint (ts_slot e) = 9"
proof -
  let ?s = "\<lparr>tdma_schedule = [\<lparr>ts_slot = 9, ts_type = TDMA_RXDATA, ts_priority = 0\<rparr>,
      \<lparr>ts_slot = 2, ts_type = TDMA_TXDATA, ts_priority = 0\<rparr>], tdma_schedule_size = 2\<rparr>"
  have n: "2 = unat (tdma_schedule_size ?s)" by simp
  have two: "(\<exists>j < 2. P j) \<longleftrightarrow> P 0 \<or> P 1" "(\<forall>j < 2. P j) \<longleftrightarrow> P 0 \<and> P 1" for P :: "nat \<Rightarrow> bool"
    by (auto simp: less_2_cases_iff)
  show ?thesis using tdma_next_cyclic [OF n, of 5] unfolding two by (auto split: option.splits)
qed

text \<open>Equal times compare as smaller.\<close>

lemma time_cmp_equal: "nrk_time_cmp t t = - 1"
  by (simp add: nrk_time_cmp_def)

end
