(* ===== verification/Spec2Isabelle.thy ===== *)
theory Spec2Isabelle
  imports Nrk_Boot Net_Delivery Net_Slip Nrk_Driver Flood_Net Rtl_Schedule Net_Lists
begin

text \<open>
  A verification library for the Nano-RK real-time kernel (\<^verbatim>\<open>src/src/kernel\<close>, the
  \<^verbatim>\<open>atmega128rfa1\<close> port on the FireFly 3 platform), its network stack
  (\<^verbatim>\<open>src/src/net/networkstack\<close>), the serial line below it (\<^verbatim>\<open>src/src/net/slip\<close>, the
  receive ring of \<^verbatim>\<open>ulib.c\<close>), flash flooding (\<^verbatim>\<open>src/src/net/flash\<close>) and the flooding TDMA
  network built on it (\<^verbatim>\<open>src/projects/demos/748_flooding_tdma\<close>).

  \<^bold>\<open>The program.\<close> Nano-RK runs a fixed set of periodic tasks by priority. The timer
  interrupt calls \<^verbatim>\<open>_nrk_scheduler\<close>, which accounts the elapsed ticks, suspends the task
  that gave up the processor, charges its CPU reserve, wakes the tasks that are due, takes the
  head of the ready queue and programs the next interrupt. Tasks call the kernel to wait for
  a time, an event or a semaphore; such a call marks the task and waits for the scheduler.
  The network stack keeps packets and segments in pools of buffers guarded by kernel
  semaphores, and turns its structures into bytes for the radio and the serial line; tasks
  use it through sockets and ports, and its own tasks forward packets by a routing table and
  keep a table of neighbours. Flash flooding uses the radio without the stack: a node that
  listens passes the first packet it hears on at once. In the flooding TDMA network every
  node has a slot in which it floods its sensor reading; two start-up phases tell each node
  in which slots it has to relay, and the root sends the time.

  \<^bold>\<open>Theories.\<close>
  \<^item> \<open>Nrk_Prelude\<close>: words, \<open>option\<close> as the monad of partial calls (\<open>ensures\<close>,
    \<open>yields\<close>), array reads (\<open>at\<close>), linear searches (\<open>scan\<close>), pointer chains
    (\<open>sll\<close>, \<open>dll\<close>), priority insertion (\<open>pinsert\<close>).
  \<^item> \<open>Nrk_PrioQueue\<close>: the contract of a priority queue as locales (add, delete, pop), with
    the theorems about runs of operations. It is interpreted three times: on the ready queue,
    on the transmit queue and on the port queues.
  \<^item> \<open>Nrk_Time\<close> (\<^verbatim>\<open>nrk_time.c\<close>), \<open>Nrk_Tcb\<close> (\<^verbatim>\<open>nrk_task.h\<close>), \<open>Nrk_ReadyQ\<close> (the
    ready queue of \<^verbatim>\<open>nrk_task.c\<close>), \<open>Nrk_Kernel\<close> (the kernel's globals as one record
    and the build options of \<^verbatim>\<open>nrk_cfg.h\<close> as another), \<open>Nrk_Error\<close> (\<^verbatim>\<open>nrk_error.c\<close>),
    \<open>Nrk_Stats\<close> (\<^verbatim>\<open>nrk_stats.c\<close>), \<open>Nrk_Cpu\<close> (\<^verbatim>\<open>nrk_cpu.c\<close>, \<^verbatim>\<open>nrk_stack_check.c\<close>),
    \<open>Nrk_Task\<close> (the waiting calls of \<^verbatim>\<open>nrk_task.c\<close>), \<open>Nrk_Events\<close> (\<^verbatim>\<open>nrk_events.c\<close>),
    \<open>Nrk_Reserve\<close> (\<^verbatim>\<open>nrk_reserve.c\<close>, \<^verbatim>\<open>nrk_sw_wdt.c\<close>), \<open>Nrk_Init\<close> (\<^verbatim>\<open>nrk.c\<close>),
    \<open>Nrk_Scheduler\<close> (\<^verbatim>\<open>nrk_scheduler.c\<close>), \<open>Nrk_Idle\<close> (\<^verbatim>\<open>nrk_idle_task.c\<close>): the definitions, each with the code's
    order of statements, and the lemmas about each file.
  \<^item> \<open>Nrk_Invariant\<close>: the invariant of the running kernel and its preservation by the
    scheduler. \<open>Nrk_System\<close>: the kernel as a transition system (\<open>kernel_step\<close>,
    \<open>reachable\<close>), with preservation by every call. \<open>Nrk_Boot\<close>: the invariant holds after
    \<^verbatim>\<open>nrk_init\<close>, the activations and \<^verbatim>\<open>nrk_start\<close>.
  \<^item> \<open>Net_Pack\<close> (\<^verbatim>\<open>Pack.c\<close>): the wire format, with the contract of a codec as a locale
    interpreted on every structure. \<open>Net_Tx\<close>, \<open>Net_Rx\<close>, \<open>Net_BufMgr\<close>
    (\<^verbatim>\<open>BufferManager.c\<close>): the transmit queue, the receive queues, and the parts that use
    the kernel.
  \<^item> \<open>Net_Layer\<close> (\<^verbatim>\<open>NetworkLayer.c\<close>: the state of the stack, neighbours, routes, messages),
    \<open>Net_Sock\<close> (\<^verbatim>\<open>TransportLayerUDP.c\<close>), \<open>Net_Dispatch\<close> (the tasks of \<^verbatim>\<open>NetworkLayer.c\<close>
    and \<^verbatim>\<open>Serial.c\<close> between their radio and serial calls), \<open>Net_Locks\<close> (the critical sections
    around them), \<open>Net_Table\<close> (the neighbour table as a map, routing), \<open>Net_SockMap\<close> and
    \<open>Net_SockRun\<close> (what sockets, ports and receive buffers keep of each other over runs of the
    transport layer), \<open>Net_Delivery\<close> (a datagram from socket to socket).
  \<^item> \<open>Net_Slip\<close> (\<^verbatim>\<open>slip.c\<close>), \<open>Drv_Uart\<close> (\<^verbatim>\<open>ulib.c\<close>, the receive ring), \<open>Nrk_Driver\<close>
    (\<^verbatim>\<open>nrk_driver.c\<close>).
  \<^item> \<open>Flash_Clock\<close>, \<open>Flash_Flood\<close> (\<^verbatim>\<open>flash.c\<close> and what it uses of \<^verbatim>\<open>basic_rf.c\<close>): the clock
    on timer 3, and one flood at one node. \<open>Flood_Node\<close>, \<open>Flood_Root\<close>
    (\<^verbatim>\<open>node/main.c\<close>, \<^verbatim>\<open>root/main.c\<close>): the callbacks, and one slot of each phase as a step;
    \<open>Flood_Net\<close>: packets that go along a path of nodes.
  \<^item> \<open>Rtl_Schedule\<close> (\<^verbatim>\<open>rtl_scheduler.c\<close> and the step from slot to slot of \<^verbatim>\<open>rt_link.c\<close>),
    \<open>Net_Lists\<close> (\<^verbatim>\<open>neighbor_list.c\<close>, \<^verbatim>\<open>route_table.c\<close>, \<^verbatim>\<open>tdma_asap_scheduler.c\<close>): the
    schedules and tables of other protocols that do not touch the radio.

  \<^bold>\<open>Conventions.\<close> An integer of \<open>w\<close> bits is a \<open>w word\<close>, read with \<open>sint\<close> where C
  has a signed type. \<open>None\<close> is undefined behaviour (a \<^verbatim>\<open>NULL\<close> dereference, an index
  outside an array, a shift too far, a division by zero) or a call that never returns (an
  endless loop, a halt, a reboot); error codes are values. A pointer into an array is its
  index. Addresses and function pointers are 16-bit values, what a function pointer calls is
  a parameter. Readings of hardware timers are parameters, one for each read; in the flash
  theories the counter of timer 3 is state, and the counts that pass and the frames that
  arrive in each round of a busy wait are parameters. A call that
  gives up the processor returns \<open>Blocked\<close>; what it does when the task runs again is a
  definition of its own (\<open>\<dots>_resume\<close>). Loops that may not end are
  \<open>partial_function (option)\<close>; no fuel is used.

  \<^bold>\<open>What is shown.\<close> The ready queue implements priority insertion and deletion on the
  list of queued tasks, except for two writes through \<^verbatim>\<open>NULL\<close> that the always queued idle
  task avoids. From power-on the kernel never reaches a state in which the scheduler fails:
  it returns, runs a task of the highest priority, and programs the next interrupt in
  range, for builds that neither halt nor reboot on errors and have no software watchdogs,
  tables of at most 127 tasks and unique task numbers. Signals, semaphores, reserves,
  statistics, errors and times are specified on every branch, among them the cases where the
  code goes wrong. The transmit queue delivers by priority and first come first served
  within one; the port queues do so as long as a buffer is free, and lose a segment in one
  case when none is. Packing and unpacking are inverse between nodes of any byte order.
  The neighbour table behaves as a map whose entries age and die, a routing table that is
  sent takes effect, sockets, ports and receive buffers stay consistent, at most eight calls
  of \<^verbatim>\<open>bind\<close> ever succeed, and a datagram reaches the socket it is for, unchanged. SLIP
  framing is undone by its receiver, the receive ring is a queue of 15 bytes, the driver
  table calls the driver that was opened. The clock of flash flooding loses no count and
  runs backwards by at most 61 microseconds; a flood is relayed once, a broken frame is
  taken for the one before it, and a time-out is kept. In the flooding TDMA network each
  node learns its role in every slot, the time is passed on with 673 microseconds for each
  hop, and a sensor reading reaches the root unchanged. An RT-Link coordinator wakes in
  exactly the slots it is scheduled for; the route table never finds a route, and a neighbour
  list that is updated often never ages.

  \<^bold>\<open>Not modelled.\<close> The register-level part of the context switch and of the drivers,
  interrupt timing below the level of whole calls (an interrupt falls between two calls), the
  EEPROM error log, the endless loops of the stack's tasks around the radio and the serial
  line and of the flooding TDMA programs around their slots, the MAC layer below the stack
  (\<^verbatim>\<open>bmac\<close>, a parameter), the printing of tables, the other protocol stacks,
  processor ports, gateways and applications. \<^verbatim>\<open>nrk_signal_delete\<close> is specified but is no step of the transition
  system, because it can mark a queued task as suspended.
\<close>

end
